(* ===== verification/Prelude.thy ===== *)
theory Prelude
  imports Main "HOL-Library.Word" "HOL-Library.List_Lexorder" "HOL-Library.Char_ord"
begin

unbundle bit_operations_syntax

text \<open>
  Shared vocabulary of the development: bytes and byte arrays (QByteArray), the byte-array
  operations of Qt that the daemons use, the integer encodings of QDataStream as functions on
  byte lists, and the collections of facts that carry the component proofs.
  A byte is an \<^typ>\<open>8 word\<close>; a QByteArray is the list of its bytes.
\<close>

type_synonym byte = "8 word"
type_synonym bytes = "byte list"

named_theorems codec_rt \<comment> \<open>reading back what was written\<close>
named_theorems chunk_laws \<comment> \<open>prefix laws of the packet cutters\<close>

section \<open>Generic lemmas\<close>

lemma take_drop_append_le: "n \<le> length b \<Longrightarrow> take n (b @ x) = take n b \<and> drop n (b @ x) = drop n b @ x"
  by simp

lemma fold_append_list: "fold (\<lambda>x acc. acc @ [x]) xs acc = acc @ xs"
  by (induction xs arbitrary: acc) simp_all

lemma concat_map_singleton_append: "concat (map f (xs @ [x])) = concat (map f xs) @ f x"
  by simp

lemma nth_append_left [simp]: "i < length b \<Longrightarrow> (b @ x) ! i = b ! i"
  by (simp add: nth_append)

lemma unat_byte: "unat (b :: byte) < 256"
proof -
  have "unat b < 2 ^ LENGTH(8)" by (rule unsigned_less)
  then show ?thesis by simp
qed

section \<open>QByteArray\<close>

text \<open>\<open>left\<close>, \<open>right\<close> and \<open>mid\<close> with arguments in range are \<open>take\<close> and \<open>drop\<close>;
  past the end they return what there is, as Qt documents.\<close>

definition ba_left :: "nat \<Rightarrow> bytes \<Rightarrow> bytes" where
  "ba_left n b = take n b"

definition ba_right :: "nat \<Rightarrow> bytes \<Rightarrow> bytes" where
  "ba_right n b = drop (length b - n) b"

definition ba_mid :: "nat \<Rightarrow> nat \<Rightarrow> bytes \<Rightarrow> bytes" where
  "ba_mid pos n b = take n (drop pos b)"

text \<open>\<open>QByteArray::indexOf(char, from)\<close>: the first position at or after \<open>from\<close>,
  \<open>None\<close> for the code's -1.\<close>

fun index_of :: "'a \<Rightarrow> 'a list \<Rightarrow> nat option" where
  "index_of c [] = None"
| "index_of c (x # xs) = (if x = c then Some 0 else map_option Suc (index_of c xs))"

definition index_from :: "'a \<Rightarrow> nat \<Rightarrow> 'a list \<Rightarrow> nat option" where
  "index_from c pos b = map_option (\<lambda>i. pos + i) (index_of c (drop pos b))"

text \<open>The characters \<open>trimmed()\<close> strips: tab, LF, VT, FF, CR and space.\<close>

definition is_space :: "byte \<Rightarrow> bool" where
  "is_space b \<longleftrightarrow> b \<in> {9, 10, 11, 12, 13, 32}"

definition trimmed :: "bytes \<Rightarrow> bytes" where
  "trimmed b = rev (dropWhile is_space (rev (dropWhile is_space b)))"

text \<open>\<open>toLower()\<close> on ASCII bytes.\<close>

definition lower_byte :: "byte \<Rightarrow> byte" where
  "lower_byte b = (if 65 \<le> b \<and> b \<le> 90 then b + 32 else b)"

definition to_lower :: "bytes \<Rightarrow> bytes" where
  "to_lower b = map lower_byte b"

text \<open>A string literal of the source as the bytes of its characters.\<close>

definition byte_of_char :: "char \<Rightarrow> byte" where
  "byte_of_char c = word_of_nat (of_char c)"

definition lit :: "string \<Rightarrow> bytes" where
  "lit s = map byte_of_char s"

text \<open>\<open>QString::number\<close>\<close>

fun digits10 :: "nat \<Rightarrow> string" where
  "digits10 n = (if n < 10 then [char_of (48 + n)] else digits10 (n div 10) @ [char_of (48 + n mod 10)])"

text \<open>\<open>QString::split(':')\<close>: the pieces between separators, always at least one.\<close>

fun split_on :: "'a \<Rightarrow> 'a list \<Rightarrow> 'a list list" where
  "split_on c [] = [[]]"
| "split_on c (x # xs) =
     (if x = c then [] # split_on c xs
      else case split_on c xs of [] \<Rightarrow> [[x]] | p # ps \<Rightarrow> (x # p) # ps)"

text \<open>\<open>QByteArray::fromHex\<close>: characters that are no hexadecimal digits are skipped, digits
  are paired from the end.\<close>

definition hex_digit :: "byte \<Rightarrow> byte option" where
  "hex_digit b = (if 48 \<le> b \<and> b \<le> 57 then Some (b - 48)
     else if 97 \<le> b \<and> b \<le> 102 then Some (b - 87)
     else if 65 \<le> b \<and> b \<le> 70 then Some (b - 55) else None)"

fun pair_digits :: "byte list \<Rightarrow> bytes" where
  "pair_digits [] = []"
| "pair_digits [lo] = [lo]"
| "pair_digits (lo # hi # ds) = pair_digits ds @ [push_bit 4 hi OR lo]"

definition from_hex :: "bytes \<Rightarrow> bytes" where
  "from_hex b = pair_digits (rev (List.map_filter hex_digit b))"

section \<open>Faults\<close>

text \<open>
  What ends the process, or is undefined, in the source: reading past a byte array or list,
  calling through a null pointer or to a deleted object, and \<open>abort()\<close>. Operations that can do so return
  \<open>Inl\<close> of the fault.
\<close>

datatype fault = OutOfRange | NullDeref | Aborted | Dangling

type_synonym 'a outcome = "fault + 'a"

definition bind_out :: "'a outcome \<Rightarrow> ('a \<Rightarrow> 'b outcome) \<Rightarrow> 'b outcome" where
  "bind_out m f = (case m of Inl e \<Rightarrow> Inl e | Inr x \<Rightarrow> f x)"

lemma bind_out_simps [simp]: "bind_out (Inl e) f = Inl e" "bind_out (Inr x) f = f x"
  by (simp_all add: bind_out_def)

lemma bind_out_assoc: "bind_out (bind_out m f) g = bind_out m (\<lambda>x. bind_out (f x) g)"
  by (cases m) simp_all

lemma bind_out_right [simp]: "bind_out m Inr = m"
  by (cases m) simp_all

lemma bind_out_Inr_iff: "bind_out m f = Inr y \<longleftrightarrow> (\<exists>x. m = Inr x \<and> f x = Inr y)"
  by (cases m) simp_all

text \<open>A loop over a list whose body can fault.\<close>

fun fold_out :: "('a \<Rightarrow> 's \<Rightarrow> 's outcome) \<Rightarrow> 'a list \<Rightarrow> 's \<Rightarrow> 's outcome" where
  "fold_out f [] s = Inr s"
| "fold_out f (x # xs) s = bind_out (f x s) (fold_out f xs)"

lemma fold_out_Nil [simp]: "fold_out f [] = Inr"
  by (rule ext) simp

lemma fold_out_append: "fold_out f (xs @ ys) s = bind_out (fold_out f xs s) (fold_out f ys)"
proof (induction xs arbitrary: s)
  case (Cons x xs)
  then show ?case by (cases "f x s") simp_all
qed simp

definition map_out :: "('a \<Rightarrow> 'b) \<Rightarrow> 'a outcome \<Rightarrow> 'b outcome" where
  "map_out f r = bind_out r (\<lambda>x. Inr (f x))"

lemma map_out_simps [simp]: "map_out f (Inr x) = Inr (f x)" "map_out f (Inl e) = Inl e"
  by (simp_all add: map_out_def)

lemma bind_map_out: "bind_out (map_out f m) g = bind_out m (\<lambda>x. g (f x))"
  by (cases m) simp_all

lemma map_bind_out: "map_out f (bind_out m g) = bind_out m (\<lambda>x. map_out f (g x))"
  by (cases m) simp_all

lemma map_map_out: "map_out f (map_out g m) = map_out (\<lambda>x. f (g x)) m"
  by (cases m) simp_all

text \<open>\<open>b[i]\<close> and \<open>b.at(i)\<close> of a QByteArray: Qt requires an index below the size.\<close>

definition byte_at :: "bytes \<Rightarrow> nat \<Rightarrow> byte outcome" where
  "byte_at b i = (if i < length b then Inr (b ! i) else Inl OutOfRange)"

lemma byte_at_in [simp]: "i < length b \<Longrightarrow> byte_at b i = Inr (b ! i)"
  by (simp add: byte_at_def)

lemma byte_at_out [simp]: "length b \<le> i \<Longrightarrow> byte_at b i = Inl OutOfRange"
  by (simp add: byte_at_def)

lemma ba_left_append [simp]: "n \<le> length b \<Longrightarrow> ba_left n (b @ x) = ba_left n b"
  by (simp add: ba_left_def)

lemma ba_mid_append [simp]: "pos + n \<le> length b \<Longrightarrow> ba_mid pos n (b @ x) = ba_mid pos n b"
  by (simp add: ba_mid_def)

lemma length_ba_mid: "length (ba_mid pos n b) = min n (length b - pos)"
  by (simp add: ba_mid_def min.commute)

lemma lit_simps [simp]: "lit [] = []" "lit (c # s) = byte_of_char c # lit s"
  by (simp_all add: lit_def)

lemma lit_append [simp]: "lit (s @ t) = lit s @ lit t"
  by (simp add: lit_def)

lemma length_lit [simp]: "length (lit s) = length s"
  by (simp add: lit_def)

lemma index_of_Some: "index_of c b = Some i \<Longrightarrow> i < length b \<and> b ! i = c \<and> c \<notin> set (take i b)"
  by (induction b arbitrary: i) (auto split: if_splits)

lemma index_of_None: "index_of c b = None \<longleftrightarrow> c \<notin> set b"
  by (induction b) auto

lemma index_of_append:
  "index_of c (a @ b) = (case index_of c a of Some i \<Rightarrow> Some i
     | None \<Rightarrow> map_option (\<lambda>i. length a + i) (index_of c b))"
proof (induction a)
  case Nil
  show ?case by (cases "index_of c b") simp_all
next
  case (Cons x a)
  then show ?case by (cases "index_of c a"; cases "index_of c b") simp_all
qed

lemma index_of_append_Some [chunk_laws]:
  "index_of c b = Some i \<Longrightarrow> index_of c (b @ x) = Some i"
  by (simp add: index_of_append)

lemma index_of_notin_append [simp]:
  "c \<notin> set a \<Longrightarrow> index_of c (a @ c # b) = Some (length a)"
  by (induction a) auto

lemma dropWhile_last_keep: "xs \<noteq> [] \<Longrightarrow> \<not> P (last xs) \<Longrightarrow> dropWhile P (rev xs) = rev xs"
  by (cases xs rule: rev_cases) auto

lemma trimmed_id:
  assumes "b \<noteq> []" "\<not> is_space (hd b)" "\<not> is_space (last b)"
  shows "trimmed b = b"
proof -
  from assms have "dropWhile is_space b = b" by (cases b) simp_all
  with assms show ?thesis by (simp add: trimmed_def dropWhile_last_keep)
qed

lemma trimmed_hd: "trimmed b \<noteq> [] \<Longrightarrow> \<not> is_space (hd (trimmed b)) \<and> \<not> is_space (last (trimmed b))"
proof -
  define d where "d = dropWhile is_space b"
  define e where "e = dropWhile is_space (rev d)"
  assume "trimmed b \<noteq> []"
  then have e: "e \<noteq> []" by (simp add: trimmed_def d_def e_def)
  then have le: "\<not> is_space (hd e)" by (simp add: e_def hd_dropWhile)
  obtain p where p: "rev d = p @ e" by (metis e_def takeWhile_dropWhile_id)
  then have d: "d = rev e @ rev p" by (metis rev_append rev_rev_ident)
  with e have "d \<noteq> []" by simp
  then have "\<not> is_space (hd d)" by (simp add: d_def hd_dropWhile)
  with d e have "\<not> is_space (hd (rev e))" by simp
  with le e show ?thesis by (simp add: trimmed_def flip: d_def e_def) (simp add: last_rev)
qed

lemma set_trimmed: "set (trimmed b) \<subseteq> set b"
  by (auto simp: trimmed_def dest!: set_dropWhileD)

end
