(* ===== verification/Qt_Map.thy ===== *)
theory Qt_Map
  imports Prelude
begin

text \<open>
  QMap: an ordered dictionary. The model is the list of its entries in key order, the order
  \<open>constBegin\<close> to \<open>constEnd\<close> visits them, with Qt's operations on it. The
  contract the daemons rely on is the locale \<open>qmap_contract\<close>; the list implementation
  is its interpretation, with \<^const>\<open>map_of\<close> as the abstraction.
\<close>

type_synonym ('k, 'v) qmap = "('k \<times> 'v) list"

fun qm_insert :: "'k::linorder \<Rightarrow> 'v \<Rightarrow> ('k, 'v) qmap \<Rightarrow> ('k, 'v) qmap" where
  "qm_insert k v [] = [(k, v)]"
| "qm_insert k v ((a, b) # m) =
     (if k < a then (k, v) # (a, b) # m
      else if k = a then (k, v) # m else (a, b) # qm_insert k v m)"

fun qm_remove :: "'k \<Rightarrow> ('k, 'v) qmap \<Rightarrow> ('k, 'v) qmap" where
  "qm_remove k [] = []"
| "qm_remove k ((a, b) # m) = (if k = a then m else (a, b) # qm_remove k m)"

definition qm_contains :: "('k, 'v) qmap \<Rightarrow> 'k \<Rightarrow> bool" where
  "qm_contains m k \<longleftrightarrow> map_of m k \<noteq> None"

definition qm_keys :: "('k, 'v) qmap \<Rightarrow> 'k list" where
  "qm_keys m = map fst m"

definition qm_wf :: "('k::linorder, 'v) qmap \<Rightarrow> bool" where
  "qm_wf m \<longleftrightarrow> sorted_wrt (<) (qm_keys m)"

text \<open>The interface: what a lookup returns after an insertion or a removal.\<close>

locale qmap_contract =
  fixes ins :: "'k \<Rightarrow> 'v \<Rightarrow> 'm \<Rightarrow> 'm"
    and del :: "'k \<Rightarrow> 'm \<Rightarrow> 'm"
    and look :: "'m \<Rightarrow> 'k \<Rightarrow> 'v option"
    and wf :: "'m \<Rightarrow> bool"
  assumes look_ins: "wf m \<Longrightarrow> look (ins k v m) = (look m)(k := Some v)"
    and look_del: "wf m \<Longrightarrow> look (del k m) = (look m)(k := None)"
    and wf_ins: "wf m \<Longrightarrow> wf (ins k v m)"
    and wf_del: "wf m \<Longrightarrow> wf (del k m)"
begin

lemma del_ins_fresh: "wf m \<Longrightarrow> look m k = None \<Longrightarrow> look (del k (ins k v m)) = look m"
  by (auto simp: look_ins look_del wf_ins)

lemma dom_ins: "wf m \<Longrightarrow> dom (look (ins k v m)) = insert k (dom (look m))"
  by (simp add: look_ins)

lemma dom_del: "wf m \<Longrightarrow> dom (look (del k m)) = dom (look m) - {k}"
  by (simp add: look_del)

lemma fold_del: "wf m \<Longrightarrow> wf (fold del ks m) \<and> dom (look (fold del ks m)) = dom (look m) - set ks
    \<and> (\<forall>k. k \<notin> set ks \<longrightarrow> look (fold del ks m) k = look m k)"
proof (induction ks arbitrary: m)
  case (Cons k ks)
  from Cons.prems have "wf (del k m)" by (rule wf_del)
  from Cons.IH [OF this] Cons.prems show ?case by (auto simp: look_del split: if_splits)
qed simp

end

section \<open>The list implementation satisfies the contract\<close>

lemma qm_keys_simps [simp]: "qm_keys [] = []" "qm_keys ((k, v) # m) = k # qm_keys m"
  by (simp_all add: qm_keys_def)

lemma qm_keys_insert: "set (qm_keys (qm_insert k v m)) = insert k (set (qm_keys m))"
  by (induction k v m rule: qm_insert.induct) auto

lemma qm_keys_remove: "set (qm_keys (qm_remove k m)) \<subseteq> set (qm_keys m)"
  by (induction k m rule: qm_remove.induct) auto

lemma qm_wf_Nil [simp]: "qm_wf []"
  by (simp add: qm_wf_def qm_keys_def)

lemma qm_wf_Cons: "qm_wf ((a, b) # m) \<longleftrightarrow> (\<forall>k \<in> set (qm_keys m). a < k) \<and> qm_wf m"
  by (auto simp: qm_wf_def qm_keys_def)

lemma map_of_insert: "qm_wf m \<Longrightarrow> map_of (qm_insert k v m) = (map_of m)(k := Some v)"
  by (induction k v m rule: qm_insert.induct) (auto simp: qm_wf_Cons fun_eq_iff)

lemma map_of_notin_keys: "k \<notin> set (qm_keys m) \<Longrightarrow> map_of m k = None"
  by (auto simp: qm_keys_def map_of_eq_None_iff)

lemma map_of_remove: "qm_wf m \<Longrightarrow> map_of (qm_remove k m) = (map_of m)(k := None)"
  by (induction k m rule: qm_remove.induct) (auto simp: qm_wf_Cons fun_eq_iff map_of_notin_keys)

lemma qm_wf_insert: "qm_wf m \<Longrightarrow> qm_wf (qm_insert k v m)"
  by (induction k v m rule: qm_insert.induct) (auto simp: qm_wf_Cons qm_keys_insert)

lemma qm_wf_remove: "qm_wf m \<Longrightarrow> qm_wf (qm_remove k m)"
  using qm_keys_remove by (induction k m rule: qm_remove.induct) (force simp: qm_wf_Cons)+

interpretation qmap: qmap_contract qm_insert qm_remove map_of qm_wf
  by unfold_locales (simp_all add: map_of_insert map_of_remove qm_wf_insert qm_wf_remove)

lemmas qmap_simps = map_of_insert map_of_remove qm_wf_insert qm_wf_remove

lemma qm_contains_dom: "qm_contains m k \<longleftrightarrow> k \<in> dom (map_of m)"
  by (auto simp: qm_contains_def)

lemma set_qm_keys: "set (qm_keys m) = dom (map_of m)"
  by (auto simp: qm_keys_def dom_map_of_conv_image_fst)

lemma distinct_qm_keys: "qm_wf m \<Longrightarrow> distinct (qm_keys m)"
  by (auto simp: qm_wf_def strict_sorted_iff)

lemma qm_remove_absent: "map_of m k = None \<Longrightarrow> qm_remove k m = m"
  by (induction m) (auto split: if_splits)

text \<open>Replacing every value in place (\<open>for (i = begin(); ...) i.value() = ...\<close>) keeps
  the keys.\<close>

definition qm_map :: "('k \<Rightarrow> 'v \<Rightarrow> 'w) \<Rightarrow> ('k, 'v) qmap \<Rightarrow> ('k, 'w) qmap" where
  "qm_map f m = map (\<lambda>(k, v). (k, f k v)) m"

lemma qm_keys_map [simp]: "qm_keys (qm_map f m) = qm_keys m"
  by (induction m) (auto simp: qm_keys_def qm_map_def)

lemma qm_wf_map [simp]: "qm_wf (qm_map f m) = qm_wf m"
  by (simp add: qm_wf_def)

lemma map_of_qm_map: "map_of (qm_map f m) k = map_option (f k) (map_of m k)"
  by (induction m) (auto simp: qm_map_def)

text \<open>Changing the object that an entry points to.\<close>

definition qm_update :: "'k \<Rightarrow> ('v \<Rightarrow> 'v) \<Rightarrow> ('k, 'v) qmap \<Rightarrow> ('k, 'v) qmap" where
  "qm_update k f m = qm_map (\<lambda>k' v. if k' = k then f v else v) m"

lemma qm_keys_update [simp]: "qm_keys (qm_update k f m) = qm_keys m"
  by (simp add: qm_update_def)

lemma qm_wf_update [simp]: "qm_wf (qm_update k f m) = qm_wf m"
  by (simp add: qm_update_def)

lemma map_of_update: "map_of (qm_update k f m) k' = (if k' = k then map_option f (map_of m k') else map_of m k')"
  by (simp add: qm_update_def map_of_qm_map option.map_ident)

lemma qm_update_update: "qm_update k f (qm_update k g m) = qm_update k (\<lambda>v. f (g v)) m"
  by (induction m) (auto simp: qm_update_def qm_map_def)

lemma qm_update_Nil [simp]: "qm_update k f [] = []"
  by (simp add: qm_update_def qm_map_def)

lemma qm_update_Cons: "qm_update k f ((a, b) # m) = (a, if a = k then f b else b) # qm_update k f m"
  by (simp add: qm_update_def qm_map_def)

lemma qm_update_absent: "map_of m k = None \<Longrightarrow> qm_update k f m = m"
  by (induction m) (auto simp: qm_update_Cons split: if_splits)

lemma qm_wf_map_of_set: "qm_wf m \<Longrightarrow> (k, v) \<in> set m \<longleftrightarrow> map_of m k = Some v"
  using distinct_qm_keys [of m] by (simp add: qm_keys_def)

end
