(* ===== verification/Qt_Stream.thy ===== *)
theory Qt_Stream
  imports Prelude "HOL-Library.State_Monad"
begin

text \<open>
  QDataStream on a byte array. Writing an integer appends its bytes, most significant first
  in the default (big endian) byte order and least significant first after
  \<open>setByteOrder(LittleEndian)\<close>. Reading takes them back from the front; a read past
  the end leaves 0 in its target and consumes what is left (status \<open>ReadPastEnd\<close>, which
  the program never asks for). A reader is a state transformer on the unread bytes, in the
  library's state monad.
\<close>

type_synonym 'a reader = "(bytes, 'a) state"

lemma run_bind: "run_state (State_Monad.bind m f) s = (case run_state m s of (x, s') \<Rightarrow> run_state (f x) s')"
  by (simp add: State_Monad.bind_def)

section \<open>Integers as byte lists\<close>

fun le_bytes :: "nat \<Rightarrow> nat \<Rightarrow> bytes" where
  "le_bytes 0 v = []"
| "le_bytes (Suc n) v = word_of_nat v # le_bytes n (v div 256)"

fun le_nat :: "bytes \<Rightarrow> nat" where
  "le_nat [] = 0"
| "le_nat (b # bs) = unat b + 256 * le_nat bs"

definition be_bytes :: "nat \<Rightarrow> nat \<Rightarrow> bytes" where
  "be_bytes n v = rev (le_bytes n v)"

definition be_nat :: "bytes \<Rightarrow> nat" where
  "be_nat bs = le_nat (rev bs)"

lemma length_le_bytes [simp]: "length (le_bytes n v) = n"
  by (induction n arbitrary: v) simp_all

lemma length_be_bytes [simp]: "length (be_bytes n v) = n"
  by (simp add: be_bytes_def)

lemma le_bytes_numeral [simp]:
  "le_bytes (numeral k) v = word_of_nat v # le_bytes (pred_numeral k) (v div 256)"
  by (subst numeral_eq_Suc) (rule le_bytes.simps(2))

lemma le_nat_bound: "le_nat bs < 256 ^ length bs"
proof (induction bs)
  case (Cons b bs)
  have "unat b < 256" by (rule unat_byte)
  with Cons show ?case by simp
qed simp

lemma le_nat_le_bytes: "le_nat (le_bytes n v) = v mod 256 ^ n"
proof (induction n arbitrary: v)
  case (Suc n)
  have "unat (word_of_nat v :: byte) = v mod 256" by (simp add: unat_of_nat)
  with Suc show ?case by (simp add: mod_mult2_eq)
qed simp

lemma le_bytes_le_nat [simp]: "le_bytes (length bs) (le_nat bs) = bs"
proof (induction bs)
  case (Cons b bs)
  have "unat b < 256" by (rule unat_byte)
  then have "(unat b + 256 * le_nat bs) div 256 = le_nat bs" by simp
  moreover have "word_of_nat (unat b + 256 * le_nat bs) = b"
  proof -
    have "(256 :: byte) = 0" by simp
    then have "(256 :: byte) * x = 0" for x by (simp only: mult_zero_left)
    then show ?thesis by simp
  qed
  ultimately show ?case using Cons by simp
qed simp

lemma be_nat_be_bytes: "be_nat (be_bytes n v) = v mod 256 ^ n"
  by (simp add: be_nat_def be_bytes_def le_nat_le_bytes)

lemma be_nat_bound: "be_nat bs < 256 ^ length bs"
  using le_nat_bound [of "rev bs"] by (simp add: be_nat_def)

lemma be_bytes_be_nat [simp]: "be_bytes (length bs) (be_nat bs) = bs"
proof -
  have "le_bytes (length (rev bs)) (le_nat (rev bs)) = rev bs" by (rule le_bytes_le_nat)
  then show ?thesis by (simp add: be_bytes_def be_nat_def)
qed

lemma be_nat_pair: "be_nat [a, b] = unat a * 256 + unat b"
  by (simp add: be_nat_def)

section \<open>Raw reads\<close>

text \<open>\<open>readRawData\<close> and \<open>skipRawData\<close> give what is there.\<close>

definition rd_raw :: "nat \<Rightarrow> bytes reader" where
  "rd_raw n = State (\<lambda>s. (take n s, drop n s))"

definition rd_skip :: "nat \<Rightarrow> unit reader" where
  "rd_skip n = State (\<lambda>s. ((), drop n s))"

definition at_end :: "bool reader" where
  "at_end = State (\<lambda>s. (s = [], s))"

definition rd_nat :: "(bytes \<Rightarrow> nat) \<Rightarrow> nat \<Rightarrow> nat reader" where
  "rd_nat dec n = State (\<lambda>s. if length s < n then (0, []) else (dec (take n s), drop n s))"

lemma run_rd_raw [simp]: "run_state (rd_raw n) s = (take n s, drop n s)"
  by (simp add: rd_raw_def)

lemma run_rd_skip [simp]: "run_state (rd_skip n) s = ((), drop n s)"
  by (simp add: rd_skip_def)

lemma run_at_end [simp]: "run_state at_end s = (s = [], s)"
  by (simp add: at_end_def)

lemma run_rd_nat: "run_state (rd_nat dec n) s = (if length s < n then (0, []) else (dec (take n s), drop n s))"
  by (simp add: rd_nat_def)

lemma rd_nat_rest: "run_state (rd_nat dec n) s = (v, r) \<Longrightarrow> length r \<le> length s"
  by (auto simp: run_rd_nat split: if_splits)

section \<open>Typed integers\<close>

text \<open>\<open>stream << quintN\<close> and \<open>stream >> quintN\<close> for an N-bit word, N a multiple
  of 8: the width is the word's own.\<close>

definition put_le :: "'a::len word \<Rightarrow> bytes" where
  "put_le w = le_bytes (LENGTH('a) div 8) (unat w)"

definition put_be :: "'a::len word \<Rightarrow> bytes" where
  "put_be w = be_bytes (LENGTH('a) div 8) (unat w)"

definition get_le :: "'a::len word reader" where
  "get_le = State_Monad.bind (rd_nat le_nat (LENGTH('a) div 8)) (\<lambda>n. State_Monad.return (word_of_nat n))"

definition get_be :: "'a::len word reader" where
  "get_be = State_Monad.bind (rd_nat be_nat (LENGTH('a) div 8)) (\<lambda>n. State_Monad.return (word_of_nat n))"

lemma length_put_le [simp]: "length (put_le (w :: 'a::len word)) = LENGTH('a) div 8"
  by (simp add: put_le_def)

lemma length_put_be [simp]: "length (put_be (w :: 'a::len word)) = LENGTH('a) div 8"
  by (simp add: put_be_def)

lemma run_get_le: "run_state (get_le :: 'a::len word reader) s =
    (if length s < LENGTH('a) div 8 then (0, [])
     else (word_of_nat (le_nat (take (LENGTH('a) div 8) s)), drop (LENGTH('a) div 8) s))"
  by (simp add: get_le_def run_rd_nat)

lemma run_get_be: "run_state (get_be :: 'a::len word reader) s =
    (if length s < LENGTH('a) div 8 then (0, [])
     else (word_of_nat (be_nat (take (LENGTH('a) div 8) s)), drop (LENGTH('a) div 8) s))"
  by (simp add: get_be_def run_rd_nat)

lemma pow256: "8 dvd n \<Longrightarrow> (256 :: nat) ^ (n div 8) = 2 ^ n"
proof -
  assume "8 dvd n"
  then obtain k where n: "n = 8 * k" by blast
  have "(256 :: nat) = 2 ^ 8" by simp
  then have "(256 :: nat) ^ k = 2 ^ (8 * k)" by (simp only: power_mult)
  then show ?thesis using n by (simp only: nonzero_mult_div_cancel_left)
qed

lemma unat_ucast_small:
  "unat (w :: 'b::len word) < 2 ^ LENGTH('a) \<Longrightarrow> unat (ucast w :: 'a::len word) = unat w"
  by (simp add: unsigned_ucast_eq take_bit_nat_eq_self)

section \<open>Codecs\<close>

text \<open>
  The contract of a serializer and its deserializer: what \<open>get\<close> reads at the front of a
  stream that \<open>put\<close> wrote is the value written, and the rest of the stream is left. The
  readers of the composite formats are proved correct from it.
\<close>

locale codec =
  fixes put :: "'a \<Rightarrow> bytes" and get :: "'a reader" and ok :: "'a \<Rightarrow> bool"
  assumes get_put: "ok x \<Longrightarrow> run_state get (put x @ r) = (x, r)"
begin

lemma get_put_nil: "ok x \<Longrightarrow> run_state get (put x) = (x, [])"
  using get_put [of x "[]"] by simp

text \<open>No two good values share an encoding, and no encoding is a proper prefix of another.\<close>

lemma put_inj: "ok x \<Longrightarrow> ok y \<Longrightarrow> put x @ r = put y @ s \<Longrightarrow> x = y \<and> r = s"
  by (metis get_put prod.inject)

end

lemma get_put_le [codec_rt]:
  assumes "8 dvd LENGTH('a::len)"
  shows "run_state get_le (put_le (w :: 'a word) @ r) = (w, r)"
proof -
  have "(256 :: nat) ^ (LENGTH('a) div 8) = 2 ^ LENGTH('a)" using assms by (rule pow256)
  moreover have "unat w < 2 ^ LENGTH('a)" by (rule unsigned_less)
  ultimately show ?thesis by (simp add: run_get_le put_le_def le_nat_le_bytes)
qed

lemma get_put_be [codec_rt]:
  assumes "8 dvd LENGTH('a::len)"
  shows "run_state get_be (put_be (w :: 'a word) @ r) = (w, r)"
proof -
  have "(256 :: nat) ^ (LENGTH('a) div 8) = 2 ^ LENGTH('a)" using assms by (rule pow256)
  moreover have "unat w < 2 ^ LENGTH('a)" by (rule unsigned_less)
  ultimately show ?thesis by (simp add: run_get_be put_be_def be_nat_be_bytes)
qed

interpretation u8: codec "put_le :: 8 word \<Rightarrow> bytes" get_le "\<lambda>_. True"
  by unfold_locales (simp add: get_put_le)

interpretation u16le: codec "put_le :: 16 word \<Rightarrow> bytes" get_le "\<lambda>_. True"
  by unfold_locales (simp add: get_put_le)

interpretation u32le: codec "put_le :: 32 word \<Rightarrow> bytes" get_le "\<lambda>_. True"
  by unfold_locales (simp add: get_put_le)

interpretation u64le: codec "put_le :: 64 word \<Rightarrow> bytes" get_le "\<lambda>_. True"
  by unfold_locales (simp add: get_put_le)

interpretation u8be: codec "put_be :: 8 word \<Rightarrow> bytes" get_be "\<lambda>_. True"
  by unfold_locales (simp add: get_put_be)

interpretation u16be: codec "put_be :: 16 word \<Rightarrow> bytes" get_be "\<lambda>_. True"
  by unfold_locales (simp add: get_put_be)

interpretation u32be: codec "put_be :: 32 word \<Rightarrow> bytes" get_be "\<lambda>_. True"
  by unfold_locales (simp add: get_put_be)

interpretation u64be: codec "put_be :: 64 word \<Rightarrow> bytes" get_be "\<lambda>_. True"
  by unfold_locales (simp add: get_put_be)

lemmas int_codecs = u8.get_put u16le.get_put u32le.get_put u64le.get_put
  u8be.get_put u16be.get_put u32be.get_put u64be.get_put

section \<open>Counted repetition\<close>

text \<open>\<open>for (i = 0; i < n; i++) list.append(T(stream))\<close>.\<close>

fun rd_list :: "nat \<Rightarrow> 'a reader \<Rightarrow> 'a list reader" where
  "rd_list 0 g = State_Monad.return []"
| "rd_list (Suc n) g = State_Monad.bind g (\<lambda>x. State_Monad.bind (rd_list n g) (\<lambda>xs. State_Monad.return (x # xs)))"

context codec
begin

lemma get_list: "list_all ok xs \<Longrightarrow>
    run_state (rd_list (length xs) get) (concat (map put xs) @ r) = (xs, r)"
  by (induction xs) (simp_all add: get_put)

end

lemma rd_list_length: "length (fst (run_state (rd_list n g) s)) = n"
  by (induction n arbitrary: s) (simp_all split: prod.splits, metis fst_conv)

end
