(* ===== verification/Framing.thy ===== *)
theory Framing
  imports Prelude
begin

text \<open>
  The receive loops of the daemons share one shape: append the new bytes to a buffer, then
  cut packets off its front until there is no complete one. What a loop decides about the
  front of its buffer is a \<open>cut\<close>: nothing complete yet, one packet and the remaining
  bytes, or a violation that ends the connection. \<open>cut_all\<close> is the loop over a cutter;
  the locale \<open>framer\<close> states the prefix laws a cutter obeys, and proves once that
  the packets found do not depend on how the network split the bytes.
\<close>

datatype 'f cut = More | Packet 'f bytes | Fatal

text \<open>The loop: packets in order, the remaining bytes, and whether it stopped on a violation
  (the code clears its buffer there). A cutter that does not shorten its buffer stops the loop
  after that packet; the law \<open>shrinks\<close> below excludes it.\<close>

function cut_all :: "(bytes \<Rightarrow> 'f cut) \<Rightarrow> bytes \<Rightarrow> 'f list \<times> bytes \<times> bool" where
  "cut_all c b = (case c b of
       More \<Rightarrow> ([], b, False)
     | Fatal \<Rightarrow> ([], [], True)
     | Packet f r \<Rightarrow>
         if length r < length b
         then (case cut_all c r of (fs, r', x) \<Rightarrow> (f # fs, r', x))
         else ([f], r, False))"
  by pat_completeness auto
termination
  by (relation "measure (\<lambda>(c, b). length b)") auto

declare cut_all.simps [simp del]

text \<open>Feeding chunks one at a time; after a violation the socket is closed and later bytes are
  not seen.\<close>

fun feed :: "(bytes \<Rightarrow> 'f cut) \<Rightarrow> bytes \<Rightarrow> bytes list \<Rightarrow> 'f list \<times> bytes \<times> bool" where
  "feed c b [] = ([], b, False)"
| "feed c b (x # xs) =
     (case cut_all c (b @ x) of (fs, r, stopped) \<Rightarrow>
        if stopped then (fs, r, True)
        else (case feed c r xs of (gs, r', s) \<Rightarrow> (fs @ gs, r', s)))"

locale framer =
  fixes cutter :: "bytes \<Rightarrow> 'f cut"
  assumes shrinks: "cutter b = Packet f r \<Longrightarrow> length r < length b"
    and packet_stable: "cutter b = Packet f r \<Longrightarrow> cutter (b @ x) = Packet f (r @ x)"
    and fatal_stable: "cutter b = Fatal \<Longrightarrow> cutter (b @ x) = Fatal"
begin

lemma cut_all_More: "cutter b = More \<Longrightarrow> cut_all cutter b = ([], b, False)"
  by (simp add: cut_all.simps [of cutter b])

lemma cut_all_Fatal: "cutter b = Fatal \<Longrightarrow> cut_all cutter b = ([], [], True)"
  by (simp add: cut_all.simps [of cutter b])

lemma cut_all_Packet:
  "cutter b = Packet f r \<Longrightarrow>
   cut_all cutter b = (case cut_all cutter r of (fs, r', x) \<Rightarrow> (f # fs, r', x))"
  by (simp add: cut_all.simps [of cutter b] shrinks)

text \<open>Bytes that arrive later continue where the loop stopped.\<close>

lemma cut_all_append:
  "cut_all cutter (b @ x) =
     (case cut_all cutter b of (fs, r, stopped) \<Rightarrow>
        if stopped then (fs, r, True)
        else (case cut_all cutter (r @ x) of (gs, r', s) \<Rightarrow> (fs @ gs, r', s)))"
proof (induction b rule: length_induct)
  case (1 b)
  show ?case
  proof (cases "cutter b")
    case More
    then show ?thesis by (simp add: cut_all_More split: prod.splits)
  next
    case Fatal
    then show ?thesis by (simp add: cut_all_Fatal fatal_stable)
  next
    case (Packet f r)
    with 1 have IH: "cut_all cutter (r @ x) =
     (case cut_all cutter r of (fs, r, stopped) \<Rightarrow>
        if stopped then (fs, r, True)
        else (case cut_all cutter (r @ x) of (gs, r', s) \<Rightarrow> (fs @ gs, r', s)))"
      using shrinks by blast
    show ?thesis
      using Packet packet_stable [OF Packet, of x]
      by (simp add: cut_all_Packet [of "b @ x"] cut_all_Packet [of b] IH split: prod.splits)
  qed
qed

text \<open>The remaining bytes hold no complete packet.\<close>

lemma cut_all_rest: "cut_all cutter b = (fs, r, False) \<Longrightarrow> cutter r = More"
proof (induction b arbitrary: fs rule: length_induct)
  case (1 b)
  show ?case
  proof (cases "cutter b")
    case (Packet f s)
    with 1 shrinks [OF Packet] show ?thesis
      by (auto simp: cut_all_Packet split: prod.splits)
  qed (use 1 in \<open>simp_all add: cut_all_More cut_all_Fatal\<close>)
qed

lemma cut_all_stopped_rest: "cut_all cutter b = (fs, r, True) \<Longrightarrow> r = []"
proof (induction b arbitrary: fs rule: length_induct)
  case (1 b)
  show ?case
  proof (cases "cutter b")
    case (Packet f s)
    with 1 shrinks [OF Packet] show ?thesis
      by (auto simp: cut_all_Packet split: prod.splits)
  qed (use 1 in \<open>simp_all add: cut_all_More cut_all_Fatal\<close>)
qed

lemma cut_all_length: "cut_all cutter b = (fs, r, x) \<Longrightarrow> length r \<le> length b"
proof (induction b arbitrary: fs rule: length_induct)
  case (1 b)
  show ?case
  proof (cases "cutter b")
    case (Packet f s)
    with 1 shrinks [OF Packet] show ?thesis
      by (fastforce simp: cut_all_Packet split: prod.splits)
  qed (use 1 in \<open>simp_all add: cut_all_More cut_all_Fatal\<close>)
qed

text \<open>The main fact: feeding the chunks gives what feeding their concatenation gives.\<close>

lemma feed_concat:
  assumes "cutter b = More"
  shows "feed cutter b xs = cut_all cutter (b @ concat xs)"
  using assms
proof (induction xs arbitrary: b)
  case Nil
  then show ?case by (simp add: cut_all_More)
next
  case (Cons x xs)
  obtain fs r s where c: "cut_all cutter (b @ x) = (fs, r, s)"
    by (metis prod_cases3)
  show ?case
  proof (cases s)
    case True
    with c show ?thesis using cut_all_append [of "b @ x" "concat xs"] by simp
  next
    case False
    with c have "cutter r = More" using cut_all_rest by simp
    then have "feed cutter r xs = cut_all cutter (r @ concat xs)" by (rule Cons.IH)
    with c False show ?thesis
      using cut_all_append [of "b @ x" "concat xs"] by simp
  qed
qed

end

end
