(* ===== verification/Client_Tcp.thy ===== *)
theory Client_Tcp
  imports Prelude
begin

text \<open>
  core/ClientTcp: a connected client with an output buffer. The state is the buffer of bytes the
  socket has not taken yet, whether the socket is open, whether \<open>deleteLater()\<close> was called,
  and, for the specification, the bytes the socket took. What \<open>sock->write\<close> returns is
  chosen by the environment and an argument of each operation; on a closed socket it is -1, as
  QIODevice documents. The operations are defined on every extension of the record, as the
  subclasses inherit them.
\<close>

record client_tcp =
  write_buf :: bytes
  sock_open :: bool
  deleting :: bool
  accepted :: bytes

definition new_client :: client_tcp where
  "new_client = \<lparr>write_buf = [], sock_open = True, deleting = False, accepted = []\<rparr>"

text \<open>The value of \<open>sock->write\<close> when the environment would return \<open>s\<close>, and the
  socket's side of a write that took \<open>s\<close> bytes.\<close>

definition sock_result :: "'z client_tcp_scheme \<Rightarrow> int \<Rightarrow> int" where
  "sock_result c s = (if sock_open c then s else - 1)"

definition sock_take :: "int \<Rightarrow> bytes \<Rightarrow> 'z client_tcp_scheme \<Rightarrow> 'z client_tcp_scheme" where
  "sock_take s dat c = c\<lparr>accepted := accepted c @ take (nat s) dat\<rparr>"

definition drop_link :: "'z client_tcp_scheme \<Rightarrow> 'z client_tcp_scheme" where
  "drop_link c = c\<lparr>sock_open := False, deleting := True\<rparr>"

section \<open>Operations\<close>

definition tcp_write :: "int \<Rightarrow> bytes \<Rightarrow> 'z client_tcp_scheme \<Rightarrow> 'z client_tcp_scheme" where
  "tcp_write s0 dat c =
     (if write_buf c = [] then
        let s = sock_result c s0 in
        if s < 0 then drop_link c
        else if s = int (length dat) then sock_take s dat c
        else (sock_take s dat c)\<lparr>write_buf := write_buf c @ drop (nat s) dat\<rparr>
      else
        let c = c\<lparr>write_buf := write_buf c @ dat\<rparr> in
        if length (write_buf c) > 1024 * 1024
        then drop_link (c\<lparr>write_buf := []\<rparr>)
        else c)"

definition tcp_flush :: "int \<Rightarrow> 'z client_tcp_scheme \<Rightarrow> 'z client_tcp_scheme" where
  "tcp_flush s0 c =
     (if write_buf c = [] then c
      else let s = sock_result c s0 in
        if s < 0 then drop_link c
        else (sock_take s (write_buf c) c)\<lparr>write_buf := drop (nat s) (write_buf c)\<rparr>)"

definition tcp_bytesWritten :: "int \<Rightarrow> 'z client_tcp_scheme \<Rightarrow> 'z client_tcp_scheme" where
  "tcp_bytesWritten s c = tcp_flush s c"

definition tcp_socketDisconnected :: "'z client_tcp_scheme \<Rightarrow> 'z client_tcp_scheme" where
  "tcp_socketDisconnected c = c\<lparr>deleting := True\<rparr>"

text \<open>\<open>doRead\<close>: \<open>avail\<close> is \<open>bytesAvailable()\<close>, \<open>dat\<close> what
  \<open>sock->read\<close> returned and \<open>got\<close> the bytes it stored. The second component is the
  argument of the \<open>handleBuffer\<close> call, if there is one.\<close>

definition tcp_doRead :: "nat \<Rightarrow> int \<Rightarrow> bytes \<Rightarrow> 'z client_tcp_scheme \<Rightarrow> 'z client_tcp_scheme \<times> bytes option" where
  "tcp_doRead avail dat got c =
     (let to_read = (if avail > 10 * 1024 * 1024 then 10 * 1024 * 1024 else avail);
          buf = got @ drop (length got) (replicate to_read 0) in
      if dat = 0 then (c, None)
      else if dat = - 1 then (drop_link c, None)
      else if dat < int to_read then (c, Some (take (nat dat) buf))
      else (c, Some buf))"

section \<open>Runs\<close>

datatype tcp_op = Write int bytes | BytesWritten int | Disconnected

fun tcp_step :: "tcp_op \<Rightarrow> 'z client_tcp_scheme \<Rightarrow> 'z client_tcp_scheme" where
  "tcp_step (Write s dat) c = tcp_write s dat c"
| "tcp_step (BytesWritten s) c = tcp_bytesWritten s c"
| "tcp_step Disconnected c = tcp_socketDisconnected c"

text \<open>The bytes the program asked to send.\<close>

fun requested :: "tcp_op \<Rightarrow> bytes" where
  "requested (Write s dat) = dat"
| "requested _ = []"

lemmas tcp_defs = tcp_write_def tcp_flush_def tcp_bytesWritten_def tcp_socketDisconnected_def
  sock_result_def sock_take_def drop_link_def

text \<open>While the socket is open, what it took followed by the buffer is what was requested; in
  any case it took a prefix of it.\<close>

definition stream_inv :: "bytes \<Rightarrow> 'z client_tcp_scheme \<Rightarrow> bool" where
  "stream_inv req c \<longleftrightarrow> (sock_open c \<longrightarrow> accepted c @ write_buf c = req)
     \<and> (\<exists>rest. req = accepted c @ rest)"

lemma stream_inv_open: "sock_open c \<Longrightarrow> stream_inv req c \<longleftrightarrow> req = accepted c @ write_buf c"
  by (auto simp: stream_inv_def)

lemma stream_inv_closed: "\<not> sock_open c \<Longrightarrow> stream_inv req c \<longleftrightarrow> (\<exists>rest. req = accepted c @ rest)"
  by (auto simp: stream_inv_def)

lemma take_is_prefix: "\<exists>rest. b = take n b @ rest" for b :: bytes
  by (metis append_take_drop_id)

lemma stream_inv_write: "stream_inv req c \<Longrightarrow> stream_inv (req @ dat) (tcp_write s dat c)"
  by (cases "sock_open c") (auto simp: tcp_defs stream_inv_def Let_def take_is_prefix)

lemma stream_inv_flush: "stream_inv req c \<Longrightarrow> stream_inv req (tcp_flush s c)"
proof (cases "sock_open c")
  case True
  moreover assume "stream_inv req c"
  moreover have "take (nat s) w @ drop (nat s) w = w" for w :: bytes by simp
  ultimately show ?thesis by (auto simp: tcp_defs stream_inv_def Let_def take_is_prefix)
qed (auto simp: tcp_defs stream_inv_def Let_def)

lemma stream_inv_step: "stream_inv req c \<Longrightarrow> stream_inv (req @ requested op) (tcp_step op c)"
  by (cases op) (simp_all add: stream_inv_write stream_inv_flush tcp_bytesWritten_def,
      simp add: stream_inv_def tcp_socketDisconnected_def)

lemma stream_inv_run: "stream_inv req c \<Longrightarrow> stream_inv (req @ concat (map requested ops)) (fold tcp_step ops c)"
proof (induction ops arbitrary: req c)
  case (Cons op ops)
  from Cons.IH [OF stream_inv_step [OF Cons.prems]] show ?case by simp
qed simp

lemma stream_inv_new: "stream_inv [] new_client"
  by (simp add: stream_inv_def new_client_def)

text \<open>The buffer's size.\<close>

lemma write_buf_write: "length (write_buf c) \<le> M \<Longrightarrow> 1024 * 1024 \<le> M \<Longrightarrow> length dat \<le> M \<Longrightarrow>
    length (write_buf (tcp_write s dat c)) \<le> M"
  by (auto simp: tcp_defs Let_def)

lemma write_buf_flush: "length (write_buf c) \<le> M \<Longrightarrow> length (write_buf (tcp_flush s c)) \<le> M"
  by (auto simp: tcp_defs Let_def)

lemma write_buf_step: "length (write_buf c) \<le> M \<Longrightarrow> 1024 * 1024 \<le> M \<Longrightarrow> length (requested op) \<le> M \<Longrightarrow>
    length (write_buf (tcp_step op c)) \<le> M"
  by (cases op) (simp_all add: write_buf_write write_buf_flush tcp_bytesWritten_def,
      simp add: tcp_socketDisconnected_def)

lemma write_buf_run: "length (write_buf c) \<le> M \<Longrightarrow> 1024 * 1024 \<le> M \<Longrightarrow>
    list_all (\<lambda>op. length (requested op) \<le> M) ops \<Longrightarrow>
    length (write_buf (fold tcp_step ops c)) \<le> M"
  by (induction ops arbitrary: c) (simp_all add: write_buf_step)

end
