(* ===== verification/Client_Tcp_Line.thy ===== *)
theory Client_Tcp_Line
  imports Framing Client_Tcp
begin

text \<open>
  mod/ext/tcpline, ClientTcpLine: cuts the input into lines. It extends ClientTcp by the read
  buffer; \<open>handled\<close> records the arguments of the calls of the virtual
  \<open>handleLine\<close>, in order.
\<close>

record line_client = client_tcp +
  read_buffer :: bytes
  handled :: "bytes list"

definition new_line_client :: line_client where
  "new_line_client = \<lparr>write_buf = [], sock_open = True, deleting = False, accepted = [],
     read_buffer = [], handled = []\<rparr>"

text \<open>The \<open>while(1)\<close> of \<open>handleBuffer\<close>: the lines passed to \<open>handleLine\<close>, the
  buffer left, and whether the socket was closed because a line was too long.\<close>

function line_loop :: "bytes \<Rightarrow> bytes list \<times> bytes \<times> bool" where
  "line_loop buf =
     (case index_of 10 buf of
        None \<Rightarrow> if length buf > 4096 then ([], [], True) else ([], buf, False)
      | Some p \<Rightarrow>
          if p > 4096 then ([], [], True)
          else
            let line = ba_left p buf; buf' = drop (p + 1) buf in
            (case line_loop buf' of (ls, r, x) \<Rightarrow> (trimmed line # ls, r, x)))"
  by pat_completeness auto
termination
  by (relation "measure length") (auto dest: index_of_Some)

declare line_loop.simps [simp del]

definition line_handleBuffer :: "bytes \<Rightarrow> line_client \<Rightarrow> line_client" where
  "line_handleBuffer buf c =
     (case line_loop (read_buffer c @ buf) of (ls, r, closed) \<Rightarrow>
        c\<lparr>read_buffer := r, sock_open := sock_open c \<and> \<not> closed, handled := handled c @ ls\<rparr>)"

text \<open>\<open>readyRead\<close> fires on an open socket only.\<close>

definition line_receive :: "bytes \<Rightarrow> line_client \<Rightarrow> line_client" where
  "line_receive buf c = (if sock_open c then line_handleBuffer buf c else c)"

section \<open>The loop as a cutter\<close>

definition line_cut :: "bytes \<Rightarrow> bytes cut" where
  "line_cut b = (case index_of 10 b of
       None \<Rightarrow> if length b > 4096 then Fatal else More
     | Some p \<Rightarrow> if p > 4096 then Fatal else Packet (trimmed (ba_left p b)) (drop (p + 1) b))"

lemma line_cut_stable:
  "line_cut b = Packet f r \<Longrightarrow> line_cut (b @ x) = Packet f (r @ x)"
  by (auto simp: line_cut_def index_of_append split: option.splits if_splits dest: index_of_Some)

lemma line_cut_fatal: "line_cut b = Fatal \<Longrightarrow> line_cut (b @ x) = Fatal"
  by (auto simp: line_cut_def index_of_append split: option.splits if_splits)

interpretation line: framer line_cut
proof unfold_locales
  show "line_cut b = Packet f r \<Longrightarrow> length r < length b" for b f r
    by (auto simp: line_cut_def split: option.splits if_splits dest: index_of_Some)
qed (simp_all add: line_cut_stable line_cut_fatal)

lemma line_loop_cut_all: "line_loop b = cut_all line_cut b"
proof (induction b rule: line_loop.induct)
  case (1 b)
  show ?case
  proof (cases "line_cut b")
    case More
    then have "line_loop b = ([], b, False)"
      by (subst line_loop.simps) (auto simp: line_cut_def split: option.splits if_splits)
    with More show ?thesis by (simp add: line.cut_all_More)
  next
    case Fatal
    then have "line_loop b = ([], [], True)"
      by (subst line_loop.simps) (auto simp: line_cut_def split: option.splits if_splits)
    with Fatal show ?thesis by (simp add: line.cut_all_Fatal)
  next
    case (Packet f r)
    then obtain p where p: "index_of 10 b = Some p" "\<not> p > 4096"
        "f = trimmed (ba_left p b)" "r = drop (p + 1) b"
      by (auto simp: line_cut_def split: option.splits if_splits)
    with 1 have "line_loop r = cut_all line_cut r" by simp
    moreover have "line_loop b = (case line_loop r of (ls, r', x) \<Rightarrow> (f # ls, r', x))"
      using p by (subst line_loop.simps) simp
    ultimately show ?thesis by (simp add: line.cut_all_Packet [OF Packet])
  qed
qed

text \<open>A client between two events: its buffer holds no complete line.\<close>

definition line_idle :: "line_client \<Rightarrow> bool" where
  "line_idle c \<longleftrightarrow> sock_open c \<longrightarrow> line_cut (read_buffer c) = More"

lemma line_idle_new: "line_idle new_line_client"
  by (simp add: line_idle_def new_line_client_def line_cut_def)

lemma line_idle_receive: "line_idle c \<Longrightarrow> line_idle (line_receive buf c)"
  by (auto simp: line_idle_def line_receive_def line_handleBuffer_def line_loop_cut_all
      split: prod.splits dest: line.cut_all_rest)

lemma line_feed:
  assumes "sock_open c"
  shows "fold line_receive xs c = (case feed line_cut (read_buffer c) xs of (ls, r, x) \<Rightarrow>
      c\<lparr>read_buffer := r, sock_open := \<not> x, handled := handled c @ ls\<rparr>)"
  using assms
proof (induction xs arbitrary: c)
  case (Cons x xs)
  obtain ls r s where l: "cut_all line_cut (read_buffer c @ x) = (ls, r, s)" by (metis prod_cases3)
  define d where "d = line_receive x c"
  have d: "d = c\<lparr>read_buffer := r, sock_open := \<not> s, handled := handled c @ ls\<rparr>"
    using l Cons.prems by (simp add: d_def line_receive_def line_handleBuffer_def line_loop_cut_all)
  show ?case
  proof (cases s)
    case True
    then have "fold line_receive xs d = d" using d
      by (induction xs) (simp_all add: line_receive_def)
    with True l d show ?thesis by (simp flip: d_def)
  next
    case False
    with Cons.IH [of d] d l show ?thesis by (simp flip: d_def split: prod.splits)
  qed
qed simp

text \<open>Each handled line is short, has no line feed, and has no surrounding white space.\<close>

definition line_ok :: "bytes \<Rightarrow> bool" where
  "line_ok l \<longleftrightarrow> length l \<le> 4096 \<and> 10 \<notin> set l \<and> (l \<noteq> [] \<longrightarrow> \<not> is_space (hd l) \<and> \<not> is_space (last l))"

lemma length_trimmed: "length (trimmed b) \<le> length b"
proof -
  have "length (dropWhile P xs) \<le> length xs" for P and xs :: bytes by (rule length_dropWhile_le)
  then have "length (dropWhile is_space (rev (dropWhile is_space b))) \<le> length (dropWhile is_space b)"
    by (metis length_rev)
  also have "\<dots> \<le> length b" by (rule length_dropWhile_le)
  finally show ?thesis by (simp add: trimmed_def)
qed

lemma line_cut_ok: "line_cut b = Packet l r \<Longrightarrow> line_ok l"
proof -
  assume "line_cut b = Packet l r"
  then obtain p where p: "index_of 10 b = Some p" "p \<le> 4096" "l = trimmed (take p b)"
    by (auto simp: line_cut_def ba_left_def split: option.splits if_splits)
  then have "length (take p b) \<le> 4096" by simp
  then have "length l \<le> 4096" using p length_trimmed [of "take p b"] by simp
  moreover have "10 \<notin> set l" using p set_trimmed [of "take p b"] by (auto dest: index_of_Some)
  ultimately show ?thesis using p trimmed_hd [of "take p b"] by (auto simp: line_ok_def)
qed

lemma cut_all_line_ok: "cut_all line_cut b = (ls, r, x) \<Longrightarrow> list_all line_ok ls"
proof (induction b arbitrary: ls rule: length_induct)
  case (1 b)
  show ?case
  proof (cases "line_cut b")
    case (Packet f s)
    with 1 line.shrinks [OF Packet] show ?thesis
      by (auto simp: line.cut_all_Packet line_cut_ok [OF Packet] split: prod.splits)
  qed (use 1 in \<open>simp_all add: line.cut_all_More line.cut_all_Fatal\<close>)
qed

lemma line_ok_receive: "list_all line_ok (handled c) \<Longrightarrow> list_all line_ok (handled (line_receive buf c))"
  by (auto simp: line_receive_def line_handleBuffer_def line_loop_cut_all split: prod.splits
      dest: cut_all_line_ok)

text \<open>What the sender meant: lines separated by line feeds.\<close>

lemma line_cut_line:
  "10 \<notin> set l \<Longrightarrow> length l \<le> 4096 \<Longrightarrow> line_cut (l @ 10 # r) = Packet (trimmed l) r"
  by (simp add: line_cut_def ba_left_def)

lemma line_cut_rest: "10 \<notin> set l \<Longrightarrow> length l \<le> 4096 \<Longrightarrow> line_cut l = More"
proof -
  assume "10 \<notin> set l" and *: "length l \<le> 4096"
  then have "index_of 10 l = None" by (simp add: index_of_None)
  with * show ?thesis by (simp add: line_cut_def)
qed

lemma cut_all_lines:
  assumes "list_all (\<lambda>l. 10 \<notin> set l \<and> length l \<le> 4096) ls" "10 \<notin> set r" "length r \<le> 4096"
  shows "cut_all line_cut (concat (map (\<lambda>l. l @ [10]) ls) @ r) = (map trimmed ls, r, False)"
  using assms(1)
proof (induction ls)
  case Nil
  then show ?case using line_cut_rest [OF assms(2,3)] by (simp add: line.cut_all_More)
next
  case (Cons l ls)
  then have "line_cut (l @ 10 # concat (map (\<lambda>l. l @ [10]) ls) @ r)
      = Packet (trimmed l) (concat (map (\<lambda>l. l @ [10]) ls) @ r)"
    by (simp add: line_cut_line)
  with Cons show ?case by (simp add: line.cut_all_Packet)
qed

end
