(* ===== verification/Core_Endpoints.thy ===== *)
theory Core_Endpoints
  imports Prelude
begin

text \<open>
  core/CoreTcp, core/CoreUdp, core/CoreUdg: a listening socket and the daemon it is routed to.
  Objects are numbered; \<open>None\<close> is the null pointer. \<open>wired\<close> and \<open>watched\<close>
  are the live signal connections from the endpoint to its receiver and from the receiver's
  \<open>destroyed\<close> to the endpoint, one list element per connection, since Qt calls a slot once
  per connection. A receiver of datagrams is taken to have the slot (ps and netflow do).
\<close>

record endpoint =
  receiver :: "nat option"
  entry :: string
  wired :: "nat list"
  watched :: "nat list"

definition new_endpoint :: endpoint where
  "new_endpoint = \<lparr>receiver = None, entry = [], wired = [], watched = []\<rparr>"

text \<open>\<open>connect\<close> and \<open>disconnect\<close> of both signals of a receiver.\<close>

definition ep_connect :: "nat \<Rightarrow> endpoint \<Rightarrow> endpoint" where
  "ep_connect r e = e\<lparr>wired := wired e @ [r], watched := watched e @ [r]\<rparr>"

definition ep_disconnect :: "nat \<Rightarrow> endpoint \<Rightarrow> endpoint" where
  "ep_disconnect r e = e\<lparr>wired := filter (\<lambda>x. x \<noteq> r) (wired e), watched := filter (\<lambda>x. x \<noteq> r) (watched e)\<rparr>"

section \<open>CoreTcp\<close>

definition tcp_setTarget :: "nat option \<Rightarrow> string \<Rightarrow> endpoint \<Rightarrow> endpoint" where
  "tcp_setTarget target en e =
     (if receiver e = target then e\<lparr>entry := en\<rparr>
      else
        let e = (case receiver e of None \<Rightarrow> e | Some r \<Rightarrow> (ep_disconnect r e)\<lparr>receiver := None\<rparr>);
            e = e\<lparr>receiver := target, entry := en\<rparr>
        in case target of None \<Rightarrow> e | Some t \<Rightarrow> ep_connect t e)"

definition tcp_targetDestroyed :: "nat \<Rightarrow> endpoint \<Rightarrow> endpoint" where
  "tcp_targetDestroyed ob e =
     (if Some ob \<noteq> receiver e then e else tcp_setTarget None ''main'' e)"

text \<open>A new connection: closed and dropped without a receiver, else signalled with the entry
  name: the calls of \<open>incomingTcp\<close> it makes. The socket moves to the receiver.\<close>

datatype conn_result = ConnClosed | ConnPassed nat "(nat \<times> string) list"

definition tcp_incomingConnection :: "endpoint \<Rightarrow> conn_result" where
  "tcp_incomingConnection e =
     (case receiver e of None \<Rightarrow> ConnClosed
      | Some r \<Rightarrow> ConnPassed r (map (\<lambda>t. (t, entry e)) (wired e)))"

section \<open>CoreUdp\<close>

definition udp_setTarget :: "nat option \<Rightarrow> string \<Rightarrow> endpoint \<Rightarrow> endpoint" where
  "udp_setTarget target en e =
     (if receiver e = target then e\<lparr>entry := en\<rparr>
      else
        let e = (case receiver e of None \<Rightarrow> e | Some r \<Rightarrow> (ep_disconnect r e)\<lparr>receiver := None\<rparr>);
            e = e\<lparr>receiver := target, entry := en\<rparr>
        in case target of None \<Rightarrow> e | Some t \<Rightarrow> ep_connect t e)"

definition udp_targetDestroyed :: "nat \<Rightarrow> endpoint \<Rightarrow> endpoint" where
  "udp_targetDestroyed ob e =
     (if Some ob \<noteq> receiver e then e else udp_setTarget None ''main'' e)"

text \<open>\<open>receiveDatagram\<close>: every pending datagram is signalled in order, with no reply
  object. A datagram is its announced size and the bytes the read returned.\<close>

fun udp_receiveDatagram :: "(nat \<times> bytes) list \<Rightarrow> endpoint \<Rightarrow> (nat \<times> bytes) list" where
  "udp_receiveDatagram [] e = []"
| "udp_receiveDatagram ((n, got) # pend) e =
     (let data = got @ drop (length got) (replicate n 0);
          data = (if length got \<noteq> length data then take (length got) data else data)
      in map (\<lambda>t. (t, data)) (wired e) @ udp_receiveDatagram pend e)"

section \<open>CoreUdg\<close>

definition udg_setTarget :: "nat option \<Rightarrow> string \<Rightarrow> endpoint \<Rightarrow> endpoint" where
  "udg_setTarget target en e =
     (if receiver e = target then e\<lparr>entry := en\<rparr>
      else
        let e = (case receiver e of None \<Rightarrow> e | Some r \<Rightarrow> (ep_disconnect r e)\<lparr>receiver := None\<rparr>);
            e = e\<lparr>receiver := target, entry := en\<rparr>
        in case target of None \<Rightarrow> e | Some t \<Rightarrow> ep_connect t e)"

definition udg_targetDestroyed :: "nat \<Rightarrow> endpoint \<Rightarrow> endpoint" where
  "udg_targetDestroyed ob e =
     (if Some ob \<noteq> receiver e then e else udg_setTarget None ''main'' e)"

definition udg_message :: "bytes \<Rightarrow> endpoint \<Rightarrow> (nat \<times> bytes) list" where
  "udg_message msg e = map (\<lambda>t. (t, msg)) (wired e)"

text \<open>QUnixDatagramServer::activated: which datagrams reach \<open>message\<close>. \<open>res\<close> is what
  \<open>recv\<close> returned and \<open>buf\<close> the memory it filled.\<close>

definition udg_activated :: "int \<Rightarrow> int \<Rightarrow> int \<Rightarrow> bytes \<Rightarrow> bytes option" where
  "udg_activated sock s res buf =
     (if s \<noteq> sock then None
      else if res = - 1 then None
      else if res = 0 then None
      else Some (take (nat res) buf))"

definition udg_isValid :: "int \<Rightarrow> bool" where
  "udg_isValid sock \<longleftrightarrow> sock > 0"

section \<open>The routing contract\<close>

text \<open>The endpoint is wired exactly once to its receiver, and to nobody else.\<close>

definition ep_inv :: "endpoint \<Rightarrow> bool" where
  "ep_inv e \<longleftrightarrow> wired e = (case receiver e of None \<Rightarrow> [] | Some r \<Rightarrow> [r]) \<and> watched e = wired e"

text \<open>The events an endpoint sees, and what they mean for where it is routed.\<close>

datatype ep_op = SetTarget "nat option" string | Destroyed nat

fun routed_to :: "ep_op \<Rightarrow> nat option \<Rightarrow> nat option" where
  "routed_to (SetTarget t n) _ = t"
| "routed_to (Destroyed ob) t = (if t = Some ob then None else t)"

fun ep_step :: "(nat option \<Rightarrow> string \<Rightarrow> 'e \<Rightarrow> 'e) \<Rightarrow> (nat \<Rightarrow> 'e \<Rightarrow> 'e) \<Rightarrow> ep_op \<Rightarrow> 'e \<Rightarrow> 'e" where
  "ep_step st dt (SetTarget t n) e = st t n e"
| "ep_step st dt (Destroyed ob) e = dt ob e"

locale router =
  fixes set_target :: "nat option \<Rightarrow> string \<Rightarrow> 'e \<Rightarrow> 'e"
    and destroyed :: "nat \<Rightarrow> 'e \<Rightarrow> 'e"
    and target :: "'e \<Rightarrow> nat option"
    and reach :: "'e \<Rightarrow> nat list"
    and inv :: "'e \<Rightarrow> bool"
  assumes target_set: "target (set_target t n e) = t"
    and inv_set: "inv e \<Longrightarrow> inv (set_target t n e)"
    and target_destroyed: "target (destroyed ob e) = (if target e = Some ob then None else target e)"
    and inv_destroyed: "inv e \<Longrightarrow> inv (destroyed ob e)"
    and reach_inv: "inv e \<Longrightarrow> reach e = (case target e of None \<Rightarrow> [] | Some r \<Rightarrow> [r])"
begin

text \<open>Whatever was routed before, the endpoint reaches its last target exactly once, and nobody
  after that object died.\<close>

lemma reach_after_set: "inv e \<Longrightarrow> reach (set_target t n e) = (case t of None \<Rightarrow> [] | Some r \<Rightarrow> [r])"
  using reach_inv [OF inv_set] by (simp add: target_set)

lemma reach_after_destroyed: "inv e \<Longrightarrow> ob \<notin> set (reach (destroyed ob e))"
  using reach_inv [OF inv_destroyed] by (auto simp: target_destroyed split: option.splits)

lemma inv_step: "inv e \<Longrightarrow> inv (ep_step set_target destroyed op e)"
  by (cases op) (simp_all add: inv_set inv_destroyed)

lemma target_step: "target (ep_step set_target destroyed op e) = routed_to op (target e)"
  by (cases op) (simp_all add: target_set target_destroyed)

lemma run: "inv e \<Longrightarrow> inv (fold (ep_step set_target destroyed) ops e)
    \<and> target (fold (ep_step set_target destroyed) ops e) = fold routed_to ops (target e)"
  by (induction ops arbitrary: e) (auto simp: inv_step target_step)

lemma reach_run: "inv e \<Longrightarrow> reach (fold (ep_step set_target destroyed) ops e)
    = (case fold routed_to ops (target e) of None \<Rightarrow> [] | Some r \<Rightarrow> [r])"
  using run reach_inv by metis

end

lemma filter_neq_singleton [simp]: "filter (\<lambda>x. x \<noteq> r) [r] = []"
  by simp

lemmas ep_defs = ep_inv_def ep_connect_def ep_disconnect_def

lemma ep_inv_new: "ep_inv new_endpoint"
  by (simp add: ep_inv_def new_endpoint_def)

lemma udp_setTarget_eq: "udp_setTarget = tcp_setTarget"
  by (intro ext) (simp add: udp_setTarget_def tcp_setTarget_def)

lemma udg_setTarget_eq: "udg_setTarget = tcp_setTarget"
  by (intro ext) (simp add: udg_setTarget_def tcp_setTarget_def)

interpretation tcp_router: router tcp_setTarget tcp_targetDestroyed receiver wired ep_inv
proof unfold_locales
  show "receiver (tcp_setTarget t n e) = t" for t n e
    by (auto simp: tcp_setTarget_def ep_connect_def Let_def split: option.splits)
  then show "receiver (tcp_targetDestroyed ob e) = (if receiver e = Some ob then None else receiver e)" for ob e
    by (auto simp: tcp_targetDestroyed_def)
  show inv: "ep_inv (tcp_setTarget t n e)" if "ep_inv e" for t n e
    using that by (auto simp: tcp_setTarget_def ep_defs Let_def split: option.splits if_splits)
  show "ep_inv (tcp_targetDestroyed ob e)" if "ep_inv e" for ob e
    using that by (simp add: tcp_targetDestroyed_def inv)
  show "wired e = (case receiver e of None \<Rightarrow> [] | Some r \<Rightarrow> [r])" if "ep_inv e" for e
    using that by (simp add: ep_inv_def)
qed

lemma udp_targetDestroyed_eq: "udp_targetDestroyed = tcp_targetDestroyed"
  by (intro ext) (simp add: udp_targetDestroyed_def tcp_targetDestroyed_def udp_setTarget_eq)

lemma udg_targetDestroyed_eq: "udg_targetDestroyed = tcp_targetDestroyed"
  by (intro ext) (simp add: udg_targetDestroyed_def tcp_targetDestroyed_def udg_setTarget_eq)

interpretation udp_router: router udp_setTarget udp_targetDestroyed receiver wired ep_inv
  unfolding udp_setTarget_eq udp_targetDestroyed_eq by (rule tcp_router.router_axioms)

interpretation udg_router: router udg_setTarget udg_targetDestroyed receiver wired ep_inv
  unfolding udg_setTarget_eq udg_targetDestroyed_eq by (rule tcp_router.router_axioms)

lemma udp_receive_one: "wired e = [r] \<Longrightarrow> list_all (\<lambda>(n, b). length b \<le> n) pend \<Longrightarrow>
    udp_receiveDatagram pend e = map (\<lambda>(n, b). (r, b)) pend"
  by (induction pend e rule: udp_receiveDatagram.induct) (auto simp: Let_def)

end
