(* ===== verification/Chargen.thy ===== *)
theory Chargen
  imports Prelude Qt_Map
begin

text \<open>
  mod/daemon/chargen and mod/daemon/chargensame: the character generator. In the first every
  client has its own position and timer, in the second one timer makes the line that all clients
  get. Assigning past the end of a QByteArray extends it first, as Qt documents.
\<close>

definition ba_set :: "nat \<Rightarrow> byte \<Rightarrow> bytes \<Rightarrow> bytes" where
  "ba_set i v b = (if i < length b then b else b @ replicate (i + 1 - length b) 0)[i := v]"

definition make_line :: "nat \<Rightarrow> bytes" where
  "make_line pos =
     (let buf = replicate 74 0;
          buf = fold (\<lambda>i b. ba_set i (word_of_nat (32 + (i + pos) mod 95)) b) [0..<72] buf;
          buf = ba_set 73 13 buf
      in ba_set 74 10 buf)"

record chargen_client =
  cg_pos :: nat
  cg_sent :: "bytes list"

definition new_chargen_client :: chargen_client where
  "new_chargen_client = \<lparr>cg_pos = 1, cg_sent = []\<rparr>"

definition chargen_nextLine :: "chargen_client \<Rightarrow> chargen_client" where
  "chargen_nextLine c =
     (let buf = make_line (cg_pos c) in
      c\<lparr>cg_pos := (cg_pos c + 1) mod 95, cg_sent := cg_sent c @ [buf]\<rparr>)"

section \<open>chargensame\<close>

record chargen_same =
  cs_pos :: nat
  cs_clients :: "(nat, bytes list) qmap"

definition new_chargen_same :: chargen_same where
  "new_chargen_same = \<lparr>cs_pos = 1, cs_clients = []\<rparr>"

definition cs_incomingTcp :: "nat \<Rightarrow> chargen_same \<Rightarrow> chargen_same" where
  "cs_incomingTcp i s = s\<lparr>cs_clients := qm_insert i [] (cs_clients s)\<rparr>"

definition cs_client_nextLine :: "bytes \<Rightarrow> bytes list \<Rightarrow> bytes list" where
  "cs_client_nextLine buf c = c @ [buf]"

definition cs_makeNextLine :: "chargen_same \<Rightarrow> chargen_same" where
  "cs_makeNextLine s =
     (let buf = make_line (cs_pos s) in
      s\<lparr>cs_pos := (cs_pos s + 1) mod 95,
        cs_clients := qm_map (\<lambda>_. cs_client_nextLine buf) (cs_clients s)\<rparr>)"

section \<open>The shape of a line\<close>

lemma ba_set_update: "i < length b \<Longrightarrow> ba_set i v b = b[i := v]"
  by (simp add: ba_set_def)

lemma ba_set_snoc: "ba_set (length b) v b = b @ [v]"
  by (simp add: ba_set_def)

lemma length_fold_set: "n \<le> length b \<Longrightarrow> length (fold (\<lambda>i b. ba_set i (f i) b) [0..<n] b) = length b"
  by (induction n) (simp_all add: ba_set_def)

lemma fold_ba_set:
  "n \<le> length b \<Longrightarrow> fold (\<lambda>i b. ba_set i (f i) b) [0..<n] b = map f [0..<n] @ drop n b"
proof (induction n)
  case (Suc n)
  then have "fold (\<lambda>i b. ba_set i (f i) b) [0..<Suc n] b = ba_set n (f n) (map f [0..<n] @ drop n b)"
    by simp
  also have "\<dots> = (map f [0..<n] @ drop n b)[n := f n]"
    using Suc.prems by (simp add: ba_set_update)
  also have "drop n b = b ! n # drop (Suc n) b"
    using Suc.prems by (simp add: Cons_nth_drop_Suc)
  finally show ?case by (simp add: list_update_append)
qed simp

definition pattern_char :: "nat \<Rightarrow> nat \<Rightarrow> byte" where
  "pattern_char pos i = word_of_nat (32 + (i + pos) mod 95)"

lemma replicate_2: "replicate 2 x = [x, x]"
  by (simp add: numeral_2_eq_2)

lemma make_line_eq: "make_line pos = map (pattern_char pos) [0..<72] @ [0, 13, 10]"
proof -
  let ?m = "map (\<lambda>i. word_of_nat (32 + (i + pos) mod 95)) [0..<72] :: bytes"
  have "fold (\<lambda>i b. ba_set i (word_of_nat (32 + (i + pos) mod 95)) b) [0..<72] (replicate 74 0)
      = ?m @ drop 72 (replicate 74 0)"
    by (rule fold_ba_set) simp
  also have "drop 72 (replicate 74 (0 :: byte)) = [0, 0]" by (simp add: replicate_2)
  finally have "make_line pos = ba_set 74 10 (ba_set 73 13 (?m @ [0, 0]))"
    by (simp only: make_line_def Let_def)
  also have "ba_set 73 13 (?m @ [0, 0]) = ?m @ [0, 13]"
    by (simp add: ba_set_def list_update_append)
  also have "ba_set 74 10 (?m @ [0, 13]) = (?m @ [0, 13]) @ [10]"
    using ba_set_snoc [of "?m @ [0, 13]" 10] by simp
  finally show ?thesis by (simp add: pattern_char_def [abs_def])
qed

lemma pattern_char_printable: "unat (pattern_char pos i) = 32 + (i + pos) mod 95"
proof -
  have "(i + pos) mod 95 < 95" by simp
  then have "32 + (i + pos) mod 95 < 256" by linarith
  moreover have "unat (word_of_nat k :: byte) = k mod 2 ^ LENGTH(8)" for k by (simp only: unat_of_nat)
  ultimately show ?thesis by (simp only: pattern_char_def) simp
qed

lemma cg_sent_next: "cg_sent (chargen_nextLine c) = cg_sent c @ [make_line (cg_pos c)]"
  by (simp add: chargen_nextLine_def Let_def)

lemma cg_run_pos: "cg_pos ((chargen_nextLine ^^ n) c) = (if n = 0 then cg_pos c else (cg_pos c + n) mod 95)"
  by (induction n) (auto simp: chargen_nextLine_def Let_def mod_Suc_eq)

lemma make_line_mod: "make_line (p mod 95) = make_line p"
proof -
  have "pattern_char (p mod 95) = pattern_char p"
    by (rule ext) (simp add: pattern_char_def mod_add_right_eq)
  then show ?thesis by (simp add: make_line_eq)
qed

lemma cg_run_sent: "cg_sent ((chargen_nextLine ^^ n) c) = cg_sent c @ map (\<lambda>k. make_line (cg_pos c + k)) [0..<n]"
proof (induction n)
  case (Suc n)
  have "make_line (cg_pos ((chargen_nextLine ^^ n) c)) = make_line (cg_pos c + n)"
    by (simp add: cg_run_pos make_line_mod)
  with Suc show ?case by (simp add: cg_sent_next)
qed simp

text \<open>In chargensame two clients that are connected get the same bytes from then on.\<close>

lemma cs_same_step:
  "map_of (cs_clients (cs_makeNextLine s)) i
     = map_option (\<lambda>out. out @ [make_line (cs_pos s)]) (map_of (cs_clients s) i)"
  by (simp add: cs_makeNextLine_def Let_def map_of_qm_map cs_client_nextLine_def [abs_def])

end
