(* ===== verification/Core_Props.thy ===== *)
theory Core_Props
  imports Client_Tcp_Line Core_Endpoints Chargen
begin

text \<open>
  The properties of the client and endpoint classes of core, of the line client, and of the
  character generators, with their witnesses.
\<close>

section \<open>ClientTcp\<close>

text \<open>C30: whatever the socket accepts per call, errors and closing included, what it has taken
  is a prefix of the bytes the program asked to send, in order; while the socket is open the rest of
  them is exactly the write buffer, so nothing is lost, repeated or reordered.\<close>

theorem tcp_stream_order:
  "\<exists>rest. concat (map requested ops) = accepted (fold tcp_step ops new_client) @ rest
     \<and> (sock_open (fold tcp_step ops new_client) \<longrightarrow> rest = write_buf (fold tcp_step ops new_client))"
  using stream_inv_run [OF stream_inv_new, of ops]
  by (cases "sock_open (fold tcp_step ops new_client)") (auto simp: stream_inv_def)

theorem tcp_stream_order_witness:
  "sock_open (fold tcp_step [Write 2 [1, 2, 3], Write 9 [4], BytesWritten 1] new_client)
   \<and> accepted (fold tcp_step [Write 2 [1, 2, 3], Write 9 [4], BytesWritten 1] new_client) = [1, 2, 3]
   \<and> write_buf (fold tcp_step [Write 2 [1, 2, 3], Write 9 [4], BytesWritten 1] new_client) = [4]"
proof -
  let ?c = "fold tcp_step [Write 2 [1, 2, 3], Write 9 [4], BytesWritten 1] new_client"
  have o: "sock_open ?c" and a: "accepted ?c = [1, 2, 3]"
    by (simp_all add: tcp_defs new_client_def Let_def)
  with tcp_stream_order [of "[Write 2 [1, 2, 3], Write 9 [4], BytesWritten 1]"] show ?thesis by simp
qed

text \<open>The write buffer never grows past one megabyte by appending: its size is at most one
  megabyte or the size of the largest single write.\<close>

theorem tcp_buffer_bound:
  assumes "list_all (\<lambda>op. length (requested op) \<le> M) ops" "1024 * 1024 \<le> M"
  shows "length (write_buf (fold tcp_step ops new_client)) \<le> M"
  by (rule write_buf_run [OF _ assms(2,1)]) (simp add: new_client_def)

theorem tcp_buffer_bound_witness:
  "length (write_buf (fold tcp_step (replicate 9 (Write 0 (replicate 70 1))) new_client)) \<le> 1024 * 1024"
  by (rule tcp_buffer_bound) (simp_all add: list_all_iff)

text \<open>The size limit is not applied to the rest of the write that finds the buffer empty:
  that rest is buffered whole, with the link kept, however long it is.\<close>

theorem tcp_first_write_unchecked:
  assumes "0 \<le> s" "s < int (length dat)"
  shows "write_buf (tcp_write s dat new_client) = drop (nat s) dat
    \<and> sock_open (tcp_write s dat new_client) \<and> \<not> deleting (tcp_write s dat new_client)"
  using assms by (simp add: tcp_defs new_client_def)

theorem tcp_first_write_unchecked_witness:
  "1024 * 1024 < length (write_buf (tcp_write 0 (replicate (3 * 1024 * 1024) 7) new_client))"
  using tcp_first_write_unchecked [of 0 "replicate (3 * 1024 * 1024) 7"] by simp

section \<open>ClientTcpLine\<close>

text \<open>C31: the lines found, the bytes left and whether the link was closed do not depend on how
  the network split the input.\<close>

theorem line_chunking_irrelevant:
  assumes "concat xs = concat ys"
  shows "fold line_receive xs new_line_client = fold line_receive ys new_line_client"
proof -
  have "sock_open new_line_client" "line_cut (read_buffer new_line_client) = More"
    by (simp_all add: new_line_client_def line_cut_def)
  with assms show ?thesis by (simp add: line_feed line.feed_concat)
qed

theorem line_chunking_irrelevant_witness:
  "handled (fold line_receive [[104], [105, 13], [10, 32]] new_line_client) = [[104, 105]]"
proof -
  have "handled (fold line_receive [[104, 105, 13, 10, 32]] new_line_client) = [[104, 105]]"
    by code_simp
  with line_chunking_irrelevant [of "[[104], [105, 13], [10, 32]]" "[[104, 105, 13, 10, 32]]"]
  show ?thesis by simp
qed

text \<open>Lines of at most 4096 bytes sent with line feeds are handled one by one, in order and
  stripped of surrounding white space; the unfinished line stays in the buffer and the link stays
  open.\<close>

theorem line_delivers_lines:
  assumes "list_all (\<lambda>l. 10 \<notin> set l \<and> length l \<le> 4096) ls" "10 \<notin> set r" "length r \<le> 4096"
    "concat xs = concat (map (\<lambda>l. l @ [10]) ls) @ r"
  shows "fold line_receive xs new_line_client
    = new_line_client\<lparr>handled := map trimmed ls, read_buffer := r\<rparr>"
proof -
  have "sock_open new_line_client" "line_cut (read_buffer new_line_client) = More"
    "read_buffer new_line_client = []" "handled new_line_client = []"
    by (simp_all add: new_line_client_def line_cut_def)
  with assms(4) show ?thesis
    by (simp add: line_feed line.feed_concat cut_all_lines [OF assms(1-3)])
qed

theorem line_delivers_lines_witness:
  "fold line_receive [[97, 13], [10, 32, 98], [10, 99]] new_line_client
     = new_line_client\<lparr>handled := [[97], [98]], read_buffer := [99]\<rparr>"
proof -
  have "trimmed [97, 13] = [97]" "trimmed [32, 98] = [98]" by code_simp+
  with line_delivers_lines [of "[[97, 13], [32, 98]]" "[99]" "[[97, 13], [10, 32, 98], [10, 99]]"]
  show ?thesis by simp
qed

text \<open>A line of more than 4096 bytes closes the link, as soon as its excess is seen, and is
  not handled.\<close>

theorem line_too_long_closes:
  assumes "10 \<notin> set l" "4096 < length l"
  shows "fold line_receive xs (line_receive (l @ ext) new_line_client)
    = new_line_client\<lparr>sock_open := False\<rparr>"
proof -
  have "line_cut (l @ ext) = Fatal"
    using assms by (auto simp: line_cut_def index_of_append index_of_None [THEN iffD2] split: option.splits)
  then have "line_receive (l @ ext) new_line_client = new_line_client\<lparr>sock_open := False\<rparr>"
    by (simp add: line_receive_def line_handleBuffer_def line_loop_cut_all line.cut_all_Fatal new_line_client_def)
  moreover have "fold line_receive xs (new_line_client\<lparr>sock_open := False\<rparr>) = new_line_client\<lparr>sock_open := False\<rparr>"
    by (induction xs) (simp_all add: line_receive_def)
  ultimately show ?thesis by simp
qed

theorem line_too_long_closes_witness:
  "\<not> sock_open (line_receive (replicate 4097 65 @ [10]) new_line_client)"
  using line_too_long_closes [of "replicate 4097 65" "[]" "[10]"] by simp

section \<open>Endpoints\<close>

definition routes :: "ep_op list \<Rightarrow> nat list" where
  "routes ops = (case fold routed_to ops None of None \<Rightarrow> [] | Some r \<Rightarrow> [r])"

text \<open>For each of the three endpoint classes, after any sequence of retargetings and deaths
  of objects, the endpoint is connected exactly once to the object it was last routed to and not at
  all when that object died; a connection made then reaches that object with the current entry
  name, and is closed when there is none.\<close>

theorem endpoints_reach_last_target:
  "wired (fold (ep_step tcp_setTarget tcp_targetDestroyed) ops new_endpoint) = routes ops
   \<and> wired (fold (ep_step udp_setTarget udp_targetDestroyed) ops new_endpoint) = routes ops
   \<and> wired (fold (ep_step udg_setTarget udg_targetDestroyed) ops new_endpoint) = routes ops
   \<and> tcp_incomingConnection (fold (ep_step tcp_setTarget tcp_targetDestroyed) ops new_endpoint)
    = (case routes ops of [] \<Rightarrow> ConnClosed
       | r # _ \<Rightarrow> ConnPassed r [(r, entry (fold (ep_step tcp_setTarget tcp_targetDestroyed) ops new_endpoint))])"
proof -
  have r: "receiver new_endpoint = None" by (simp add: new_endpoint_def)
  then have w: "wired (fold (ep_step tcp_setTarget tcp_targetDestroyed) ops new_endpoint) = routes ops"
    "wired (fold (ep_step udp_setTarget udp_targetDestroyed) ops new_endpoint) = routes ops"
    "wired (fold (ep_step udg_setTarget udg_targetDestroyed) ops new_endpoint) = routes ops"
    by (simp_all add: routes_def tcp_router.reach_run udp_router.reach_run udg_router.reach_run ep_inv_new)
  moreover have "receiver (fold (ep_step tcp_setTarget tcp_targetDestroyed) ops new_endpoint) = fold routed_to ops None"
    using tcp_router.run [OF ep_inv_new, of ops] r by simp
  ultimately show ?thesis
    by (simp add: tcp_incomingConnection_def routes_def split: option.splits)
qed

section \<open>The character generators\<close>

text \<open>The generator sends lines of 75 bytes: 72 printable characters of the rotating
  pattern, each line starting one character later than the line before modulo 95, then a zero
  byte, CR and LF: the line end is written one position too far.\<close>

theorem chargen_lines:
  "cg_sent ((chargen_nextLine ^^ n) new_chargen_client)
     = map (\<lambda>k. map (pattern_char (Suc k)) [0..<72] @ [0, 13, 10]) [0..<n]
   \<and> unat (pattern_char k i) = 32 + (i + k) mod 95"
  by (simp add: cg_run_sent new_chargen_client_def make_line_eq pattern_char_printable)

text \<open>In chargensame all clients that are connected receive the same line at each tick.\<close>

theorem chargensame_same_lines:
  "map_of (cs_clients (cs_makeNextLine s)) i
     = map_option (\<lambda>out. out @ [map (pattern_char (cs_pos s)) [0..<72] @ [0, 13, 10]]) (map_of (cs_clients s) i)"
  by (simp add: cs_same_step make_line_eq)

end
