(* ===== verification/Core_Config.thy ===== *)
theory Core_Config
  imports Qt_Map Core_Endpoints
begin

text \<open>
  core/Core: the symbol table, the module loader, and the reconfiguration. The state is the
  record \<open>core\<close>; daemons are object numbers. Outside the repository, and so arguments:
  the dynamic linker (what \<open>lib->load()\<close> of a module reports when the given modules are
  loaded), whether a module has a working instanciate function, and whether an address can be
  listened on. \<open>doomed\<close> are the objects \<open>deleteLater()\<close> was called on, and
  \<open>orphans\<close> the endpoints that were created but neither registered nor deleted.
\<close>

record library =
  lib_path :: string
  lib_export :: bool

record core =
  sym_map :: "(string, string) qmap"
  modules :: "(string, library) qmap"
  daemons :: "(string, nat) qmap"
  port_tcp :: "(string, endpoint) qmap"
  port_udp :: "(string, endpoint) qmap"
  port_udg :: "(string, endpoint) qmap"
  next_obj :: nat
  doomed :: "nat list"
  orphans :: "endpoint list"

definition new_core :: core where
  "new_core = \<lparr>sym_map = [], modules = [], daemons = [], port_tcp = [], port_udp = [],
     port_udg = [], next_obj = 0, doomed = [], orphans = []\<rparr>"

section \<open>The symbol table\<close>

definition latin1 :: "bytes \<Rightarrow> string" where
  "latin1 b = map (\<lambda>x. char_of (unat x)) b"

text \<open>\<open>QFile::readLine\<close> until the end: each line with its line feed.\<close>

fun file_lines :: "bytes \<Rightarrow> bytes list" where
  "file_lines [] = []"
| "file_lines (b # bs) =
     (if b = 10 then [b] # file_lines bs
      else case file_lines bs of [] \<Rightarrow> [[b]] | l # ls \<Rightarrow> (b # l) # ls)"

definition take_first :: "'a list \<Rightarrow> ('a \<times> 'a list) outcome" where
  "take_first xs = (case xs of [] \<Rightarrow> Inl OutOfRange | x # r \<Rightarrow> Inr (x, r))"

definition symbol_line :: "bytes \<Rightarrow> core \<Rightarrow> core outcome" where
  "symbol_line line s =
     (let dat = split_on CHR '' '' (latin1 (trimmed line)) in
      bind_out (take_first dat) (\<lambda>(md, dat).
      bind_out (take_first dat) (\<lambda>(symb, dat).
      Inr (s\<lparr>sym_map := qm_insert symb md (sym_map s)\<rparr>))))"

text \<open>The argument is the file's content, \<open>None\<close> when it is missing or cannot be
  opened.\<close>

definition reloadSymbols :: "bytes option \<Rightarrow> core \<Rightarrow> core outcome" where
  "reloadSymbols file s =
     (let s = s\<lparr>sym_map := []\<rparr> in
      case file of None \<Rightarrow> Inr s | Some content \<Rightarrow> fold_out symbol_line (file_lines content) s)"

section \<open>Loading modules\<close>

text \<open>The capture of \<open>.*: \(.*: undefined symbol: (_Z.*)\)\<close> in a whole error text. The
  pattern's repetitions are greedy, so the symbol starts at the last place it can.\<close>

fun prefix_of :: "string \<Rightarrow> string \<Rightarrow> bool" where
  "prefix_of [] s = True"
| "prefix_of (c # p) [] = False"
| "prefix_of (c # p) (d # s) = (c = d \<and> prefix_of p s)"

fun contains_text :: "string \<Rightarrow> string \<Rightarrow> bool" where
  "contains_text p [] = prefix_of p []"
| "contains_text p (c # s) = (prefix_of p (c # s) \<or> contains_text p s)"

fun last_symbol :: "string \<Rightarrow> string option" where
  "last_symbol [] = None"
| "last_symbol (c # s) =
     (case last_symbol s of Some x \<Rightarrow> Some x
      | None \<Rightarrow> if prefix_of '': undefined symbol: _Z'' (c # s)
          then Some (drop (length '': undefined symbol: '') (c # s)) else None)"

definition undefined_symbol :: "string \<Rightarrow> string option" where
  "undefined_symbol err =
     (if err = [] \<or> last err \<noteq> CHR '')'' then None
      else case last_symbol (butlast err) of None \<Rightarrow> None
        | Some symb \<Rightarrow>
            if contains_text '': ('' (take (length err - length symb - 1 - length '': undefined symbol: '') err)
            then Some symb else None)"

text \<open>The modules that the preload function of a module probes for; \<open>None\<close> where there
  is no preload function (main.cpp of bitcoinconnector and of midasinput have one).\<close>

definition pinetd_preload :: "string \<Rightarrow> string list option" where
  "pinetd_preload name =
     (if name = ''daemon/bitcoinconnector'' then Some [''ext/bitcoin'', ''ext/elasticsearch'']
      else if name = ''daemon/midasinput'' then Some [''ext/qamqp''] else None)"

text \<open>The linker: given the modules already loaded, \<open>load()\<close> of a module succeeds
  (\<open>None\<close>) or reports an error text.\<close>

type_synonym linker = "string list \<Rightarrow> string \<Rightarrow> string option"

definition new_library :: "string \<Rightarrow> library" where
  "new_library name = \<lparr>lib_path = ''/mod/'' @ name @ ''.so'', lib_export = (take 4 name = ''ext/'')\<rparr>"

text \<open>A call of \<open>modprobe\<close> returns whether it succeeded, or is not finished; what
  follows it runs only after a success.\<close>

type_synonym probe = "(bool \<times> core) option"

definition then_ok :: "probe \<Rightarrow> (core \<Rightarrow> probe) \<Rightarrow> probe" where
  "then_ok m f = (case m of None \<Rightarrow> None | Some (ok, s) \<Rightarrow> if ok then f s else Some (False, s))"

text \<open>\<open>modprobe\<close>, its \<open>while(1)\<close>, and the preload call. The recursion need not end, so
  the functions take fuel: \<open>None\<close> is "not finished yet", never a result of the code.\<close>

fun modprobe :: "linker \<Rightarrow> nat \<Rightarrow> string \<Rightarrow> core \<Rightarrow> probe"
  and load_loop :: "linker \<Rightarrow> nat \<Rightarrow> string \<Rightarrow> core \<Rightarrow> probe"
  and preload_all :: "linker \<Rightarrow> nat \<Rightarrow> string list \<Rightarrow> core \<Rightarrow> probe" where
  "modprobe L 0 name s = None"
| "modprobe L (Suc n) name s =
     (if qm_contains (modules s) name then Some (True, s)
      else then_ok (load_loop L n name s)
        (\<lambda>s. then_ok (case pinetd_preload name of None \<Rightarrow> Some (True, s) | Some ms \<Rightarrow> preload_all L n ms s)
        (\<lambda>s. Some (True, s\<lparr>modules := qm_insert name (new_library name) (modules s)\<rparr>))))"
| "load_loop L 0 name s = None"
| "load_loop L (Suc n) name s =
     (case L (qm_keys (modules s)) name of
        None \<Rightarrow> Some (True, s)
      | Some err \<Rightarrow>
          (case undefined_symbol err of None \<Rightarrow> Some (False, s)
           | Some symb \<Rightarrow>
               (case map_of (sym_map s) symb of None \<Rightarrow> Some (False, s)
                | Some md \<Rightarrow>
                    if qm_contains (modules s) md then Some (False, s)
                    else then_ok (modprobe L n md s) (load_loop L n name))))"
| "preload_all L 0 ms s = None"
| "preload_all L (Suc n) ms s =
     (case ms of [] \<Rightarrow> Some (True, s)
      | m # ms \<Rightarrow> then_ok (modprobe L n m s) (preload_all L n ms))"

definition getDaemon :: "core \<Rightarrow> string \<Rightarrow> nat option" where
  "getDaemon s key = map_of (daemons s) key"

section \<open>Reconfiguration\<close>

text \<open>\<open>pinetd.ini\<close>: the keys and values of each group, in the order of \<open>allKeys()\<close>.\<close>

type_synonym settings = "string \<Rightarrow> (string \<times> string) list"

record core_env =
  e_linker :: linker
  e_instanciate :: "string \<Rightarrow> string \<Rightarrow> bool"
  e_listen_tcp :: "string \<Rightarrow> string \<Rightarrow> bool"
  e_bind_udp :: "string \<Rightarrow> string \<Rightarrow> bool"
  e_listen_udg :: "string \<Rightarrow> bool"

fun load_preloads :: "core_env \<Rightarrow> nat \<Rightarrow> (string \<times> string) list \<Rightarrow> core \<Rightarrow> core option" where
  "load_preloads env n [] s = Some s"
| "load_preloads env n ((k, mod_name) # ks) s =
     (case modprobe (e_linker env) n mod_name s of None \<Rightarrow> None
      | Some (_, s) \<Rightarrow> load_preloads env n ks s)"

text \<open>The loop over the configured daemons; \<open>cur\<close> is \<open>cur_daemons\<close>.\<close>

fun load_daemons :: "core_env \<Rightarrow> nat \<Rightarrow> (string \<times> string) list \<Rightarrow> string list \<Rightarrow> core \<Rightarrow> (string list \<times> core) option" where
  "load_daemons env n [] cur s = Some (cur, s)"
| "load_daemons env n ((k, mod_name) # ks) cur s =
     (if qm_contains (daemons s) k then load_daemons env n ks (removeAll k cur) s
      else case modprobe (e_linker env) n mod_name s of None \<Rightarrow> None
        | Some (ok, s) \<Rightarrow>
            if \<not> ok then load_daemons env n ks cur s
            else if \<not> e_instanciate env mod_name k then load_daemons env n ks cur s
            else load_daemons env n ks cur
              (s\<lparr>daemons := qm_insert k (next_obj s) (daemons s), next_obj := next_obj s + 1\<rparr>))"

definition drop_daemon :: "string \<Rightarrow> core \<Rightarrow> core" where
  "drop_daemon k s = s\<lparr>daemons := qm_remove k (daemons s),
     doomed := doomed s @ (case map_of (daemons s) k of None \<Rightarrow> [] | Some d \<Rightarrow> [d])\<rparr>"

text \<open>One turn of each port loop: the table, the addresses not seen yet, the orphans.\<close>

type_synonym ports = "(string, endpoint) qmap \<times> string list \<times> endpoint list"

definition tcp_turn :: "core_env \<Rightarrow> (string \<Rightarrow> nat option) \<Rightarrow> string \<times> string \<Rightarrow> ports \<Rightarrow> ports" where
  "tcp_turn env getd kv st =
     (case kv of (k, v) \<Rightarrow> case st of (ports, cur, orph) \<Rightarrow>
      let tgt = split_on CHR '':'' v;
          tgt = (if length tgt = 1 then tgt @ [''main''] else tgt) in
      case map_of ports k of
        Some e \<Rightarrow> (qm_insert k (tcp_setTarget (getd (tgt ! 0)) (tgt ! 1) e) ports, removeAll k cur, orph)
      | None \<Rightarrow>
          let t = tcp_setTarget (getd (tgt ! 0)) (tgt ! 1) new_endpoint;
              nfo = split_on CHR '':'' k in
          if length nfo \<noteq> 2 then (ports, cur, orph @ [t])
          else if \<not> e_listen_tcp env (nfo ! 0) (nfo ! 1) then (ports, cur, orph @ [t])
          else (qm_insert k t ports, cur, orph))"

definition udp_turn :: "core_env \<Rightarrow> (string \<Rightarrow> nat option) \<Rightarrow> string \<times> string \<Rightarrow> ports \<Rightarrow> ports" where
  "udp_turn env getd kv st =
     (case kv of (k, v) \<Rightarrow> case st of (ports, cur, orph) \<Rightarrow>
      let tgt = split_on CHR '':'' v;
          tgt = (if length tgt = 1 then tgt @ [''main''] else tgt) in
      case map_of ports k of
        Some e \<Rightarrow> (qm_insert k (udp_setTarget (getd (tgt ! 0)) (tgt ! 1) e) ports, removeAll k cur, orph)
      | None \<Rightarrow>
          let t = udp_setTarget (getd (tgt ! 0)) (tgt ! 1) new_endpoint;
              nfo = split_on CHR '':'' k in
          if length nfo \<noteq> 2 then (ports, cur, orph @ [t])
          else if \<not> e_bind_udp env (nfo ! 0) (nfo ! 1) then (ports, cur, orph @ [t])
          else (qm_insert k t ports, cur, orph))"

definition udg_turn :: "core_env \<Rightarrow> (string \<Rightarrow> nat option) \<Rightarrow> string \<times> string \<Rightarrow> ports \<Rightarrow> ports" where
  "udg_turn env getd kv st =
     (case kv of (k, v) \<Rightarrow> case st of (ports, cur, orph) \<Rightarrow>
      let tgt = split_on CHR '':'' v;
          tgt = tgt @ replicate (3 - length tgt) ''main'' in
      case map_of ports k of
        Some e \<Rightarrow> (qm_insert k (udg_setTarget (getd (tgt ! 1)) (tgt ! 2) e) ports, removeAll k cur, orph)
      | None \<Rightarrow>
          if \<not> e_listen_udg env (tgt ! 0) then (ports, cur, orph @ [new_endpoint])
          else (qm_insert k (udg_setTarget (getd (tgt ! 1)) (tgt ! 2) new_endpoint) ports, cur, orph))"

text \<open>The whole loop of one group, and the removal of the addresses no longer configured.\<close>

definition reload_ports :: "(string \<times> string \<Rightarrow> ports \<Rightarrow> ports) \<Rightarrow> (string \<times> string) list
    \<Rightarrow> (string, endpoint) qmap \<Rightarrow> (string, endpoint) qmap \<times> endpoint list" where
  "reload_ports turn k ports =
     (case fold turn k (ports, qm_keys ports, []) of (ports, cur, orph) \<Rightarrow>
        (fold qm_remove cur ports, orph))"

definition reload_daemons :: "core_env \<Rightarrow> nat \<Rightarrow> (string \<times> string) list \<Rightarrow> core \<Rightarrow> core option" where
  "reload_daemons env n k s = map_option (\<lambda>(cur, s). fold drop_daemon cur s)
     (load_daemons env n k (qm_keys (daemons s)) s)"

definition reload_tcp :: "core_env \<Rightarrow> (string \<times> string) list \<Rightarrow> core \<Rightarrow> core" where
  "reload_tcp env k s = (case reload_ports (tcp_turn env (getDaemon s)) k (port_tcp s) of
     (ports, orph) \<Rightarrow> s\<lparr>port_tcp := ports, orphans := orphans s @ orph\<rparr>)"

definition reload_udp :: "core_env \<Rightarrow> (string \<times> string) list \<Rightarrow> core \<Rightarrow> core" where
  "reload_udp env k s = (case reload_ports (udp_turn env (getDaemon s)) k (port_udp s) of
     (ports, orph) \<Rightarrow> s\<lparr>port_udp := ports, orphans := orphans s @ orph\<rparr>)"

definition reload_udg :: "core_env \<Rightarrow> (string \<times> string) list \<Rightarrow> core \<Rightarrow> core" where
  "reload_udg env k s = (case reload_ports (udg_turn env (getDaemon s)) k (port_udg s) of
     (ports, orph) \<Rightarrow> s\<lparr>port_udg := ports, orphans := orphans s @ orph\<rparr>)"

definition reloadConfig :: "core_env \<Rightarrow> nat \<Rightarrow> settings \<Rightarrow> core \<Rightarrow> core option" where
  "reloadConfig env n conf s =
     (case load_preloads env n (conf ''preload'') s of None \<Rightarrow> None
      | Some s \<Rightarrow> (case reload_daemons env n (conf ''daemons'') s of None \<Rightarrow> None
          | Some s \<Rightarrow> Some (reload_udg env (conf ''udg'')
              (reload_udp env (conf ''udp'') (reload_tcp env (conf ''tcp'') s)))))"

text \<open>The event loop deletes a doomed daemon: every endpoint hears of it.\<close>

definition daemon_destroyed :: "nat \<Rightarrow> core \<Rightarrow> core" where
  "daemon_destroyed d s = s\<lparr>port_tcp := qm_map (\<lambda>_. tcp_targetDestroyed d) (port_tcp s),
     port_udp := qm_map (\<lambda>_. udp_targetDestroyed d) (port_udp s),
     port_udg := qm_map (\<lambda>_. udg_targetDestroyed d) (port_udg s),
     orphans := map (tcp_targetDestroyed d) (orphans s)\<rparr>"

definition getConfig :: "(string \<Rightarrow> (string \<times> 'v) list) \<Rightarrow> string \<Rightarrow> (string, 'v) qmap" where
  "getConfig conf daemon = fold (\<lambda>(k, v) res. qm_insert k v res) (conf (''conf-'' @ daemon)) []"

end
