(* ===== verification/Core_Config_Proofs.thy ===== *)
theory Core_Config_Proofs
  imports Core_Config
begin

text \<open>
  The loader and the reconfiguration: what a run of \<open>modprobe\<close> keeps, that more fuel does
  not change a result, when it ends and succeeds, and the tables that a reload leaves behind.
\<close>

section \<open>What loading keeps\<close>

text \<open>Loading only adds modules, each of which the linker accepted on top of modules that are
  registered too.\<close>

definition accepted_by :: "linker \<Rightarrow> core \<Rightarrow> bool" where
  "accepted_by L s \<longleftrightarrow> (\<forall>name \<in> set (qm_keys (modules s)).
     \<exists>ms. set ms \<subseteq> set (qm_keys (modules s)) \<and> L ms name = None)"

definition grows :: "linker \<Rightarrow> core \<Rightarrow> core \<Rightarrow> bool" where
  "grows L s s' \<longleftrightarrow> s' = s\<lparr>modules := modules s'\<rparr> \<and> qm_wf (modules s')
     \<and> set (qm_keys (modules s)) \<subseteq> set (qm_keys (modules s')) \<and> (accepted_by L s \<longrightarrow> accepted_by L s')"

lemma grows_refl: "qm_wf (modules s) \<Longrightarrow> grows L s s"
  by (simp add: grows_def)

lemma grows_trans: "grows L s t \<Longrightarrow> grows L t u \<Longrightarrow> grows L s u"
proof -
  assume st: "grows L s t" and tu: "grows L t u"
  have "u = t\<lparr>modules := modules u\<rparr>" using tu by (simp add: grows_def)
  also have "t = s\<lparr>modules := modules t\<rparr>" using st by (simp add: grows_def)
  finally have "u = s\<lparr>modules := modules u\<rparr>" by simp
  with st tu show ?thesis by (auto simp: grows_def)
qed

lemma grows_insert:
  assumes "qm_wf (modules s)" "set ms \<subseteq> set (qm_keys (modules s))" "L ms k = None"
  shows "grows L s (s\<lparr>modules := qm_insert k v (modules s)\<rparr>)"
proof -
  have "accepted_by L (s\<lparr>modules := qm_insert k v (modules s)\<rparr>)" if acc: "accepted_by L s"
    unfolding accepted_by_def
  proof
    fix name assume "name \<in> set (qm_keys (modules (s\<lparr>modules := qm_insert k v (modules s)\<rparr>)))"
    then have "name = k \<or> name \<in> set (qm_keys (modules s))" by (simp add: qm_keys_insert)
    then have "\<exists>ms. set ms \<subseteq> set (qm_keys (modules s)) \<and> L ms name = None"
      using acc assms(2,3) unfolding accepted_by_def by blast
    then show "\<exists>ms. set ms \<subseteq> set (qm_keys (modules (s\<lparr>modules := qm_insert k v (modules s)\<rparr>))) \<and> L ms name = None"
      by (auto simp: qm_keys_insert)
  qed
  with assms(1) show ?thesis by (auto simp: grows_def qm_wf_insert qm_keys_insert)
qed

lemma growsD: "grows L s s' \<Longrightarrow> sym_map s' = sym_map s" "grows L s s' \<Longrightarrow> daemons s' = daemons s"
  "grows L s s' \<Longrightarrow> qm_wf (modules s')" "grows L s s' \<Longrightarrow> next_obj s' = next_obj s"
  "grows L s s' \<Longrightarrow> port_tcp s' = port_tcp s" "grows L s s' \<Longrightarrow> port_udp s' = port_udp s"
  "grows L s s' \<Longrightarrow> port_udg s' = port_udg s" "grows L s s' \<Longrightarrow> doomed s' = doomed s"
  "grows L s s' \<Longrightarrow> set (qm_keys (modules s)) \<subseteq> set (qm_keys (modules s'))"
  "grows L s s' \<Longrightarrow> orphans s' = orphans s"
  by (cases s; cases s'; simp add: grows_def)+

lemma grows_accepted: "grows L s s' \<Longrightarrow> accepted_by L s \<Longrightarrow> accepted_by L s'"
  by (simp add: grows_def)

lemma contains_keys: "qm_contains m k \<longleftrightarrow> k \<in> set (qm_keys m)"
  by (simp add: qm_contains_dom set_qm_keys)

lemma then_ok_Some: "then_ok m f = Some r \<longleftrightarrow>
    (\<exists>s. m = Some (True, s) \<and> f s = Some r) \<or> (\<exists>s. m = Some (False, s) \<and> r = (False, s))"
  by (auto simp: then_ok_def split: option.splits)

lemma then_okE:
  assumes "then_ok m f = Some (ok, s')"
  obtains s where "m = Some (True, s)" "f s = Some (ok, s')" | "m = Some (False, s')" "\<not> ok"
  using assms by (auto simp: then_ok_Some)

text \<open>The unfolded equations, one per function, for proofs by induction on the fuel.\<close>

lemmas probe_steps = modprobe.simps(2) load_loop.simps(2) preload_all.simps(2)

declare probe_steps [simp del]

lemma load_loopE:
  assumes "load_loop L (Suc n) name s = Some (ok, s')"
  obtains (loaded) "L (qm_keys (modules s)) name = None" "ok" "s' = s"
  | (failed) "\<not> ok" "s' = s"
  | (dependency) err symb md where "L (qm_keys (modules s)) name = Some err" "undefined_symbol err = Some symb"
      "map_of (sym_map s) symb = Some md" "\<not> qm_contains (modules s) md"
      "then_ok (modprobe L n md s) (load_loop L n name) = Some (ok, s')"
  using assms by (auto simp: load_loop.simps split: option.splits if_splits)

text \<open>The specification by induction on the fuel, and one step lemma per function.\<close>

definition grow_spec :: "linker \<Rightarrow> nat \<Rightarrow> bool" where
  "grow_spec L n \<longleftrightarrow>
     (\<forall>name s ok s'. modprobe L n name s = Some (ok, s') \<longrightarrow> qm_wf (modules s) \<longrightarrow>
        grows L s s' \<and> (ok \<longrightarrow> qm_contains (modules s') name))
   \<and> (\<forall>name s ok s'. load_loop L n name s = Some (ok, s') \<longrightarrow> qm_wf (modules s) \<longrightarrow>
        grows L s s' \<and> (ok \<longrightarrow> L (qm_keys (modules s')) name = None))
   \<and> (\<forall>ms s ok s'. preload_all L n ms s = Some (ok, s') \<longrightarrow> qm_wf (modules s) \<longrightarrow> grows L s s')"

lemma grow_specD:
  assumes "grow_spec L n" "qm_wf (modules s)"
  shows "modprobe L n name s = Some (ok, s') \<Longrightarrow> grows L s s' \<and> (ok \<longrightarrow> qm_contains (modules s') name)"
    and "load_loop L n name s = Some (ok, s') \<Longrightarrow> grows L s s' \<and> (ok \<longrightarrow> L (qm_keys (modules s')) name = None)"
    and "preload_all L n ms s = Some (ok, s') \<Longrightarrow> grows L s s'"
  using assms unfolding grow_spec_def by blast+

lemma preload_case_grows:
  assumes "grow_spec L n" "qm_wf (modules s)"
    "(case pinetd_preload name of None \<Rightarrow> Some (True, s) | Some ms \<Rightarrow> preload_all L n ms s) = Some (ok, s')"
  shows "grows L s s'"
  using assms grow_specD(3) [OF assms(1,2)] by (auto split: option.splits simp: grows_refl)

lemma modprobe_grow_step:
  assumes spec: "grow_spec L n" and m: "modprobe L (Suc n) name s = Some (ok, s')" and wf: "qm_wf (modules s)"
  shows "grows L s s' \<and> (ok \<longrightarrow> qm_contains (modules s') name)"
proof (cases "qm_contains (modules s) name")
  case False
  with m have "then_ok (load_loop L n name s)
      (\<lambda>s. then_ok (case pinetd_preload name of None \<Rightarrow> Some (True, s) | Some ms \<Rightarrow> preload_all L n ms s)
      (\<lambda>s. Some (True, s\<lparr>modules := qm_insert name (new_library name) (modules s)\<rparr>))) = Some (ok, s')"
    by (simp add: probe_steps)
  then show ?thesis
  proof (cases rule: then_okE)
    case (1 t)
    note g1 = grow_specD(2) [OF spec wf 1(1), THEN conjunct1]
    have acc: "L (qm_keys (modules t)) name = None" using grow_specD(2) [OF spec wf 1(1)] by simp
    note pre = preload_case_grows [OF spec growsD(3) [OF g1]]
    from 1(2) show ?thesis
    proof (cases rule: then_okE)
      case (1 u)
      note g2 = pre [OF 1(1)]
      show ?thesis
        using 1(2) grows_trans [OF grows_trans [OF g1 g2] grows_insert [where L = L and k = name, OF growsD(3,9) [OF g2] acc]]
        by (auto simp: contains_keys qm_keys_insert)
    next
      case 2
      then show ?thesis using grows_trans [OF g1 pre [OF 2(1)]] by simp
    qed
  qed (use grow_specD(2) [OF spec wf] in blast)
qed (use m wf in \<open>simp add: probe_steps grows_refl\<close>)

lemma load_loop_grow_step:
  assumes spec: "grow_spec L n" and l: "load_loop L (Suc n) name s = Some (ok, s')" and wf: "qm_wf (modules s)"
  shows "grows L s s' \<and> (ok \<longrightarrow> L (qm_keys (modules s')) name = None)"
  using l
proof (cases rule: load_loopE)
  case (dependency err symb md)
  from dependency(5) show ?thesis
  proof (cases rule: then_okE)
    case (1 t)
    note g1 = grow_specD(1) [OF spec wf 1(1), THEN conjunct1]
    show ?thesis using grow_specD(2) [OF spec growsD(3) [OF g1] 1(2)] grows_trans [OF g1] by blast
  qed (use grow_specD(1) [OF spec wf] in blast)
qed (use wf in \<open>simp_all add: grows_refl\<close>)

lemma preload_all_grow_step:
  assumes spec: "grow_spec L n" and p: "preload_all L (Suc n) ms s = Some (ok, s')" and wf: "qm_wf (modules s)"
  shows "grows L s s'"
proof (cases ms)
  case Nil
  with p wf show ?thesis by (simp add: probe_steps grows_refl)
next
  case (Cons m ms')
  with p have "then_ok (modprobe L n m s) (preload_all L n ms') = Some (ok, s')" by (simp add: probe_steps)
  then show ?thesis
  proof (cases rule: then_okE)
    case (1 t)
    note g1 = grow_specD(1) [OF spec wf 1(1), THEN conjunct1]
    show ?thesis using grow_specD(3) [OF spec growsD(3) [OF g1] 1(2)] grows_trans [OF g1] by blast
  qed (use grow_specD(1) [OF spec wf] in blast)
qed

lemma grow_spec: "grow_spec L n"
proof (induction n)
  case (Suc n)
  then show ?case unfolding grow_spec_def [of L "Suc n"]
    using modprobe_grow_step load_loop_grow_step preload_all_grow_step by blast
qed (simp add: grow_spec_def)

lemmas modprobe_grows = grow_specD(1) [OF grow_spec]
  and load_loop_grows = grow_specD(2) [OF grow_spec]
  and preload_all_grows = grow_specD(3) [OF grow_spec]

section \<open>Fuel\<close>

lemma then_ok_mono:
  "(\<And>r. m = Some r \<Longrightarrow> m' = Some r) \<Longrightarrow> (\<And>s r. f s = Some r \<Longrightarrow> f' s = Some r) \<Longrightarrow>
   then_ok m f = Some r \<Longrightarrow> then_ok m' f' = Some r"
  by (cases r) (auto elim!: then_okE simp: then_ok_Some)

lemma fuel_Suc:
  "(\<forall>name s r. modprobe L n name s = Some r \<longrightarrow> modprobe L (Suc n) name s = Some r)
   \<and> (\<forall>name s r. load_loop L n name s = Some r \<longrightarrow> load_loop L (Suc n) name s = Some r)
   \<and> (\<forall>ms s r. preload_all L n ms s = Some r \<longrightarrow> preload_all L (Suc n) ms s = Some r)"
proof (induction n)
  case (Suc n)
  then have M: "\<And>name s r. modprobe L n name s = Some r \<Longrightarrow> modprobe L (Suc n) name s = Some r"
    and D: "\<And>name s r. load_loop L n name s = Some r \<Longrightarrow> load_loop L (Suc n) name s = Some r"
    and P: "\<And>ms s r. preload_all L n ms s = Some r \<Longrightarrow> preload_all L (Suc n) ms s = Some r" by blast+
  have "modprobe L (Suc (Suc n)) name s = Some r" if "modprobe L (Suc n) name s = Some r" for name s r
    using that by (subst (asm) probe_steps(1), subst probe_steps(1)) (auto split: if_splits option.splits elim!: then_ok_mono [rotated 2] intro: D P)
  moreover have "load_loop L (Suc (Suc n)) name s = Some r" if "load_loop L (Suc n) name s = Some r" for name s r
    using that by (subst (asm) probe_steps(2), subst probe_steps(2)) (auto split: if_splits option.splits elim!: then_ok_mono [rotated 2] intro: M D)
  moreover have "preload_all L (Suc (Suc n)) ms s = Some r" if "preload_all L (Suc n) ms s = Some r" for ms s r
    using that by (subst (asm) probe_steps(3), subst probe_steps(3)) (auto split: list.splits elim!: then_ok_mono [rotated 2] intro: M P)
  ultimately show ?case by blast
qed simp

lemma fuel_mono:
  assumes "n \<le> m"
  shows "modprobe L n name s = Some r \<Longrightarrow> modprobe L m name s = Some r"
    and "load_loop L n name s = Some r \<Longrightarrow> load_loop L m name s = Some r"
    and "preload_all L n ms s = Some r \<Longrightarrow> preload_all L m ms s = Some r"
  using assms by (induction m rule: dec_induct) (use fuel_Suc in blast)+

section \<open>Success\<close>

text \<open>Every failure of the linker names a symbol that a module not loaded yet provides, and
  the modules that a module needs come before it in some ranking: no cycles.\<close>

definition resolvable :: "linker \<Rightarrow> (string \<Rightarrow> nat) \<Rightarrow> (string, string) qmap \<Rightarrow> bool" where
  "resolvable L rk sm \<longleftrightarrow>
     (\<forall>ms name err. L ms name = Some err \<longrightarrow> (\<exists>symb md. undefined_symbol err = Some symb
        \<and> map_of sm symb = Some md \<and> md \<notin> set ms \<and> rk md < rk name))
   \<and> (\<forall>name ms m. pinetd_preload name = Some ms \<longrightarrow> m \<in> set ms \<longrightarrow> rk m < rk name)"

lemma load_loop_done: "L (qm_keys (modules s)) name = None \<Longrightarrow> load_loop L (Suc n) name s = Some (True, s)"
  by (simp add: probe_steps)

lemma load_loop_next:
  assumes "L (qm_keys (modules s)) name = Some err" "undefined_symbol err = Some symb"
    "map_of (sym_map s) symb = Some md" "md \<notin> set (qm_keys (modules s))"
    "modprobe L n md s = Some (True, t)" "load_loop L n name t = Some r"
  shows "load_loop L (Suc n) name s = Some r"
  using assms by (simp add: probe_steps contains_keys then_ok_def)

lemma load_loop_succeeds:
  assumes res: "resolvable L rk sm"
    and M: "\<And>md s. rk md < rk name \<Longrightarrow> sym_map s = sm \<Longrightarrow> qm_wf (modules s) \<Longrightarrow> \<exists>n s'. modprobe L n md s = Some (True, s')"
    and s: "sym_map s = sm" "qm_wf (modules s)"
  shows "\<exists>n s'. load_loop L n name s = Some (True, s')"
  using s
proof (induction "card (ran (map_of sm) - set (qm_keys (modules s)))" arbitrary: s rule: less_induct)
  case less
  show ?case
  proof (cases "L (qm_keys (modules s)) name")
    case None
    then show ?thesis using load_loop_done by blast
  next
    case (Some err)
    with res obtain symb md where md: "undefined_symbol err = Some symb" "map_of sm symb = Some md"
        "md \<notin> set (qm_keys (modules s))" "rk md < rk name" unfolding resolvable_def by blast
    from M [OF md(4) less.prems] obtain n t where t: "modprobe L n md s = Some (True, t)" by blast
    from modprobe_grows [OF less.prems(2) t] have g: "grows L s t" and "md \<in> set (qm_keys (modules t))"
      by (simp_all add: contains_keys)
    then have "ran (map_of sm) - set (qm_keys (modules t)) \<subset> ran (map_of sm) - set (qm_keys (modules s))"
      using growsD(9) [OF g] md ranI [of "map_of sm" symb md] by blast
    then have "card (ran (map_of sm) - set (qm_keys (modules t))) < card (ran (map_of sm) - set (qm_keys (modules s)))"
      by (intro psubset_card_mono) (simp_all add: finite_ran finite_dom_map_of)
    from less.hyps [OF this] g less.prems obtain m u where "load_loop L m name t = Some (True, u)"
      by (auto simp: growsD)
    then have "load_loop L (Suc (max n m)) name s = Some (True, u)"
      using md(1-3) less.prems(1) by (intro load_loop_next [where L = L and s = s and t = t and md = md and symb = symb, OF Some])
        (simp_all add: fuel_mono(1) [OF max.cobounded1 t] fuel_mono(2) [OF max.cobounded2])
    then show ?thesis by blast
  qed
qed

lemma preload_all_succeeds:
  assumes "\<And>md s. md \<in> set ms \<Longrightarrow> sym_map s = sm \<Longrightarrow> qm_wf (modules s) \<Longrightarrow> \<exists>n s'. modprobe L n md s = Some (True, s')"
    "sym_map s = sm" "qm_wf (modules s)"
  shows "\<exists>n s'. preload_all L n ms s = Some (True, s')"
  using assms
proof (induction ms arbitrary: s)
  case Nil
  have "preload_all L (Suc 0) [] s = Some (True, s)" by (simp add: probe_steps)
  then show ?case by blast
next
  case (Cons m ms)
  from Cons.prems obtain n t where t: "modprobe L n m s = Some (True, t)" by (metis list.set_intros(1))
  with modprobe_grows Cons.prems have g: "grows L s t" by blast
  then have "sym_map t = sm" "qm_wf (modules t)" using growsD(1,3) [OF g] Cons.prems(2) by simp_all
  with Cons.IH [of t] Cons.prems(1) obtain k u where "preload_all L k ms t = Some (True, u)" by auto
  then have "preload_all L (Suc (max n k)) (m # ms) s = Some (True, u)"
    using fuel_mono(1) [OF max.cobounded1 t] fuel_mono(3) [OF max.cobounded2]
    by (simp add: probe_steps then_ok_def)
  then show ?case by blast
qed

lemma modprobe_succeeds:
  assumes res: "resolvable L rk sm"
  shows "sym_map s = sm \<Longrightarrow> qm_wf (modules s) \<Longrightarrow> \<exists>n s'. modprobe L n name s = Some (True, s')"
proof (induction "rk name" arbitrary: name s rule: less_induct)
  case less
  show ?case
  proof (cases "qm_contains (modules s) name")
    case True
    then have "modprobe L (Suc 0) name s = Some (True, s)" by (simp add: probe_steps)
    then show ?thesis by blast
  next
    case False
    from load_loop_succeeds [OF res less.hyps less.prems] obtain n t where t: "load_loop L n name s = Some (True, t)"
      by blast
    with load_loop_grows less.prems have g: "grows L s t" by blast
    obtain m u where u: "(case pinetd_preload name of None \<Rightarrow> Some (True, t) | Some ms \<Rightarrow> preload_all L m ms t) = Some (True, u)"
    proof (cases "pinetd_preload name")
      case (Some ms)
      with res have "rk md < rk name" if "md \<in> set ms" for md using that by (auto simp: resolvable_def)
      with less.hyps have "\<exists>n s'. modprobe L n md s = Some (True, s')"
        if "md \<in> set ms" "sym_map s = sm" "qm_wf (modules s)" for md s using that by blast
      from preload_all_succeeds [of ms sm L t, OF this] obtain m u where "preload_all L m ms t = Some (True, u)"
        using growsD(1,3) [OF g] less.prems(1) by auto
      with Some show ?thesis using that by simp
    qed (use that in simp)
    then have "(case pinetd_preload name of None \<Rightarrow> Some (True, t) | Some ms \<Rightarrow> preload_all L (max n m) ms t) = Some (True, u)"
      using fuel_mono(3) [OF max.cobounded2] by (auto split: option.splits)
    with False fuel_mono(2) [OF max.cobounded1 t]
    have "modprobe L (Suc (max n m)) name s = Some (True, u\<lparr>modules := qm_insert name (new_library name) (modules u)\<rparr>)"
      by (simp add: probe_steps then_ok_def)
    then show ?thesis by blast
  qed
qed

section \<open>Cycles\<close>

text \<open>Two modules that each miss a symbol of the other: no fuel is enough, the code recurses
  for ever.\<close>

lemma modprobe_cycle:
  assumes "L (qm_keys (modules s)) a = Some ea" "undefined_symbol ea = Some xa" "map_of (sym_map s) xa = Some b"
    "L (qm_keys (modules s)) b = Some eb" "undefined_symbol eb = Some xb" "map_of (sym_map s) xb = Some a"
    "\<not> qm_contains (modules s) a" "\<not> qm_contains (modules s) b"
  shows "modprobe L n a s = None \<and> modprobe L n b s = None \<and> load_loop L n a s = None \<and> load_loop L n b s = None"
  by (induction n) (simp_all add: probe_steps assms then_ok_def)

end
