(* ===== verification/Core_Reload.thy ===== *)
theory Core_Reload
  imports Core_Config_Proofs
begin

text \<open>
  What a reload leaves behind. The three loops over the configured addresses share a contract,
  the locale \<open>port_table\<close>: a known address is retargeted and ticked off, a new one is
  opened or orphaned. The table after the reload follows from it once, and is instantiated for
  the three kinds of port. Then the properties of core/Core.
\<close>

section \<open>Tables of endpoints\<close>

locale port_table =
  fixes turn :: "string \<times> string \<Rightarrow> ports \<Rightarrow> ports"
    and retarget :: "string \<Rightarrow> endpoint \<Rightarrow> endpoint"
    and open_port :: "string \<Rightarrow> string \<Rightarrow> endpoint + endpoint"
  assumes turn_known: "map_of tab k = Some e \<Longrightarrow>
      turn (k, v) (tab, cur, orph) = (qm_insert k (retarget v e) tab, removeAll k cur, orph)"
    and turn_opened: "map_of tab k = None \<Longrightarrow> open_port k v = Inr e \<Longrightarrow>
      turn (k, v) (tab, cur, orph) = (qm_insert k e tab, cur, orph)"
    and turn_orphaned: "map_of tab k = None \<Longrightarrow> open_port k v = Inl e \<Longrightarrow>
      turn (k, v) (tab, cur, orph) = (tab, cur, orph @ [e])"
begin

text \<open>The endpoint of an address, given its configured target and the endpoint it had.\<close>

definition new_entry :: "string \<Rightarrow> string option \<Rightarrow> endpoint option \<Rightarrow> endpoint option" where
  "new_entry k v old = (case v of None \<Rightarrow> None
     | Some t \<Rightarrow> (case old of Some e \<Rightarrow> Some (retarget t e)
         | None \<Rightarrow> (case open_port k t of Inr e \<Rightarrow> Some e | Inl _ \<Rightarrow> None)))"

lemma turn_effect:
  assumes "qm_wf tab" "turn (k, v) (tab, cur, orph) = (tab', cur', orph')"
  shows "qm_wf tab' \<and> map_of tab' = (map_of tab)(k := new_entry k (Some v) (map_of tab k))
    \<and> set cur' = (if map_of tab k = None then set cur else set cur - {k})
    \<and> length orph \<le> length orph'
    \<and> (map_of tab k = None \<and> (\<exists>e. open_port k v = Inl e) \<longrightarrow> length orph < length orph')"
proof (cases "map_of tab k")
  case (Some e)
  with assms turn_known [OF Some] show ?thesis by (auto simp: new_entry_def qmap_simps)
next
  case None
  show ?thesis
  proof (cases "open_port k v")
    case (Inl e)
    with assms turn_orphaned [OF None Inl] None show ?thesis by (auto simp: new_entry_def)
  next
    case (Inr e)
    with assms turn_opened [OF None Inr] None show ?thesis by (auto simp: new_entry_def qmap_simps)
  qed
qed

lemma fold_turn:
  assumes "qm_wf tab" "distinct (map fst k)" "fold turn k (tab, cur, orph) = (tab', cur', orph')"
  shows "qm_wf tab'
    \<and> (\<forall>a. map_of tab' a = (if a \<in> set (map fst k) then new_entry a (map_of k a) (map_of tab a) else map_of tab a))
    \<and> set cur' = set cur - (set (map fst k) \<inter> dom (map_of tab))"
  using assms
proof (induction k arbitrary: tab cur orph)
  case (Cons kv k)
  obtain a v where kv: "kv = (a, v)" by (cases kv)
  obtain tab1 cur1 orph1 where t1: "turn (a, v) (tab, cur, orph) = (tab1, cur1, orph1)" by (metis prod_cases3)
  note e = turn_effect [OF Cons.prems(1) t1]
  have "qm_wf tab1" "distinct (map fst k)" "fold turn k (tab1, cur1, orph1) = (tab', cur', orph')"
    using e Cons.prems kv t1 by auto
  note ih = Cons.IH [OF this]
  have "a \<notin> set (map fst k)" using Cons.prems kv by simp
  with ih e kv show ?case by (auto simp: dom_def split: if_splits)
qed simp

lemma fold_turn_orphans:
  assumes "qm_wf tab" "distinct (map fst k)" "fold turn k (tab, cur, orph) = (tab', cur', orph')"
  shows "length orph \<le> length orph'
    \<and> ((a, v) \<in> set k \<longrightarrow> map_of tab a = None \<longrightarrow> (\<exists>e. open_port a v = Inl e) \<longrightarrow> length orph < length orph')"
  using assms
proof (induction k arbitrary: tab cur orph)
  case (Cons kv k)
  obtain b w where kv: "kv = (b, w)" by (cases kv)
  obtain tab1 cur1 orph1 where t1: "turn (b, w) (tab, cur, orph) = (tab1, cur1, orph1)" by (metis prod_cases3)
  note e = turn_effect [OF Cons.prems(1) t1]
  have "qm_wf tab1" "distinct (map fst k)" "fold turn k (tab1, cur1, orph1) = (tab', cur', orph')"
    using e Cons.prems kv t1 by auto
  note ih = Cons.IH [OF this]
  have "map_of tab1 a = map_of tab a" if "(a, v) \<in> set k"
  proof -
    have "a \<noteq> b" using that Cons.prems(2) kv by (auto simp: image_iff)
    then show ?thesis using e by simp
  qed
  with ih e kv show ?case by (auto dest: le_less_trans less_le_trans)
qed simp

lemma reload_table:
  assumes "qm_wf tab" "distinct (map fst k)" "reload_ports turn k tab = (tab', orph)"
  shows "qm_wf tab' \<and> map_of tab' a = new_entry a (map_of k a) (map_of tab a)"
proof -
  obtain tab1 cur1 orph1 where f: "fold turn k (tab, qm_keys tab, []) = (tab1, cur1, orph1)"
    by (metis prod_cases3)
  note t = fold_turn [OF assms(1,2) f]
  have tab': "tab' = fold qm_remove cur1 tab1" using assms(3) f by (simp add: reload_ports_def)
  then have wf: "qm_wf tab'" using qmap.fold_del t by auto
  have cur1: "set cur1 = dom (map_of tab) - set (map fst k)" using t by (auto simp: set_qm_keys)
  have "map_of tab' a = (if a \<in> set cur1 then None else map_of tab1 a)"
    using qmap.fold_del [of tab1 cur1] t tab' by auto
  also have "\<dots> = new_entry a (map_of k a) (map_of tab a)"
  proof (cases "a \<in> set (map fst k)")
    case False
    then have "map_of k a = None" by (simp add: map_of_eq_None_iff)
    with False t cur1 show ?thesis by (auto simp: new_entry_def dom_def)
  qed (use t cur1 in \<open>simp add: set_qm_keys\<close>)
  finally show ?thesis using wf by simp
qed

lemma reload_orphans:
  assumes "qm_wf tab" "distinct (map fst k)" "reload_ports turn k tab = (tab', orph)"
    "(a, v) \<in> set k" "map_of tab a = None" "open_port a v = Inl e"
  shows "orph \<noteq> []"
proof -
  obtain tab1 cur1 orph1 where f: "fold turn k (tab, qm_keys tab, []) = (tab1, cur1, orph1)"
    by (metis prod_cases3)
  with fold_turn_orphans [OF assms(1,2) f, of a v] assms(3-6) show ?thesis by (auto simp: reload_ports_def)
qed

text \<open>What holds of every endpoint the code makes holds of the whole table.\<close>

lemma reload_all:
  assumes "qm_wf tab" "distinct (map fst k)" "reload_ports turn k tab = (tab', orph)"
    "map_of tab' a = Some e"
    "\<And>e0. map_of tab a = Some e0 \<Longrightarrow> P e0"
    "\<And>v e0. P e0 \<Longrightarrow> Q v (retarget v e0)" "\<And>v e0. open_port a v = Inr e0 \<Longrightarrow> Q v e0"
  shows "\<exists>v. map_of k a = Some v \<and> Q v e"
  using reload_table [OF assms(1-3), of a] assms(4-7)
  by (auto simp: new_entry_def split: option.splits sum.splits)

end

definition addr_parts :: "string \<Rightarrow> string list" where
  "addr_parts k = split_on CHR '':'' k"

text \<open>The daemon and the entry that a configured value names.\<close>

definition target_parts :: "string \<Rightarrow> string list" where
  "target_parts v = (let tgt = split_on CHR '':'' v in if length tgt = 1 then tgt @ [''main''] else tgt)"

definition udg_parts :: "string \<Rightarrow> string list" where
  "udg_parts v = (let tgt = split_on CHR '':'' v in tgt @ replicate (3 - length tgt) ''main'')"

definition tcp_open :: "core_env \<Rightarrow> (string \<Rightarrow> nat option) \<Rightarrow> string \<Rightarrow> string \<Rightarrow> endpoint + endpoint" where
  "tcp_open env getd k v =
     (let t = tcp_setTarget (getd (target_parts v ! 0)) (target_parts v ! 1) new_endpoint in
      if length (addr_parts k) = 2 \<and> e_listen_tcp env (addr_parts k ! 0) (addr_parts k ! 1) then Inr t else Inl t)"

definition udp_open :: "core_env \<Rightarrow> (string \<Rightarrow> nat option) \<Rightarrow> string \<Rightarrow> string \<Rightarrow> endpoint + endpoint" where
  "udp_open env getd k v =
     (let t = udp_setTarget (getd (target_parts v ! 0)) (target_parts v ! 1) new_endpoint in
      if length (addr_parts k) = 2 \<and> e_bind_udp env (addr_parts k ! 0) (addr_parts k ! 1) then Inr t else Inl t)"

definition udg_open :: "core_env \<Rightarrow> (string \<Rightarrow> nat option) \<Rightarrow> string \<Rightarrow> string \<Rightarrow> endpoint + endpoint" where
  "udg_open env getd k v =
     (if e_listen_udg env (udg_parts v ! 0)
      then Inr (udg_setTarget (getd (udg_parts v ! 1)) (udg_parts v ! 2) new_endpoint) else Inl new_endpoint)"

lemmas turn_defs = tcp_turn_def udp_turn_def udg_turn_def tcp_open_def udp_open_def udg_open_def
  target_parts_def udg_parts_def addr_parts_def

interpretation tcp_ports: port_table "tcp_turn env getd"
    "\<lambda>v. tcp_setTarget (getd (target_parts v ! 0)) (target_parts v ! 1)" "tcp_open env getd" for env getd
  by unfold_locales (auto simp: turn_defs Let_def split: if_splits)

interpretation udp_ports: port_table "udp_turn env getd"
    "\<lambda>v. udp_setTarget (getd (target_parts v ! 0)) (target_parts v ! 1)" "udp_open env getd" for env getd
  by unfold_locales (auto simp: turn_defs Let_def split: if_splits)

interpretation udg_ports: port_table "udg_turn env getd"
    "\<lambda>v. udg_setTarget (getd (udg_parts v ! 1)) (udg_parts v ! 2)" "udg_open env getd" for env getd
  by unfold_locales (auto simp: turn_defs Let_def split: if_splits)

section \<open>Daemons\<close>

definition daemons_ok :: "core \<Rightarrow> bool" where
  "daemons_ok s \<longleftrightarrow> qm_wf (modules s) \<and> qm_wf (daemons s)
     \<and> (\<forall>k d. map_of (daemons s) k = Some d \<longrightarrow> d < next_obj s)
     \<and> (\<forall>k l d. map_of (daemons s) k = Some d \<longrightarrow> map_of (daemons s) l = Some d \<longrightarrow> k = l)"

definition same_ports :: "core \<Rightarrow> core \<Rightarrow> bool" where
  "same_ports s s' \<longleftrightarrow> port_tcp s' = port_tcp s \<and> port_udp s' = port_udp s \<and> port_udg s' = port_udg s
     \<and> orphans s' = orphans s"

lemma grows_daemons_ok: "grows L s s' \<Longrightarrow> daemons_ok s \<Longrightarrow> daemons_ok s'"
  by (simp add: daemons_ok_def growsD)

lemma grows_same_ports: "grows L s s' \<Longrightarrow> same_ports s s'"
  by (simp add: same_ports_def growsD)

lemma same_ports_trans: "same_ports s t \<Longrightarrow> same_ports t u \<Longrightarrow> same_ports s u"
  by (simp add: same_ports_def)

lemma same_ports_refl: "same_ports s s"
  by (simp add: same_ports_def)

lemma load_preloads_grows:
  "load_preloads env n k s = Some s' \<Longrightarrow> qm_wf (modules s) \<Longrightarrow> grows (e_linker env) s s'"
proof (induction k arbitrary: s)
  case Nil
  then show ?case by (simp add: grows_refl)
next
  case (Cons kv k)
  then obtain ok t where t: "modprobe (e_linker env) n (snd kv) s = Some (ok, t)" "load_preloads env n k t = Some s'"
    by (cases kv) (auto split: option.splits)
  then have g: "grows (e_linker env) s t" using modprobe_grows Cons.prems(2) by blast
  from grows_trans [OF g Cons.IH [OF t(2) growsD(3) [OF g]]] show ?case .
qed

definition add_daemon :: "string \<Rightarrow> core \<Rightarrow> core" where
  "add_daemon k s = s\<lparr>daemons := qm_insert k (next_obj s) (daemons s), next_obj := next_obj s + 1\<rparr>"

lemma add_daemon_ok: "daemons_ok s \<Longrightarrow> map_of (daemons s) k = None \<Longrightarrow>
    daemons_ok (add_daemon k s) \<and> same_ports s (add_daemon k s)
    \<and> map_of (daemons (add_daemon k s)) = (map_of (daemons s))(k \<mapsto> next_obj s)
    \<and> doomed (add_daemon k s) = doomed s"
  by (fastforce simp: daemons_ok_def same_ports_def add_daemon_def qmap_simps less_Suc_eq)

lemma load_daemons_spec:
  "load_daemons env n k cur s = Some (cur', s') \<Longrightarrow> daemons_ok s \<Longrightarrow> distinct (map fst k) \<Longrightarrow>
   daemons_ok s' \<and> same_ports s s' \<and> doomed s' = doomed s
   \<and> map_of (daemons s) \<subseteq>\<^sub>m map_of (daemons s')
   \<and> dom (map_of (daemons s')) \<subseteq> dom (map_of (daemons s)) \<union> set (map fst k)
   \<and> set cur' = set cur - (set (map fst k) \<inter> dom (map_of (daemons s)))"
proof (induction k arbitrary: cur s)
  case Nil
  then show ?case by (simp add: same_ports_refl)
next
  case (Cons kv k)
  obtain a md where kv: "kv = (a, md)" by (cases kv)
  show ?case
  proof (cases "map_of (daemons s) a")
    case (Some d)
    then have "load_daemons env n k (removeAll a cur) s = Some (cur', s')"
      using Cons.prems(1) kv by (simp add: qm_contains_def)
    from Cons.IH [OF this Cons.prems(2)] Cons.prems(3) kv Some show ?thesis by auto
  next
    case None
    then obtain ok t where t: "modprobe (e_linker env) n md s = Some (ok, t)"
      using Cons.prems(1) kv by (auto simp: qm_contains_def split: option.splits)
    with modprobe_grows Cons.prems(2) have g: "grows (e_linker env) s t" by (auto simp: daemons_ok_def)
    define u where "u = (if ok \<and> e_instanciate env md a then add_daemon a t else t)"
    have l: "load_daemons env n k cur u = Some (cur', s')"
      using Cons.prems(1) kv None t by (simp add: u_def qm_contains_def add_daemon_def split: if_splits)
    have tn: "map_of (daemons t) a = None" using None growsD(2) [OF g] by simp
    have u: "daemons_ok u \<and> same_ports s u \<and> doomed u = doomed s
        \<and> map_of (daemons u) = (if ok \<and> e_instanciate env md a then (map_of (daemons s))(a \<mapsto> next_obj t) else map_of (daemons s))"
      using add_daemon_ok [OF grows_daemons_ok [OF g Cons.prems(2)] tn] grows_daemons_ok [OF g Cons.prems(2)]
        same_ports_trans [OF grows_same_ports [OF g]] grows_same_ports [OF g] growsD(2,8) [OF g]
      by (auto simp: u_def)
    have "a \<notin> set (map fst k)" using Cons.prems(3) kv by simp
    then have ih: "daemons_ok s'" "same_ports u s'" "doomed s' = doomed u" "map_of (daemons u) \<subseteq>\<^sub>m map_of (daemons s')"
      "dom (map_of (daemons s')) \<subseteq> dom (map_of (daemons u)) \<union> set (map fst k)"
      "set cur' = set cur - (set (map fst k) \<inter> dom (map_of (daemons u)))"
      using Cons.IH [OF l] u Cons.prems(3) kv by auto
    have "map_of (daemons s) \<subseteq>\<^sub>m map_of (daemons u)" using u None by (auto simp: map_le_def)
    then have "map_of (daemons s) \<subseteq>\<^sub>m map_of (daemons s')" using ih(4) by (rule map_le_trans)
    moreover have "set (map fst k) \<inter> dom (map_of (daemons u)) = set (map fst (kv # k)) \<inter> dom (map_of (daemons s))"
      using u None kv \<open>a \<notin> set (map fst k)\<close> by auto
    moreover have "dom (map_of (daemons u)) \<subseteq> insert a (dom (map_of (daemons s)))" using u by auto
    then have "dom (map_of (daemons s')) \<subseteq> dom (map_of (daemons s)) \<union> set (map fst (kv # k))"
      using ih(5) unfolding kv list.map fst_conv list.set by blast
    moreover have "same_ports s s'" "doomed s' = doomed s"
      using ih(2,3) u same_ports_trans [of s u s'] by simp_all
    ultimately show ?thesis using ih(1,6) by simp
  qed
qed

lemma drop_daemon_fields [simp]: "port_tcp (drop_daemon k s) = port_tcp s" "port_udp (drop_daemon k s) = port_udp s"
  "port_udg (drop_daemon k s) = port_udg s" "orphans (drop_daemon k s) = orphans s" "modules (drop_daemon k s) = modules s"
  "next_obj (drop_daemon k s) = next_obj s" "daemons (drop_daemon k s) = qm_remove k (daemons s)"
  "sym_map (drop_daemon k s) = sym_map s"
  by (simp_all add: drop_daemon_def)

lemma drop_daemons:
  "daemons_ok s \<Longrightarrow> daemons_ok (fold drop_daemon cur s) \<and> same_ports s (fold drop_daemon cur s)
     \<and> map_of (daemons (fold drop_daemon cur s)) = (map_of (daemons s)) |` (- set cur)
     \<and> set (doomed s) \<subseteq> set (doomed (fold drop_daemon cur s))
     \<and> (\<forall>k d. k \<in> set cur \<longrightarrow> map_of (daemons s) k = Some d \<longrightarrow> d \<in> set (doomed (fold drop_daemon cur s)))"
proof (induction cur arbitrary: s)
  case (Cons a cur)
  have ok: "daemons_ok (drop_daemon a s)"
    using Cons.prems by (auto simp: daemons_ok_def qmap_simps split: if_splits)
  have m: "map_of (daemons (drop_daemon a s)) = (map_of (daemons s))(a := None)"
    using Cons.prems by (simp add: daemons_ok_def qmap_simps)
  have d: "set (doomed s) \<subseteq> set (doomed (drop_daemon a s))"
    "map_of (daemons s) a = Some d \<Longrightarrow> d \<in> set (doomed (drop_daemon a s))" for d
    by (auto simp: drop_daemon_def)
  have p: "same_ports s (drop_daemon a s)" by (simp add: same_ports_def)
  have r: "(\<lambda>b. if b = a then None else map_of (daemons s) b) |` (- set cur) = map_of (daemons s) |` (- insert a (set cur))"
    by (auto simp: restrict_map_def fun_eq_iff)
  have i: "k \<in> set cur \<Longrightarrow> map_of (daemons s) k = Some d \<Longrightarrow>
      d \<in> set (doomed (fold drop_daemon cur (drop_daemon a s)))" for k d
    using Cons.IH [OF ok] m d by (cases "k = a") auto
  show ?case
    using Cons.IH [OF ok] d r i same_ports_trans [OF p] unfolding m by auto
qed (simp add: same_ports_refl restrict_map_def)

lemma reload_daemons_spec:
  assumes "reload_daemons env n k s = Some s'" "daemons_ok s" "distinct (map fst k)"
  shows "daemons_ok s' \<and> same_ports s s' \<and> dom (map_of (daemons s')) \<subseteq> set (map fst k)
    \<and> (\<forall>a d. a \<in> set (map fst k) \<longrightarrow> map_of (daemons s) a = Some d \<longrightarrow> map_of (daemons s') a = Some d)
    \<and> (\<forall>a d. a \<notin> set (map fst k) \<longrightarrow> map_of (daemons s) a = Some d \<longrightarrow> d \<in> set (doomed s'))"
proof -
  from assms(1) obtain cur t where t: "load_daemons env n k (qm_keys (daemons s)) s = Some (cur, t)"
      and s': "s' = fold drop_daemon cur t"
    by (auto simp: reload_daemons_def)
  note l = load_daemons_spec [OF t assms(2,3)]
  then have cur: "set cur = dom (map_of (daemons s)) - set (map fst k)"
    by (auto simp: set_qm_keys)
  have ok: "daemons_ok t" using l by blast
  have le: "map_of (daemons s) a = Some d \<Longrightarrow> map_of (daemons t) a = Some d" for a d
    using l by (auto simp: map_le_def dom_def)
  have dd: "d \<in> set (doomed s')" if "a \<notin> set (map fst k)" "map_of (daemons s) a = Some d" for a d
    using drop_daemons [OF ok, of cur] le [OF that(2)] that cur unfolding s' by blast
  have m: "map_of (daemons s') = map_of (daemons t) |` (- (dom (map_of (daemons s)) - set (map fst k)))"
    using drop_daemons [OF ok, of cur] cur by (simp add: s')
  have "dom (map_of (daemons t)) \<subseteq> dom (map_of (daemons s)) \<union> set (map fst k)" using l by blast
  then have "dom (map_of (daemons s')) \<subseteq> set (map fst k)" unfolding m by auto
  moreover have "map_of (daemons s') a = Some d" if "a \<in> set (map fst k)" "map_of (daemons s) a = Some d" for a d
    using le [OF that(2)] that(1) by (simp add: m restrict_map_def)
  ultimately show ?thesis
    using drop_daemons [OF ok, of cur] l dd same_ports_trans [of s t] by (simp add: s')
qed

end
