(* ===== verification/Core_Config_Props.thy ===== *)
theory Core_Config_Props
  imports Core_Reload
begin

text \<open>
  The properties of core/Core: reading the symbol table, loading modules, and the tables after a
  reconfiguration, over the states that its slots can reach.
\<close>

section \<open>The symbol file\<close>

text \<open>A line of symbols.txt: the module, the symbol, and the rest, which the reader ignores.\<close>

definition plain_char :: "char \<Rightarrow> bool" where
  "plain_char c \<longleftrightarrow> \<not> is_space (byte_of_char c)"

definition plain_word :: "string \<Rightarrow> bool" where
  "plain_word w \<longleftrightarrow> w \<noteq> [] \<and> list_all plain_char w"

definition sym_line :: "string \<times> string \<times> string \<Rightarrow> bytes" where
  "sym_line e = (case e of (md, sy, rest) \<Rightarrow> lit (md @ '' '' @ sy @ '' '' @ rest))"

lemma latin1_lit [simp]: "latin1 (lit s) = s"
proof -
  have "char_of (unat (byte_of_char c)) = c" for c
  proof -
    have "of_char c < (2 ^ LENGTH(8) :: nat)" using nat_of_char_less_256 [of c] by simp
    then have "unat (byte_of_char c) = of_char c" by (simp add: byte_of_char_def unat_of_nat)
    then show ?thesis by simp
  qed
  then show ?thesis by (induction s) (simp_all add: latin1_def)
qed

lemma trimmed_front:
  assumes "x \<noteq> []" "\<not> is_space (hd x)" "\<not> is_space (last x)"
  shows "\<exists>z. trimmed (x @ y) = x @ z \<and> (\<exists>t. y = z @ t)"
proof -
  have "dropWhile is_space (x @ y) = x @ y" using assms by (cases x) simp_all
  moreover have "dropWhile is_space (rev y @ rev x) = dropWhile is_space (rev y) @ rev x"
  proof (cases "dropWhile is_space (rev y) = []")
    case True
    then have "dropWhile is_space (rev y @ rev x) = dropWhile is_space (rev x)"
      by (intro dropWhile_append2) (simp add: dropWhile_eq_Nil_conv)
    then show ?thesis using True assms dropWhile_last_keep [of x is_space] by simp
  next
    case False
    then obtain a where "a \<in> set (rev y)" "\<not> is_space a" by (auto simp: dropWhile_eq_Nil_conv)
    then show ?thesis by (rule dropWhile_append1)
  qed
  ultimately have "trimmed (x @ y) = x @ rev (dropWhile is_space (rev y))" by (simp add: trimmed_def)
  moreover have "\<exists>t. y = rev (dropWhile is_space (rev y)) @ t"
    by (metis rev_append rev_rev_ident takeWhile_dropWhile_id)
  ultimately show ?thesis by blast
qed

lemma split_on_front: "c \<notin> set a \<Longrightarrow> split_on c (a @ c # b) = a # split_on c b"
  by (induction a) auto

lemma split_on_all: "c \<notin> set a \<Longrightarrow> split_on c a = [a]"
  by (induction a) auto

lemma file_lines_line: "10 \<notin> set l \<Longrightarrow> file_lines (l @ 10 # b) = (l @ [10]) # file_lines b"
  by (induction l) auto

lemma plain_word_space: "plain_word w \<Longrightarrow> CHR '' '' \<notin> set w"
proof -
  have "is_space (byte_of_char CHR '' '')" by code_simp
  then show "plain_word w \<Longrightarrow> CHR '' '' \<notin> set w" by (auto simp: plain_word_def plain_char_def list_all_iff)
qed

lemma plain_word_ends: "plain_word w \<Longrightarrow> w \<noteq> [] \<and> \<not> is_space (hd (lit w)) \<and> \<not> is_space (last (lit w))"
  by (simp add: plain_word_def plain_char_def lit_def hd_map last_map list_all_iff)

lemma symbol_line_ok:
  assumes "plain_word md" "plain_word sy"
  shows "symbol_line (sym_line (md, sy, rest) @ [10]) s = Inr (s\<lparr>sym_map := qm_insert sy md (sym_map s)\<rparr>)"
proof -
  let ?x = "lit (md @ '' '' @ sy)"
  have e: "?x \<noteq> []" "\<not> is_space (hd ?x)" "\<not> is_space (last ?x)"
    using plain_word_ends [OF assms(1)] plain_word_ends [OF assms(2)]
    by (auto simp: lit_def hd_append hd_map last_map)
  from trimmed_front [OF e, of "lit ('' '' @ rest) @ [10]"] obtain z t
    where z: "trimmed (?x @ lit ('' '' @ rest) @ [10]) = ?x @ z" "lit ('' '' @ rest) @ [10] = z @ t" by blast
  have "z = [] \<or> hd z = byte_of_char CHR '' ''"
    using z(2) by (cases z) (auto simp: lit_def)
  then have lz: "latin1 z = [] \<or> (\<exists>r. latin1 z = CHR '' '' # r)"
  proof
    assume "hd z = byte_of_char CHR '' ''"
    moreover have "char_of (unat (byte_of_char CHR '' '')) = CHR '' ''" using latin1_lit [of "'' ''"]
      by (simp add: latin1_def)
    ultimately show ?thesis by (cases z) (simp_all add: latin1_def)
  qed (simp add: latin1_def)
  have "latin1 (?x @ z) = md @ CHR '' '' # sy @ latin1 z"
  proof -
    have "latin1 (?x @ z) = latin1 ?x @ latin1 z" by (simp add: latin1_def)
    then show ?thesis by (simp only: latin1_lit) simp
  qed
  moreover have "split_on CHR '' '' (md @ CHR '' '' # sy @ latin1 z) = md # split_on CHR '' '' (sy @ latin1 z)"
    by (rule split_on_front [OF plain_word_space [OF assms(1)]])
  moreover have "\<exists>r. split_on CHR '' '' (sy @ latin1 z) = sy # r"
    using lz split_on_front [OF plain_word_space [OF assms(2)]] split_on_all [OF plain_word_space [OF assms(2)]]
    by auto
  ultimately have "\<exists>r. split_on CHR '' '' (latin1 (?x @ z)) = md # sy # r" by auto
  moreover have "trimmed (sym_line (md, sy, rest) @ [10]) = ?x @ z"
    using z(1) by (simp add: sym_line_def)
  ultimately show ?thesis by (auto simp: symbol_line_def take_first_def)
qed

lemma symbol_table_read:
  assumes "list_all (\<lambda>(md, sy, rest). plain_word md \<and> plain_word sy \<and> 10 \<notin> set (lit rest)) es"
  shows "reloadSymbols (Some (concat (map (\<lambda>e. sym_line e @ [10]) es))) s
    = Inr (s\<lparr>sym_map := fold (\<lambda>(md, sy, rest). qm_insert sy md) es []\<rparr>)"
proof -
  have nl: "10 \<notin> set (lit w)" if "plain_word w" for w
    using that by (auto simp: plain_word_def plain_char_def list_all_iff lit_def is_space_def)
  have sp: "byte_of_char CHR '' '' \<noteq> 10" by (simp add: byte_of_char_def)
  have line: "10 \<notin> set (sym_line e)" if "e \<in> set es" for e
    using assms that nl sp by (auto simp: sym_line_def list_all_iff split: prod.splits)
  have "file_lines (concat (map (\<lambda>e. sym_line e @ [10]) es)) = map (\<lambda>e. sym_line e @ [10]) es"
    using line by (induction es) (simp_all add: file_lines_line)
  moreover have "fold_out symbol_line (map (\<lambda>e. sym_line e @ [10]) es) t
      = Inr (t\<lparr>sym_map := fold (\<lambda>(md, sy, rest). qm_insert sy md) es (sym_map t)\<rparr>)" for t
    using assms
  proof (induction es arbitrary: t)
    case (Cons e es)
    then show ?case by (cases e) (simp add: symbol_line_ok)
  qed simp
  ultimately show ?thesis by (simp add: reloadSymbols_def)
qed

text \<open>A symbol table of lines "module symbol rest" is read completely: every symbol is mapped
  to its module, a later line for the same symbol winning.\<close>

theorem symbols_read_back:
  assumes "list_all (\<lambda>(md, sy, rest). plain_word md \<and> plain_word sy \<and> 10 \<notin> set (lit rest)) es"
  shows "reloadSymbols (Some (concat (map (\<lambda>e. sym_line e @ [10]) es))) s
    = Inr (s\<lparr>sym_map := fold (\<lambda>(md, sy, rest). qm_insert sy md) es []\<rparr>)"
  by (rule symbol_table_read [OF assms])

theorem symbols_read_back_witness:
  "map_of (fold (\<lambda>(md, sy, rest). qm_insert sy md)
      [(''ext/a'', ''_Z1f'', ''f()''), (''ext/b'', ''_Z1f'', ''f''), (''ext/b'', ''_Z1g'', [])] []) ''_Z1f'' = Some ''ext/b''
   \<and> reloadSymbols (Some (concat (map (\<lambda>e. sym_line e @ [10]) [(''ext/b'', ''_Z1g'', ''g()'')]))) new_core
     = Inr (new_core\<lparr>sym_map := [(''_Z1g'', ''ext/b'')]\<rparr>)"
proof -
  have "list_all (\<lambda>(md, sy, rest). plain_word md \<and> plain_word sy \<and> 10 \<notin> set (lit rest)) [(''ext/b'', ''_Z1g'', ''g()'')]"
    by code_simp
  from symbols_read_back [OF this, of new_core] show ?thesis by simp
qed

text \<open>A line of the symbol table without a space ends the process: the second
  \<open>takeFirst\<close> finds an empty list. An empty line is one.\<close>

theorem symbols_blank_line:
  assumes "10 \<notin> set l" "CHR '' '' \<notin> set (latin1 (trimmed (l @ [10])))"
  shows "reloadSymbols (Some (l @ 10 # more_lines)) s = Inl OutOfRange"
  using assms
  by (simp add: reloadSymbols_def file_lines_line symbol_line_def split_on_all take_first_def Let_def)

theorem symbols_blank_line_witness: "reloadSymbols (Some [10]) new_core = Inl OutOfRange"
proof -
  have "latin1 (trimmed [10]) = []" by code_simp
  with symbols_blank_line [of "[]" "[]" new_core] show ?thesis by simp
qed

section \<open>Loading modules\<close>

text \<open>A linker as in the comment of \<open>modprobe\<close>: the broadcast daemon misses a symbol that
  ext/tcpline provides.\<close>

definition ex_linker :: linker where
  "ex_linker ms name =
     (if name = ''daemon/broadcast'' \<and> ''ext/tcpline'' \<notin> set ms
      then Some ''Cannot load library mod/daemon/broadcast: (mod/daemon/libbroadcast.so: undefined symbol: _ZTI13ClientTcpLine)''
      else None)"

definition ex_rank :: "string \<Rightarrow> nat" where
  "ex_rank name = (if take 4 name = ''ext/'' then 0 else 1)"

definition ex_core :: core where
  "ex_core = new_core\<lparr>sym_map := [(''_ZTI13ClientTcpLine'', ''ext/tcpline'')]\<rparr>"

lemma ex_resolvable: "resolvable ex_linker ex_rank (sym_map ex_core)"
proof -
  have "undefined_symbol ''Cannot load library mod/daemon/broadcast: (mod/daemon/libbroadcast.so: undefined symbol: _ZTI13ClientTcpLine)''
      = Some ''_ZTI13ClientTcpLine''" by code_simp
  moreover have "map_of (sym_map ex_core) ''_ZTI13ClientTcpLine'' = Some ''ext/tcpline''"
    by (simp add: ex_core_def)
  ultimately show ?thesis
    by (auto simp: resolvable_def ex_linker_def ex_rank_def pinetd_preload_def split: if_splits)
qed

text \<open>C5: when every symbol a module misses is provided by a module that is not loaded yet, and
  no module needs itself through others, loading ends, succeeds, and registers the module; any
  larger amount of fuel gives the same result.\<close>

theorem modprobe_loads:
  assumes "resolvable (e_linker env) rk (sym_map s)" "qm_wf (modules s)"
  shows "\<exists>n s'. (\<forall>m\<ge>n. modprobe (e_linker env) m name s = Some (True, s')) \<and> qm_contains (modules s') name"
proof -
  from modprobe_succeeds [OF assms(1) refl assms(2)] obtain n s'
    where m: "modprobe (e_linker env) n name s = Some (True, s')" by blast
  with modprobe_grows [OF assms(2) m] fuel_mono(1) [OF _ m] show ?thesis by auto
qed

definition ex_core_env :: core_env where
  "ex_core_env = \<lparr>e_linker = ex_linker, e_instanciate = \<lambda>_ _. True,
     e_listen_tcp = \<lambda>h p. h = ''0.0.0.0'', e_bind_udp = \<lambda>_ _. True, e_listen_udg = \<lambda>_. True\<rparr>"

theorem modprobe_loads_witness:
  "\<exists>s'. modprobe ex_linker 5 ''daemon/broadcast'' ex_core = Some (True, s')
     \<and> qm_keys (modules s') = [''daemon/broadcast'', ''ext/tcpline'']
     \<and> (\<exists>n. \<forall>m\<ge>n. modprobe ex_linker m ''daemon/broadcast'' ex_core = Some (True, s'))"
proof -
  have w: "qm_wf (modules ex_core)" by (simp add: ex_core_def new_core_def)
  have e: "e_linker ex_core_env = ex_linker" by (simp add: ex_core_env_def)
  from modprobe_loads [of ex_core_env ex_rank ex_core "''daemon/broadcast''"] ex_resolvable w e
  obtain n s' where n: "\<forall>m\<ge>n. modprobe ex_linker m ''daemon/broadcast'' ex_core = Some (True, s')" by auto
  have "map_option (\<lambda>(ok, s). (ok, qm_keys (modules s))) (modprobe ex_linker 5 ''daemon/broadcast'' ex_core)
      = Some (True, [''daemon/broadcast'', ''ext/tcpline''])" by code_simp
  then obtain t where t: "modprobe ex_linker 5 ''daemon/broadcast'' ex_core = Some (True, t)"
      "qm_keys (modules t) = [''daemon/broadcast'', ''ext/tcpline'']" by auto
  have "modprobe ex_linker (max 5 n) ''daemon/broadcast'' ex_core = Some (True, t)"
    using fuel_mono(1) [OF max.cobounded1 t(1)] .
  with n have "t = s'" by simp
  with t n show ?thesis by blast
qed

text \<open>C10: whatever the linker does, a finished \<open>modprobe\<close> changes nothing but the module
  table, which only grows and holds only modules that the linker accepted on top of modules in it;
  after a success it holds the module.\<close>

theorem modprobe_sound:
  assumes "modprobe L n name s = Some (ok, s')" "qm_wf (modules s)" "accepted_by L s"
  shows "s' = s\<lparr>modules := modules s'\<rparr> \<and> set (qm_keys (modules s)) \<subseteq> set (qm_keys (modules s'))
    \<and> accepted_by L s' \<and> (ok \<longrightarrow> qm_contains (modules s') name)"
  using modprobe_grows [OF assms(2,1)] assms(3) unfolding grows_def by blast

theorem modprobe_sound_witness:
  "\<exists>s'. modprobe ex_linker 5 ''daemon/broadcast'' ex_core = Some (True, s') \<and> accepted_by ex_linker s'
     \<and> qm_contains (modules s') ''daemon/broadcast''"
proof -
  have "map_option fst (modprobe ex_linker 5 ''daemon/broadcast'' ex_core) = Some True" by code_simp
  then obtain t where t: "modprobe ex_linker 5 ''daemon/broadcast'' ex_core = Some (True, t)" by auto
  have "qm_wf (modules ex_core)" "accepted_by ex_linker ex_core"
    by (simp_all add: ex_core_def new_core_def accepted_by_def)
  from modprobe_sound [OF t this] t show ?thesis by blast
qed

text \<open>Two modules that each miss a symbol the table attributes to the other make
  \<open>modprobe\<close> recurse for ever: no amount of fuel gives a result.\<close>

theorem modprobe_cycle_diverges:
  assumes "L (qm_keys (modules s)) a = Some ea" "undefined_symbol ea = Some xa" "map_of (sym_map s) xa = Some b"
    "L (qm_keys (modules s)) b = Some eb" "undefined_symbol eb = Some xb" "map_of (sym_map s) xb = Some a"
    "\<not> qm_contains (modules s) a" "\<not> qm_contains (modules s) b"
  shows "\<forall>n. modprobe L n a s = None"
  using modprobe_cycle [where L = L and s = s, OF assms] by blast

theorem modprobe_cycle_diverges_witness:
  "\<forall>n. modprobe (\<lambda>ms name. Some (if name = ''ext/a'' then ''x: (y: undefined symbol: _Zb)'' else ''x: (y: undefined symbol: _Za)''))
     n ''ext/a'' (new_core\<lparr>sym_map := [(''_Za'', ''ext/a''), (''_Zb'', ''ext/b'')]\<rparr>) = None"
proof (rule modprobe_cycle_diverges [where b = "''ext/b''" and xa = "''_Zb''" and xb = "''_Za''"])
  show "undefined_symbol ''x: (y: undefined symbol: _Zb)'' = Some ''_Zb''" by code_simp
  show "undefined_symbol ''x: (y: undefined symbol: _Za)'' = Some ''_Za''" by code_simp
qed (simp_all add: new_core_def qm_contains_def)

section \<open>Reconfiguration\<close>

definition tables_ok :: "core \<Rightarrow> bool" where
  "tables_ok s \<longleftrightarrow> (\<forall>tab \<in> {port_tcp s, port_udp s, port_udg s}. qm_wf tab \<and> (\<forall>k e. map_of tab k = Some e \<longrightarrow> ep_inv e))"

definition conf_ok :: "settings \<Rightarrow> bool" where
  "conf_ok conf \<longleftrightarrow> distinct (map fst (conf ''daemons'')) \<and> distinct (map fst (conf ''tcp''))
     \<and> distinct (map fst (conf ''udp'')) \<and> distinct (map fst (conf ''udg''))"

text \<open>The endpoint is routed as the configured value says: wired once to the named daemon, or to
  nothing when there is no such daemon.\<close>

definition routed_as :: "core \<Rightarrow> string \<Rightarrow> string \<Rightarrow> endpoint \<Rightarrow> bool" where
  "routed_as s d en e \<longleftrightarrow> receiver e = getDaemon s d \<and> entry e = en
     \<and> wired e = (case getDaemon s d of None \<Rightarrow> [] | Some r \<Rightarrow> [r])"

text \<open>The states that the slots of Core and the event loop can reach.\<close>

inductive core_reachable :: "core \<Rightarrow> bool" where
  start: "core_reachable new_core"
| symbols: "core_reachable s \<Longrightarrow> reloadSymbols f s = Inr s' \<Longrightarrow> core_reachable s'"
| probe: "core_reachable s \<Longrightarrow> modprobe L n name s = Some (ok, s') \<Longrightarrow> core_reachable s'"
| reload: "core_reachable s \<Longrightarrow> conf_ok conf \<Longrightarrow> reloadConfig env n conf s = Some s' \<Longrightarrow> core_reachable s'"
| death: "core_reachable s \<Longrightarrow> core_reachable (daemon_destroyed d s)"

lemma setTarget_ok: "ep_inv e \<Longrightarrow> ep_inv (tcp_setTarget t n e) \<and> receiver (tcp_setTarget t n e) = t
    \<and> entry (tcp_setTarget t n e) = n"
  using tcp_router.inv_set tcp_router.target_set
  by (auto simp: tcp_setTarget_def ep_defs Let_def split: option.splits)

lemma routed_asI: "ep_inv e \<Longrightarrow> receiver e = getDaemon s d \<Longrightarrow> entry e = en \<Longrightarrow> routed_as s d en e"
  by (simp add: routed_as_def ep_inv_def)

lemma reload_tcp_spec:
  assumes "qm_wf (port_tcp s)" "\<And>k e. map_of (port_tcp s) k = Some e \<Longrightarrow> ep_inv e" "distinct (map fst k)"
  shows "\<exists>tab orph. reload_tcp env k s = s\<lparr>port_tcp := tab, orphans := orph\<rparr> \<and> qm_wf tab
    \<and> (\<forall>a e. map_of tab a = Some e \<longrightarrow> (\<exists>v. map_of k a = Some v \<and> ep_inv e
         \<and> routed_as s (target_parts v ! 0) (target_parts v ! 1) e))"
proof -
  obtain tab orph where r: "reload_ports (tcp_turn env (getDaemon s)) k (port_tcp s) = (tab, orph)" by force
  have "\<exists>v. map_of k a = Some v \<and> (ep_inv e \<and> routed_as s (target_parts v ! 0) (target_parts v ! 1) e)"
    if "map_of tab a = Some e" for a e
    by (rule tcp_ports.reload_all [OF assms(1,3) r that, where P = ep_inv])
      (use assms(2) in \<open>auto simp: setTarget_ok ep_inv_new tcp_open_def Let_def intro: routed_asI split: if_splits\<close>)
  with tcp_ports.reload_table [OF assms(1,3) r] r show ?thesis
    by (auto simp: reload_tcp_def)
qed

lemma reload_udp_spec:
  assumes "qm_wf (port_udp s)" "\<And>k e. map_of (port_udp s) k = Some e \<Longrightarrow> ep_inv e" "distinct (map fst k)"
  shows "\<exists>tab orph. reload_udp env k s = s\<lparr>port_udp := tab, orphans := orph\<rparr> \<and> qm_wf tab
    \<and> (\<forall>a e. map_of tab a = Some e \<longrightarrow> (\<exists>v. map_of k a = Some v \<and> ep_inv e
         \<and> routed_as s (target_parts v ! 0) (target_parts v ! 1) e))"
proof -
  obtain tab orph where r: "reload_ports (udp_turn env (getDaemon s)) k (port_udp s) = (tab, orph)" by force
  have "\<exists>v. map_of k a = Some v \<and> (ep_inv e \<and> routed_as s (target_parts v ! 0) (target_parts v ! 1) e)"
    if "map_of tab a = Some e" for a e
    by (rule udp_ports.reload_all [OF assms(1,3) r that, where P = ep_inv])
      (use assms(2) in \<open>auto simp: setTarget_ok udp_setTarget_eq ep_inv_new udp_open_def Let_def intro: routed_asI split: if_splits\<close>)
  with udp_ports.reload_table [OF assms(1,3) r] r show ?thesis
    by (auto simp: reload_udp_def)
qed

lemma reload_udg_spec:
  assumes "qm_wf (port_udg s)" "\<And>k e. map_of (port_udg s) k = Some e \<Longrightarrow> ep_inv e" "distinct (map fst k)"
  shows "\<exists>tab orph. reload_udg env k s = s\<lparr>port_udg := tab, orphans := orph\<rparr> \<and> qm_wf tab
    \<and> (\<forall>a e. map_of tab a = Some e \<longrightarrow> (\<exists>v. map_of k a = Some v \<and> ep_inv e
         \<and> routed_as s (udg_parts v ! 1) (udg_parts v ! 2) e))"
proof -
  obtain tab orph where r: "reload_ports (udg_turn env (getDaemon s)) k (port_udg s) = (tab, orph)" by force
  have "\<exists>v. map_of k a = Some v \<and> (ep_inv e \<and> routed_as s (udg_parts v ! 1) (udg_parts v ! 2) e)"
    if "map_of tab a = Some e" for a e
    by (rule udg_ports.reload_all [OF assms(1,3) r that, where P = ep_inv])
      (use assms(2) in \<open>auto simp: setTarget_ok udg_setTarget_eq ep_inv_new udg_open_def Let_def intro: routed_asI split: if_splits\<close>)
  with udg_ports.reload_table [OF assms(1,3) r] r show ?thesis
    by (auto simp: reload_udg_def)
qed

lemma tables_okD:
  assumes "tables_ok s"
  shows "qm_wf (port_tcp s)" "qm_wf (port_udp s)" "qm_wf (port_udg s)"
    "map_of (port_tcp s) k = Some e \<Longrightarrow> ep_inv e" "map_of (port_udp s) k = Some e \<Longrightarrow> ep_inv e"
    "map_of (port_udg s) k = Some e \<Longrightarrow> ep_inv e"
  using assms unfolding tables_ok_def by blast+

lemma same_ports_tables: "same_ports s s' \<Longrightarrow> tables_ok s \<Longrightarrow> tables_ok s'"
  by (simp add: same_ports_def tables_ok_def)

lemma routed_as_daemons: "daemons s' = daemons s \<Longrightarrow> routed_as s' = routed_as s"
  by (simp add: routed_as_def getDaemon_def fun_eq_iff)

text \<open>The state after a reload, in terms of the state after its daemon phase.\<close>

lemma reloadConfig_phases:
  assumes "reloadConfig env n conf s = Some s'" "daemons_ok s"
  obtains p d where "grows (e_linker env) s p" "reload_daemons env n (conf ''daemons'') p = Some d"
    "s' = reload_udg env (conf ''udg'') (reload_udp env (conf ''udp'') (reload_tcp env (conf ''tcp'') d))"
proof -
  from assms(1) obtain p d where pd: "load_preloads env n (conf ''preload'') s = Some p"
      "reload_daemons env n (conf ''daemons'') p = Some d"
      "s' = reload_udg env (conf ''udg'') (reload_udp env (conf ''udp'') (reload_tcp env (conf ''tcp'') d))"
    by (auto simp: reloadConfig_def split: option.splits)
  from load_preloads_grows [OF pd(1)] assms(2) have "grows (e_linker env) s p" by (simp add: daemons_ok_def)
  with pd(2,3) that show ?thesis by blast
qed

definition tables_routed :: "settings \<Rightarrow> core \<Rightarrow> bool" where
  "tables_routed conf s \<longleftrightarrow>
     (\<forall>k e. map_of (port_tcp s) k = Some e \<longrightarrow>
        (\<exists>v. map_of (conf ''tcp'') k = Some v \<and> routed_as s (target_parts v ! 0) (target_parts v ! 1) e))
   \<and> (\<forall>k e. map_of (port_udp s) k = Some e \<longrightarrow>
        (\<exists>v. map_of (conf ''udp'') k = Some v \<and> routed_as s (target_parts v ! 0) (target_parts v ! 1) e))
   \<and> (\<forall>k e. map_of (port_udg s) k = Some e \<longrightarrow>
        (\<exists>v. map_of (conf ''udg'') k = Some v \<and> routed_as s (udg_parts v ! 1) (udg_parts v ! 2) e))"

lemma reload_tables:
  assumes "tables_ok d" "conf_ok conf"
    "s' = reload_udg env (conf ''udg'') (reload_udp env (conf ''udp'') (reload_tcp env (conf ''tcp'') d))"
  shows "tables_ok s' \<and> tables_routed conf s' \<and> daemons s' = daemons d \<and> modules s' = modules d
    \<and> next_obj s' = next_obj d \<and> doomed s' = doomed d"
proof -
  note ok = tables_okD [OF assms(1)]
  have c: "distinct (map fst (conf ''tcp''))" "distinct (map fst (conf ''udp''))" "distinct (map fst (conf ''udg''))"
    using assms(2) by (simp_all add: conf_ok_def)
  obtain t1 o1 where 1: "reload_tcp env (conf ''tcp'') d = d\<lparr>port_tcp := t1, orphans := o1\<rparr>" "qm_wf t1"
      "\<And>a e. map_of t1 a = Some e \<Longrightarrow> \<exists>v. map_of (conf ''tcp'') a = Some v \<and> ep_inv e
         \<and> routed_as d (target_parts v ! 0) (target_parts v ! 1) e"
    using reload_tcp_spec [of d "conf ''tcp''" env] ok(1,4) c(1) by (simp del: One_nat_def) blast
  let ?d1 = "d\<lparr>port_tcp := t1, orphans := o1\<rparr>"
  obtain t2 o2 where 2: "reload_udp env (conf ''udp'') ?d1 = ?d1\<lparr>port_udp := t2, orphans := o2\<rparr>" "qm_wf t2"
      "\<And>a e. map_of t2 a = Some e \<Longrightarrow> \<exists>v. map_of (conf ''udp'') a = Some v \<and> ep_inv e
         \<and> routed_as ?d1 (target_parts v ! 0) (target_parts v ! 1) e"
    using reload_udp_spec [of ?d1 "conf ''udp''" env] ok(2,5) c(2) by (simp del: One_nat_def) blast
  let ?d2 = "?d1\<lparr>port_udp := t2, orphans := o2\<rparr>"
  obtain t3 o3 where 3: "reload_udg env (conf ''udg'') ?d2 = ?d2\<lparr>port_udg := t3, orphans := o3\<rparr>" "qm_wf t3"
      "\<And>a e. map_of t3 a = Some e \<Longrightarrow> \<exists>v. map_of (conf ''udg'') a = Some v \<and> ep_inv e
         \<and> routed_as ?d2 (udg_parts v ! 1) (udg_parts v ! 2) e"
    using reload_udg_spec [of ?d2 "conf ''udg''" env] ok(3,6) c(3) by (simp del: One_nat_def) blast
  have s': "s' = ?d2\<lparr>port_udg := t3, orphans := o3\<rparr>" using assms(3) 1(1) 2(1) 3(1) by simp
  then have "routed_as s' = routed_as d" "routed_as ?d1 = routed_as d" "routed_as ?d2 = routed_as d"
    by (intro routed_as_daemons; simp)+
  with s' 1(2,3) 2(2,3) 3(2,3) show ?thesis
    unfolding tables_ok_def tables_routed_def by (auto 0 3 dest: 1(3) 2(3) 3(3))
qed

lemma destroyed_inv: "ep_inv e \<Longrightarrow> ep_inv (tcp_targetDestroyed d e)"
  by (rule tcp_router.inv_destroyed)

lemma daemon_destroyed_ok: "tables_ok s \<Longrightarrow> tables_ok (daemon_destroyed d s)"
  by (auto simp: tables_ok_def daemon_destroyed_def map_of_qm_map udp_targetDestroyed_eq udg_targetDestroyed_eq
      destroyed_inv)

lemma symbol_lines_frame: "fold_out symbol_line ls s = Inr s' \<Longrightarrow> \<exists>m. s' = s\<lparr>sym_map := m\<rparr>"
proof (induction ls arbitrary: s)
  case Nil
  then have "s' = s\<lparr>sym_map := sym_map s\<rparr>" by simp
  then show ?case by (rule exI)
next
  case (Cons l ls)
  then obtain t where t: "symbol_line l s = Inr t" "fold_out symbol_line ls t = Inr s'"
    by (auto simp: bind_out_Inr_iff)
  then obtain m where "t = s\<lparr>sym_map := m\<rparr>"
    by (auto simp: symbol_line_def bind_out_Inr_iff Let_def)
  with Cons.IH [OF t(2)] show ?case by auto
qed

lemma reloadSymbols_frame: "reloadSymbols f s = Inr s' \<Longrightarrow> \<exists>m. s' = s\<lparr>sym_map := m\<rparr>"
  by (cases f) (auto simp: reloadSymbols_def dest!: symbol_lines_frame)

lemma core_reachable_inv: "core_reachable s \<Longrightarrow> daemons_ok s \<and> tables_ok s"
proof (induction rule: core_reachable.induct)
  case start
  show ?case by (simp add: new_core_def daemons_ok_def tables_ok_def)
next
  case (symbols s f s')
  then obtain m where "s' = s\<lparr>sym_map := m\<rparr>" using reloadSymbols_frame by blast
  with symbols show ?case by (simp add: daemons_ok_def tables_ok_def)
next
  case (probe s L n name ok s')
  then have "grows L s s'" using modprobe_grows by (auto simp: daemons_ok_def)
  with probe show ?case using grows_daemons_ok same_ports_tables [OF grows_same_ports] by blast
next
  case (reload s conf env n s')
  from reload.hyps(3) reload.IH obtain p d where pd: "grows (e_linker env) s p"
      "reload_daemons env n (conf ''daemons'') p = Some d"
      "s' = reload_udg env (conf ''udg'') (reload_udp env (conf ''udp'') (reload_tcp env (conf ''tcp'') d))"
    by (auto elim: reloadConfig_phases)
  have p: "daemons_ok p" "tables_ok p"
    using grows_daemons_ok [OF pd(1)] same_ports_tables [OF grows_same_ports [OF pd(1)]] reload.IH by auto
  from reload_daemons_spec [OF pd(2) p(1)] reload.hyps(2) have d: "daemons_ok d" "same_ports p d"
    by (auto simp: conf_ok_def)
  from reload_tables [OF same_ports_tables [OF d(2) p(2)] reload.hyps(2) pd(3)] d(1)
  show ?case by (simp add: daemons_ok_def)
next
  case (death s d)
  then show ?case by (simp add: daemon_destroyed_ok) (simp add: daemons_ok_def daemon_destroyed_def)
qed

section \<open>Properties of a reload\<close>

definition ex_conf :: settings where
  "ex_conf g =
     (if g = ''daemons'' then [(''irc'', ''daemon/broadcast'')]
      else if g = ''tcp'' then [(''0.0.0.0:7'', ''irc''), (''0.0.0.0:8'', ''gone:x''), (''port9'', ''irc'')]
      else if g = ''udg'' then [(''sock'', ''/tmp/s:irc'')] else [])"

definition ex_loaded :: core where
  "ex_loaded = (case reloadConfig ex_core_env 9 ex_conf ex_core of None \<Rightarrow> new_core | Some s \<Rightarrow> s)"

lemma ex_core_reachable: "core_reachable ex_core"
proof -
  have "reloadSymbols (Some (lit ''ext/tcpline _ZTI13ClientTcpLine typeinfo'' @ [10])) new_core = Inr ex_core"
    by code_simp
  then show ?thesis by (rule core_reachable.symbols [OF core_reachable.start])
qed

lemma ex_conf_ok: "conf_ok ex_conf"
  by (simp add: conf_ok_def ex_conf_def)

lemma ex_reload: "reloadConfig ex_core_env 9 ex_conf ex_core = Some ex_loaded"
proof -
  have "reloadConfig ex_core_env 9 ex_conf ex_core \<noteq> None" by code_simp
  then show ?thesis by (auto simp: ex_loaded_def)
qed

lemma ex_loaded_reachable: "core_reachable ex_loaded"
  by (rule core_reachable.reload [OF ex_core_reachable ex_conf_ok ex_reload])

lemma ex_loaded_ports: "map_option wired (map_of (port_tcp ex_loaded) ''0.0.0.0:7'') = Some [0]"
  "map_option wired (map_of (port_tcp ex_loaded) ''0.0.0.0:8'') = Some []"
  "map_option wired (map_of (port_udg ex_loaded) ''sock'') = Some [0]"
  "length (orphans ex_loaded) = 1"
  by code_simp+

text \<open>C1: after a reload of a reachable state every open endpoint, of all three kinds, belongs to
  an address of the configuration and is wired once to the daemon its value names, or to nothing
  when no such daemon runs.\<close>

theorem core_reload_routes:
  assumes "core_reachable s" "conf_ok conf" "reloadConfig env n conf s = Some s'"
  shows "tables_routed conf s'"
proof -
  note inv = core_reachable_inv [OF assms(1)]
  obtain p d where pd: "grows (e_linker env) s p" "reload_daemons env n (conf ''daemons'') p = Some d"
      "s' = reload_udg env (conf ''udg'') (reload_udp env (conf ''udp'') (reload_tcp env (conf ''tcp'') d))"
    using reloadConfig_phases [OF assms(3)] inv by blast
  have p: "daemons_ok p" "tables_ok p"
    using grows_daemons_ok [OF pd(1)] same_ports_tables [OF grows_same_ports [OF pd(1)]] inv by auto
  from reload_daemons_spec [OF pd(2) p(1)] assms(2) have "same_ports p d" by (auto simp: conf_ok_def)
  from reload_tables [OF same_ports_tables [OF this p(2)] assms(2) pd(3)] show ?thesis by blast
qed

theorem core_reload_routes_witness:
  "tables_routed ex_conf ex_loaded \<and> map_option wired (map_of (port_tcp ex_loaded) ''0.0.0.0:7'') = Some [0]
   \<and> map_option wired (map_of (port_tcp ex_loaded) ''0.0.0.0:8'') = Some []
   \<and> map_option wired (map_of (port_udg ex_loaded) ''sock'') = Some [0]"
  using core_reload_routes [OF ex_core_reachable ex_conf_ok ex_reload] ex_loaded_ports by blast

text \<open>C8: after a reload only configured daemons run; one that ran before and is still configured
  is the same object, and one that is not is scheduled for deletion.\<close>

theorem core_reload_daemons:
  assumes "core_reachable s" "conf_ok conf" "reloadConfig env n conf s = Some s'"
  shows "dom (map_of (daemons s')) \<subseteq> set (map fst (conf ''daemons''))
    \<and> (\<forall>k d. map_of (daemons s) k = Some d \<longrightarrow>
        (if k \<in> set (map fst (conf ''daemons'')) then map_of (daemons s') k = Some d else d \<in> set (doomed s')))"
proof -
  note inv = core_reachable_inv [OF assms(1)]
  obtain p d where pd: "grows (e_linker env) s p" "reload_daemons env n (conf ''daemons'') p = Some d"
      "s' = reload_udg env (conf ''udg'') (reload_udp env (conf ''udp'') (reload_tcp env (conf ''tcp'') d))"
    using reloadConfig_phases [OF assms(3)] inv by blast
  have p: "daemons_ok p" "tables_ok p"
    using grows_daemons_ok [OF pd(1)] same_ports_tables [OF grows_same_ports [OF pd(1)]] inv by auto
  have k: "distinct (map fst (conf ''daemons''))" using assms(2) by (simp add: conf_ok_def)
  note d = reload_daemons_spec [OF pd(2) p(1) k]
  have "tables_ok d" using d same_ports_tables [OF _ p(2)] by blast
  from reload_tables [OF this assms(2) pd(3)] d growsD(2) [OF pd(1)] show ?thesis by simp
qed

theorem core_reload_daemons_witness:
  "\<exists>s'. reloadConfig ex_core_env 9 (\<lambda>_. []) ex_loaded = Some s' \<and> map_of (daemons ex_loaded) ''irc'' = Some 0
     \<and> dom (map_of (daemons s')) = {} \<and> 0 \<in> set (doomed s')"
proof -
  have "reloadConfig ex_core_env 9 (\<lambda>_. []) ex_loaded \<noteq> None" by code_simp
  then obtain s' where s': "reloadConfig ex_core_env 9 (\<lambda>_. []) ex_loaded = Some s'" by auto
  have d: "map_of (daemons ex_loaded) ''irc'' = Some 0" by code_simp
  have "conf_ok (\<lambda>_. [])" by (simp add: conf_ok_def)
  from core_reload_daemons [OF ex_loaded_reachable this s'] d s' show ?thesis by auto
qed

text \<open>Once a daemon object is destroyed no endpoint of a reachable state is wired to it any
  more, so no connection or datagram is passed to a dead object.\<close>

theorem core_dead_daemon_unwired:
  assumes "core_reachable s"
    "e \<in> ran (map_of (port_tcp (daemon_destroyed d s))) \<union> ran (map_of (port_udp (daemon_destroyed d s)))
       \<union> ran (map_of (port_udg (daemon_destroyed d s)))"
  shows "d \<notin> set (wired e)"
proof -
  have ok: "tables_ok s" using core_reachable_inv [OF assms(1)] by blast
  then obtain e0 where "ep_inv e0" "e = tcp_targetDestroyed d e0"
    using assms(2) tables_okD [OF ok]
    by (auto simp: ran_def daemon_destroyed_def map_of_qm_map udp_targetDestroyed_eq udg_targetDestroyed_eq) blast+
  then show ?thesis using tcp_router.reach_after_destroyed by simp
qed

theorem core_dead_daemon_unwired_witness:
  "\<exists>e. map_of (port_tcp (daemon_destroyed 0 ex_loaded)) ''0.0.0.0:7'' = Some e \<and> 0 \<notin> set (wired e)"
proof -
  have "map_of (port_tcp (daemon_destroyed 0 ex_loaded)) ''0.0.0.0:7'' \<noteq> None" by code_simp
  then obtain e where e: "map_of (port_tcp (daemon_destroyed 0 ex_loaded)) ''0.0.0.0:7'' = Some e" by auto
  with core_dead_daemon_unwired [OF ex_loaded_reachable, of e 0] show ?thesis by (auto simp: ran_def)
qed

text \<open>Every reload leaves behind one more endpoint object for an address that is not of the
  form "host:port": it is routed but neither registered nor deleted.\<close>

theorem core_bad_address_leaks:
  assumes "core_reachable s" "distinct (map fst k)" "(a, v) \<in> set k" "length (split_on CHR '':'' a) \<noteq> 2"
    "map_of (port_tcp s) a = None"
  shows "length (orphans s) < length (orphans (reload_tcp env k s))"
proof -
  have ok: "tables_ok s" using core_reachable_inv [OF assms(1)] by blast
  obtain tab orph where r: "reload_ports (tcp_turn env (getDaemon s)) k (port_tcp s) = (tab, orph)" by force
  have "tcp_open env (getDaemon s) a v
      = Inl (tcp_setTarget (getDaemon s (target_parts v ! 0)) (target_parts v ! 1) new_endpoint)"
    using assms(4) by (simp add: tcp_open_def addr_parts_def)
  from tcp_ports.reload_orphans [OF tables_okD(1) [OF ok] assms(2) r assms(3,5) this]
  show ?thesis by (simp add: reload_tcp_def r)
qed

theorem core_bad_address_leaks_witness:
  "length (orphans ex_loaded) < length (orphans (reload_tcp ex_core_env (ex_conf ''tcp'') ex_loaded))"
proof (rule core_bad_address_leaks [OF ex_loaded_reachable, where a = "''port9''" and v = "''irc''"])
  show "map_of (port_tcp ex_loaded) ''port9'' = None" by code_simp
qed (simp_all add: ex_conf_def)

end
