(* ===== verification/Mod_PS.thy ===== *)
theory Mod_PS
  imports Qt_Map Framing Client_Tcp
begin

text \<open>
  mod/daemon/ps: the publish/subscribe relay (ModPS, ModPSClient, protocol.md). A client
  extends ClientTcp by its input buffer and its set of channels; the daemon keeps a reference count
  per channel, connections to master servers, and the clients. Channels are byte arrays, clients
  and times are numbers, masters are known by their configuration key. QSet's iteration order is
  not specified by Qt; the model visits channels in insertion order.
\<close>

record ps_client = client_tcp +
  buf_in :: bytes
  channels :: "bytes list"

text \<open>QAbstractSocket's states, as far as \<open>checkMasters\<close> tells them apart: the default
  branch of its switch is taken in \<open>Unconnected\<close> and \<open>Closing\<close>.\<close>

datatype sock_state = Unconnected | HostLookup | Connecting | Connected | Closing

text \<open>A master's socket: its property "stamp", its state, the bytes received and not yet read,
  and the packets written since the current connection was started.\<close>

record master =
  m_stamp :: "64 word"
  m_state :: sock_state
  m_in :: bytes
  m_out :: "bytes list"

record mod_ps =
  channel_refcount :: "(bytes, int) qmap"
  masters :: "(string, master option) qmap"
  subscribe_limit :: "bytes set"
  ps_clients :: "(nat, ps_client) qmap"

definition new_ps :: mod_ps where
  "new_ps = \<lparr>channel_refcount = [], masters = [], subscribe_limit = {}, ps_clients = []\<rparr>"

definition new_ps_client :: ps_client where
  "new_ps_client = \<lparr>write_buf = [], sock_open = True, deleting = False, accepted = [],
     buf_in = [], channels = []\<rparr>"

text \<open>The environment of the client sockets: what \<open>sock->write\<close> returns for a client,
  given what its socket took before and the data.\<close>

type_synonym ps_env = "nat \<Rightarrow> bytes \<Rightarrow> bytes \<Rightarrow> int"

definition on_client :: "nat \<Rightarrow> (ps_client \<Rightarrow> ps_client) \<Rightarrow> mod_ps \<Rightarrow> mod_ps" where
  "on_client i f s = s\<lparr>ps_clients := qm_update i f (ps_clients s)\<rparr>"

definition env_write :: "ps_env \<Rightarrow> nat \<Rightarrow> bytes \<Rightarrow> ps_client \<Rightarrow> ps_client" where
  "env_write env i dat c = tcp_write (env i (accepted c) dat) dat c"

section \<open>Masters\<close>

text \<open>\<open>i.value()->write(packet)\<close> for every master; a null socket pointer is a fault.\<close>

fun write_masters :: "bytes \<Rightarrow> (string, master option) qmap \<Rightarrow> (string, master option) qmap outcome" where
  "write_masters p [] = Inr []"
| "write_masters p ((k, v) # ms) =
     (case v of None \<Rightarrow> Inl NullDeref
      | Some m \<Rightarrow> bind_out (write_masters p ms)
          (\<lambda>ms'. Inr ((k, Some (m\<lparr>m_out := m_out m @ [p]\<rparr>)) # ms')))"

definition subscribe_packet :: "bytes \<Rightarrow> bytes" where
  "subscribe_packet channel = (replicate 3 0)[1 := 17, 2 := 0x81] @ channel"

definition unsubscribe_packet :: "bytes \<Rightarrow> bytes" where
  "unsubscribe_packet channel = (replicate 3 0)[1 := 17, 2 := 0x82] @ channel"

definition doSubscribe :: "bytes \<Rightarrow> mod_ps \<Rightarrow> mod_ps outcome" where
  "doSubscribe channel s = bind_out (write_masters (subscribe_packet channel) (masters s))
     (\<lambda>ms. Inr (s\<lparr>masters := ms\<rparr>))"

definition doUnsubscribe :: "bytes \<Rightarrow> mod_ps \<Rightarrow> mod_ps outcome" where
  "doUnsubscribe channel s = bind_out (write_masters (unsubscribe_packet channel) (masters s))
     (\<lambda>ms. Inr (s\<lparr>masters := ms\<rparr>))"

section \<open>Reference counts\<close>

definition ref_value :: "mod_ps \<Rightarrow> bytes \<Rightarrow> int" where
  "ref_value s channel = (case map_of (channel_refcount s) channel of None \<Rightarrow> 0 | Some n \<Rightarrow> n)"

definition channelAddRef :: "bytes \<Rightarrow> mod_ps \<Rightarrow> mod_ps outcome" where
  "channelAddRef channel s =
     (if \<not> qm_contains (channel_refcount s) channel
      then doSubscribe channel (s\<lparr>channel_refcount := qm_insert channel 1 (channel_refcount s)\<rparr>)
      else Inr (s\<lparr>channel_refcount := qm_insert channel (ref_value s channel + 1) (channel_refcount s)\<rparr>))"

definition channelDelRef :: "bytes \<Rightarrow> mod_ps \<Rightarrow> mod_ps outcome" where
  "channelDelRef channel s =
     (if \<not> qm_contains (channel_refcount s) channel then Inl Aborted
      else if ref_value s channel \<le> 1
      then doUnsubscribe channel (s\<lparr>channel_refcount := qm_remove channel (channel_refcount s)\<rparr>)
      else Inr (s\<lparr>channel_refcount := qm_insert channel (ref_value s channel - 1) (channel_refcount s)\<rparr>))"

definition canSubscribe :: "mod_ps \<Rightarrow> bytes \<Rightarrow> bool" where
  "canSubscribe s channel \<longleftrightarrow> subscribe_limit s = {} \<or> channel \<in> subscribe_limit s"

section \<open>Publishing\<close>

text \<open>\<open>((unsigned char)dat[0] << 8 | (unsigned char)dat[1]) + 2\<close>\<close>

definition packet_length :: "bytes \<Rightarrow> nat outcome" where
  "packet_length dat = bind_out (byte_at dat 0) (\<lambda>b0. bind_out (byte_at dat 1)
     (\<lambda>b1. Inr ((push_bit 8 (unat b0) OR unat b1) + 2)))"

text \<open>ModPSClient::channelPacket, and the signal that reaches it in every client.\<close>

definition client_channelPacket :: "ps_env \<Rightarrow> nat \<Rightarrow> bytes \<Rightarrow> bytes \<Rightarrow> ps_client \<Rightarrow> ps_client" where
  "client_channelPacket env i dat chan c =
     (if chan \<notin> set (channels c) then c else env_write env i dat c)"

definition emit_channelPacket :: "ps_env \<Rightarrow> bytes \<Rightarrow> bytes \<Rightarrow> mod_ps \<Rightarrow> mod_ps" where
  "emit_channelPacket env dat chan s =
     s\<lparr>ps_clients := qm_map (\<lambda>i. client_channelPacket env i dat chan) (ps_clients s)\<rparr>"

function pushPacket :: "ps_env \<Rightarrow> bytes \<Rightarrow> mod_ps \<Rightarrow> mod_ps outcome" where
  "pushPacket env dat s = bind_out (packet_length dat) (\<lambda>len.
     if len < 17 then Inr s
     else if length dat < len then Inr s
     else if length dat > len then pushPacket env (ba_left len dat) s
     else bind_out (byte_at dat 2) (\<lambda>type.
       let channel = ba_mid 3 16 dat in
       if type = 0x80 then Inr s
       else if type AND 0x80 \<noteq> 0 then Inr s
       else if \<not> qm_contains (channel_refcount s) channel then Inr s
       else Inr (emit_channelPacket env dat channel s)))"
  by pat_completeness auto
termination
  by (relation "measure (\<lambda>(env, dat, s). length dat)") (auto simp: ba_left_def)

declare pushPacket.simps [simp del]

definition ps_incomingDatagram :: "ps_env \<Rightarrow> bytes \<Rightarrow> mod_ps \<Rightarrow> mod_ps outcome" where
  "ps_incomingDatagram env dat s = pushPacket env dat s"

section \<open>Client packets\<close>

definition handleSubscribe :: "nat \<Rightarrow> bytes \<Rightarrow> mod_ps \<Rightarrow> mod_ps outcome" where
  "handleSubscribe i channel s =
     (case map_of (ps_clients s) i of None \<Rightarrow> Inr s
      | Some c \<Rightarrow>
          if channel \<in> set (channels c) then Inr s
          else if \<not> canSubscribe s channel then Inr (on_client i drop_link s)
          else channelAddRef channel (on_client i (\<lambda>c. c\<lparr>channels := channels c @ [channel]\<rparr>) s))"

definition handleUnsubscribe :: "nat \<Rightarrow> bytes \<Rightarrow> mod_ps \<Rightarrow> mod_ps outcome" where
  "handleUnsubscribe i channel s =
     (case map_of (ps_clients s) i of None \<Rightarrow> Inr s
      | Some c \<Rightarrow>
          if channel \<notin> set (channels c) then Inr s
          else channelDelRef channel (on_client i (\<lambda>c. c\<lparr>channels := remove1 channel (channels c)\<rparr>) s))"

definition handlePacket :: "ps_env \<Rightarrow> nat \<Rightarrow> bytes \<Rightarrow> mod_ps \<Rightarrow> mod_ps outcome" where
  "handlePacket env i packet s = bind_out (byte_at packet 2) (\<lambda>type.
     let channel = ba_mid 3 16 packet in
     if type AND 0x80 = 0 then Inr (on_client i drop_link s)
     else if type = 0x80 then Inr (on_client i (env_write env i packet) s)
     else if type = 0x81 then handleSubscribe i channel s
     else if type = 0x82 then handleUnsubscribe i channel s
     else Inr s)"

text \<open>The \<open>while(true)\<close> of \<open>handleBuffer\<close>: the buffer left and the daemon.\<close>

definition be16_len :: "bytes \<Rightarrow> nat" where
  "be16_len b = (push_bit 8 (unat (b ! 0)) OR unat (b ! 1)) + 2"

function ps_loop :: "ps_env \<Rightarrow> nat \<Rightarrow> bytes \<Rightarrow> mod_ps \<Rightarrow> (bytes \<times> mod_ps) outcome" where
  "ps_loop env i buf s =
     (if length buf < 2 then Inr (buf, s)
      else
        let len = be16_len buf in
        if len > length buf then Inr (buf, s)
        else bind_out (handlePacket env i (ba_left len buf) s) (ps_loop env i (drop len buf)))"
  by pat_completeness auto
termination
  by (relation "measure (\<lambda>(env, i, buf, s). length buf)") (auto simp: be16_len_def)

declare ps_loop.simps [simp del]

definition ps_handleBuffer :: "ps_env \<Rightarrow> nat \<Rightarrow> bytes \<Rightarrow> mod_ps \<Rightarrow> mod_ps outcome" where
  "ps_handleBuffer env i t s =
     (case map_of (ps_clients s) i of None \<Rightarrow> Inr s
      | Some c \<Rightarrow>
          let buf = buf_in c @ t;
              (buf, s) = (if length buf > 100 * 1024 then ([], on_client i drop_link s) else (buf, s))
          in bind_out (ps_loop env i buf s)
               (\<lambda>(buf, s). Inr (on_client i (\<lambda>c. c\<lparr>buf_in := buf\<rparr>) s)))"

section \<open>Connections and destruction of clients\<close>

definition ps_incomingTcp :: "nat \<Rightarrow> mod_ps \<Rightarrow> mod_ps" where
  "ps_incomingTcp i s = s\<lparr>ps_clients := qm_insert i new_ps_client (ps_clients s)\<rparr>"

text \<open>The destructor gives up every channel; the daemon forgets the client.\<close>

definition ps_client_destroy :: "nat \<Rightarrow> mod_ps \<Rightarrow> mod_ps outcome" where
  "ps_client_destroy i s =
     (case map_of (ps_clients s) i of None \<Rightarrow> Inr s
      | Some c \<Rightarrow> bind_out (fold_out channelDelRef (channels c) s)
          (\<lambda>s. Inr (s\<lparr>ps_clients := qm_remove i (ps_clients s)\<rparr>)))"

section \<open>Master connections\<close>

definition new_master :: "64 word \<Rightarrow> master" where
  "new_master now = \<lparr>m_stamp = now, m_state = Unconnected, m_in = [], m_out = []\<rparr>"

definition ping_packet :: bytes where
  "ping_packet = [0x00,0x19,0x80,0x50,0x49,0x4e,0x47,0x5f,0x54,0x43,0x50,0x5f,0x52,0x45,0x51,0x55,
     0x45,0x53,0x54,0x5f,0x50,0x49,0x4e,0x45,0x54,0x44,0x34]"

text \<open>\<open>connectToHost\<close> starts a new connection; Qt refuses it while the socket is still closing.\<close>

definition connect_master :: "master \<Rightarrow> master" where
  "connect_master m = (if m_state m = Closing then m else m\<lparr>m_state := HostLookup, m_in := [], m_out := []\<rparr>)"

text \<open>One turn of the loop of \<open>checkMasters\<close>; \<open>now - 60\<close> is unsigned.\<close>

definition check_master :: "64 word \<Rightarrow> string \<Rightarrow> master option \<Rightarrow> master option" where
  "check_master now key v =
     (let m = (case v of None \<Rightarrow> new_master now | Some m \<Rightarrow> m);
          m = (if m_stamp m < now - 60 then m\<lparr>m_state := Unconnected\<rparr> else m);
          m = (case m_state m of
                 HostLookup \<Rightarrow> m
               | Connecting \<Rightarrow> m
               | Connected \<Rightarrow> m
               | _ \<Rightarrow>
                   let m = m\<lparr>m_stamp := now\<rparr> in
                   if length (split_on CHR '':'' key) \<noteq> 2 then m else connect_master m);
          m = (if m_state m = Connected then m\<lparr>m_out := m_out m @ [ping_packet]\<rparr> else m)
      in Some m)"

definition checkMasters :: "64 word \<Rightarrow> mod_ps \<Rightarrow> mod_ps" where
  "checkMasters now s = s\<lparr>masters := qm_map (check_master now) (masters s)\<rparr>"

text \<open>\<open>reload\<close>: the configuration's "master" and "subscribe_limit" lists, when present.\<close>

fun add_masters :: "string list \<Rightarrow> (string, master option) qmap \<Rightarrow> string list
    \<Rightarrow> (string, master option) qmap \<times> string list" where
  "add_masters [] ms cur = (ms, cur)"
| "add_masters (k # ks) ms cur =
     (if qm_contains ms k then add_masters ks ms (removeAll k cur)
      else add_masters ks (qm_insert k None ms) cur)"

definition ps_reload :: "64 word \<Rightarrow> string list option \<Rightarrow> string list option \<Rightarrow> mod_ps \<Rightarrow> mod_ps" where
  "ps_reload now conf_master conf_limit s =
     (let conf_masters = (case conf_master of None \<Rightarrow> [] | Some l \<Rightarrow> l);
          limit = (case conf_limit of None \<Rightarrow> {}
                   | Some l \<Rightarrow> set (map (\<lambda>t. from_hex (lit (filter (\<lambda>ch. ch \<noteq> CHR ''-'') t))) l));
          (ms, cur_masters) = add_masters conf_masters (masters s) (qm_keys (masters s));
          ms = fold qm_remove cur_masters ms
      in checkMasters now (s\<lparr>subscribe_limit := limit, masters := ms\<rparr>))"

text \<open>\<open>masterConnected\<close>, after the socket of master \<open>k\<close> signalled \<open>connected()\<close>.\<close>

definition masterConnected :: "string \<Rightarrow> mod_ps \<Rightarrow> mod_ps" where
  "masterConnected k s = s\<lparr>masters := qm_update k (map_option (\<lambda>m.
     m\<lparr>m_out := m_out m @ map subscribe_packet (qm_keys (channel_refcount s))\<rparr>)) (masters s)\<rparr>"

text \<open>The loop of \<open>readFromMaster\<close>.\<close>

function master_loop :: "ps_env \<Rightarrow> bytes \<Rightarrow> mod_ps \<Rightarrow> (bytes \<times> mod_ps) outcome" where
  "master_loop env buf s =
     (if length buf < 2 then Inr (buf, s)
      else
        let len = be16_len buf in
        if length buf < len then Inr (buf, s)
        else bind_out (pushPacket env (take len buf) s) (master_loop env (drop len buf)))"
  by pat_completeness auto
termination
  by (relation "measure (\<lambda>(env, buf, s). length buf)") (auto simp: be16_len_def)

declare master_loop.simps [simp del]

definition on_master :: "string \<Rightarrow> (master \<Rightarrow> master) \<Rightarrow> mod_ps \<Rightarrow> mod_ps" where
  "on_master k f s = s\<lparr>masters := qm_update k (map_option f) (masters s)\<rparr>"

definition readFromMaster :: "ps_env \<Rightarrow> 64 word \<Rightarrow> string \<Rightarrow> bytes \<Rightarrow> mod_ps \<Rightarrow> mod_ps outcome" where
  "readFromMaster env now k got s =
     (case map_of (masters s) k of
        Some (Some m) \<Rightarrow>
          let s = on_master k (\<lambda>m. m\<lparr>m_stamp := now\<rparr>) s in
          bind_out (master_loop env (m_in m @ got) s)
            (\<lambda>(buf, s). Inr (on_master k (\<lambda>m. m\<lparr>m_in := buf\<rparr>) s))
      | _ \<Rightarrow> Inr s)"

end
