(* ===== verification/Mod_PS_Proofs.thy ===== *)
theory Mod_PS_Proofs
  imports Mod_PS
begin

text \<open>
  Correctness of the publish/subscribe relay: the reference-count contract as a locale and its
  interpretation on \<^const>\<open>channelAddRef\<close> and \<^const>\<open>channelDelRef\<close>, the
  invariant of the daemon (counts, non-null masters, upstream subscriptions) and that every event
  keeps it, delivery, and the packet cutter.
\<close>

section \<open>The reference-count contract\<close>

locale refcounter =
  fixes add :: "'c \<Rightarrow> 's \<Rightarrow> 's outcome"
    and del :: "'c \<Rightarrow> 's \<Rightarrow> 's outcome"
    and count :: "'s \<Rightarrow> 'c \<Rightarrow> int"
    and good :: "'s \<Rightarrow> bool"
    and other :: "'s \<Rightarrow> 'o"
  assumes add_ok: "good s \<Longrightarrow> \<exists>s'. add c s = Inr s' \<and> good s' \<and>
      count s' = (count s)(c := count s c + 1) \<and> other s' = other s"
    and del_ok: "good s \<Longrightarrow> 0 < count s c \<Longrightarrow> \<exists>s'. del c s = Inr s' \<and> good s' \<and>
      count s' = (count s)(c := count s c - 1) \<and> other s' = other s"
begin

text \<open>Giving up a set of distinct held references never faults and lowers exactly those counts.\<close>

lemma del_all:
  "good s \<Longrightarrow> distinct cs \<Longrightarrow> \<forall>c \<in> set cs. 0 < count s c \<Longrightarrow>
   \<exists>s'. fold_out del cs s = Inr s' \<and> good s' \<and>
     count s' = (\<lambda>c. count s c - of_bool (c \<in> set cs)) \<and> other s' = other s"
proof (induction cs arbitrary: s)
  case (Cons c cs)
  from Cons.prems obtain s1 where s1: "del c s = Inr s1" "good s1"
      "count s1 = (count s)(c := count s c - 1)" "other s1 = other s"
    using del_ok [of s c] by auto
  with Cons.prems have "\<forall>c \<in> set cs. 0 < count s1 c" by auto
  with Cons.IH [OF s1(2)] Cons.prems obtain s2 where s2: "fold_out del cs s1 = Inr s2" "good s2"
      "count s2 = (\<lambda>c. count s1 c - of_bool (c \<in> set cs))" "other s2 = other s1"
    by auto
  with s1 Cons.prems show ?case by (auto simp: fun_eq_iff)
qed auto

lemma add_del: "good s \<Longrightarrow> 0 \<le> count s c \<Longrightarrow>
    \<exists>s'. bind_out (add c s) (del c) = Inr s' \<and> good s' \<and> count s' = count s \<and> other s' = other s"
proof -
  assume g: "good s" and c: "0 \<le> count s c"
  obtain s1 where s1: "add c s = Inr s1" "good s1" "count s1 = (count s)(c := count s c + 1)"
      "other s1 = other s" using add_ok [OF g] by blast
  with c have "0 < count s1 c" by simp
  with s1 show ?thesis using del_ok [OF s1(2), of c] by (auto simp: fun_eq_iff)
qed

end

section \<open>What a master has been told\<close>

text \<open>The channels that packets ask for, one packet per write. A master reads bytes, so that this is what it
  understands only if the packets are whole (\<open>master_view\<close> of \<open>Mod_PS_Relays\<close>).\<close>

definition view_step :: "bytes \<Rightarrow> bytes set \<Rightarrow> bytes set" where
  "view_step p V = (if take 3 p = [0, 17, 0x81] then insert (drop 3 p) V
     else if take 3 p = [0, 17, 0x82] then V - {drop 3 p} else V)"

definition written_view :: "bytes list \<Rightarrow> bytes set" where
  "written_view ps = fold view_step ps {}"

lemma replicate_3: "replicate 3 x = [x, x, x]"
  by (simp add: numeral_3_eq_3)

lemma subscribe_packet_eq: "subscribe_packet ch = [0, 17, 0x81] @ ch"
  by (simp add: subscribe_packet_def replicate_3 numeral_2_eq_2)

lemma unsubscribe_packet_eq: "unsubscribe_packet ch = [0, 17, 0x82] @ ch"
  by (simp add: unsubscribe_packet_def replicate_3 numeral_2_eq_2)

lemma take_3: "take 3 (a # b # c # xs) = [a, b, c]" "drop 3 (a # b # c # xs) = xs"
  by (simp_all add: numeral_3_eq_3)

lemma view_subscribe [simp]: "view_step (subscribe_packet ch) V = insert ch V"
  by (simp add: view_step_def subscribe_packet_eq take_3)

lemma view_unsubscribe [simp]: "view_step (unsubscribe_packet ch) V = V - {ch}"
  by (simp add: view_step_def unsubscribe_packet_eq take_3)

lemma view_ping [simp]: "view_step ping_packet V = V"
  by (simp add: view_step_def ping_packet_def take_3)

lemma written_view_snoc [simp]: "written_view (ps @ [p]) = view_step p (written_view ps)"
  by (simp add: written_view_def)

lemma written_view_Nil [simp]: "written_view [] = {}"
  by (simp add: written_view_def)

lemma view_subscribe_all: "fold view_step (map subscribe_packet chs) V = V \<union> set chs"
  by (induction chs arbitrary: V) auto

lemma written_view_subscribe_all:
  "written_view (ps @ map subscribe_packet chs) = written_view ps \<union> set chs"
  by (simp add: written_view_def view_subscribe_all)

section \<open>The invariant\<close>

definition master_ok :: "bytes set \<Rightarrow> master option \<Rightarrow> bool" where
  "master_ok chans v = (case v of None \<Rightarrow> False | Some m \<Rightarrow>
     written_view (m_out m) \<subseteq> chans \<and> (m_state m = Connected \<longrightarrow> written_view (m_out m) = chans))"

definition ps_good :: "mod_ps \<Rightarrow> bool" where
  "ps_good s \<longleftrightarrow> qm_wf (channel_refcount s) \<and> qm_wf (masters s)
     \<and> (\<forall>ch n. map_of (channel_refcount s) ch = Some n \<longrightarrow> 0 < n)
     \<and> (\<forall>k v. map_of (masters s) k = Some v \<longrightarrow> master_ok (dom (map_of (channel_refcount s))) v)"

definition ref_total :: "mod_ps \<Rightarrow> bytes \<Rightarrow> int" where
  "ref_total s ch = int (length (filter (\<lambda>(i, c). ch \<in> set (channels c)) (ps_clients s)))"

definition ps_inv :: "mod_ps \<Rightarrow> bool" where
  "ps_inv s \<longleftrightarrow> ps_good s \<and> qm_wf (ps_clients s)
     \<and> (\<forall>i c. map_of (ps_clients s) i = Some c \<longrightarrow> distinct (channels c))
     \<and> (\<forall>ch. ref_value s ch = ref_total s ch)"

lemma write_masters_ok:
  "\<forall>(k, v) \<in> set ms. v \<noteq> None \<Longrightarrow>
   write_masters p ms = Inr (qm_map (\<lambda>k. map_option (\<lambda>m. m\<lparr>m_out := m_out m @ [p]\<rparr>)) ms)"
  by (induction ms) (auto simp: qm_map_def)

lemma ps_good_masters_nonnull: "ps_good s \<Longrightarrow> \<forall>(k, v) \<in> set (masters s). v \<noteq> None"
proof -
  assume g: "ps_good s"
  have "v \<noteq> None" if "(k, v) \<in> set (masters s)" for k v
  proof
    assume "v = None"
    with g that have "master_ok (dom (map_of (channel_refcount s))) None"
      by (auto simp: ps_good_def qm_wf_map_of_set)
    then show False by (simp add: master_ok_def)
  qed
  then show ?thesis by blast
qed

definition tell_masters :: "bytes \<Rightarrow> mod_ps \<Rightarrow> mod_ps" where
  "tell_masters p s = s\<lparr>masters := qm_map (\<lambda>k. map_option (\<lambda>m. m\<lparr>m_out := m_out m @ [p]\<rparr>)) (masters s)\<rparr>"

lemma doSubscribe_ok: "\<forall>(k, v) \<in> set (masters s). v \<noteq> None \<Longrightarrow>
    doSubscribe ch s = Inr (tell_masters (subscribe_packet ch) s)"
  by (simp add: doSubscribe_def write_masters_ok tell_masters_def)

lemma doUnsubscribe_ok: "\<forall>(k, v) \<in> set (masters s). v \<noteq> None \<Longrightarrow>
    doUnsubscribe ch s = Inr (tell_masters (unsubscribe_packet ch) s)"
  by (simp add: doUnsubscribe_def write_masters_ok tell_masters_def)

lemma master_ok_sub: "master_ok chans v \<Longrightarrow>
    master_ok (insert ch chans) (map_option (\<lambda>m. m\<lparr>m_out := m_out m @ [subscribe_packet ch]\<rparr>) v)"
  by (auto simp: master_ok_def split: option.splits)

lemma master_ok_unsub: "master_ok chans v \<Longrightarrow>
    master_ok (chans - {ch}) (map_option (\<lambda>m. m\<lparr>m_out := m_out m @ [unsubscribe_packet ch]\<rparr>) v)"
  by (auto simp: master_ok_def split: option.splits)

lemma ref_value_pos: "ps_good s \<Longrightarrow> qm_contains (channel_refcount s) ch \<longleftrightarrow> 0 < ref_value s ch"
  by (auto simp: ps_good_def qm_contains_def ref_value_def split: option.splits)

lemma ref_value_cases: "ps_good s \<Longrightarrow> map_of (channel_refcount s) ch =
    (if 0 < ref_value s ch then Some (ref_value s ch) else None)"
  by (auto simp: ps_good_def ref_value_def split: option.splits)

lemma addRef_ok:
  assumes "ps_good s"
  shows "\<exists>s'. channelAddRef ch s = Inr s' \<and> ps_good s' \<and>
    ref_value s' = (ref_value s)(ch := ref_value s ch + 1) \<and>
    (ps_clients s', subscribe_limit s') = (ps_clients s, subscribe_limit s)"
proof (cases "qm_contains (channel_refcount s) ch")
  case True
  then have "0 < ref_value s ch" using ref_value_pos [OF assms] by simp
  moreover have "insert ch (dom (map_of (channel_refcount s))) = dom (map_of (channel_refcount s))"
    using True by (auto simp: qm_contains_dom)
  ultimately show ?thesis using assms True
    by (auto simp: channelAddRef_def ps_good_def ref_value_def fun_eq_iff qmap_simps)
next
  case False
  let ?s = "s\<lparr>channel_refcount := qm_insert ch 1 (channel_refcount s)\<rparr>"
  have "channelAddRef ch s = Inr (tell_masters (subscribe_packet ch) ?s)"
    using False ps_good_masters_nonnull [OF assms] by (simp add: channelAddRef_def doSubscribe_ok)
  moreover have "ps_good (tell_masters (subscribe_packet ch) ?s)"
    using assms by (auto simp: ps_good_def tell_masters_def map_of_qm_map qmap_simps master_ok_sub)
  moreover have "ref_value s ch = 0"
    using False by (simp add: ref_value_def qm_contains_def)
  ultimately show ?thesis using assms
    by (auto simp: tell_masters_def ref_value_def fun_eq_iff ps_good_def qmap_simps)
qed

lemma delRef_ok:
  assumes "ps_good s" "0 < ref_value s ch"
  shows "\<exists>s'. channelDelRef ch s = Inr s' \<and> ps_good s' \<and>
    ref_value s' = (ref_value s)(ch := ref_value s ch - 1) \<and>
    (ps_clients s', subscribe_limit s') = (ps_clients s, subscribe_limit s)"
proof -
  have c: "qm_contains (channel_refcount s) ch" using assms by (simp add: ref_value_pos)
  show ?thesis
  proof (cases "ref_value s ch \<le> 1")
    case True
    let ?s = "s\<lparr>channel_refcount := qm_remove ch (channel_refcount s)\<rparr>"
    have "channelDelRef ch s = Inr (tell_masters (unsubscribe_packet ch) ?s)"
      using True c ps_good_masters_nonnull [OF assms(1)] by (simp add: channelDelRef_def doUnsubscribe_ok)
    moreover have "ps_good (tell_masters (unsubscribe_packet ch) ?s)"
      using assms by (auto simp: ps_good_def tell_masters_def map_of_qm_map qmap_simps master_ok_unsub
          split: if_splits)
    moreover have "ref_value s ch = 1" using True assms(2) by simp
    ultimately show ?thesis using assms
      by (auto simp: tell_masters_def ref_value_def fun_eq_iff ps_good_def qmap_simps)
  next
    case False
    have "insert ch (dom (map_of (channel_refcount s))) = dom (map_of (channel_refcount s))"
      using c by (auto simp: qm_contains_dom)
    with False c assms show ?thesis
      by (auto simp: channelDelRef_def ps_good_def ref_value_def fun_eq_iff qmap_simps)
  qed
qed

interpretation refs: refcounter channelAddRef channelDelRef ref_value ps_good
    "\<lambda>s. (ps_clients s, subscribe_limit s)"
  by unfold_locales (rule addRef_ok, assumption, rule delRef_ok)

section \<open>Client updates and the totals\<close>

definition subscribers :: "(nat, ps_client) qmap \<Rightarrow> bytes \<Rightarrow> int" where
  "subscribers m ch = int (length (filter (\<lambda>(i, c). ch \<in> set (channels c)) m))"

lemma ref_total_eq: "ref_total s ch = subscribers (ps_clients s) ch"
  by (simp add: ref_total_def subscribers_def)

lemma subscribers_simps [simp]:
  "subscribers [] ch = 0"
  "subscribers ((i, c) # m) ch = of_bool (ch \<in> set (channels c)) + subscribers m ch"
  by (simp_all add: subscribers_def)

lemma subscribers_nonneg: "0 \<le> subscribers m ch"
  by (simp add: subscribers_def)

lemma subscribers_pos: "map_of m i = Some c \<Longrightarrow> ch \<in> set (channels c) \<Longrightarrow> 0 < subscribers m ch"
proof (induction m)
  case (Cons a m)
  then show ?case using subscribers_nonneg [of m ch] by (cases a) (auto split: if_splits)
qed simp

lemma subscribers_zero: "subscribers m ch = 0 \<Longrightarrow> map_of m i = Some c \<Longrightarrow> ch \<notin> set (channels c)"
  using subscribers_pos by fastforce

lemma subscribers_update:
  "qm_wf m \<Longrightarrow> map_of m i = Some c \<Longrightarrow>
   subscribers (qm_update i f m) ch =
     subscribers m ch - of_bool (ch \<in> set (channels c)) + of_bool (ch \<in> set (channels (f c)))"
proof (induction m)
  case (Cons a m)
  obtain k v where a: "a = (k, v)" by (cases a)
  show ?case
  proof (cases "k = i")
    case True
    with Cons.prems a have "map_of m i = None" by (auto simp: qm_wf_Cons intro!: map_of_notin_keys)
    with True Cons.prems a show ?thesis by (simp add: qm_update_Cons qm_update_absent)
  next
    case False
    with Cons a show ?thesis by (simp add: qm_update_Cons qm_wf_Cons)
  qed
qed simp

lemma subscribers_same: "(\<And>i c. channels (f i c) = channels c) \<Longrightarrow>
    subscribers (qm_map f m) ch = subscribers m ch"
  by (induction m) (auto simp: qm_map_def)

lemma subscribers_update_same: "(\<And>c. channels (f c) = channels c) \<Longrightarrow>
    subscribers (qm_update i f m) ch = subscribers m ch"
  unfolding qm_update_def by (rule subscribers_same) simp

lemma subscribers_insert_new: "map_of m i = None \<Longrightarrow> channels c = [] \<Longrightarrow>
    subscribers (qm_insert i c m) ch = subscribers m ch"
  by (induction i c m rule: qm_insert.induct) (auto split: if_splits)

lemma subscribers_remove:
  "qm_wf m \<Longrightarrow> map_of m i = Some c \<Longrightarrow>
   subscribers (qm_remove i m) ch = subscribers m ch - of_bool (ch \<in> set (channels c))"
  by (induction m) (auto simp: qm_wf_Cons split: if_splits)

lemma channels_tcp [simp]:
  "channels (drop_link c) = channels c" "channels (tcp_write w d c) = channels c"
  "channels (tcp_flush w c) = channels c" "channels (env_write env i d c) = channels c"
  by (auto simp: drop_link_def tcp_write_def tcp_flush_def env_write_def sock_take_def Let_def)

lemma on_client_simps [simp]:
  "channel_refcount (on_client i f s) = channel_refcount s"
  "masters (on_client i f s) = masters s"
  "subscribe_limit (on_client i f s) = subscribe_limit s"
  "ps_clients (on_client i f s) = qm_update i f (ps_clients s)"
  by (simp_all add: on_client_def)

lemma ps_good_frame [simp]:
  "ps_good (s\<lparr>ps_clients := x\<rparr>) = ps_good s"
  "ps_good (s\<lparr>subscribe_limit := l\<rparr>) = ps_good s"
  "ps_good (on_client i f s) = ps_good s"
  by (simp_all add: ps_good_def)

lemma ref_value_frame [simp]:
  "ref_value (s\<lparr>ps_clients := x\<rparr>) = ref_value s"
  "ref_value (s\<lparr>subscribe_limit := l\<rparr>) = ref_value s"
  "ref_value (s\<lparr>masters := ms\<rparr>) = ref_value s"
  "ref_value (on_client i f s) = ref_value s"
  by (simp_all add: ref_value_def fun_eq_iff)

lemma ps_invI:
  assumes "ps_good s" "qm_wf (ps_clients s)"
    "\<And>i c. map_of (ps_clients s) i = Some c \<Longrightarrow> distinct (channels c)"
    "\<And>ch. ref_value s ch = subscribers (ps_clients s) ch"
  shows "ps_inv s"
  using assms by (simp add: ps_inv_def ref_total_eq)

lemma ps_invD:
  assumes "ps_inv s"
  shows "ps_good s" "qm_wf (ps_clients s)"
    "map_of (ps_clients s) i = Some c \<Longrightarrow> distinct (channels c)"
    "ref_value s ch = subscribers (ps_clients s) ch"
  using assms by (simp_all add: ps_inv_def ref_total_eq)

text \<open>Updates that keep every client's channels.\<close>

lemma ps_inv_on_client:
  assumes "ps_inv s" "\<And>c. channels (f c) = channels c"
  shows "ps_inv (on_client i f s)"
proof (rule ps_invI)
  show "ps_good (on_client i f s)"
    using ps_invD(1) [OF assms(1)] by simp
  show "distinct (channels c)" if "map_of (ps_clients (on_client i f s)) j = Some c" for j c
    using that ps_invD(3) [OF assms(1)] assms(2) by (auto simp: map_of_update split: if_splits)
  show "ref_value (on_client i f s) ch = subscribers (ps_clients (on_client i f s)) ch" for ch
    using ps_invD(4) [OF assms(1)] assms(2)
    by (simp add: subscribers_update_same)
qed (use ps_invD(2) [OF assms(1)] in simp)

section \<open>Every operation keeps the invariant and does not fault\<close>

definition ps_safe :: "mod_ps outcome \<Rightarrow> bool" where
  "ps_safe r \<longleftrightarrow> (\<exists>s'. r = Inr s' \<and> ps_inv s')"

lemma ps_safe_Inr [simp]: "ps_safe (Inr s) \<longleftrightarrow> ps_inv s"
  by (simp add: ps_safe_def)

lemma ps_safe_bind: "ps_safe m \<Longrightarrow> (\<And>s. ps_inv s \<Longrightarrow> ps_safe (f s)) \<Longrightarrow> ps_safe (bind_out m f)"
  by (auto simp: ps_safe_def)

lemma handleSubscribe_safe: "ps_inv s \<Longrightarrow> ps_safe (handleSubscribe i ch s)"
proof (cases "map_of (ps_clients s) i")
  case (Some c)
  assume inv: "ps_inv s"
  show ?thesis
  proof (cases "ch \<in> set (channels c) \<or> \<not> canSubscribe s ch")
    case True
    with Some inv show ?thesis by (auto simp: handleSubscribe_def ps_inv_on_client)
  next
    case False
    define t where "t = on_client i (\<lambda>c. c\<lparr>channels := channels c @ [ch]\<rparr>) s"
    have g: "ps_good t" using ps_invD(1) [OF inv] by (simp add: t_def)
    obtain u where u: "channelAddRef ch t = Inr u" "ps_good u"
        "ref_value u = (ref_value t)(ch := ref_value t ch + 1)" "ps_clients u = ps_clients t"
      using refs.add_ok [OF g, of ch] by auto
    have "ps_inv u"
    proof (rule ps_invI)
      show "distinct (channels d)" if "map_of (ps_clients u) j = Some d" for j d
        using that False Some ps_invD(3) [OF inv] u(4)
        by (auto simp: t_def map_of_update split: if_splits)
      show "ref_value u x = subscribers (ps_clients u) x" for x
        using u(3,4) False Some ps_invD(2,4) [OF inv]
        by (auto simp: t_def subscribers_update)
    qed (use u ps_invD(2) [OF inv] in \<open>simp_all add: t_def\<close>)
    with u False Some show ?thesis by (simp add: handleSubscribe_def t_def)
  qed
qed (simp add: handleSubscribe_def)

lemma handleUnsubscribe_safe: "ps_inv s \<Longrightarrow> ps_safe (handleUnsubscribe i ch s)"
proof (cases "map_of (ps_clients s) i")
  case (Some c)
  assume inv: "ps_inv s"
  show ?thesis
  proof (cases "ch \<in> set (channels c)")
    case True
    define t where "t = on_client i (\<lambda>c. c\<lparr>channels := remove1 ch (channels c)\<rparr>) s"
    have g: "ps_good t" using ps_invD(1) [OF inv] by (simp add: t_def)
    have "0 < ref_value t ch"
      using subscribers_pos [OF Some True] ps_invD(4) [OF inv] by (simp add: t_def)
    then obtain u where u: "channelDelRef ch t = Inr u" "ps_good u"
        "ref_value u = (ref_value t)(ch := ref_value t ch - 1)" "ps_clients u = ps_clients t"
      using refs.del_ok [OF g, of ch] by auto
    have "ps_inv u"
    proof (rule ps_invI)
      show "distinct (channels d)" if "map_of (ps_clients u) j = Some d" for j d
        using that Some ps_invD(3) [OF inv] u(4) by (auto simp: t_def map_of_update split: if_splits)
      show "ref_value u x = subscribers (ps_clients u) x" for x
        using u(3,4) True Some ps_invD(2,4) [OF inv] ps_invD(3) [OF inv Some]
        by (auto simp: t_def subscribers_update)
    qed (use u ps_invD(2) [OF inv] in \<open>simp_all add: t_def\<close>)
    with u True Some show ?thesis by (simp add: handleUnsubscribe_def t_def)
  qed (use Some inv in \<open>simp add: handleUnsubscribe_def\<close>)
qed (simp add: handleUnsubscribe_def)

lemma handlePacket_safe: "ps_inv s \<Longrightarrow> 3 \<le> length p \<Longrightarrow> ps_safe (handlePacket env i p s)"
  by (simp add: handlePacket_def Let_def ps_inv_on_client handleSubscribe_safe handleUnsubscribe_safe)

text \<open>The type of a packet that holds nothing but its length is read out of range.\<close>

lemma handlePacket_short: "length p < 3 \<Longrightarrow> handlePacket env i p s = Inl OutOfRange"
  by (simp add: handlePacket_def)

lemma ps_incomingTcp_safe: "ps_inv s \<Longrightarrow> map_of (ps_clients s) i = None \<Longrightarrow> ps_inv (ps_incomingTcp i s)"
proof (rule ps_invI)
  assume inv: "ps_inv s" and i: "map_of (ps_clients s) i = None"
  show "ps_good (ps_incomingTcp i s)"
    using ps_invD(1) [OF inv] by (simp add: ps_good_def ps_incomingTcp_def)
  show "distinct (channels c)" if "map_of (ps_clients (ps_incomingTcp i s)) j = Some c" for j c
    using that ps_invD(2,3) [OF inv]
    by (auto simp: ps_incomingTcp_def qmap_simps new_ps_client_def split: if_splits)
  have "channels new_ps_client = []" by (simp add: new_ps_client_def)
  then show "ref_value (ps_incomingTcp i s) ch = subscribers (ps_clients (ps_incomingTcp i s)) ch" for ch
    using ps_invD(4) [OF inv, of ch] i
    by (simp add: ps_incomingTcp_def ref_value_def subscribers_insert_new)
qed (auto simp: ps_incomingTcp_def qmap_simps dest: ps_invD(2))

lemma ps_client_destroy_safe: "ps_inv s \<Longrightarrow> ps_safe (ps_client_destroy i s)"
proof (cases "map_of (ps_clients s) i")
  case (Some c)
  assume inv: "ps_inv s"
  have "\<forall>ch \<in> set (channels c). 0 < ref_value s ch"
    using subscribers_pos [OF Some] ps_invD(4) [OF inv] by simp
  then obtain u where u: "fold_out channelDelRef (channels c) s = Inr u" "ps_good u"
      "ref_value u = (\<lambda>ch. ref_value s ch - of_bool (ch \<in> set (channels c)))" "ps_clients u = ps_clients s"
    using refs.del_all [OF ps_invD(1) [OF inv] ps_invD(3) [OF inv Some]] by auto
  let ?v = "u\<lparr>ps_clients := qm_remove i (ps_clients u)\<rparr>"
  have "ps_inv ?v"
  proof (rule ps_invI)
    show "ps_good ?v" using u(2) by (simp add: ps_good_def)
    show "distinct (channels d)" if "map_of (ps_clients ?v) j = Some d" for j d
      using that u(4) ps_invD(2,3) [OF inv] by (auto simp: qmap_simps split: if_splits)
    show "ref_value ?v ch = subscribers (ps_clients ?v) ch" for ch
      using u(3,4) ps_invD(2,4) [OF inv] Some
      by (simp add: subscribers_remove)
  qed (use u ps_invD(2) [OF inv] in \<open>simp add: qmap_simps\<close>)
  with Some u show ?thesis by (simp add: ps_client_destroy_def)
qed (simp add: ps_client_destroy_def)

lemma emit_safe: "ps_inv s \<Longrightarrow> ps_inv (emit_channelPacket env dat ch s)"
proof (rule ps_invI)
  assume inv: "ps_inv s"
  let ?t = "emit_channelPacket env dat ch s"
  have c: "channels (client_channelPacket env i dat ch c) = channels c" for i c
    by (simp add: client_channelPacket_def)
  show "ps_good ?t" using ps_invD(1) [OF inv] by (simp add: ps_good_def emit_channelPacket_def)
  show "distinct (channels d)" if "map_of (ps_clients ?t) j = Some d" for j d
    using that ps_invD(3) [OF inv] by (auto simp: emit_channelPacket_def map_of_qm_map c)
  show "ref_value ?t x = subscribers (ps_clients ?t) x" for x
    using ps_invD(4) [OF inv] by (simp add: emit_channelPacket_def ref_value_def subscribers_same c)
qed (simp add: emit_channelPacket_def ps_invD(2))

lemma packet_length_be16: "2 \<le> length dat \<Longrightarrow> packet_length dat = Inr (be16_len dat)"
  by (cases "dat = []") (simp_all add: packet_length_def be16_len_def)

lemma pushPacket_short: "length dat < 2 \<Longrightarrow> pushPacket env dat s = Inl OutOfRange"
  by (subst pushPacket.simps) (cases "dat = []"; simp add: packet_length_def Suc_le_eq)

lemma pushPacket_safe: "ps_inv s \<Longrightarrow> 2 \<le> length dat \<Longrightarrow> ps_safe (pushPacket env dat s)"
proof (induction env dat s rule: pushPacket.induct)
  case (1 env dat s)
  obtain len where len: "packet_length dat = Inr len" using packet_length_be16 [OF 1(3)] by blast
  show ?case
  proof (cases "17 \<le> len \<and> len < length dat")
    case True
    then have "pushPacket env dat s = pushPacket env (ba_left len dat) s"
      using len by (subst pushPacket.simps) simp
    moreover have "2 \<le> length (ba_left len dat)" using True by (auto simp: ba_left_def)
    ultimately show ?thesis using 1(1) [of len] 1(2) True by simp
  next
    case False
    show ?thesis
    proof (cases "17 \<le> len \<and> len = length dat")
      case True
      then have "byte_at dat 2 = Inr (dat ! 2)" by simp
      with True len 1(2) show ?thesis
        by (subst pushPacket.simps) (auto simp: Let_def emit_safe)
    next
      case False': False
      with False len 1(2) show ?thesis by (subst pushPacket.simps) auto
    qed
  qed
qed

text \<open>The outcome of an operation that faults exactly in the case \<open>bad\<close>.\<close>

definition ps_ok :: "bool \<Rightarrow> mod_ps outcome \<Rightarrow> bool" where
  "ps_ok bad r \<longleftrightarrow> (if bad then r = Inl OutOfRange else ps_safe r)"

lemma pushPacket_ok: "ps_inv s \<Longrightarrow> ps_ok (length dat < 2) (pushPacket env dat s)"
  by (simp add: ps_ok_def pushPacket_short pushPacket_safe)

lemma handlePackets_ok: "ps_inv s \<Longrightarrow> ps_ok (\<exists>p\<in>set ps. length p < 3) (fold_out (handlePacket env i) ps s)"
proof (induction ps arbitrary: s)
  case (Cons p ps)
  show ?case
  proof (cases "length p < 3")
    case False
    then have "ps_safe (handlePacket env i p s)" by (intro handlePacket_safe Cons.prems) simp
    then obtain s1 where "handlePacket env i p s = Inr s1" "ps_inv s1" by (auto simp: ps_safe_def)
    with Cons.IH [of s1] False show ?thesis by simp
  qed (simp add: ps_ok_def handlePacket_short)
qed (simp add: ps_ok_def)

section \<open>Masters\<close>

lemma master_ok_check: "v = None \<or> master_ok chans v \<Longrightarrow> master_ok chans (check_master now k v)"
  by (cases v) (auto simp: check_master_def master_ok_def new_master_def connect_master_def Let_def
      split: sock_state.splits)

definition ps_inv_but_masters :: "mod_ps \<Rightarrow> bool" where
  "ps_inv_but_masters s \<longleftrightarrow> qm_wf (masters s)
     \<and> (\<forall>k v. map_of (masters s) k = Some v \<longrightarrow> v = None \<or> master_ok (dom (map_of (channel_refcount s))) v)
     \<and> ps_inv (s\<lparr>masters := []\<rparr>)"

lemma ps_inv_split: "ps_inv s \<longleftrightarrow> ps_inv (s\<lparr>masters := []\<rparr>) \<and> qm_wf (masters s)
    \<and> (\<forall>k v. map_of (masters s) k = Some v \<longrightarrow> master_ok (dom (map_of (channel_refcount s))) v)"
  by (auto simp: ps_inv_def ps_good_def ref_total_def)

lemma checkMasters_safe: "ps_inv_but_masters s \<Longrightarrow> ps_inv (checkMasters now s)"
  unfolding ps_inv_split [of "checkMasters now s"]
  by (auto simp: ps_inv_but_masters_def checkMasters_def map_of_qm_map intro!: master_ok_check)

lemma ps_inv_weaken: "ps_inv s \<Longrightarrow> ps_inv_but_masters s"
  by (auto simp: ps_inv_split [of s] ps_inv_but_masters_def)

lemma add_masters_spec:
  "qm_wf ms \<Longrightarrow> add_masters ks ms cur = (ms', cur') \<Longrightarrow>
   qm_wf ms' \<and> dom (map_of ms') = dom (map_of ms) \<union> set ks
   \<and> (\<forall>k. map_of ms k \<noteq> None \<longrightarrow> map_of ms' k = map_of ms k)
   \<and> (\<forall>k. map_of ms k = None \<longrightarrow> map_of ms' k = None \<or> map_of ms' k = Some None)
   \<and> set cur' \<subseteq> set cur \<and> (\<forall>k \<in> set cur. k \<in> dom (map_of ms) \<longrightarrow> (k \<in> set cur' \<longleftrightarrow> k \<notin> set ks))"
proof (induction ks ms cur rule: add_masters.induct)
  case (2 k ks ms cur)
  show ?case
  proof (cases "qm_contains ms k")
    case True
    with 2(1) [OF True 2(3)] 2(4) show ?thesis by (auto simp: qm_contains_dom)
  next
    case False
    with 2(2) [OF False qm_wf_insert [OF 2(3)]] 2(3,4) show ?thesis
      by (auto simp: qm_contains_def map_of_insert split: if_splits)
  qed
qed auto

lemma reload_masters:
  assumes "qm_wf (masters s)"
    "add_masters confs (masters s) (qm_keys (masters s)) = (ms, cur)"
  shows "qm_wf (fold qm_remove cur ms)"
    and "dom (map_of (fold qm_remove cur ms)) = set confs"
    and "map_of (fold qm_remove cur ms) k = Some v \<Longrightarrow> v = None \<or> map_of (masters s) k = Some v"
proof -
  note spec = add_masters_spec [OF assms]
  then have wf: "qm_wf ms" by simp
  note rm = qmap.fold_del [OF wf, of cur]
  from rm show "qm_wf (fold qm_remove cur ms)" by simp
  have "set cur = dom (map_of (masters s)) - set confs"
    using spec by (auto simp: set_qm_keys)
  with spec rm show "dom (map_of (fold qm_remove cur ms)) = set confs" by auto
  assume k: "map_of (fold qm_remove cur ms) k = Some v"
  with rm have "k \<notin> set cur" by blast
  with rm k have "map_of ms k = Some v" by auto
  show "v = None \<or> map_of (masters s) k = Some v"
  proof (cases "map_of (masters s) k")
    case None
    with spec have "map_of ms k = None \<or> map_of ms k = Some None" by blast
    with \<open>map_of ms k = Some v\<close> show ?thesis by simp
  next
    case (Some w)
    with spec have "map_of ms k = map_of (masters s) k" by blast
    with \<open>map_of ms k = Some v\<close> show ?thesis by simp
  qed
qed

lemma ps_reload_safe: "ps_inv s \<Longrightarrow> ps_inv (ps_reload now cm cl s)"
proof -
  assume inv: "ps_inv s"
  let ?confs = "case cm of None \<Rightarrow> [] | Some l \<Rightarrow> l"
  obtain ms cur where am: "add_masters ?confs (masters s) (qm_keys (masters s)) = (ms, cur)"
    by (metis surj_pair)
  have wf: "qm_wf (masters s)" using inv by (simp add: ps_inv_split [of s])
  let ?t = "\<lambda>lim. s\<lparr>subscribe_limit := lim, masters := fold qm_remove cur ms\<rparr>"
  have ok: "v = None \<or> master_ok (dom (map_of (channel_refcount s))) v"
    if "map_of (fold qm_remove cur ms) k = Some v" for k v
    using reload_masters(3) [OF wf am that] inv by (auto simp: ps_inv_split [of s])
  have "ps_inv (?t lim\<lparr>masters := []\<rparr>)" for lim
    using inv by (simp add: ps_inv_def ps_good_def ref_total_def ref_value_def)
  then have "ps_inv_but_masters (?t lim)" for lim
    using ok reload_masters(1) [OF wf am] unfolding ps_inv_but_masters_def by simp
  with am show ?thesis by (auto simp: ps_reload_def Let_def intro!: checkMasters_safe)
qed

lemma ps_reload_keys:
  assumes "qm_wf (masters s)"
  shows "dom (map_of (masters (ps_reload now cm cl s))) = set (case cm of None \<Rightarrow> [] | Some l \<Rightarrow> l)"
proof -
  let ?confs = "case cm of None \<Rightarrow> [] | Some l \<Rightarrow> l"
  obtain ms cur where am: "add_masters ?confs (masters s) (qm_keys (masters s)) = (ms, cur)"
    by (metis surj_pair)
  with reload_masters(2) [OF assms am] show ?thesis
    by (auto simp: ps_reload_def Let_def checkMasters_def map_of_qm_map dom_def)
qed

lemma on_master_safe:
  assumes "ps_inv s" "\<And>m. master_ok (dom (map_of (channel_refcount s))) (Some m) \<Longrightarrow>
      master_ok (dom (map_of (channel_refcount s))) (Some (f m))"
  shows "ps_inv (on_master k f s)"
proof -
  have "master_ok (dom (map_of (channel_refcount s))) (map_option f v)"
    if "master_ok (dom (map_of (channel_refcount s))) v" for v
    using that assms(2) by (cases v) (simp_all add: master_ok_def)
  then show ?thesis using assms(1)
    unfolding ps_inv_split [of "on_master k f s"] ps_inv_split [of s]
    by (auto simp: on_master_def map_of_update split: if_splits)
qed

lemma masterConnected_safe:
  assumes "ps_inv s"
  shows "ps_inv (masterConnected k (on_master k (\<lambda>m. m\<lparr>m_state := Connected\<rparr>) s))"
proof -
  let ?f = "\<lambda>m. m\<lparr>m_state := Connected,
     m_out := m_out m @ map subscribe_packet (qm_keys (channel_refcount s))\<rparr>"
  have "masterConnected k (on_master k (\<lambda>m. m\<lparr>m_state := Connected\<rparr>) s) = on_master k ?f s"
    by (simp add: masterConnected_def on_master_def qm_update_update option.map_comp comp_def)
  moreover have "ps_inv (on_master k ?f s)"
    using assms by (rule on_master_safe)
      (auto simp: master_ok_def written_view_subscribe_all set_qm_keys)
  ultimately show ?thesis by simp
qed

lemma master_loop_safe: "ps_inv s \<Longrightarrow> \<exists>r s'. master_loop env buf s = Inr (r, s') \<and> ps_inv s'"
proof (induction env buf s rule: master_loop.induct)
  case (1 env buf s)
  show ?case
  proof (cases "length buf < 2 \<or> length buf < be16_len buf")
    case True
    then show ?thesis using 1(2) by (subst master_loop.simps) (auto simp: Let_def)
  next
    case False
    then have "2 \<le> length (take (be16_len buf) buf)" by (auto simp: be16_len_def)
    from pushPacket_safe [OF 1(2) this] obtain s1
      where s1: "pushPacket env (take (be16_len buf) buf) s = Inr s1" "ps_inv s1"
      by (auto simp: ps_safe_def)
    then have "master_loop env buf s = master_loop env (drop (be16_len buf) buf) s1"
      using False by (subst master_loop.simps) (auto simp: Let_def)
    with 1(1) [of "be16_len buf" s1] False s1 show ?thesis by auto
  qed
qed

lemma readFromMaster_safe: "ps_inv s \<Longrightarrow> ps_safe (readFromMaster env now k got s)"
proof (cases "map_of (masters s) k")
  case (Some v)
  assume inv: "ps_inv s"
  show ?thesis
  proof (cases v)
    case (Some m)
    have "ps_inv (on_master k (\<lambda>m. m\<lparr>m_stamp := now\<rparr>) s)"
      using inv by (rule on_master_safe) (simp add: master_ok_def)
    from master_loop_safe [OF this] obtain r s1
      where "master_loop env (m_in m @ got) (on_master k (\<lambda>m. m\<lparr>m_stamp := now\<rparr>) s) = Inr (r, s1)" "ps_inv s1"
      by blast
    moreover from this(2) have "ps_inv (on_master k (\<lambda>m. m\<lparr>m_in := r\<rparr>) s1)"
      by (rule on_master_safe) (simp add: master_ok_def)
    ultimately show ?thesis using Some \<open>map_of (masters s) k = Some v\<close>
      by (simp add: readFromMaster_def)
  qed (use inv Some in \<open>simp add: readFromMaster_def\<close>)
qed (simp add: readFromMaster_def)

section \<open>Packets on the wire\<close>

definition ps_cut :: "bytes \<Rightarrow> bytes cut" where
  "ps_cut b = (if length b < 2 then More
     else if be16_len b > length b then More
     else Packet (take (be16_len b) b) (drop (be16_len b) b))"

lemma be16_len_append: "2 \<le> length b \<Longrightarrow> be16_len (b @ x) = be16_len b"
  by (auto simp: be16_len_def nth_append)

lemma be16_len_ge: "2 \<le> be16_len b"
  by (simp add: be16_len_def)

interpretation ps_framer: framer ps_cut
proof unfold_locales
  show "length r < length b" if "ps_cut b = Packet f r" for b f r
    using that be16_len_ge [of b] by (auto simp: ps_cut_def split: if_splits)
  show "ps_cut (b @ x) = Packet f (r @ x)" if "ps_cut b = Packet f r" for b f r x
    using that by (auto simp: ps_cut_def be16_len_append split: if_splits)
  show "ps_cut (b @ x) = Fatal" if "ps_cut b = Fatal" for b x
    using that by (auto simp: ps_cut_def split: if_splits)
qed

lemma ps_cut_all_not_fatal: "cut_all ps_cut b = (fs, r, x) \<Longrightarrow> \<not> x"
proof (induction b arbitrary: fs rule: length_induct)
  case (1 b)
  show ?case
  proof (cases "ps_cut b")
    case (Packet f s)
    with 1 ps_framer.shrinks [OF Packet] show ?thesis
      by (auto simp: ps_framer.cut_all_Packet split: prod.splits)
  next
    case Fatal
    then show ?thesis by (simp add: ps_cut_def split: if_splits)
  qed (use 1 in \<open>simp add: ps_framer.cut_all_More\<close>)
qed

lemma ps_cut_all_whole: "cut_all ps_cut b = (fs, r, x) \<Longrightarrow> p \<in> set fs \<Longrightarrow> 2 \<le> length p \<and> be16_len p = length p"
proof (induction b arbitrary: fs rule: length_induct)
  case (1 b)
  show ?case
  proof (cases "ps_cut b")
    case (Packet f s)
    then have b: "2 \<le> length b" "be16_len b \<le> length b" "f = take (be16_len b) b" by (auto simp: ps_cut_def split: if_splits)
    moreover have "be16_len (take (be16_len b) b) = be16_len b" using b(1) be16_len_ge [of b] by (simp add: be16_len_def)
    ultimately have "2 \<le> length f \<and> be16_len f = length f" using be16_len_ge [of b] by simp
    with 1 Packet ps_framer.shrinks [OF Packet] show ?thesis
      by (fastforce simp: ps_framer.cut_all_Packet split: prod.splits)
  qed (use 1 in \<open>simp_all add: ps_framer.cut_all_More ps_framer.cut_all_Fatal\<close>)
qed

text \<open>The only packet without a type is the one of length 0.\<close>

lemma ps_cut_all_typeless:
  assumes "cut_all ps_cut b = (fs, r, x)"
  shows "(\<exists>p\<in>set fs. length p < 3) \<longleftrightarrow> [0, 0] \<in> set fs"
proof -
  have "p = [0, 0]" if "p \<in> set fs" "length p < 3" for p
  proof -
    note w = ps_cut_all_whole [OF assms that(1)]
    with that(2) have "length p = 2" by simp
    then obtain a c where p: "p = [a, c]" by (auto simp: numeral_2_eq_2 length_Suc_conv)
    with w have "push_bit 8 (unat a) OR unat c = 0" by (simp add: be16_len_def)
    then show ?thesis by (simp add: p or_eq_0_iff unat_eq_zero)
  qed
  moreover have "length [0 :: byte, 0] < 3" by simp
  ultimately show ?thesis by blast
qed

lemma ps_loop_cut_all:
  "ps_loop env i b s = (case cut_all ps_cut b of (ps, r, _) \<Rightarrow>
     map_out (Pair r) (fold_out (handlePacket env i) ps s))"
proof (induction env i b s rule: ps_loop.induct)
  case (1 env i b s)
  show ?case
  proof (cases "ps_cut b")
    case (Packet f r)
    then have b: "\<not> length b < 2" "\<not> be16_len b > length b" "f = take (be16_len b) b" "r = drop (be16_len b) b"
      by (auto simp: ps_cut_def split: if_splits)
    then have "ps_loop env i b s = bind_out (handlePacket env i f s) (ps_loop env i r)"
      by (subst ps_loop.simps) (simp add: Let_def ba_left_def)
    also have "\<dots> = bind_out (handlePacket env i f s) (\<lambda>s. case cut_all ps_cut r of (ps, r', _) \<Rightarrow>
        map_out (Pair r') (fold_out (handlePacket env i) ps s))"
      using 1 b by (cases "handlePacket env i f s") simp_all
    also have "\<dots> = (case cut_all ps_cut r of (ps, r', _) \<Rightarrow>
        map_out (Pair r') (bind_out (handlePacket env i f s) (fold_out (handlePacket env i) ps)))"
      by (cases "handlePacket env i f s") (simp_all split: prod.splits)
    finally show ?thesis using Packet by (simp add: ps_framer.cut_all_Packet split: prod.splits)
  next
    case More
    then have "ps_loop env i b s = Inr (b, s)"
      by (subst ps_loop.simps) (auto simp: ps_cut_def Let_def split: if_splits)
    with More show ?thesis by (simp add: ps_framer.cut_all_More)
  next
    case Fatal
    then show ?thesis by (simp add: ps_cut_def split: if_splits)
  qed
qed

text \<open>Handling a packet does not depend on, nor change, the input buffer.\<close>

definition set_buf :: "nat \<Rightarrow> bytes \<Rightarrow> mod_ps \<Rightarrow> mod_ps" where
  "set_buf i r = on_client i (\<lambda>c. c\<lparr>buf_in := r\<rparr>)"

lemma on_client_on_client: "on_client i f (on_client i g s) = on_client i (\<lambda>c. f (g c)) s"
  by (simp add: on_client_def qm_update_update)

lemma addRef_on_client: "channelAddRef ch (on_client i f s) = map_out (on_client i f) (channelAddRef ch s)"
  by (cases s) (simp add: channelAddRef_def doSubscribe_def on_client_def map_out_def bind_out_assoc ref_value_def)

lemma delRef_on_client: "channelDelRef ch (on_client i f s) = map_out (on_client i f) (channelDelRef ch s)"
  by (cases s) (simp add: channelDelRef_def doUnsubscribe_def on_client_def map_out_def bind_out_assoc ref_value_def)

lemma buf_in_commutes:
  "drop_link (c\<lparr>buf_in := r\<rparr>) = (drop_link c)\<lparr>buf_in := r\<rparr>"
  "env_write env i p (c\<lparr>buf_in := r\<rparr>) = (env_write env i p c)\<lparr>buf_in := r\<rparr>"
  "c\<lparr>buf_in := r, channels := x\<rparr> = c\<lparr>channels := x, buf_in := r\<rparr>"
  by (simp_all add: drop_link_def env_write_def tcp_write_def sock_result_def sock_take_def Let_def)

lemma canSubscribe_on_client [simp]: "canSubscribe (on_client i f s) ch = canSubscribe s ch"
  by (simp add: canSubscribe_def)

lemma handlePacket_set_buf:
  "handlePacket env i p (set_buf i r s) = map_out (set_buf i r) (handlePacket env i p s)"
proof -
  have "handleSubscribe i ch (set_buf i r s) = map_out (set_buf i r) (handleSubscribe i ch s)" for ch
    by (cases "map_of (ps_clients s) i")
      (simp_all add: handleSubscribe_def set_buf_def map_of_update on_client_on_client buf_in_commutes
        addRef_on_client [symmetric])
  moreover have "handleUnsubscribe i ch (set_buf i r s) = map_out (set_buf i r) (handleUnsubscribe i ch s)" for ch
    by (cases "map_of (ps_clients s) i")
      (simp_all add: handleUnsubscribe_def set_buf_def map_of_update on_client_on_client buf_in_commutes
        delRef_on_client [symmetric])
  ultimately show ?thesis
    by (cases "byte_at p 2")
      (simp_all add: handlePacket_def Let_def set_buf_def on_client_on_client buf_in_commutes)
qed

lemma fold_handlePacket_set_buf:
  "fold_out (handlePacket env i) ps (set_buf i r s) = map_out (set_buf i r) (fold_out (handlePacket env i) ps s)"
proof (induction ps arbitrary: s)
  case (Cons p ps)
  then show ?case
    by (cases "handlePacket env i p s") (simp_all add: handlePacket_set_buf)
qed simp

lemma set_buf_set_buf: "set_buf i r (set_buf i r' s) = set_buf i r s"
  by (simp add: set_buf_def on_client_on_client)

lemma clients_of_refs:
  "channelAddRef ch s = Inr s' \<Longrightarrow> ps_clients s' = ps_clients s"
  "channelDelRef ch s = Inr s' \<Longrightarrow> ps_clients s' = ps_clients s"
  by (auto simp: channelAddRef_def channelDelRef_def doSubscribe_def doUnsubscribe_def bind_out_Inr_iff
      split: if_splits)

text \<open>No packet removes a client.\<close>

lemma handlePacket_keeps_client:
  "handlePacket env i p s = Inr s' \<Longrightarrow> qm_keys (ps_clients s') = qm_keys (ps_clients s)"
  by (auto simp: handlePacket_def Let_def bind_out_Inr_iff handleSubscribe_def handleUnsubscribe_def
      dest!: clients_of_refs split: if_splits option.splits)

lemma fold_handlePacket_keeps_client:
  "fold_out (handlePacket env i) ps s = Inr s' \<Longrightarrow> qm_keys (ps_clients s') = qm_keys (ps_clients s)"
proof (induction ps arbitrary: s)
  case (Cons p ps)
  then obtain s1 where "handlePacket env i p s = Inr s1" "fold_out (handlePacket env i) ps s1 = Inr s'"
    by (auto simp: bind_out_Inr_iff)
  with Cons.IH handlePacket_keeps_client show ?case by metis
qed simp

lemma ps_handleBuffer_eq:
  assumes "map_of (ps_clients s) i = Some c" "length (buf_in c @ t) \<le> 100 * 1024"
    "cut_all ps_cut (buf_in c @ t) = (ps, r, x)"
  shows "ps_handleBuffer env i t s = map_out (set_buf i r) (fold_out (handlePacket env i) ps s)"
  using assms by (simp add: ps_handleBuffer_def Let_def ps_loop_cut_all map_out_def bind_out_assoc set_buf_def)

text \<open>Client data faults exactly when it completes a packet of length 0, and the input is within its limit.\<close>

lemma ps_handleBuffer_ok:
  assumes inv: "ps_inv s" and c: "map_of (ps_clients s) i = Some c"
  shows "ps_ok (length (buf_in c @ t) \<le> 100 * 1024 \<and> [0, 0] \<in> set (fst (cut_all ps_cut (buf_in c @ t)))) (ps_handleBuffer env i t s)"
proof (cases "length (buf_in c @ t) \<le> 100 * 1024")
  case True
  obtain ps r x where p: "cut_all ps_cut (buf_in c @ t) = (ps, r, x)" by (metis prod_cases3)
  have "ps_inv (set_buf i r u)" if "ps_inv u" for u
    unfolding set_buf_def by (rule ps_inv_on_client [OF that]) simp
  with handlePackets_ok [OF inv, of ps env i] show ?thesis
    using True by (auto simp: ps_handleBuffer_eq [OF c True p] ps_cut_all_typeless [OF p] p ps_ok_def ps_safe_def split: if_splits)
next
  case False
  then have "ps_handleBuffer env i t s = Inr (on_client i (\<lambda>c. c\<lparr>buf_in := []\<rparr>) (on_client i drop_link s))"
    using c by (simp add: ps_handleBuffer_def Let_def ps_loop.simps)
  with False inv show ?thesis by (simp add: ps_ok_def ps_inv_on_client)
qed

lemma ps_handleBuffer_append:
  assumes c: "map_of (ps_clients s) i = Some c" and len: "length (buf_in c @ t1 @ t2) \<le> 100 * 1024"
  shows "bind_out (ps_handleBuffer env i t1 s) (ps_handleBuffer env i t2) = ps_handleBuffer env i (t1 @ t2) s"
proof -
  obtain ps r x where p: "cut_all ps_cut (buf_in c @ t1) = (ps, r, x)" by (metis prod_cases3)
  then have "\<not> x" by (rule ps_cut_all_not_fatal)
  obtain qs r' y where q: "cut_all ps_cut (r @ t2) = (qs, r', y)" by (metis prod_cases3)
  have pq: "cut_all ps_cut (buf_in c @ (t1 @ t2)) = (ps @ qs, r', y)"
    using ps_framer.cut_all_append [of "buf_in c @ t1" t2] p q \<open>\<not> x\<close> by simp
  have h1: "ps_handleBuffer env i t1 s = map_out (set_buf i r) (fold_out (handlePacket env i) ps s)"
    using ps_handleBuffer_eq [OF c _ p] len by simp
  have lr: "length (r @ t2) \<le> 100 * 1024"
  proof -
    have "length r \<le> length b" if "cut_all ps_cut b = (ps, r, x)" for b ps r x
      using that
    proof (induction b arbitrary: ps rule: length_induct)
      case (1 b)
      show ?case
      proof (cases "ps_cut b")
        case (Packet f s)
        with 1 ps_framer.shrinks [OF Packet] show ?thesis
          by (fastforce simp: ps_framer.cut_all_Packet split: prod.splits)
      qed (use 1 in \<open>simp_all add: ps_framer.cut_all_More ps_framer.cut_all_Fatal\<close>)
    qed
    from this [OF p] len show ?thesis by simp
  qed
  show ?thesis
  proof (cases "fold_out (handlePacket env i) ps s")
    case (Inl e)
    with h1 ps_handleBuffer_eq [OF c _ pq] len show ?thesis by (simp add: fold_out_append)
  next
    case (Inr s1)
    then have "i \<in> dom (map_of (ps_clients s1))"
      using fold_handlePacket_keeps_client [OF Inr] c by (auto simp flip: set_qm_keys)
        (auto simp: set_qm_keys)
    then obtain c1 where "map_of (ps_clients s1) i = Some c1" by blast
    then have c2: "map_of (ps_clients (set_buf i r s1)) i = Some (c1\<lparr>buf_in := r\<rparr>)"
      by (simp add: set_buf_def map_of_update)
    have "ps_handleBuffer env i t2 (set_buf i r s1)
        = map_out (set_buf i r') (fold_out (handlePacket env i) qs (set_buf i r s1))"
      using ps_handleBuffer_eq [OF c2, of t2 qs r' y] lr q by simp
    also have "\<dots> = map_out (set_buf i r') (fold_out (handlePacket env i) qs s1)"
      by (cases "fold_out (handlePacket env i) qs s1") (simp_all add: fold_handlePacket_set_buf set_buf_set_buf)
    finally show ?thesis
      using h1 Inr ps_handleBuffer_eq [OF c _ pq] len by (simp add: fold_out_append)
  qed
qed

section \<open>Events\<close>

text \<open>One event of Qt's loop, with its outcome.\<close>

inductive ps_step :: "ps_env \<Rightarrow> mod_ps \<Rightarrow> mod_ps outcome \<Rightarrow> bool" for env where
  connect: "map_of (ps_clients s) i = None \<Longrightarrow> ps_step env s (Inr (ps_incomingTcp i s))"
| data: "map_of (ps_clients s) i = Some c \<Longrightarrow> sock_open c \<Longrightarrow> ps_step env s (ps_handleBuffer env i t s)"
| written: "ps_step env s (Inr (on_client i (tcp_bytesWritten n) s))"
| peer_closed: "ps_step env s (Inr (on_client i (\<lambda>c. (tcp_socketDisconnected c)\<lparr>sock_open := False\<rparr>) s))"
| destroy: "ps_step env s (ps_client_destroy i s)"
| datagram: "ps_step env s (ps_incomingDatagram env dat s)"
| master_up: "ps_step env s (Inr (masterConnected k (on_master k (\<lambda>m. m\<lparr>m_state := Connected\<rparr>) s)))"
| master_other: "st \<noteq> Connected \<Longrightarrow> ps_step env s (Inr (on_master k (\<lambda>m. m\<lparr>m_state := st\<rparr>) s))"
| master_data: "ps_step env s (readFromMaster env now k got s)"
| timer: "ps_step env s (Inr (checkMasters now s))"
| reload: "ps_step env s (Inr (ps_reload now cm cl s))"

inductive ps_reachable :: "mod_ps \<Rightarrow> bool" where
  start: "ps_reachable new_ps"
| step: "ps_reachable s \<Longrightarrow> ps_step env s (Inr s') \<Longrightarrow> ps_reachable s'"

inductive_cases ps_stepE: "ps_step env s r"

lemma ps_inv_new: "ps_inv new_ps"
  by (auto simp: new_ps_def intro!: ps_invI) (auto simp: ps_good_def ref_value_def)

text \<open>Every step that does not fault keeps the invariant.\<close>

lemma ps_safeD: "ps_safe r \<Longrightarrow> r = Inr s' \<Longrightarrow> ps_inv s'"
  by (simp add: ps_safe_def)

lemma ps_okD: "ps_ok bad r \<Longrightarrow> r = Inr s' \<Longrightarrow> ps_inv s'"
  by (auto simp: ps_ok_def ps_safe_def split: if_splits)

lemma ps_step_kept: "ps_step env s r \<Longrightarrow> ps_inv s \<Longrightarrow> r = Inr s' \<Longrightarrow> ps_inv s'"
proof (induction rule: ps_step.induct)
  case (connect s i)
  then show ?case using ps_incomingTcp_safe by auto
next
  case (data s i c t)
  from ps_okD [OF ps_handleBuffer_ok [OF data(3,1)] data(4)] show ?case .
next
  case (written s i n)
  then show ?case using ps_inv_on_client [of s "tcp_bytesWritten n" i] by (simp add: tcp_bytesWritten_def)
next
  case (peer_closed s i)
  then show ?case
    using ps_inv_on_client [of s "\<lambda>c. (tcp_socketDisconnected c)\<lparr>sock_open := False\<rparr>" i] by (simp add: tcp_socketDisconnected_def)
next
  case (destroy s i)
  from ps_safeD [OF ps_client_destroy_safe [OF destroy(1)] destroy(2)] show ?case .
next
  case (datagram s dat)
  from ps_okD [OF pushPacket_ok [OF datagram(1)] datagram(2) [unfolded ps_incomingDatagram_def]] show ?case .
next
  case (master_other st s k)
  from master_other(2) have "ps_inv (on_master k (\<lambda>m. m\<lparr>m_state := st\<rparr>) s)"
    by (rule on_master_safe) (use master_other(1) in \<open>auto simp: master_ok_def\<close>)
  then show ?case using master_other(3) by simp
next
  case (master_up s k)
  then show ?case using masterConnected_safe by auto
next
  case (master_data s now k got)
  from ps_safeD [OF readFromMaster_safe [OF master_data(1)] master_data(2)] show ?case .
next
  case (timer s now)
  then show ?case using checkMasters_safe [OF ps_inv_weaken] by auto
next
  case (reload s now cm cl)
  then show ?case using ps_reload_safe by auto
qed

lemma ps_reachable_inv: "ps_reachable s \<Longrightarrow> ps_inv s"
proof (induction rule: ps_reachable.induct)
  case (step s env s')
  from ps_step_kept [OF step(2,3)] show ?case by simp
qed (rule ps_inv_new)

section \<open>Delivery\<close>

text \<open>The check for listeners only saves work: without it nothing else would be written.\<close>

lemma emit_no_listener: "ps_inv s \<Longrightarrow> \<not> qm_contains (channel_refcount s) ch \<Longrightarrow> qm_wf (ps_clients s) \<Longrightarrow>
    map_of (ps_clients (emit_channelPacket env dat ch s)) i = map_of (ps_clients s) i"
proof (cases "map_of (ps_clients s) i")
  case (Some c)
  assume inv: "ps_inv s" and n: "\<not> qm_contains (channel_refcount s) ch"
  then have "ref_value s ch = 0" by (simp add: ref_value_def qm_contains_def)
  then have "ch \<notin> set (channels c)" using ps_invD(4) [OF inv] subscribers_zero [OF _ Some] by simp
  with Some show ?thesis by (simp add: emit_channelPacket_def map_of_qm_map client_channelPacket_def)
qed (simp add: emit_channelPacket_def map_of_qm_map)

lemma pushPacket_data:
  assumes "17 \<le> length dat" "be16_len dat = length dat" "dat ! 2 AND 0x80 = 0"
  shows "pushPacket env dat s =
    Inr (if qm_contains (channel_refcount s) (ba_mid 3 16 dat)
         then emit_channelPacket env dat (ba_mid 3 16 dat) s else s)"
proof -
  have "dat ! 2 \<noteq> 0x80" using assms(3) by auto
  moreover have "byte_at dat 2 = Inr (dat ! 2)" using assms(1) by simp
  ultimately show ?thesis using assms
    by (subst pushPacket.simps) (simp add: packet_length_be16 Let_def)
qed

lemma delivery:
  assumes "ps_inv s" "17 \<le> length dat" "be16_len dat = length dat" "dat ! 2 AND 0x80 = 0"
  shows "\<exists>s'. pushPacket env dat s = Inr s' \<and> channel_refcount s' = channel_refcount s \<and>
    (\<forall>i. map_of (ps_clients s') i = map_option (\<lambda>c.
       if ba_mid 3 16 dat \<in> set (channels c) then env_write env i dat c else c) (map_of (ps_clients s) i))"
proof -
  let ?ch = "ba_mid 3 16 dat"
  let ?e = "emit_channelPacket env dat ?ch s"
  have "map_of (ps_clients ?e) i = map_option (\<lambda>c. if ?ch \<in> set (channels c) then env_write env i dat c else c)
      (map_of (ps_clients s) i)" for i
    by (cases "map_of (ps_clients s) i") (simp_all add: emit_channelPacket_def map_of_qm_map client_channelPacket_def)
  with emit_no_listener [OF assms(1) _ ps_invD(2) [OF assms(1)]] show ?thesis
    by (auto simp: pushPacket_data [OF assms(2-4)] emit_channelPacket_def)
qed

end
