(* ===== verification/Mod_PS_Props.thy ===== *)
theory Mod_PS_Props
  imports Mod_PS_Proofs
begin

text \<open>
  The properties of the publish/subscribe relay, each with its witness at a concrete run: a client
  that subscribed to one channel. When an event faults is in \<open>Mod_PS_Refine\<close>, what a master was told in
  \<open>Mod_PS_Relays\<close>.
\<close>

section \<open>A concrete run\<close>

definition ex_env :: ps_env where
  "ex_env = (\<lambda>i taken dat. int (length dat))"

definition ex_chan :: bytes where
  "ex_chan = [1, 2, 3, 4, 5, 6, 7, 8, 9, 10, 11, 12, 13, 14, 15, 16]"

definition get_out :: "mod_ps outcome \<Rightarrow> mod_ps" where
  "get_out r = (case r of Inl _ \<Rightarrow> new_ps | Inr s \<Rightarrow> s)"

text \<open>A configured master that is up, then a client that subscribes.\<close>

definition ex_up :: mod_ps where
  "ex_up = masterConnected ''m:1'' (on_master ''m:1'' (\<lambda>m. m\<lparr>m_state := Connected\<rparr>)
     (ps_reload 100 (Some [''m:1'']) None new_ps))"

definition ex_sub :: mod_ps where
  "ex_sub = get_out (map_out (set_buf 7 []) (handlePacket ex_env 7 ([0, 17, 0x81] @ ex_chan) (ps_incomingTcp 7 ex_up)))"

lemma ex_up_reachable: "ps_reachable ex_up"
  unfolding ex_up_def
  by (rule ps_reachable.step [OF ps_reachable.step [OF ps_reachable.start ps_step.reload] ps_step.master_up])

lemma ex_client: "map_of (ps_clients (ps_incomingTcp 7 ex_up)) 7 = Some new_ps_client"
  by code_simp

lemma ex_conn_reachable: "ps_reachable (ps_incomingTcp 7 ex_up)"
proof -
  have "map_of (ps_clients ex_up) 7 = None" by code_simp
  from ps_step.connect [OF this] show ?thesis by (rule ps_reachable.step [OF ex_up_reachable])
qed

lemma ex_handleBuffer: "ps_handleBuffer ex_env 7 ([0, 17, 0x81] @ ex_chan) (ps_incomingTcp 7 ex_up)
    = map_out (set_buf 7 []) (handlePacket ex_env 7 ([0, 17, 0x81] @ ex_chan) (ps_incomingTcp 7 ex_up))"
proof -
  have "cut_all ps_cut ([0, 17, 0x81] @ ex_chan) = ([[0, 17, 0x81] @ ex_chan], [], False)"
    by code_simp
  then show ?thesis
    using ps_handleBuffer_eq [OF ex_client, of "[0, 17, 0x81] @ ex_chan" "[[0, 17, 0x81] @ ex_chan]" "[]" False ex_env]
    by (simp add: new_ps_client_def ex_chan_def)
qed

lemma ex_data_step: "ps_step ex_env (ps_incomingTcp 7 ex_up)
    (ps_handleBuffer ex_env 7 ([0, 17, 0x81] @ ex_chan) (ps_incomingTcp 7 ex_up))"
  by (rule ps_step.data [OF ex_client]) (simp add: new_ps_client_def)

lemma ex_sub_reachable: "ps_reachable ex_sub"
proof -
  have "3 \<le> length ([0, 17, 0x81] @ ex_chan)" by simp
  from handlePacket_safe [OF ps_reachable_inv [OF ex_conn_reachable] this, of ex_env 7]
  have "ps_handleBuffer ex_env 7 ([0, 17, 0x81] @ ex_chan) (ps_incomingTcp 7 ex_up) = Inr ex_sub"
    unfolding ex_sub_def ex_handleBuffer by (auto simp: ps_safe_def get_out_def)
  with ex_data_step show ?thesis by (metis ps_reachable.step ex_conn_reachable)
qed

lemma ex_sub_ref: "ref_value ex_sub ex_chan = 1"
  by code_simp

lemma ex_sub_master: "map_option (\<lambda>v. case v of None \<Rightarrow> None | Some m \<Rightarrow> Some (m_state m, m_out m)) (map_of (masters ex_sub) ''m:1'')
    = Some (Some (Connected, [subscribe_packet ex_chan]))"
  by code_simp

section \<open>What a master was told\<close>

lemma written_view_subscribed:
  assumes "ps_reachable s" "map_of (masters s) k = Some (Some m)" "m_state m = Connected"
  shows "written_view (m_out m) = {ch. ref_total s ch \<noteq> 0}"
proof -
  have inv: "ps_inv s" by (rule ps_reachable_inv [OF assms(1)])
  then have "master_ok (dom (map_of (channel_refcount s))) (Some m)"
    using assms(2) by (simp add: ps_inv_def ps_good_def)
  then have "written_view (m_out m) = dom (map_of (channel_refcount s))"
    using assms(3) by (simp add: master_ok_def)
  moreover have "ch \<in> dom (map_of (channel_refcount s)) \<longleftrightarrow> ref_total s ch \<noteq> 0" for ch
    using ref_value_cases [OF ps_invD(1) [OF inv], of ch] ps_invD(4) [OF inv, of ch]
      subscribers_nonneg [of "ps_clients s" ch]
    by (auto simp: ref_total_eq split: if_splits)
  ultimately show ?thesis by blast
qed

section \<open>Properties\<close>

text \<open>C20: in every reachable state of the relay the reference count of a channel is the number
  of connected clients whose channel set holds it.\<close>

theorem ps_refcount_counts:
  assumes "ps_reachable s"
  shows "ref_value s ch = ref_total s ch"
  using ps_invD(4) [OF ps_reachable_inv [OF assms]] by (simp add: ref_total_eq)

theorem ps_refcount_counts_witness:
  "ps_reachable ex_sub \<and> ref_total ex_sub ex_chan = 1 \<and> ref_value ex_sub ex_chan = ref_total ex_sub ex_chan"
  using ps_refcount_counts [OF ex_sub_reachable, of ex_chan] ex_sub_ref ex_sub_reachable by simp

text \<open>C22: publishing a complete data packet, with the length that protocol.md asks for, writes it, unchanged, to
  every client subscribed to its channel and to no other client, and leaves the reference counts alone.\<close>

theorem ps_delivers_to_subscribers:
  assumes "ps_reachable s" "2 + 17 \<le> length dat" "be16_len dat = length dat" "dat ! 2 AND 0x80 = 0"
  shows "\<exists>s'. pushPacket env dat s = Inr s' \<and> channel_refcount s' = channel_refcount s \<and>
    (\<forall>i. map_of (ps_clients s') i = map_option (\<lambda>c.
       if ba_mid 3 16 dat \<in> set (channels c) then env_write env i dat c else c) (map_of (ps_clients s) i))"
proof -
  have "17 \<le> length dat" using assms(2) by simp
  from delivery [OF ps_reachable_inv [OF assms(1)] this assms(3,4)] show ?thesis .
qed

theorem ps_delivers_to_subscribers_witness:
  "\<exists>s' c. pushPacket ex_env ([0, 18, 0] @ ex_chan @ [42]) ex_sub = Inr s'
     \<and> map_of (ps_clients ex_sub) 7 = Some c \<and> ex_chan \<in> set (channels c)
     \<and> map_of (ps_clients s') 7 = Some (env_write ex_env 7 ([0, 18, 0] @ ex_chan @ [42]) c)"
proof -
  let ?d = "[0, 18, 0] @ ex_chan @ [42] :: bytes"
  have h: "2 + 17 \<le> length ?d" "be16_len ?d = length ?d" "?d ! 2 AND 0x80 = 0"
    by code_simp+
  have c: "map_option (\<lambda>c. ex_chan \<in> set (channels c)) (map_of (ps_clients ex_sub) 7) = Some True"
    "ba_mid 3 16 ?d = ex_chan"
    by code_simp+
  then obtain c where "map_of (ps_clients ex_sub) 7 = Some c" "ex_chan \<in> set (channels c)" by auto
  with ps_delivers_to_subscribers [OF ex_sub_reachable h, of ex_env] c(2) show ?thesis by auto
qed

text \<open>How the network splits a client's bytes does not matter: handling two reads one after the
  other gives the state that handling their concatenation gives, as long as the pending input stays
  within the 100 kB limit.\<close>

theorem ps_reads_compose:
  assumes "map_of (ps_clients s) i = Some c" "length (buf_in c @ t1 @ t2) \<le> 100 * 1024"
  shows "bind_out (ps_handleBuffer env i t1 s) (ps_handleBuffer env i t2) = ps_handleBuffer env i (t1 @ t2) s"
  by (rule ps_handleBuffer_append [OF assms])

theorem ps_reads_compose_witness:
  "bind_out (ps_handleBuffer ex_env 7 [0, 17, 0x81, 1, 2] (ps_incomingTcp 7 ex_up))
       (ps_handleBuffer ex_env 7 [3, 4, 5, 6, 7, 8, 9, 10, 11, 12, 13, 14, 15, 16])
     = ps_handleBuffer ex_env 7 ([0, 17, 0x81] @ ex_chan) (ps_incomingTcp 7 ex_up)"
  using ps_reads_compose [OF ex_client, of "[0, 17, 0x81, 1, 2]"
      "[3, 4, 5, 6, 7, 8, 9, 10, 11, 12, 13, 14, 15, 16]" ex_env]
  by (simp add: new_ps_client_def ex_chan_def)

text \<open>After a reload the daemon holds a connection entry for exactly the masters of the
  configuration.\<close>

theorem ps_reload_masters:
  assumes "ps_reachable s"
  shows "dom (map_of (masters (ps_reload now cm cl s))) = set (case cm of None \<Rightarrow> [] | Some l \<Rightarrow> l)"
  by (rule ps_reload_keys) (use ps_invD(1) [OF ps_reachable_inv [OF assms]] in \<open>simp add: ps_good_def\<close>)

theorem ps_reload_masters_witness:
  "dom (map_of (masters (ps_reload 200 (Some [''b:2'', ''c:3'']) None ex_sub))) = {''b:2'', ''c:3''}
     \<and> ''m:1'' \<in> dom (map_of (masters ex_sub))"
proof -
  have "''m:1'' \<in> dom (map_of (masters ex_sub))" using ex_sub_master by auto
  with ps_reload_masters [OF ex_sub_reachable, of 200 "Some [''b:2'', ''c:3'']" None] show ?thesis by simp
qed

text \<open>A subscription whose channel is shorter than 16 bytes is accepted from a client without
  limits, and what is then written to every master is an incomplete packet: the master waits for bytes
  of the next packet to complete it.\<close>

theorem ps_short_subscription:
  assumes "ps_reachable s" "map_of (ps_clients s) i = Some c" "subscribe_limit s = {}"
    "length ch < 16" "ref_total s ch = 0"
  shows "\<exists>s'. handlePacket env i ([0, word_of_nat (1 + length ch), 0x81] @ ch) s = Inr s' \<and> ref_value s' ch = 1
     \<and> masters s' = qm_map (\<lambda>k. map_option (\<lambda>m. m\<lparr>m_out := m_out m @ [subscribe_packet ch]\<rparr>)) (masters s)
     \<and> ps_cut (subscribe_packet ch) = More"
proof -
  let ?p = "[0, word_of_nat (1 + length ch), 0x81] @ ch"
  note inv = ps_reachable_inv [OF assms(1)]
  have ch: "ch \<notin> set (channels c)"
    using subscribers_zero [OF _ assms(2)] assms(5) by (simp add: ref_total_eq)
  have r0: "ref_value s ch = 0" using assms(5) ps_invD(4) [OF inv] by (simp add: ref_total_eq)
  let ?t = "on_client i (\<lambda>c. c\<lparr>channels := channels c @ [ch]\<rparr>) s"
  let ?u = "?t\<lparr>channel_refcount := qm_insert ch 1 (channel_refcount s)\<rparr>"
  have m: "ba_mid 3 16 ?p = ch" using assms(4) by (simp add: ba_mid_def take_3)
  have b: "byte_at ?p 2 = Inr 0x81" by (simp add: byte_at_def)
  have "\<not> qm_contains (channel_refcount s) ch"
    using r0 ref_value_pos [OF ps_invD(1) [OF inv]] by simp
  then have "handlePacket env i ?p s = Inr (tell_masters (subscribe_packet ch) ?u)"
    unfolding handlePacket_def b Let_def
    using m ch assms(2,3) ps_good_masters_nonnull [OF ps_invD(1) [OF inv]]
    by (simp add: handleSubscribe_def canSubscribe_def channelAddRef_def doSubscribe_ok)
  moreover have "ref_value (tell_masters (subscribe_packet ch) ?u) ch = 1"
    using ps_invD(1) [OF inv] by (simp add: tell_masters_def ref_value_def ps_good_def qmap_simps)
  moreover have "ps_cut (subscribe_packet ch) = More"
    using assms(4) by (simp add: ps_cut_def subscribe_packet_eq be16_len_def)
  ultimately show ?thesis by (simp add: tell_masters_def)
qed

theorem ps_short_subscription_witness:
  "\<exists>s'. handlePacket ex_env 7 ([0, 3, 0x81] @ [9, 9]) (ps_incomingTcp 7 ex_up) = Inr s'
     \<and> ref_value s' [9, 9] = 1 \<and> ps_cut (subscribe_packet [9, 9]) = More"
proof -
  have "subscribe_limit (ps_incomingTcp 7 ex_up) = {}" "ref_total (ps_incomingTcp 7 ex_up) [9, 9] = 0"
    by code_simp+
  from ps_short_subscription [OF ex_conn_reachable ex_client this(1) _ this(2), of ex_env]
  show ?thesis by auto
qed

text \<open>protocol.md asks for a length of at least 17 after the length field; the code compares the total length with
  17. A packet that announces 15 or 16 bytes, which holds a channel of 14 or 15, is delivered as well.\<close>

theorem ps_undersized_delivered:
  assumes "ps_reachable s" "length dat \<in> {17, 18}" "be16_len dat = length dat" "dat ! 2 AND 0x80 = 0"
    "map_of (ps_clients s) i = Some c" "drop 3 dat \<in> set (channels c)"
  shows "\<exists>s'. pushPacket env dat s = Inr s' \<and> map_of (ps_clients s') i = Some (env_write env i dat c)"
proof -
  have l: "17 \<le> length dat" using assms(2) by auto
  have "ba_mid 3 16 dat = drop 3 dat" using assms(2) by (auto simp: ba_mid_def)
  with delivery [OF ps_reachable_inv [OF assms(1)] l assms(3,4), of env] assms(5,6) show ?thesis by auto
qed

text \<open>A datagram of fewer than two bytes makes \<open>pushPacket\<close> read its length out of range.\<close>

theorem ps_short_datagram:
  assumes "length d < 2"
  shows "ps_incomingDatagram env d s = Inl OutOfRange"
  using assms by (simp add: ps_incomingDatagram_def pushPacket_short)

text \<open>A client that sends two zero bytes makes \<open>handlePacket\<close> read the type out of range.\<close>

theorem ps_zero_packet:
  assumes "map_of (ps_clients s) i = Some c" "buf_in c = []"
  shows "ps_handleBuffer env i [0, 0] s = Inl OutOfRange"
proof -
  have "cut_all ps_cut [0, 0] = ([[0, 0]], [], False)" by code_simp
  then have p: "cut_all ps_cut (buf_in c @ [0, 0]) = ([[0, 0]], [], False)" using assms(2) by simp
  show ?thesis using ps_handleBuffer_eq [OF assms(1) _ p, of env] assms(2) by (simp add: handlePacket_short)
qed

end
