(* ===== verification/Bitcoin_Data.thy ===== *)
theory Bitcoin_Data
  imports Qt_Stream
begin

text \<open>
  mod/ext/bitcoin: the serialization of the Bitcoin protocol (BitcoinStream), network addresses
  (BitcoinNetAddr), transactions and scripts (BitcoinTx), blocks (BitcoinBlock). Every stream the
  program makes for them is little endian. The double SHA-256 is an argument, as is the text form
  of an address.
\<close>

section \<open>BitcoinStream\<close>

definition bc_writeInt :: "64 word \<Rightarrow> bytes" where
  "bc_writeInt i =
     (if i < 253 then put_le (ucast i :: 8 word)
      else if i < 0xffff then put_le (253 :: 8 word) @ put_le (ucast i :: 16 word)
      else if i < 0xffffffff then put_le (254 :: 8 word) @ put_le (ucast i :: 32 word)
      else put_le (255 :: 8 word) @ put_le i)"

definition bc_readInt :: "64 word reader" where
  "bc_readInt = do {
     i \<leftarrow> (get_le :: 8 word reader);
     if i = 253 then do { j \<leftarrow> (get_le :: 16 word reader); State_Monad.return (ucast j) }
     else if i = 254 then do { j \<leftarrow> (get_le :: 32 word reader); State_Monad.return (ucast j) }
     else if i = 255 then do { j \<leftarrow> (get_le :: 64 word reader); State_Monad.return j }
     else State_Monad.return (ucast i)
   }"

text \<open>The length is an \<open>int\<close>; a negative one reads nothing.\<close>

definition bc_readData :: "int \<Rightarrow> bytes reader" where
  "bc_readData len = rd_raw (nat len)"

definition bc_writeData :: "bytes \<Rightarrow> bytes" where
  "bc_writeData d = d"

text \<open>\<open>qint64 len = readInt(stream)\<close>, passed on as an \<open>int\<close>: the low 32 bits, signed.\<close>

definition as_int :: "64 word \<Rightarrow> int" where
  "as_int w = sint (ucast w :: 32 word)"

definition bc_writeString :: "bytes \<Rightarrow> bytes" where
  "bc_writeString s = bc_writeInt (word_of_nat (length s)) @ bc_writeData s"

definition bc_readString :: "bytes reader" where
  "bc_readString = do { len \<leftarrow> bc_readInt; bc_readData (as_int len) }"

section \<open>BitcoinNetAddr\<close>

text \<open>QHostAddress: null, an IPv4 address, the 16 bytes of an IPv6 address, or the wildcard
  of both protocols.\<close>

datatype host_addr = NullAddr | IPv4 "32 word" | IPv6 bytes | AnyAddr

record net_addr =
  na_valid :: bool
  na_addr :: host_addr
  na_port :: "16 word"
  na_services :: "64 word"
  na_bin :: bytes

definition net_addr_null :: net_addr where
  "net_addr_null = \<lparr>na_valid = False, na_addr = NullAddr, na_port = 0, na_services = 0, na_bin = []\<rparr>"

definition ipv4_prefix :: bytes where
  "ipv4_prefix = [0, 0, 0, 0, 0, 0, 0, 0, 0, 0, 0xff, 0xff]"

text \<open>The fields of a binary address: \<open>decode_bin\<close>. The IPv4 address is read in the
  stream's little endian order.\<close>

definition read_host :: "bytes \<Rightarrow> host_addr reader" where
  "read_host bin =
     (if ba_mid 8 12 bin = ipv4_prefix
      then do { _ \<leftarrow> rd_skip 12; ipv4 \<leftarrow> (get_le :: 32 word reader); State_Monad.return (IPv4 ipv4) }
      else do { ipv6 \<leftarrow> rd_list 16 (get_le :: 8 word reader); State_Monad.return (IPv6 ipv6) })"

definition read_net_addr :: "bytes \<Rightarrow> net_addr reader" where
  "read_net_addr bin = do {
     services \<leftarrow> (get_le :: 64 word reader);
     a \<leftarrow> read_host bin;
     port \<leftarrow> (get_be :: 16 word reader);
     State_Monad.return \<lparr>na_valid = True, na_addr = a, na_port = port, na_services = services, na_bin = bin\<rparr>
   }"

definition net_addr_of_bin :: "bytes \<Rightarrow> net_addr" where
  "net_addr_of_bin bin =
     (if length bin \<noteq> 26 then net_addr_null\<lparr>na_bin := bin\<rparr> else fst (run_state (read_net_addr bin) bin))"

text \<open>\<open>decode_hp\<close>\<close>

definition net_addr_of_host :: "host_addr \<Rightarrow> 16 word \<Rightarrow> 64 word \<Rightarrow> net_addr" where
  "net_addr_of_host a port services =
     (let na = \<lparr>na_valid = False, na_addr = a, na_port = port, na_services = services, na_bin = []\<rparr> in
      case a of NullAddr \<Rightarrow> na
      | _ \<Rightarrow>
          let bin = put_le services;
              bin = bin @ (case a of
                  IPv4 ip \<Rightarrow> put_be (0 :: 32 word) @ put_be (0 :: 32 word) @ put_be (0x0000ffff :: 32 word) @ put_be ip
                | IPv6 ip \<Rightarrow> concat (map put_le ip)
                | _ \<Rightarrow> []);
              bin = bin @ put_be port
          in na\<lparr>na_bin := bin, na_valid := True\<rparr>)"

definition na_getBin :: "net_addr \<Rightarrow> bytes" where
  "na_getBin na = (if \<not> na_valid na then replicate 26 0 else na_bin na)"

definition na_getKey :: "(host_addr \<Rightarrow> string) \<Rightarrow> net_addr \<Rightarrow> string" where
  "na_getKey host_text na =
     (if \<not> na_valid na then [] else host_text (na_addr na) @ ''/'' @ digits10 (unat (na_port na)))"

definition bc_writeAddress :: "net_addr \<Rightarrow> bytes" where
  "bc_writeAddress na = bc_writeData (na_getBin na)"

definition bc_readAddress :: "net_addr reader" where
  "bc_readAddress = do { b \<leftarrow> bc_readData 26; State_Monad.return (net_addr_of_bin b) }"

section \<open>Transactions\<close>

record tx_in =
  prev_out_hash :: bytes
  prev_out_index :: "32 word"
  in_script :: bytes
  sequence :: "32 word"

record tx_out =
  out_value :: "64 word"
  out_script :: bytes

record bc_tx =
  tx_valid :: bool
  tx_raw :: bytes
  tx_version :: "32 word"
  tx_ins :: "tx_in list"
  tx_outs :: "tx_out list"
  lock_time :: "32 word"

definition read_tx_in :: "tx_in reader" where
  "read_tx_in = do {
     h \<leftarrow> bc_readData 32;
     i \<leftarrow> (get_le :: 32 word reader);
     s \<leftarrow> bc_readString;
     q \<leftarrow> (get_le :: 32 word reader);
     State_Monad.return \<lparr>prev_out_hash = h, prev_out_index = i, in_script = s, sequence = q\<rparr>
   }"

definition tx_in_generate :: "tx_in \<Rightarrow> bytes" where
  "tx_in_generate t = bc_writeData (prev_out_hash t) @ put_le (prev_out_index t)
     @ bc_writeString (in_script t) @ put_le (sequence t)"

definition read_tx_out :: "tx_out reader" where
  "read_tx_out = do {
     v \<leftarrow> (get_le :: 64 word reader);
     s \<leftarrow> bc_readString;
     State_Monad.return \<lparr>out_value = v, out_script = s\<rparr>
   }"

definition tx_out_generate :: "tx_out \<Rightarrow> bytes" where
  "tx_out_generate t = put_le (out_value t) @ bc_writeString (out_script t)"

text \<open>\<open>parseStream\<close>: the counts come from the stream, whatever it still holds.\<close>

definition read_tx :: "bytes \<Rightarrow> bc_tx reader" where
  "read_tx raw = do {
     v \<leftarrow> (get_le :: 32 word reader);
     n \<leftarrow> bc_readInt;
     ins \<leftarrow> rd_list (unat n) read_tx_in;
     k \<leftarrow> bc_readInt;
     outs \<leftarrow> rd_list (unat k) read_tx_out;
     l \<leftarrow> (get_le :: 32 word reader);
     State_Monad.return \<lparr>tx_valid = True, tx_raw = raw, tx_version = v, tx_ins = ins, tx_outs = outs, lock_time = l\<rparr>
   }"

definition tx_of_bytes :: "bytes \<Rightarrow> bc_tx" where
  "tx_of_bytes dat = fst (run_state (read_tx dat) dat)"

definition tx_of_stream :: "bc_tx reader" where
  "tx_of_stream = read_tx []"

definition tx_write :: "bc_tx \<Rightarrow> bytes" where
  "tx_write t =
     (if \<not> tx_valid t then []
      else put_le (tx_version t)
        @ bc_writeInt (word_of_nat (length (tx_ins t))) @ concat (map tx_in_generate (tx_ins t))
        @ bc_writeInt (word_of_nat (length (tx_outs t))) @ concat (map tx_out_generate (tx_outs t))
        @ put_le (lock_time t))"

text \<open>The cached form: \<open>generate()\<close> fills \<open>raw\<close>.\<close>

definition tx_generate :: "bc_tx \<Rightarrow> bytes \<times> bc_tx" where
  "tx_generate t =
     (if tx_raw t \<noteq> [] then (tx_raw t, t)
      else if \<not> tx_valid t then (tx_raw t, t)
      else (tx_write t, t\<lparr>tx_raw := tx_write t\<rparr>))"

definition tx_uncache :: "bc_tx \<Rightarrow> bc_tx" where
  "tx_uncache t = t\<lparr>tx_raw := []\<rparr>"

definition tx_hash :: "(bytes \<Rightarrow> bytes) \<Rightarrow> bc_tx \<Rightarrow> bytes" where
  "tx_hash sha t = sha (fst (tx_generate t))"

definition getTxOutAddr :: "bytes \<Rightarrow> bytes" where
  "getTxOutAddr script =
     (if length script = 21 then
        if ba_left 3 script \<noteq> [0x76, 0xa9, 0x10] then []
        else if ba_right 2 script \<noteq> [0x88, 0xac] then []
        else ba_mid 3 16 script
      else [])"

section \<open>Blocks\<close>

record bc_block =
  bl_valid :: bool
  bl_hash :: bytes
  bl_parent :: bytes
  bl_merkle_root :: bytes
  bl_raw :: bytes
  bl_txns :: bytes
  bl_version :: "32 word"
  bl_timestamp :: "32 word"
  bl_bits :: "32 word"
  bl_nonce :: "32 word"
  bl_height :: "32 word"
  bl_size :: "32 word"

definition block_of_data :: "(bytes \<Rightarrow> bytes) \<Rightarrow> bytes \<Rightarrow> 32 word \<Rightarrow> bc_block" where
  "block_of_data sha dat height = fst (run_state (do {
     v \<leftarrow> (get_le :: 32 word reader);
     p \<leftarrow> bc_readData 32;
     m \<leftarrow> bc_readData 32;
     t \<leftarrow> (get_le :: 32 word reader);
     b \<leftarrow> (get_le :: 32 word reader);
     n \<leftarrow> (get_le :: 32 word reader);
     State_Monad.return \<lparr>bl_valid = True, bl_hash = sha (ba_left 80 dat), bl_parent = p, bl_merkle_root = m,
       bl_raw = ba_left 80 dat, bl_txns = (if length dat > 80 then drop 80 dat else []), bl_version = v,
       bl_timestamp = t, bl_bits = b, bl_nonce = n, bl_height = height, bl_size = word_of_nat (length dat)\<rparr>
   }) (ba_left 80 dat))"

definition getTransactions :: "bc_block \<Rightarrow> bc_tx list" where
  "getTransactions b =
     (if bl_txns b = [] then []
      else fst (run_state (do { n \<leftarrow> bc_readInt; rd_list (unat n) tx_of_stream }) (bl_txns b)))"

definition hex_char :: "8 word \<Rightarrow> byte" where
  "hex_char d = (if d < 10 then d + 48 else d + 87)"

definition to_hex :: "bytes \<Rightarrow> bytes" where
  "to_hex b = concat (map (\<lambda>x. [hex_char (drop_bit 4 x), hex_char (x AND 15)]) b)"

definition getHexHash :: "bc_block \<Rightarrow> bytes" where
  "getHexHash b = to_hex (rev (bl_hash b))"

end
