(* ===== verification/Bitcoin_Codecs.thy ===== *)
theory Bitcoin_Codecs
  imports Bitcoin_Data
begin

text \<open>
  The readers and writers of \<open>Bitcoin_Data\<close> satisfy the codec contract, each from the
  codecs of its parts; and what the address conversions keep and do not keep.
\<close>

section \<open>Integers and strings\<close>

lemma ucast_ucast_small:
  fixes i :: "64 word"
  assumes "unat i < 2 ^ LENGTH('a::len)" "LENGTH('a) \<le> 64"
  shows "ucast (ucast i :: 'a word) = i"
proof (rule word_unat_eq_iff [THEN iffD2])
  have "unat (ucast i :: 'a word) = unat i" using assms(1) by (rule unat_ucast_small)
  moreover have "unat i < 2 ^ LENGTH(64)" by (rule unsigned_less)
  ultimately show "unat (ucast (ucast i :: 'a word) :: 64 word) = unat i"
    by (simp add: unat_ucast_small)
qed

lemma readInt_writeInt: "run_state bc_readInt (bc_writeInt i @ r) = (i, r)"
proof -
  consider (1) "i < 253" | (2) "\<not> i < 253" "i < 0xffff" | (3) "\<not> i < 0xffff" "i < 0xffffffff"
    | (4) "\<not> i < 0xffffffff" by blast
  then show ?thesis
  proof cases
    case 1
    then have u: "unat i < 253" by (simp add: word_less_nat_alt)
    then have "unat (ucast i :: 8 word) = unat i" by (intro unat_ucast_small) simp
    then have "ucast i \<notin> {253, 254, 255 :: 8 word}" using u by auto
    then show ?thesis using 1 u
      by (auto simp: bc_writeInt_def bc_readInt_def get_put_le ucast_ucast_small)
  next
    case 2
    then have "unat i < 2 ^ LENGTH(16)" by (simp add: word_less_nat_alt)
    with 2 show ?thesis by (simp add: bc_writeInt_def bc_readInt_def get_put_le ucast_ucast_small)
  next
    case 3
    then have "unat i < 2 ^ LENGTH(32)" by (simp add: word_less_nat_alt)
    moreover have "\<not> i < 253" using 3 by (auto simp: word_less_nat_alt)
    ultimately show ?thesis using 3 by (simp add: bc_writeInt_def bc_readInt_def get_put_le ucast_ucast_small)
  next
    case 4
    then have "\<not> i < 253" "\<not> i < 0xffff" by (auto simp: word_less_nat_alt)
    with 4 show ?thesis by (simp add: bc_writeInt_def bc_readInt_def get_put_le)
  qed
qed

interpretation varint: codec bc_writeInt bc_readInt "\<lambda>_. True"
  by unfold_locales (rule readInt_writeInt)

definition short :: "'a list \<Rightarrow> bool" where
  "short xs \<longleftrightarrow> length xs < 2 ^ 31"

lemma as_int_length: "short xs \<Longrightarrow> as_int (word_of_nat (length xs)) = int (length xs)"
proof -
  assume s: "short xs"
  have "(ucast (word_of_nat (length xs) :: 64 word) :: 32 word) = word_of_nat (length xs)"
    using s by (simp add: short_def word_unat_eq_iff unat_of_nat unat_ucast_small)
  moreover have "sint (word_of_nat (length xs) :: 32 word) = int (length xs)"
    using s by (simp add: short_def signed_of_nat signed_take_bit_int_eq_self)
  ultimately show ?thesis by (simp add: as_int_def)
qed

lemma unat_length: "short xs \<Longrightarrow> unat (word_of_nat (length xs) :: 64 word) = length xs"
  by (simp add: short_def unat_of_nat)

lemma bc_readString_eq: "short s \<Longrightarrow> run_state bc_readString (bc_writeString s @ r) = (s, r)"
  by (simp add: bc_writeString_def bc_writeData_def bc_readString_def bc_readData_def as_int_length
      varint.get_put)

interpretation bcstring: codec bc_writeString bc_readString short
  by unfold_locales (rule bc_readString_eq)

section \<open>Transactions\<close>

definition tx_in_ok :: "tx_in \<Rightarrow> bool" where
  "tx_in_ok t \<longleftrightarrow> length (prev_out_hash t) = 32 \<and> short (in_script t)"

definition tx_out_ok :: "tx_out \<Rightarrow> bool" where
  "tx_out_ok t \<longleftrightarrow> short (out_script t)"

interpretation txin: codec tx_in_generate read_tx_in tx_in_ok
proof unfold_locales
  fix t r assume "tx_in_ok t"
  then show "run_state read_tx_in (tx_in_generate t @ r) = (t, r)"
    by (simp add: tx_in_ok_def read_tx_in_def tx_in_generate_def bc_readData_def bc_writeData_def
        get_put_le bcstring.get_put)
qed

interpretation txout: codec tx_out_generate read_tx_out tx_out_ok
  by unfold_locales (simp add: tx_out_ok_def read_tx_out_def tx_out_generate_def get_put_le bcstring.get_put)

definition tx_ok :: "bytes \<Rightarrow> bc_tx \<Rightarrow> bool" where
  "tx_ok raw t \<longleftrightarrow> tx_valid t \<and> tx_raw t = raw \<and> short (tx_ins t) \<and> short (tx_outs t)
     \<and> list_all tx_in_ok (tx_ins t) \<and> list_all tx_out_ok (tx_outs t)"

lemma read_tx_write: "tx_ok raw t \<Longrightarrow> run_state (read_tx raw) (tx_write t @ r) = (t, r)"
  by (simp add: tx_ok_def read_tx_def tx_write_def get_put_le varint.get_put unat_length
      txin.get_list txout.get_list)

interpretation tx: codec tx_write tx_of_stream "tx_ok []"
  by unfold_locales (simp add: tx_of_stream_def read_tx_write)

section \<open>Addresses\<close>

definition swap32 :: "32 word \<Rightarrow> 32 word" where
  "swap32 w = word_of_nat (le_nat (put_be w))"

lemma length_ipv4_prefix [simp]: "length ipv4_prefix = 12"
  by (simp add: ipv4_prefix_def)

lemma prefix_words: "put_be (0 :: 32 word) @ put_be (0 :: 32 word) @ put_be (0x0000ffff :: 32 word) = ipv4_prefix"
  by (simp add: put_be_def be_bytes_def ipv4_prefix_def)

lemma put_byte: "put_le (b :: byte) = [b]"
  by (simp add: put_le_def)

lemma put_bytes: "concat (map put_le bs) = (bs :: bytes)"
  by (induction bs) (simp_all add: put_byte)

lemma get_bytes: "length bs = n \<Longrightarrow> run_state (rd_list n (get_le :: 8 word reader)) (bs @ r) = (bs, r)"
  using u8.get_list [of bs r] by (simp add: put_bytes list.pred_True)

lemma mid_at: "length a = n \<Longrightarrow> ba_mid n k (a @ b) = take k b"
  by (simp add: ba_mid_def)

lemma host_bin_v4: "na_bin (net_addr_of_host (IPv4 ip) p s) = put_le s @ ipv4_prefix @ put_be ip @ put_be p"
  by (simp add: net_addr_of_host_def Let_def flip: prefix_words)

lemma host_bin_v6: "na_bin (net_addr_of_host (IPv6 ip) p s) = put_le s @ ip @ put_be p"
  by (simp add: net_addr_of_host_def Let_def put_bytes)

lemma host_valid: "a \<noteq> NullAddr \<Longrightarrow> na_valid (net_addr_of_host a p s) \<and> na_port (net_addr_of_host a p s) = p
    \<and> na_services (net_addr_of_host a p s) = s \<and> na_addr (net_addr_of_host a p s) = a"
  by (cases a) (simp_all add: net_addr_of_host_def Let_def)

lemma get_swapped: "run_state (get_le :: 32 word reader) (put_be ip @ r) = (swap32 ip, r)"
  by (simp add: run_get_le swap32_def)

lemma addr_of_bin_v4:
  "net_addr_of_bin (put_le s @ ipv4_prefix @ put_be ip @ put_be p)
     = \<lparr>na_valid = True, na_addr = IPv4 (swap32 ip), na_port = p, na_services = s,
        na_bin = put_le s @ ipv4_prefix @ put_be ip @ put_be p\<rparr>"
  by (simp add: net_addr_of_bin_def read_net_addr_def read_host_def mid_at get_put_le
      get_swapped u16be.get_put_nil)

lemma addr_of_bin_v6:
  "length ip = 16 \<Longrightarrow> take 12 ip \<noteq> ipv4_prefix \<Longrightarrow> net_addr_of_bin (put_le s @ ip @ put_be p)
     = \<lparr>na_valid = True, na_addr = IPv6 ip, na_port = p, na_services = s, na_bin = put_le s @ ip @ put_be p\<rparr>"
  by (simp add: net_addr_of_bin_def read_net_addr_def read_host_def mid_at get_put_le u16be.get_put_nil get_bytes)

lemma swap32_swap32: "swap32 (swap32 w) = w"
proof -
  have l: "length (put_be w) = 4" by simp
  then have "put_be (swap32 w) = rev (put_be w)"
  proof -
    have "le_nat (put_be w) < 256 ^ 4" using le_nat_bound [of "put_be w"] l by simp
    then have "unat (swap32 w) = le_nat (put_be w)" by (simp add: swap32_def unat_of_nat)
    then show ?thesis using le_bytes_le_nat [of "put_be w"] by (simp add: put_be_def [of "swap32 w"] be_bytes_def)
  qed
  then have "le_nat (put_be (swap32 w)) = be_nat (put_be w)" by (simp add: be_nat_def)
  also have "\<dots> = unat w"
  proof -
    have "unat w < 2 ^ LENGTH(32)" by (rule unsigned_less)
    then show ?thesis by (simp add: put_be_def be_nat_be_bytes)
  qed
  finally show ?thesis by (simp add: swap32_def)
qed

definition net_addr_ok :: "net_addr \<Rightarrow> bool" where
  "net_addr_ok a \<longleftrightarrow> na_valid a \<and> length (na_bin a) = 26 \<and> a = net_addr_of_bin (na_bin a)"

lemma run_readData: "length d = n \<Longrightarrow> run_state (bc_readData (int n)) (d @ r) = (d, r)"
  by (simp add: bc_readData_def)

interpretation netaddr: codec bc_writeAddress bc_readAddress net_addr_ok
proof unfold_locales
  fix a r assume "net_addr_ok a"
  then show "run_state bc_readAddress (bc_writeAddress a @ r) = (a, r)"
    by (simp add: net_addr_ok_def bc_readAddress_def bc_writeAddress_def bc_writeData_def na_getBin_def bc_readData_def)
qed

section \<open>Blocks\<close>

definition header_bytes :: "32 word \<Rightarrow> bytes \<Rightarrow> bytes \<Rightarrow> 32 word \<Rightarrow> 32 word \<Rightarrow> 32 word \<Rightarrow> bytes" where
  "header_bytes v p m t b n = put_le v @ p @ m @ put_le t @ put_le b @ put_le n"

definition txs_bytes :: "bc_tx list \<Rightarrow> bytes" where
  "txs_bytes txs = bc_writeInt (word_of_nat (length txs)) @ concat (map tx_write txs)"

lemma length_header: "length p = 32 \<Longrightarrow> length m = 32 \<Longrightarrow> length (header_bytes v p m t b n) = 80"
  by (simp add: header_bytes_def)

lemma block_of_header:
  assumes "length p = 32" "length m = 32"
  shows "block_of_data sha (header_bytes v p m t b n @ body) h =
    \<lparr>bl_valid = True, bl_hash = sha (header_bytes v p m t b n), bl_parent = p, bl_merkle_root = m,
     bl_raw = header_bytes v p m t b n, bl_txns = body, bl_version = v, bl_timestamp = t, bl_bits = b,
     bl_nonce = n, bl_height = h, bl_size = word_of_nat (80 + length body)\<rparr>"
proof -
  have "ba_left 80 (header_bytes v p m t b n @ body) = header_bytes v p m t b n"
    using length_header [OF assms] by (simp add: ba_left_def)
  moreover have "run_state (bc_readData 32) (p @ x) = (p, x)" "run_state (bc_readData 32) (m @ x) = (m, x)" for x
    using assms by (simp_all add: bc_readData_def)
  ultimately show ?thesis
    using assms unfolding block_of_data_def
    by (simp add: header_bytes_def get_put_le u32le.get_put_nil)
qed

lemma writeInt_nonempty: "bc_writeInt i \<noteq> []"
  by (auto simp: bc_writeInt_def put_le_def)

lemma getTransactions_txs:
  "short txs \<Longrightarrow> list_all (tx_ok []) txs \<Longrightarrow> bl_txns b = txs_bytes txs \<Longrightarrow> getTransactions b = txs"
  using tx.get_list [of txs "[]"]
  by (simp add: getTransactions_def txs_bytes_def varint.get_put unat_length writeInt_nonempty)

section \<open>Hexadecimal text\<close>

lemma hex_nibble: "unat (d :: byte) < 16 \<Longrightarrow> hex_digit (hex_char d) = Some d"
proof -
  have all: "list_all (\<lambda>n. let d = word_of_nat n :: byte in hex_digit (hex_char d) = Some d) [0..<16]"
    by code_simp
  assume "unat d < 16"
  then have "unat d \<in> set [0..<16]" by simp
  with all show ?thesis unfolding list_all_iff Let_def by fastforce
qed

lemma hex_byte:
  "hex_digit (hex_char (drop_bit 4 x)) = Some (drop_bit 4 x) \<and> hex_digit (hex_char (x AND 15)) = Some (x AND 15)
   \<and> push_bit 4 (drop_bit 4 x) OR (x AND 15) = (x :: byte)"
proof -
  have m: "(15 :: byte) = mask 4" by (simp add: mask_eq_exp_minus_1)
  have "unat (x AND 15) < 16"
  proof -
    have "x AND 15 = take_bit 4 x" by (simp add: m take_bit_eq_mask)
    then have "unat (x AND 15) = take_bit 4 (unat x)" by (simp add: unsigned_take_bit_eq)
    then show ?thesis by (simp add: take_bit_eq_mod)
  qed
  moreover have "unat (drop_bit 4 x) < 16"
  proof -
    have "unat (drop_bit 4 x) = drop_bit 4 (unat x)"
      using unat_byte [of x] by (simp add: unsigned_drop_bit_eq take_bit_nat_eq_self)
    then show ?thesis using unat_byte [of x] by (simp add: drop_bit_eq_div)
  qed
  moreover have "push_bit 4 (drop_bit 4 x) OR (x AND 15) = x"
    by (rule bit_word_eqI) (auto simp: m bit_simps)
  ultimately show ?thesis by (simp add: hex_nibble)
qed

lemma from_hex_to_hex: "from_hex (to_hex b) = b"
proof (induction b rule: rev_induct)
  case Nil
  show ?case by (simp add: from_hex_def to_hex_def map_filter_simps)
next
  case (snoc x b)
  have "List.map_filter hex_digit (to_hex (b @ [x])) = List.map_filter hex_digit (to_hex b) @ [drop_bit 4 x, x AND 15]"
    using hex_byte [of x] by (simp add: to_hex_def map_filter_def)
  with snoc show ?case using hex_byte [of x] by (simp add: from_hex_def)
qed

end
