(* ===== verification/Bitcoin_Connector.thy ===== *)
theory Bitcoin_Connector
  imports Bitcoin_Data Qt_Map
begin

text \<open>
  mod/daemon/bitcoinconnector: a Bitcoin peer (ModBitcoinConnector, ModBitcoinConnectorClient).
  Arguments of the model, gathered in \<open>bc_env\<close>: the hash, the text of host addresses,
  base64 decoding of foreign text, and the document store behind ext/ElasticSearch, whose state
  is the type \<open>'d\<close>. The store is reached over HTTP; its answers are whatever the argument
  functions say. The handlers are modelled from the first \<open>reload\<close> on,
  when the store is open; Bitcoin_Life shows that no connection is handled before.
\<close>

section \<open>Documents\<close>

text \<open>A JSON value as the program builds it: \<open>JB64 b\<close> is the base64 text of \<open>b\<close>.\<close>

datatype json = JStr bytes | JNum nat | JBool bool | JB64 bytes

type_synonym doc = "(string \<times> json) list"

text \<open>\<open>(double) x\<close>: the nearest number of 53 significant bits, ties to even.\<close>

fun double_shift :: "nat \<Rightarrow> nat" where
  "double_shift n = (if n < 2 ^ 53 then 0 else Suc (double_shift (n div 2)))"

declare double_shift.simps [simp del]

definition as_double :: "nat \<Rightarrow> nat" where
  "as_double n =
     (let k = double_shift n; q = n div 2 ^ k; r = n mod 2 ^ k in
      if k = 0 then n
      else if 2 * r > 2 ^ k \<or> (2 * r = 2 ^ k \<and> odd q) then (q + 1) * 2 ^ k else q * 2 ^ k)"

definition large :: "'a::len word \<Rightarrow> json" where
  "large w = JNum (as_double (unat w))"

record 'd bc_env =
  sha :: "bytes \<Rightarrow> bytes"
  host_text :: "host_addr \<Rightarrow> string"
  unb64 :: "bytes \<Rightarrow> bytes"
  es_contains :: "'d \<Rightarrow> bytes \<Rightarrow> string \<Rightarrow> bool"
  es_get :: "'d \<Rightarrow> bytes \<Rightarrow> string \<Rightarrow> doc"
  es_index :: "doc \<Rightarrow> string \<Rightarrow> 'd \<Rightarrow> 'd"
  es_max_depth :: "'d \<Rightarrow> 32 word"
  es_at_depth :: "'d \<Rightarrow> 32 word \<Rightarrow> doc"

section \<open>The inventory cache\<close>

text \<open>QCache with the default maximal cost of 100 objects: the least recently used entry goes.
  The list has the most recent entry first.\<close>

type_synonym cache = "(bytes \<times> bytes) list"

definition cache_insert :: "bytes \<Rightarrow> bytes \<Rightarrow> cache \<Rightarrow> cache" where
  "cache_insert k v c = take 100 ((k, v) # filter (\<lambda>e. fst e \<noteq> k) c)"

definition cache_touch :: "bytes \<Rightarrow> cache \<Rightarrow> cache" where
  "cache_touch k c = (case map_of c k of None \<Rightarrow> c | Some v \<Rightarrow> (k, v) # filter (\<lambda>e. fst e \<noteq> k) c)"

section \<open>State\<close>

record 'd bc_daemon =
  bd_peers :: "(string, nat) qmap"
  bd_nonce :: "bytes set"
  bd_open :: bool
  bd_db :: 'd
  bd_cache :: cache
  bd_queue :: "bytes list"
  bd_peer_learn :: bool
  bd_heard :: "(string \<times> 64 word \<times> 32 word) list"

text \<open>\<open>bc_sent\<close> are the packets written to the socket while it was open.\<close>

record bc_client =
  bc_key :: string
  bc_addr :: host_addr
  bc_port :: "16 word"
  got_version :: bool
  sent_version :: bool
  outgoing :: bool
  bc_nonce :: bytes
  remote_version :: "32 word"
  remote_services :: "64 word"
  remote_timestamp :: "64 word"
  remote_user_agent :: bytes
  remote_height :: "32 word"
  in_buf :: bytes
  block_todl_list :: "bytes list"
  timer :: nat
  bc_open :: bool
  bc_deleting :: bool
  bc_sent :: "bytes list"

type_synonym 'd bc_st = "'d bc_daemon \<times> bc_client"

definition new_bc_client :: "(host_addr \<Rightarrow> string) \<Rightarrow> host_addr \<Rightarrow> 16 word \<Rightarrow> bc_client" where
  "new_bc_client htext a p =
     \<lparr>bc_key = htext a @ ''/'' @ digits10 (unat p), bc_addr = a, bc_port = p, got_version = False,
      sent_version = False, outgoing = False, bc_nonce = [], remote_version = 0, remote_services = 0,
      remote_timestamp = 0, remote_user_agent = [], remote_height = 0, in_buf = [], block_todl_list = [],
      timer = 300000, bc_open = True, bc_deleting = False, bc_sent = []\<rparr>"

section \<open>The daemon's inventory\<close>

definition inv_key :: "32 word \<Rightarrow> bytes \<Rightarrow> bytes" where
  "inv_key type hash = put_le type @ hash"

definition knows :: "'d bc_env \<Rightarrow> 32 word \<Rightarrow> bytes \<Rightarrow> 'd bc_daemon \<Rightarrow> bool" where
  "knows env type hash d =
     (if map_of (bd_cache d) (inv_key type hash) \<noteq> None then True
      else if type = 1 then es_contains env (bd_db d) (to_hex hash) ''bitcoin/tx''
      else if type = 2 then es_contains env (bd_db d) (to_hex hash) ''bitcoin/block''
      else False)"

text \<open>\<open>QByteArray::fromBase64(v.toString().toLatin1())\<close>\<close>

definition base64_value :: "'d bc_env \<Rightarrow> json option \<Rightarrow> bytes" where
  "base64_value env v = (case v of Some (JB64 b) \<Rightarrow> b | Some (JStr t) \<Rightarrow> unb64 env t | _ \<Rightarrow> unb64 env [])"

definition num_value :: "json option \<Rightarrow> 32 word" where
  "num_value v = (case v of Some (JNum n) \<Rightarrow> word_of_nat n | _ \<Rightarrow> 0)"

definition invalid_block :: bc_block where
  "invalid_block = \<lparr>bl_valid = False, bl_hash = [], bl_parent = [], bl_merkle_root = [], bl_raw = [], bl_txns = [],
     bl_version = 0, bl_timestamp = 0, bl_bits = 0, bl_nonce = 0, bl_height = 0, bl_size = 0\<rparr>"

definition block_of_doc :: "'d bc_env \<Rightarrow> doc \<Rightarrow> bc_block" where
  "block_of_doc env hit =
     (if map_of hit ''raw_header'' = None then invalid_block
      else block_of_data (sha env) (base64_value env (map_of hit ''raw_header'')) (num_value (map_of hit ''depth'')))"

definition getBlockHeight :: "'d bc_env \<Rightarrow> 'd bc_daemon \<Rightarrow> 32 word" where
  "getBlockHeight env d = (if \<not> bd_open d then 0 else es_max_depth env (bd_db d))"

definition getLastBlock :: "'d bc_env \<Rightarrow> 'd bc_daemon \<Rightarrow> bc_block" where
  "getLastBlock env d = block_of_doc env (es_at_depth env (bd_db d) (getBlockHeight env d))"

definition getBlock :: "'d bc_env \<Rightarrow> bytes \<Rightarrow> 'd bc_daemon \<Rightarrow> bc_block" where
  "getBlock env hash d = block_of_doc env (es_get env (bd_db d) (to_hex hash) ''bitcoin/block'')"

definition getInventory :: "'d bc_env \<Rightarrow> 32 word \<Rightarrow> bytes \<Rightarrow> 'd bc_daemon \<Rightarrow> bytes \<times> 'd bc_daemon" where
  "getInventory env type hash d =
     (let key = inv_key type hash in
      case map_of (bd_cache d) key of
        Some dat \<Rightarrow> (dat, d\<lparr>bd_cache := cache_touch key (bd_cache d)\<rparr>)
      | None \<Rightarrow>
          if type = 1 then
            let obj = es_get env (bd_db d) (to_hex hash) ''bitcoin/tx'' in
            if map_of obj ''raw_data'' = None then ([], d)
            else let res = base64_value env (map_of obj ''raw_data'') in
              (res, d\<lparr>bd_cache := cache_insert key res (bd_cache d)\<rparr>)
          else ([], d))"

definition index_doc :: "'d bc_env \<Rightarrow> string \<Rightarrow> doc \<Rightarrow> 'd bc_daemon \<Rightarrow> 'd bc_daemon" where
  "index_doc env table obj d = d\<lparr>bd_db := es_index env obj table (bd_db d)\<rparr>"

definition hash_n :: "bytes \<Rightarrow> nat \<Rightarrow> bytes" where
  "hash_n hash i = to_hex hash @ lit '':'' @ lit (digits10 i)"

definition tx_in_doc :: "bytes \<Rightarrow> nat \<Rightarrow> tx_in \<Rightarrow> doc" where
  "tx_in_doc hash i t = [(''hash_n'', JStr (hash_n hash i)), (''hash'', JStr (to_hex hash)), (''n'', JNum i),
     (''prev_out_hash'', JStr (to_hex (prev_out_hash t))), (''prev_out_n'', large (prev_out_index t))]"

definition tx_out_doc :: "bytes \<Rightarrow> nat \<Rightarrow> tx_out \<Rightarrow> doc" where
  "tx_out_doc hash i t = [(''hash_n'', JStr (hash_n hash i)), (''hash'', JStr (to_hex hash)), (''n'', JNum i),
     (''value'', large (out_value t)), (''claimed'', JBool False),
     (''addr'', JStr (to_hex (getTxOutAddr (out_script t))))]"

definition tx_doc :: "bytes \<Rightarrow> bytes \<Rightarrow> bc_tx \<Rightarrow> doc" where
  "tx_doc hash dat t = [(''hash'', JStr (to_hex hash)), (''version'', large (tx_version t)),
     (''lock_time'', large (lock_time t)), (''size'', JNum (length dat)), (''raw_data'', JB64 dat)]"

definition store_tx :: "'d bc_env \<Rightarrow> bytes \<Rightarrow> bytes \<Rightarrow> 'd bc_daemon \<Rightarrow> 'd bc_daemon" where
  "store_tx env hash dat d =
     (let t = tx_of_bytes dat;
          d = fold (\<lambda>(i, ti). index_doc env ''bitcoin/tx_in'' (tx_in_doc hash i ti)) (List.enumerate 0 (tx_ins t)) d;
          d = fold (\<lambda>(i, to). index_doc env ''bitcoin/tx_out'' (tx_out_doc hash i to)) (List.enumerate 0 (tx_outs t)) d
      in index_doc env ''bitcoin/tx'' (tx_doc hash dat t) d)"

text \<open>Blocks must not come this way: \<open>abort()\<close>.\<close>

definition addInventory :: "'d bc_env \<Rightarrow> 32 word \<Rightarrow> bytes \<Rightarrow> bytes \<Rightarrow> bool \<Rightarrow> 'd bc_daemon \<Rightarrow> 'd bc_daemon outcome" where
  "addInventory env type hash dat send_inv d =
     (let key = inv_key type hash;
          d = d\<lparr>bd_cache := cache_insert key dat (bd_cache d)\<rparr>;
          d = (if send_inv then d\<lparr>bd_queue := bd_queue d @ [key]\<rparr> else d);
          d = (if type = 1 then store_tx env hash dat d else d)
      in if type = 2 then Inl Aborted else Inr d)"

definition block_tx_doc :: "bytes \<Rightarrow> bytes \<Rightarrow> nat \<Rightarrow> doc" where
  "block_tx_doc hash th i = [(''block_tx'', JStr (to_hex hash @ to_hex th)), (''block'', JStr (to_hex hash)),
     (''tx'', JStr (to_hex th)), (''index'', JNum i)]"

definition block_doc :: "bc_block \<Rightarrow> doc" where
  "block_doc b = [(''hash'', JStr (to_hex (bl_hash b))), (''parent'', JStr (to_hex (bl_parent b))),
     (''depth'', large (bl_height b)), (''version'', large (bl_version b)),
     (''mrkl_root'', JStr (to_hex (bl_merkle_root b))), (''time'', large (bl_timestamp b)),
     (''bits'', large (bl_bits b)), (''nonce'', large (bl_nonce b)), (''size'', large (bl_size b)),
     (''raw_header'', JB64 (bl_raw b))]"

definition add_block_tx :: "'d bc_env \<Rightarrow> bytes \<Rightarrow> nat \<times> bc_tx \<Rightarrow> 'd bc_daemon \<Rightarrow> 'd bc_daemon outcome" where
  "add_block_tx env hash it d =
     (case it of (i, t) \<Rightarrow>
      let th = tx_hash (sha env) t in
      bind_out (if \<not> knows env 1 th d then addInventory env 1 th (fst (tx_generate t)) False d else Inr d)
        (\<lambda>d. Inr (index_doc env ''bitcoin/block_tx'' (block_tx_doc hash th i) d)))"

definition addBlock :: "'d bc_env \<Rightarrow> bc_block \<Rightarrow> 'd bc_daemon \<Rightarrow> 'd bc_daemon outcome" where
  "addBlock env block d =
     (if \<not> bl_valid block then Inr d
      else
        let key = inv_key 2 (bl_hash block) in
        bind_out (fold_out (add_block_tx env (bl_hash block)) (List.enumerate 0 (getTransactions block)) d)
          (\<lambda>d. Inr (index_doc env ''bitcoin/block'' (block_doc block)
            (d\<lparr>bd_cache := cache_insert key (bl_raw block) (bd_cache d), bd_queue := bd_queue d @ [key]\<rparr>))))"

definition registerNonce :: "bytes \<Rightarrow> 'd bc_daemon \<Rightarrow> 'd bc_daemon" where
  "registerNonce n d = d\<lparr>bd_nonce := insert n (bd_nonce d)\<rparr>"

definition unregisterNonce :: "bytes \<Rightarrow> 'd bc_daemon \<Rightarrow> 'd bc_daemon" where
  "unregisterNonce n d = d\<lparr>bd_nonce := bd_nonce d - {n}\<rparr>"

definition knownNonce :: "bytes \<Rightarrow> 'd bc_daemon \<Rightarrow> bool" where
  "knownNonce n d \<longleftrightarrow> n \<in> bd_nonce d"

definition unregisterPeer :: "string \<Rightarrow> 'd bc_daemon \<Rightarrow> 'd bc_daemon" where
  "unregisterPeer k d = d\<lparr>bd_peers := qm_remove k (bd_peers d)\<rparr>"

text \<open>Peers that were heard of are only logged.\<close>

definition registerPeer :: "64 word \<Rightarrow> string \<Rightarrow> 64 word \<Rightarrow> 32 word \<Rightarrow> 'd bc_daemon \<Rightarrow> 'd bc_daemon" where
  "registerPeer now key services stamp d =
     (let stamp = (if ucast stamp > now then ucast now else stamp) in
      d\<lparr>bd_heard := bd_heard d @ [(key, services, stamp)]\<rparr>)"

section \<open>Sending\<close>

definition magic :: bytes where
  "magic = [0xf9, 0xbe, 0xb4, 0xd9]"

text \<open>Writing to a buffer at a position, over what is there.\<close>

definition write_at :: "nat \<Rightarrow> bytes \<Rightarrow> bytes \<Rightarrow> bytes" where
  "write_at pos w b = take pos b @ w @ drop (pos + length w) b"

definition bc_packet :: "(bytes \<Rightarrow> bytes) \<Rightarrow> bytes \<Rightarrow> bytes \<Rightarrow> bytes" where
  "bc_packet h type dat =
     (let pkt = magic;
          pkt = pkt @ (type @ replicate (12 - length type) 0);
          hashResult = h dat
      in write_at 16 (put_le (word_of_nat (length dat) :: 32 word) @ bc_writeData (ba_left 4 hashResult)
           @ bc_writeData dat) pkt)"

definition sendPacket :: "'d bc_env \<Rightarrow> string \<Rightarrow> bytes \<Rightarrow> bc_client \<Rightarrow> bc_client" where
  "sendPacket env type dat c =
     (if bc_open c then c\<lparr>bc_sent := bc_sent c @ [bc_packet (sha env) (lit type) dat]\<rparr> else c)"

definition bc_close :: "bc_client \<Rightarrow> bc_client" where
  "bc_close c = c\<lparr>bc_open := False, bc_deleting := True\<rparr>"

definition newInventory :: "'d bc_env \<Rightarrow> 32 word \<Rightarrow> bytes \<Rightarrow> bc_client \<Rightarrow> bc_client" where
  "newInventory env cnt dat c = sendPacket env ''inv'' (bc_writeInt (ucast cnt) @ dat) c"

text \<open>\<open>sendVersion\<close>; the clock and the random UUID are arguments.\<close>

definition version_packet :: "'d bc_env \<Rightarrow> 64 word \<Rightarrow> bytes \<Rightarrow> 'd bc_daemon \<Rightarrow> bc_client \<Rightarrow> bytes" where
  "version_packet env now nonce d c =
     put_le (80000 :: 32 word) @ put_le (1 :: 64 word) @ put_le now
     @ bc_writeAddress (net_addr_of_host (bc_addr c) (bc_port c) 0) @ bc_writeAddress net_addr_null
     @ bc_writeData nonce @ bc_writeString (lit ''/BitcoinConnector:0.1(pinetd4)/'')
     @ put_le (getBlockHeight env d)"

definition sendVersion :: "'d bc_env \<Rightarrow> 64 word \<Rightarrow> bytes \<Rightarrow> 'd bc_st \<Rightarrow> 'd bc_st" where
  "sendVersion env now uuid st =
     (case st of (d, c) \<Rightarrow>
      if sent_version c then (d, c)
      else
        let nonce = ba_right 8 uuid;
            c = c\<lparr>sent_version := True, bc_nonce := nonce\<rparr>;
            d = registerNonce nonce d
        in (d, sendPacket env ''version'' (version_packet env now nonce d c) c))"

section \<open>Block requests\<close>

definition zero_hash :: bytes where
  "zero_hash = replicate 32 0"

fun step_back :: "'d bc_env \<Rightarrow> 'd bc_daemon \<Rightarrow> nat \<Rightarrow> bc_block \<Rightarrow> bc_block" where
  "step_back env d 0 cur = cur"
| "step_back env d (Suc j) cur =
     (if bl_parent cur = zero_hash then cur else step_back env d j (getBlock env (bl_parent cur) d))"

fun locators :: "'d bc_env \<Rightarrow> 'd bc_daemon \<Rightarrow> nat list \<Rightarrow> bc_block \<Rightarrow> bytes list" where
  "locators env d [] cur = []"
| "locators env d (i # js) cur =
     (let cur = step_back env d i cur in
      bl_hash cur # (if bl_parent cur = zero_hash then [] else locators env d js cur))"

definition genesis_hash :: bytes where
  "genesis_hash = from_hex (lit ''6fe28c0ab6f1b372c1a6a246ae63f74f931e8365e15a089c68d6190000000000'')"

definition sendGetBlocks :: "'d bc_env \<Rightarrow> 'd bc_st \<Rightarrow> 'd bc_st" where
  "sendGetBlocks env st =
     (case st of (d, c) \<Rightarrow>
      if block_todl_list c \<noteq> [] then (d, c)
      else
        let c = (if timer c \<noteq> 300000 then c\<lparr>timer := 300000\<rparr> else c);
            bl = getLastBlock env d
        in if \<not> bl_valid bl
           then (d, sendPacket env ''getdata''
                  (bc_writeInt 1 @ put_le (2 :: 32 word) @ bc_writeData genesis_hash) c)
           else
             let info = bl_hash bl # locators env d [0..<8] bl in
             (d, sendPacket env ''getblocks''
                (put_le (1 :: 32 word) @ bc_writeInt (word_of_nat (length info))
                 @ concat (map bc_writeData info) @ bc_writeData zero_hash) c))"

fun request_next :: "'d bc_env \<Rightarrow> bytes list \<Rightarrow> 'd bc_st \<Rightarrow> 'd bc_st" where
  "request_next env [] (d, c) = (d, c\<lparr>block_todl_list := [], timer := 1000\<rparr>)"
| "request_next env (blid # todl) (d, c) =
     (if knows env 2 blid d then request_next env todl (d, c)
      else (d, sendPacket env ''getdata'' (bc_writeInt 1 @ put_le (2 :: 32 word) @ bc_writeData blid)
               (c\<lparr>block_todl_list := todl\<rparr>)))"

end
