(* ===== verification/Bitcoin_Peer.thy ===== *)
theory Bitcoin_Peer
  imports Bitcoin_Connector
begin

text \<open>
  The handlers of ModBitcoinConnectorClient, one per packet type, the receive loop that finds and
  dispatches packets, and the daemon's slots.
\<close>

section \<open>Packet handlers\<close>

text \<open>\<open>pkt.length() < size * count\<close> in 64 bits, with \<open>count\<close> signed.\<close>

definition too_short :: "64 word \<Rightarrow> 64 word \<Rightarrow> bytes \<Rightarrow> bool" where
  "too_short sz count pkt \<longleftrightarrow> int (length pkt) < sint (sz * count)"

definition read_peer :: "(32 word \<times> net_addr) reader" where
  "read_peer = do {
     stamp \<leftarrow> (get_le :: 32 word reader);
     a \<leftarrow> bc_readAddress;
     State_Monad.return (stamp, a)
   }"

definition bitcoin_packet_addr :: "'d bc_env \<Rightarrow> 64 word \<Rightarrow> bytes \<Rightarrow> 'd bc_st \<Rightarrow> 'd bc_st" where
  "bitcoin_packet_addr env now pkt st =
     (case st of (d, c) \<Rightarrow> case run_state bc_readInt pkt of (count, r) \<Rightarrow>
      if too_short 30 count pkt then (d, c)
      else (fold (\<lambda>(stamp, a). registerPeer now (na_getKey (host_text env) a) (na_services a) stamp)
              (fst (run_state (rd_list (nat (sint count)) read_peer) r)) d, c))"

definition bitcoin_packet_ping :: "'d bc_env \<Rightarrow> bytes \<Rightarrow> 'd bc_st \<Rightarrow> 'd bc_st" where
  "bitcoin_packet_ping env pkt st = (case st of (d, c) \<Rightarrow> (d, sendPacket env ''pong'' pkt c))"

definition store_block :: "'d bc_env \<Rightarrow> bytes \<Rightarrow> 'd bc_daemon \<Rightarrow> 'd bc_daemon outcome" where
  "store_block env block d =
     (let bl = block_of_data (sha env) block 0;
          pbl = getBlock env (bl_parent bl) d in
      if \<not> bl_valid pbl \<and> bl_parent bl \<noteq> zero_hash then Inr d
      else
        let bl = (if bl_valid pbl then bl\<lparr>bl_height := bl_height pbl + 1\<rparr> else bl) in
        if \<not> knows env 2 (bl_hash bl) d then addBlock env bl d else Inr d)"

definition bitcoin_packet_block :: "'d bc_env \<Rightarrow> bytes \<Rightarrow> 'd bc_st \<Rightarrow> 'd bc_st outcome" where
  "bitcoin_packet_block env block st =
     (case st of (d, c) \<Rightarrow>
      bind_out (store_block env block d) (\<lambda>d. Inr (request_next env (block_todl_list c) (d, c))))"

definition bitcoin_packet_tx :: "'d bc_env \<Rightarrow> bytes \<Rightarrow> 'd bc_st \<Rightarrow> 'd bc_st outcome" where
  "bitcoin_packet_tx env t st =
     (case st of (d, c) \<Rightarrow>
      let hash = sha env t in
      if knows env 1 hash d then Inr (d, c)
      else bind_out (addInventory env 1 hash t True d) (\<lambda>d. Inr (d, c)))"

text \<open>An inventory entry, and the lists that \<open>inv\<close> and \<open>getdata\<close> packets hold.\<close>

definition read_inv :: "(32 word \<times> bytes) reader" where
  "read_inv = do {
     type \<leftarrow> (get_le :: 32 word reader);
     hash \<leftarrow> bc_readData 32;
     State_Monad.return (type, hash)
   }"

definition inv_items :: "bytes \<Rightarrow> (32 word \<times> bytes) list option" where
  "inv_items pkt =
     (case run_state bc_readInt pkt of (count, r) \<Rightarrow>
      if too_short 36 count pkt then None
      else Some (fst (run_state (rd_list (nat (sint count)) read_inv) r)))"

definition inv_entry :: "32 word \<times> bytes \<Rightarrow> bytes" where
  "inv_entry it = put_le (fst it) @ bc_writeData (snd it)"

text \<open>One turn of the loop of \<open>getdata\<close>: the entries not found so far are accumulated.\<close>

definition getdata_turn :: "'d bc_env \<Rightarrow> 32 word \<times> bytes \<Rightarrow> nat \<times> bytes \<times> 'd bc_st \<Rightarrow> nat \<times> bytes \<times> 'd bc_st" where
  "getdata_turn env it acc =
     (case it of (type, hash) \<Rightarrow> case acc of (n, buf, d, c) \<Rightarrow>
      if knows env type hash d then
        (case getInventory env type hash d of (res, d) \<Rightarrow>
           (n, buf, d, if type = 1 then sendPacket env ''tx'' res c
                       else if type = 2 then sendPacket env ''block'' res c else c))
      else (n + 1, buf @ inv_entry it, d, c))"

definition bitcoin_packet_getdata :: "'d bc_env \<Rightarrow> bytes \<Rightarrow> 'd bc_st \<Rightarrow> 'd bc_st" where
  "bitcoin_packet_getdata env pkt st =
     (case inv_items pkt of None \<Rightarrow> st
      | Some items \<Rightarrow>
          (case fold (getdata_turn env) items (0, [], st) of (n, buf, d, c) \<Rightarrow>
             if n > 0 then (d, sendPacket env ''notfound'' (bc_writeInt (word_of_nat n) @ buf) c) else (d, c)))"

text \<open>One turn of the loop of \<open>inv\<close>: only the first block is asked for at once.\<close>

definition inv_turn :: "'d bc_env \<Rightarrow> 'd bc_daemon \<Rightarrow> 32 word \<times> bytes \<Rightarrow> nat \<times> bytes \<times> bytes list \<Rightarrow> nat \<times> bytes \<times> bytes list" where
  "inv_turn env d it acc =
     (case it of (type, hash) \<Rightarrow> case acc of (n, buf, todl) \<Rightarrow>
      if knows env type hash d then (n, buf, todl)
      else
        let todl = (if type = 2 then todl @ [hash] else todl) in
        if type = 2 \<and> length todl > 1 then (n, buf, todl)
        else (n + 1, buf @ inv_entry it, todl))"

definition bitcoin_packet_inv :: "'d bc_env \<Rightarrow> bytes \<Rightarrow> 'd bc_st \<Rightarrow> 'd bc_st" where
  "bitcoin_packet_inv env pkt st =
     (case st of (d, c) \<Rightarrow>
      case inv_items pkt of None \<Rightarrow> (d, c)
      | Some items \<Rightarrow>
          (case fold (inv_turn env d) items (0, [], block_todl_list c) of (n, buf, todl) \<Rightarrow>
             let c = c\<lparr>block_todl_list := todl\<rparr> in
             if n > 0 then (d, sendPacket env ''getdata'' (bc_writeInt (word_of_nat n) @ buf) c) else (d, c)))"

text \<open>What \<open>version\<close> reads: version, services, time and, unless the packet ends there, the
  nonce, user agent and height.\<close>

definition read_version :: "(32 word \<times> 64 word \<times> 64 word \<times> (bytes \<times> bytes \<times> 32 word) option) reader" where
  "read_version = do {
     v \<leftarrow> (get_le :: 32 word reader);
     s \<leftarrow> (get_le :: 64 word reader);
     t \<leftarrow> (get_le :: 64 word reader);
     _ \<leftarrow> rd_skip 26;
     e \<leftarrow> at_end;
     if e then State_Monad.return (v, s, t, None)
     else do {
       _ \<leftarrow> rd_skip 26;
       n \<leftarrow> bc_readData 8;
       u \<leftarrow> bc_readString;
       h \<leftarrow> (get_le :: 32 word reader);
       State_Monad.return (v, s, t, Some (n, u, h))
     }
   }"

definition bitcoin_packet_version :: "'d bc_env \<Rightarrow> 64 word \<Rightarrow> bytes \<Rightarrow> bytes \<Rightarrow> 'd bc_st \<Rightarrow> 'd bc_st" where
  "bitcoin_packet_version env now uuid pkt st =
     (case st of (d, c) \<Rightarrow> case fst (run_state read_version pkt) of (v, s, t, tail) \<Rightarrow>
      let c = c\<lparr>remote_version := v, remote_services := s, remote_timestamp := t\<rparr> in
      if (case tail of None \<Rightarrow> False | Some (n, u, h) \<Rightarrow> knownNonce n d) then (d, bc_close c)
      else
        let c = (case tail of None \<Rightarrow> c | Some (n, u, h) \<Rightarrow> c\<lparr>remote_user_agent := u, remote_height := h\<rparr>);
            c = c\<lparr>got_version := True\<rparr>;
            (d, c) = sendVersion env now uuid (d, c)
        in (d, sendPacket env ''verack'' [] c))"

definition bitcoin_packet_verack :: "'d bc_env \<Rightarrow> 64 word \<Rightarrow> 'd bc_st \<Rightarrow> 'd bc_st" where
  "bitcoin_packet_verack env now st =
     (case st of (d, c) \<Rightarrow>
      let d = unregisterNonce (bc_nonce c) d;
          c = c\<lparr>timer := 5000\<rparr>
      in if outgoing c then (registerPeer now (bc_key c) (remote_services c) (ucast now) d, c) else (d, c))"

section \<open>Receiving\<close>

text \<open>The method \<open>bitcoin_packet_\<close>type, if there is one.\<close>

definition bc_dispatch :: "'d bc_env \<Rightarrow> 64 word \<Rightarrow> bytes \<Rightarrow> bytes \<Rightarrow> bytes \<Rightarrow> 'd bc_st \<Rightarrow> 'd bc_st outcome" where
  "bc_dispatch env now uuid type pkt st =
     (if type = lit ''verack'' then Inr (bitcoin_packet_verack env now st)
      else if type = lit ''version'' then Inr (bitcoin_packet_version env now uuid pkt st)
      else if type = lit ''inv'' then Inr (bitcoin_packet_inv env pkt st)
      else if type = lit ''tx'' then bitcoin_packet_tx env pkt st
      else if type = lit ''addr'' then Inr (bitcoin_packet_addr env now pkt st)
      else if type = lit ''block'' then bitcoin_packet_block env pkt st
      else if type = lit ''getdata'' then Inr (bitcoin_packet_getdata env pkt st)
      else if type = lit ''ping'' then Inr (bitcoin_packet_ping env pkt st)
      else Inr st)"

text \<open>\<open>QByteArray::mid\<close> with an \<open>int\<close> length: a negative one means all that is left.\<close>

definition mid_int :: "nat \<Rightarrow> int \<Rightarrow> bytes \<Rightarrow> bytes" where
  "mid_int pos len b = (if len < 0 then drop pos b else take (nat len) (drop pos b))"

definition packet_len :: "bytes \<Rightarrow> 32 word" where
  "packet_len buf = fst (run_state get_le (drop 16 buf))"

definition packet_type :: "bytes \<Rightarrow> bytes" where
  "packet_type buf = filter (\<lambda>b. b \<noteq> 0) (ba_mid 4 12 buf)"

text \<open>The \<open>while(true)\<close> of \<open>handleBuffer\<close>. The comparison with the buffer length is on
  unsigned 32 bit integers, so \<open>24 + len\<close> can wrap around. The loop need not end: it takes
  fuel, and \<open>None\<close> means not finished.\<close>

fun bc_loop :: "nat \<Rightarrow> 'd bc_env \<Rightarrow> 64 word \<Rightarrow> bytes \<Rightarrow> bytes \<Rightarrow> 'd bc_st \<Rightarrow> (bytes \<times> 'd bc_st) outcome option" where
  "bc_loop 0 env now uuid buf st = None"
| "bc_loop (Suc fuel) env now uuid buf st =
     (if length buf < 24 then Some (Inr (buf, st))
      else if ba_left 4 buf \<noteq> magic then Some (Inr ([], apsnd bc_close st))
      else
        let type = packet_type buf; len = packet_len buf in
        if (word_of_nat (length buf) :: 32 word) < 24 + len then Some (Inr (buf, st))
        else
          let pkt_data = mid_int 24 (sint len) buf in
          if ba_mid 20 4 buf \<noteq> ba_left 4 (sha env pkt_data) then Some (Inr ([], apsnd bc_close st))
          else (case bc_dispatch env now uuid type pkt_data st of
              Inl e \<Rightarrow> Some (Inl e)
            | Inr st \<Rightarrow> bc_loop fuel env now uuid (drop (unat (24 + len)) buf) st))"

definition bc_handleBuffer :: "nat \<Rightarrow> 'd bc_env \<Rightarrow> 64 word \<Rightarrow> bytes \<Rightarrow> bytes \<Rightarrow> 'd bc_st \<Rightarrow> 'd bc_st outcome option" where
  "bc_handleBuffer fuel env now uuid dat st =
     map_option (\<lambda>r. bind_out r (\<lambda>(buf, d, c). Inr (d, c\<lparr>in_buf := buf\<rparr>)))
       (bc_loop fuel env now uuid (in_buf (snd st) @ dat) st)"

section \<open>Connections and timers\<close>

type_synonym 'd bc_system = "'d bc_daemon \<times> (nat, bc_client) qmap"

definition bc_clientInit :: "nat \<Rightarrow> bc_client \<Rightarrow> 'd bc_system \<Rightarrow> 'd bc_system" where
  "bc_clientInit i n sys = (case sys of (d, cs) \<Rightarrow>
     (d\<lparr>bd_peers := qm_insert (bc_key n) i (bd_peers d)\<rparr>, qm_insert i n cs))"

definition bc_incomingTcp :: "'d bc_env \<Rightarrow> nat \<Rightarrow> host_addr \<Rightarrow> 16 word \<Rightarrow> 'd bc_system \<Rightarrow> 'd bc_system" where
  "bc_incomingTcp env i a p sys = bc_clientInit i (new_bc_client (host_text env) a p) sys"

definition bc_outgoingTcp :: "'d bc_env \<Rightarrow> 64 word \<Rightarrow> bytes \<Rightarrow> nat \<Rightarrow> host_addr \<Rightarrow> 16 word \<Rightarrow> 'd bc_system \<Rightarrow> 'd bc_system" where
  "bc_outgoingTcp env now uuid i a p sys =
     (let n = new_bc_client (host_text env) a p;
          (d, cs) = bc_clientInit i n sys;
          n = n\<lparr>outgoing := True\<rparr>;
          (d, n) = sendVersion env now uuid (d, n)
      in (d, qm_insert i n cs))"

text \<open>The destructor of a client.\<close>

definition bc_client_destroy :: "nat \<Rightarrow> 'd bc_system \<Rightarrow> 'd bc_system" where
  "bc_client_destroy i sys = (case sys of (d, cs) \<Rightarrow>
     (case map_of cs i of None \<Rightarrow> (d, cs)
      | Some c \<Rightarrow> (unregisterNonce (bc_nonce c) (unregisterPeer (bc_key c) d), qm_remove i cs)))"

definition sendQueuedInventory :: "'d bc_env \<Rightarrow> 'd bc_system \<Rightarrow> 'd bc_system" where
  "sendQueuedInventory env sys = (case sys of (d, cs) \<Rightarrow>
     if bd_queue d = [] then (d, cs)
     else
       let buf = concat (bd_queue d) in
       (d\<lparr>bd_queue := []\<rparr>, qm_map (\<lambda>_. newInventory env (word_of_nat (length (bd_queue d))) buf) cs))"

text \<open>\<open>reload\<close>: the settings "peer_learn" and "peer_seed"; the result lists the connections
  started, as host and port texts.\<close>

definition default_peers :: "string list" where
  "default_peers = [''jun.dashjr.org/8333'', ''w003.mo.us.xta.net/8333'', ''bitcoincharts.com/8333'']"

definition bc_reload :: "bool option \<Rightarrow> string list option \<Rightarrow> 'd bc_daemon \<Rightarrow> (string \<times> string) list \<times> 'd bc_daemon" where
  "bc_reload learn seed d =
     (let d = d\<lparr>bd_open := True, bd_peer_learn := (case learn of None \<Rightarrow> True | Some b \<Rightarrow> b)\<rparr>;
          conf_peers = (case seed of Some l \<Rightarrow> l | None \<Rightarrow> default_peers);
          new_peers = filter (\<lambda>k. \<not> qm_contains (bd_peers d) k) conf_peers;
          tmp = filter (\<lambda>t. length t = 2) (map (split_on CHR ''/'') new_peers)
      in (map (\<lambda>t. (t ! 0, t ! 1)) tmp, d))"

end
