(* ===== verification/Machine.thy ===== *)
theory Machine
  imports Framing
begin

text \<open>
  A receiver: an input buffer, a cutter, and a handler for the packets. The handlers of the
  program neither read nor write the input buffer of the object they run in; this contract, the
  locale \<open>packet_machine\<close>, gives that two reads in a row are one read of both.
\<close>

locale packet_machine = framer cutter for cutter :: "bytes \<Rightarrow> 'f cut" +
  fixes handle :: "'f \<Rightarrow> 's \<Rightarrow> 's outcome"
    and stop :: "'s \<Rightarrow> 's"
    and get_buf :: "'s \<Rightarrow> bytes"
    and set_buf :: "bytes \<Rightarrow> 's \<Rightarrow> 's"
  assumes handle_set: "handle f (set_buf b s) = map_out (set_buf b) (handle f s)"
    and stop_set: "stop (set_buf b s) = set_buf b (stop s)"
    and set_set: "set_buf a (set_buf b s) = set_buf a s"
    and get_set: "get_buf (set_buf b s) = b"
    and set_get: "set_buf (get_buf s) s = s"
begin

definition receive :: "bytes \<Rightarrow> 's \<Rightarrow> 's outcome" where
  "receive t s = (case cut_all cutter (get_buf s @ t) of (fs, r, stopped) \<Rightarrow>
     map_out (\<lambda>s. set_buf r (if stopped then stop s else s)) (fold_out handle fs s))"

lemma fold_set: "fold_out handle fs (set_buf b s) = map_out (set_buf b) (fold_out handle fs s)"
  by (induction fs arbitrary: s) (simp_all add: handle_set bind_map_out map_bind_out)

text \<open>One more read, as long as the first did not stop the connection.\<close>

lemma receive_append:
  assumes "cut_all cutter (get_buf s @ t1) = (fs, r, False)"
  shows "bind_out (receive t1 s) (receive t2) = receive (t1 @ t2) s"
proof -
  obtain gs r' x where c: "cut_all cutter (r @ t2) = (gs, r', x)" by (metis prod_cases3)
  have a: "cut_all cutter (get_buf s @ t1 @ t2) = (fs @ gs, r', x)"
    using cut_all_append [of "get_buf s @ t1" t2] assms c by simp
  show ?thesis
    by (cases x; cases "fold_out handle fs s")
      (simp_all add: receive_def assms a fold_out_append c get_set fold_set stop_set set_set map_map_out cong: if_cong)
qed

lemma receive_Inr: "cut_all cutter (get_buf s @ t) = (fs, r, False) \<Longrightarrow> receive t s = Inr s' \<Longrightarrow> get_buf s' = r"
  by (cases "fold_out handle fs s") (auto simp: receive_def get_set)

text \<open>Any number of reads.\<close>

lemma receive_chunks:
  assumes "cutter (get_buf s) = More" "cut_all cutter (get_buf s @ concat ts) = (fs, r, False)"
  shows "fold_out receive ts s = receive (concat ts) s"
  using assms
proof (induction ts arbitrary: s fs)
  case Nil
  then show ?case using set_get [of s] by (simp add: receive_def cut_all_More)
next
  case (Cons t ts)
  obtain gs r1 x where c: "cut_all cutter (get_buf s @ t) = (gs, r1, x)" by (metis prod_cases3)
  have "\<not> x" using Cons.prems(2) cut_all_append [of "get_buf s @ t" "concat ts"] c by (auto split: prod.splits)
  with c have c: "cut_all cutter (get_buf s @ t) = (gs, r1, False)" by simp
  have ext: "bind_out (receive t s) (receive (concat ts)) = receive (t @ concat ts) s"
    by (rule receive_append [OF c])
  show ?case
  proof (cases "receive t s")
    case (Inr s1)
    then have b: "get_buf s1 = r1" using receive_Inr [OF c] by blast
    obtain hs r2 y where d: "cut_all cutter (r1 @ concat ts) = (hs, r2, y)" by (metis prod_cases3)
    have "\<not> y" using Cons.prems(2) cut_all_append [of "get_buf s @ t" "concat ts"] c d by (auto split: prod.splits)
    with d b have "cut_all cutter (get_buf s1 @ concat ts) = (hs, r2, False)" by simp
    with Cons.prems(2) cut_all_append [of "get_buf s @ t" "concat ts"] c b
    have "cut_all cutter (get_buf s1 @ concat ts) = (hs, r, False)" by (auto split: prod.splits)
    with Cons.IH [of s1] cut_all_rest [OF c] b ext Inr show ?thesis by simp
  next
    case (Inl e)
    have "receive (t @ concat ts) s = Inl e" unfolding ext [symmetric] Inl by simp
    then show ?thesis by (simp add: Inl)
  qed
qed

end

end
