(* ===== verification/Bitcoin_Framing.thy ===== *)
theory Bitcoin_Framing
  imports Bitcoin_Codecs Bitcoin_Peer Machine
begin

text \<open>
  The receive loop of the Bitcoin client: the cutter it implements, where it departs from it (a
  length field that wraps around), and the packet machine that its dispatcher forms.
\<close>

section \<open>The cutter\<close>

definition bc_cut :: "(bytes \<Rightarrow> bytes) \<Rightarrow> bytes \<Rightarrow> (bytes \<times> bytes) cut" where
  "bc_cut h b =
     (if length b < 24 then More
      else if ba_left 4 b \<noteq> magic then Fatal
      else let n = unat (packet_len b); p = take n (drop 24 b) in
        if length b < 24 + n then More
        else if ba_mid 20 4 b \<noteq> ba_left 4 (h p) then Fatal
        else Packet (packet_type b, p) (drop (24 + n) b))"

lemma packet_len_append: "20 \<le> length b \<Longrightarrow> packet_len (b @ x) = packet_len b"
  by (simp add: packet_len_def run_get_le)

lemma packet_type_append: "16 \<le> length b \<Longrightarrow> packet_type (b @ x) = packet_type b"
  by (simp add: packet_type_def)

lemmas header_append = packet_len_append packet_type_append ba_left_append ba_mid_append

interpretation bc: framer "bc_cut h" for h
proof unfold_locales
  show "bc_cut h b = Packet f r \<Longrightarrow> length r < length b" for b f r
    by (auto simp: bc_cut_def Let_def split: if_splits)
  show "bc_cut h b = Packet f r \<Longrightarrow> bc_cut h (b @ x) = Packet f (r @ x)" for b f r x
    by (auto simp: bc_cut_def Let_def header_append split: if_splits)
  show "bc_cut h b = Fatal \<Longrightarrow> bc_cut h (b @ x) = Fatal" for b x
    by (auto simp: bc_cut_def Let_def header_append split: if_splits)
qed

text \<open>The header's length field, read against the 32 bit arithmetic of the loop.\<close>

definition wraps :: "bytes \<Rightarrow> bool" where
  "wraps b \<longleftrightarrow> 24 \<le> length b \<and> ba_left 4 b = magic \<and> 2 ^ 32 - 24 \<le> unat (packet_len b)"

lemma short_word: "short b \<Longrightarrow> unat (word_of_nat (length b) :: 32 word) = length b"
  by (simp add: short_def unat_of_nat)

lemma no_wrap: "unat (len :: 32 word) < 2 ^ 32 - 24 \<Longrightarrow> unat (24 + len) = 24 + unat len"
  by (simp add: unat_word_ariths)

lemma less_total:
  assumes "short b" "unat (len :: 32 word) < 2 ^ 32 - 24"
  shows "(word_of_nat (length b) :: 32 word) < 24 + len \<longleftrightarrow> length b < 24 + unat len"
  by (simp add: word_less_nat_alt short_word [OF assms(1)] no_wrap [OF assms(2)])

lemma mid_small:
  assumes "unat (len :: 32 word) < 2 ^ 31"
  shows "mid_int 24 (sint len) b = take (unat len) (drop 24 b)"
proof -
  have "int (unat len) < int (2 ^ 31)" using assms by (simp only: of_nat_less_iff)
  then have "uint len < 2 ^ 31" by simp
  moreover have "- (2 ^ 31) \<le> uint len" by (rule order_trans [of _ 0]) simp_all
  ultimately have "sint len = uint len" unfolding sint_uint by (simp add: signed_take_bit_int_eq_self)
  then show ?thesis by (simp add: mid_int_def nat_uint_eq)
qed

text \<open>The loop is the cutter's loop, unless the bytes that are left end in a header that wraps;
  one more turn than packets is enough fuel.\<close>

definition bc_result :: "'d bc_env \<Rightarrow> 64 word \<Rightarrow> bytes \<Rightarrow> bytes \<Rightarrow> 'd bc_st \<Rightarrow> (bytes \<times> 'd bc_st) outcome" where
  "bc_result env now uuid b st = (case cut_all (bc_cut (sha env)) b of (fs, r, x) \<Rightarrow>
     map_out (\<lambda>st. (r, if x then apsnd bc_close st else st))
       (fold_out (\<lambda>(t, p). bc_dispatch env now uuid t p) fs st))"

lemma bc_loop_cut_all:
  assumes "short b" "cut_all (bc_cut (sha env)) b = (fs, r, x)" "\<not> wraps r" "length fs < fuel"
  shows "bc_loop fuel env now uuid b st = Some (bc_result env now uuid b st)"
  using assms
proof (induction fuel arbitrary: b fs st)
  case (Suc fuel)
  show ?case
  proof (cases "bc_cut (sha env) b")
    case More
    then have r: "fs = []" "r = b" "\<not> x" using Suc.prems(2) by (simp_all add: bc.cut_all_More)
    have "length b < 24 \<or> (24 \<le> length b \<and> ba_left 4 b = magic \<and> unat (packet_len b) < 2 ^ 32 - 24
        \<and> length b < 24 + unat (packet_len b))"
      using More Suc.prems(3) r(2) unfolding wraps_def bc_cut_def Let_def by (auto split: if_splits)
    with r More show ?thesis
      by (auto simp: bc_result_def bc.cut_all_More Let_def less_total [OF Suc.prems(1)])
  next
    case Fatal
    then have r: "fs = []" "r = []" "x" using Suc.prems(2) by (simp_all add: bc.cut_all_Fatal)
    show ?thesis
    proof (cases "ba_left 4 b = magic")
      case False
      with Fatal show ?thesis
        by (auto simp: bc_result_def bc.cut_all_Fatal bc_cut_def Let_def split: if_splits)
    next
      case True
      with Fatal have f: "24 + unat (packet_len b) \<le> length b"
          "ba_mid 20 4 b \<noteq> ba_left 4 (sha env (take (unat (packet_len b)) (drop 24 b)))"
        by (auto simp: bc_cut_def Let_def split: if_splits)
      then have l: "unat (packet_len b) < 2 ^ 32 - 24" "unat (packet_len b) < 2 ^ 31"
        using Suc.prems(1) by (auto simp: short_def)
      with True f Fatal show ?thesis
        by (simp add: bc_result_def bc.cut_all_Fatal Let_def less_total [OF Suc.prems(1)] mid_small)
    qed
  next
    case (Packet f s)
    then have p: "24 + unat (packet_len b) \<le> length b" "ba_left 4 b = magic"
        "f = (packet_type b, take (unat (packet_len b)) (drop 24 b))"
        "ba_mid 20 4 b = ba_left 4 (sha env (take (unat (packet_len b)) (drop 24 b)))"
        "s = drop (24 + unat (packet_len b)) b"
      by (auto simp: bc_cut_def Let_def split: if_splits)
    then have l: "unat (packet_len b) < 2 ^ 32 - 24" "unat (packet_len b) < 2 ^ 31"
      using Suc.prems(1) by (auto simp: short_def)
    obtain gs where g: "cut_all (bc_cut (sha env)) s = (gs, r, x)" "fs = f # gs"
      using Suc.prems(2) Packet by (auto simp: bc.cut_all_Packet split: prod.splits)
    have "short s" using Suc.prems(1) p(5) by (simp add: short_def)
    then have ih: "bc_loop fuel env now uuid s st = Some (bc_result env now uuid s st)" for st
      using Suc.IH [OF _ g(1) Suc.prems(3)] Suc.prems(4) g(2) by simp
    have "bc_loop (Suc fuel) env now uuid b st = (case bc_dispatch env now uuid (packet_type b)
        (take (unat (packet_len b)) (drop 24 b)) st of Inl e \<Rightarrow> Some (Inl e)
      | Inr st \<Rightarrow> bc_loop fuel env now uuid s st)"
      using p l no_wrap [OF l(1)]
      by (cases "bc_dispatch env now uuid (packet_type b) (take (unat (packet_len b)) (drop 24 b)) st")
        (simp_all add: Let_def less_total [OF Suc.prems(1)] mid_small)
    also have "\<dots> = Some (bc_result env now uuid b st)"
      using p(3) g ih by (cases "bc_dispatch env now uuid (packet_type b) (take (unat (packet_len b)) (drop 24 b)) st")
        (simp_all add: bc_result_def bc.cut_all_Packet [OF Packet])
    finally show ?thesis .
  qed
qed simp

section \<open>Packets as they are sent\<close>

definition type_ok :: "bytes \<Rightarrow> bool" where
  "type_ok t \<longleftrightarrow> length t \<le> 12 \<and> 0 \<notin> set t"

lemma length_magic [simp]: "length magic = 4"
  by (simp add: magic_def)

lemma bc_packet_eq:
  assumes "length t \<le> 12"
  shows "bc_packet h t dat = magic @ t @ replicate (12 - length t) 0
    @ put_le (word_of_nat (length dat) :: 32 word) @ ba_left 4 (h dat) @ dat"
  using assms by (simp add: bc_packet_def Let_def write_at_def bc_writeData_def ba_left_def)

lemma packet_len_sent:
  assumes "length t \<le> 12"
  shows "packet_len (bc_packet h t dat @ r) = word_of_nat (length dat)"
proof -
  have "drop 16 (bc_packet h t dat @ r) = put_le (word_of_nat (length dat) :: 32 word) @ ba_left 4 (h dat) @ dat @ r"
    using assms by (simp add: bc_packet_eq)
  then show ?thesis by (simp add: packet_len_def u32le.get_put)
qed

lemma packet_type_sent:
  assumes "type_ok t"
  shows "packet_type (bc_packet h t dat @ r) = t"
proof -
  have "ba_mid 4 12 (bc_packet h t dat @ r) = t @ replicate (12 - length t) 0"
    using assms by (simp add: bc_packet_eq type_ok_def ba_mid_def)
  moreover have "filter (\<lambda>b. b \<noteq> 0) t = t" using assms by (auto simp: type_ok_def filter_id_conv)
  ultimately show ?thesis by (simp add: packet_type_def)
qed

text \<open>The hash must give at least the four bytes that the header takes.\<close>

lemma bc_cut_sent:
  assumes "type_ok t" "length dat < 2 ^ 31" "\<And>x. 4 \<le> length (h x)"
  shows "bc_cut h (bc_packet h t dat @ r) = Packet (t, dat) r"
proof -
  have t: "length t \<le> 12" using assms(1) by (simp add: type_ok_def)
  have n: "unat (packet_len (bc_packet h t dat @ r)) = length dat"
    using assms(2) by (simp add: packet_len_sent [OF t] unat_of_nat)
  have l: "length (bc_packet h t dat) = 24 + length dat"
    using t assms(3) [of dat] by (simp add: bc_packet_eq ba_left_def)
  have d: "drop 24 (bc_packet h t dat) = dat" "ba_left 4 (bc_packet h t dat) = magic"
      "ba_mid 20 4 (bc_packet h t dat) = ba_left 4 (h dat)"
    using t assms(3) [of dat] by (simp_all add: bc_packet_eq ba_left_def ba_mid_def)
  then have "ba_left 4 (bc_packet h t dat @ r) = magic" "ba_mid 20 4 (bc_packet h t dat @ r) = ba_left 4 (h dat)"
    using l by simp_all
  moreover have "drop 24 (bc_packet h t dat @ r) = dat @ r" "drop (24 + length dat) (bc_packet h t dat @ r) = r"
    using l d(1) by simp_all
  ultimately show ?thesis
    using l by (simp add: bc_cut_def n packet_type_sent [OF assms(1)])
qed

lemma cut_all_sent:
  assumes "list_all (\<lambda>(t, dat). type_ok t \<and> length dat < 2 ^ 31) ps" "\<And>x. 4 \<le> length (h x)"
  shows "cut_all (bc_cut h) (concat (map (\<lambda>(t, dat). bc_packet h t dat) ps)) = (ps, [], False)"
  using assms(1)
proof (induction ps)
  case Nil
  have "bc_cut h [] = More" by (simp add: bc_cut_def)
  then show ?case by (simp add: bc.cut_all_More)
next
  case (Cons p ps)
  then show ?case
    by (cases p) (simp add: bc.cut_all_Packet [OF bc_cut_sent [OF _ _ assms(2)]])
qed

section \<open>The dispatcher as a packet machine\<close>

definition set_in_buf :: "bytes \<Rightarrow> 'd bc_st \<Rightarrow> 'd bc_st" where
  "set_in_buf b st = (fst st, (snd st)\<lparr>in_buf := b\<rparr>)"

lemma sendPacket_set: "sendPacket env t dat (c\<lparr>in_buf := b\<rparr>) = (sendPacket env t dat c)\<lparr>in_buf := b\<rparr>"
  by (simp add: sendPacket_def)

lemma sendVersion_set: "sendVersion env now uuid (d, c\<lparr>in_buf := b\<rparr>) = set_in_buf b (sendVersion env now uuid (d, c))"
  by (simp add: sendVersion_def Let_def sendPacket_def version_packet_def set_in_buf_def)

lemma request_next_set: "request_next env l (d, c\<lparr>in_buf := b\<rparr>) = set_in_buf b (request_next env l (d, c))"
  by (induction l) (simp_all add: set_in_buf_def sendPacket_def)

lemma getdata_fold_set: "fold (getdata_turn env) items (n, buf, d, c\<lparr>in_buf := b\<rparr>)
    = (case fold (getdata_turn env) items (n, buf, d, c) of (n, buf, d, c) \<Rightarrow> (n, buf, d, c\<lparr>in_buf := b\<rparr>))"
proof (induction items arbitrary: n buf d c)
  case (Cons it items)
  obtain type hash where it: "it = (type, hash)" by (cases it)
  obtain n1 buf1 d1 c1 where t: "getdata_turn env it (n, buf, d, c) = (n1, buf1, d1, c1)" by (metis prod_cases4)
  then have "getdata_turn env it (n, buf, d, c\<lparr>in_buf := b\<rparr>) = (n1, buf1, d1, c1\<lparr>in_buf := b\<rparr>)"
    by (auto simp: it getdata_turn_def sendPacket_def split: if_splits prod.splits)
  with t Cons.IH show ?case by simp
qed simp

lemma in_buf_out:
  "c\<lparr>in_buf := b, remote_version := v\<rparr> = c\<lparr>remote_version := v, in_buf := b\<rparr>"
  "c\<lparr>in_buf := b, remote_services := s\<rparr> = c\<lparr>remote_services := s, in_buf := b\<rparr>"
  "c\<lparr>in_buf := b, remote_timestamp := s\<rparr> = c\<lparr>remote_timestamp := s, in_buf := b\<rparr>"
  "c\<lparr>in_buf := b, remote_user_agent := u\<rparr> = c\<lparr>remote_user_agent := u, in_buf := b\<rparr>"
  "c\<lparr>in_buf := b, remote_height := v\<rparr> = c\<lparr>remote_height := v, in_buf := b\<rparr>"
  "c\<lparr>in_buf := b, got_version := g\<rparr> = c\<lparr>got_version := g, in_buf := b\<rparr>"
  by (cases c, simp)+

lemma bc_close_set: "bc_close (c\<lparr>in_buf := b\<rparr>) = (bc_close c)\<lparr>in_buf := b\<rparr>"
  by (cases c) (simp add: bc_close_def)

lemma greet_set: "(case sendVersion env now uuid (d, c\<lparr>in_buf := b\<rparr>) of (d, c) \<Rightarrow> (d, sendPacket env ''verack'' [] c))
    = set_in_buf b (case sendVersion env now uuid (d, c) of (d, c) \<Rightarrow> (d, sendPacket env ''verack'' [] c))"
  by (simp add: sendVersion_set) (simp add: set_in_buf_def sendPacket_set split: prod.splits)

lemma version_set: "bitcoin_packet_version env now uuid p (d, c\<lparr>in_buf := b\<rparr>)
    = set_in_buf b (bitcoin_packet_version env now uuid p (d, c))"
proof -
  obtain v s t tail where r: "fst (run_state read_version p) = (v, s, t, tail)" by (metis prod_cases4)
  show ?thesis
  proof (cases tail)
    case None
    then show ?thesis by (simp only: bitcoin_packet_version_def r prod.case Let_def option.case if_False in_buf_out greet_set)
  next
    case (Some nuh)
    obtain n u h where nuh: "nuh = (n, u, h)" by (metis prod_cases3)
    show ?thesis
      by (simp only: bitcoin_packet_version_def r prod.case Let_def option.case Some nuh in_buf_out greet_set bc_close_set
          set_in_buf_def [of b "(d, bc_close x)" for x] fst_conv snd_conv split: if_split)
        (simp add: set_in_buf_def)
  qed
qed

lemma dispatch_set: "bc_dispatch env now uuid t p (set_in_buf b st) = map_out (set_in_buf b) (bc_dispatch env now uuid t p st)"
proof -
  obtain d c where st: "st = (d, c)" by (cases st)
  have "bitcoin_packet_verack env now (d, c\<lparr>in_buf := b\<rparr>) = set_in_buf b (bitcoin_packet_verack env now (d, c))"
    by (simp add: bitcoin_packet_verack_def set_in_buf_def Let_def)
  moreover have "bitcoin_packet_version env now uuid p (d, c\<lparr>in_buf := b\<rparr>) = set_in_buf b (bitcoin_packet_version env now uuid p (d, c))"
    by (rule version_set)
  moreover have "bitcoin_packet_inv env p (d, c\<lparr>in_buf := b\<rparr>) = set_in_buf b (bitcoin_packet_inv env p (d, c))"
    by (auto simp: bitcoin_packet_inv_def set_in_buf_def Let_def sendPacket_def split: prod.splits option.splits)
  moreover have "bitcoin_packet_tx env p (d, c\<lparr>in_buf := b\<rparr>) = map_out (set_in_buf b) (bitcoin_packet_tx env p (d, c))"
    by (simp add: bitcoin_packet_tx_def set_in_buf_def Let_def map_bind_out)
  moreover have "bitcoin_packet_addr env now p (d, c\<lparr>in_buf := b\<rparr>) = set_in_buf b (bitcoin_packet_addr env now p (d, c))"
    by (simp add: bitcoin_packet_addr_def set_in_buf_def split: prod.splits)
  moreover have "bitcoin_packet_block env p (d, c\<lparr>in_buf := b\<rparr>) = map_out (set_in_buf b) (bitcoin_packet_block env p (d, c))"
    by (simp add: bitcoin_packet_block_def map_bind_out request_next_set)
  moreover have "bitcoin_packet_getdata env p (d, c\<lparr>in_buf := b\<rparr>) = set_in_buf b (bitcoin_packet_getdata env p (d, c))"
    by (auto simp: bitcoin_packet_getdata_def getdata_fold_set set_in_buf_def sendPacket_def split: prod.splits option.splits)
  moreover have "bitcoin_packet_ping env p (d, c\<lparr>in_buf := b\<rparr>) = set_in_buf b (bitcoin_packet_ping env p (d, c))"
    by (simp add: bitcoin_packet_ping_def set_in_buf_def sendPacket_set)
  ultimately show ?thesis
    by (simp add: st bc_dispatch_def set_in_buf_def [of b "(d, c)"])
qed

interpretation bc_machine: packet_machine "bc_cut (sha env)" "\<lambda>(t, p). bc_dispatch env now uuid t p"
    "apsnd bc_close" "\<lambda>st. in_buf (snd st)" set_in_buf for env now uuid
proof unfold_locales
  show "(case f of (t, p) \<Rightarrow> bc_dispatch env now uuid t p) (set_in_buf b s)
      = map_out (set_in_buf b) ((case f of (t, p) \<Rightarrow> bc_dispatch env now uuid t p) s)" for f b s
    by (cases f) (simp add: dispatch_set)
qed (auto simp: set_in_buf_def bc_close_def)

text \<open>\<open>handleBuffer\<close> is the machine's read, when the length field of the bytes left does not
  wrap.\<close>

lemma bc_handleBuffer_receive:
  assumes "short (in_buf (snd st) @ dat)" "cut_all (bc_cut (sha env)) (in_buf (snd st) @ dat) = (fs, r, x)"
    "\<not> wraps r" "length fs < fuel"
  shows "bc_handleBuffer fuel env now uuid dat st = Some (bc_machine.receive env now uuid dat st)"
  unfolding bc_handleBuffer_def bc_loop_cut_all [OF assms]
  by (auto simp: bc_machine.receive_def bc_result_def assms(2) map_out_def bind_out_assoc set_in_buf_def
      intro!: arg_cong2 [of _ _ _ _ bind_out] split: prod.splits)

section \<open>The length that wraps around\<close>

text \<open>A header alone, of a type nobody handles, whose length field is \<open>0xffffffe8\<close>: the check
  passes, nothing is removed, and the loop meets the same packet again.\<close>

definition wrap_packet :: "(bytes \<Rightarrow> bytes) \<Rightarrow> bytes \<Rightarrow> bytes" where
  "wrap_packet h t = magic @ t @ put_le (0xffffffe8 :: 32 word) @ ba_left 4 (h [])"

lemma wrap_packet_loops:
  assumes "length t = 12" "4 \<le> length (sha env [])"
    "\<And>p st. bc_dispatch env now uuid (filter (\<lambda>b. b \<noteq> 0) t) p st = Inr st"
  shows "bc_loop fuel env now uuid (wrap_packet (sha env) t) st = None"
proof (induction fuel)
  case (Suc fuel)
  let ?b = "wrap_packet (sha env) t"
  have l: "length ?b = 24" using assms(1,2) by (simp add: wrap_packet_def ba_left_def)
  have "drop 16 ?b = put_le (0xffffffe8 :: 32 word) @ ba_left 4 (sha env [])" using assms(1) by (simp add: wrap_packet_def)
  then have n: "packet_len ?b = 0xffffffe8" by (simp add: packet_len_def u32le.get_put)
  have b: "ba_left 4 ?b = magic" "ba_mid 20 4 ?b = ba_left 4 (sha env [])" "packet_type ?b = filter (\<lambda>b. b \<noteq> 0) t"
    using assms(1,2) by (simp_all add: wrap_packet_def ba_left_def ba_mid_def packet_type_def)
  have s: "(24 :: 32 word) + 0xffffffe8 = 0" by simp
  have m: "mid_int 24 i ?b = []" for i using l by (simp add: mid_int_def)
  show ?case using Suc by (simp add: l n b s m assms(3) Let_def)
qed simp

end
