(* ===== verification/Bitcoin_Handlers.thy ===== *)
theory Bitcoin_Handlers
  imports Bitcoin_Framing
begin

text \<open>
  What the packet handlers do, branch by branch: inventory lists, the version handshake, the
  daemon's inventory, and the reading of a whole stream of packets in any number of pieces.
\<close>

section \<open>Streams of packets in pieces\<close>

text \<open>\<open>ts\<close> are the reads that Qt delivers, one after the other. When a handler closes the socket (a connection to
  itself) the packets left in the buffer are still handled, but no further read comes, so that \<open>ts\<close> ends there.\<close>

fun bc_read_all :: "nat \<Rightarrow> 'd bc_env \<Rightarrow> 64 word \<Rightarrow> bytes \<Rightarrow> bytes list \<Rightarrow> 'd bc_st \<Rightarrow> 'd bc_st outcome option" where
  "bc_read_all fuel env now uuid [] st = Some (Inr st)"
| "bc_read_all fuel env now uuid (t # ts) st =
     (case bc_handleBuffer fuel env now uuid t st of
        Some (Inr st') \<Rightarrow> bc_read_all fuel env now uuid ts st'
      | r \<Rightarrow> r)"

lemma prefix_no_wrap:
  assumes "cut_all (bc_cut h) (b @ e) = (fs, [], False)" "short (b @ e)"
  shows "\<exists>gs r. cut_all (bc_cut h) b = (gs, r, False) \<and> \<not> wraps r \<and> length gs \<le> length fs"
proof -
  obtain gs r x where c: "cut_all (bc_cut h) b = (gs, r, x)" by (metis prod_cases3)
  obtain hs r' y where d: "cut_all (bc_cut h) (r @ e) = (hs, r', y)" by (metis prod_cases3)
  have x: "\<not> x" and hs: "fs = gs @ hs" "r' = []" "\<not> y"
    using assms(1) bc.cut_all_append [of h b e] c d by (auto split: if_splits)
  have "\<not> wraps r"
  proof
    assume w: "wraps r"
    then have l: "24 \<le> length r" "ba_left 4 r = magic" "2 ^ 32 - 24 \<le> unat (packet_len r)"
      by (simp_all add: wraps_def)
    have "length (r @ e) < 2 ^ 31" using bc.cut_all_length [OF c] assms(2) by (simp add: short_def)
    then have "bc_cut h (r @ e) = More" using l by (auto simp: bc_cut_def header_append Let_def)
    then have "r @ e = []" using d hs(2) by (simp add: bc.cut_all_More)
    with l(1) show False by simp
  qed
  with c x hs show ?thesis by auto
qed

lemma bc_read_all_receive:
  assumes "bc_cut (sha env) (in_buf (snd st)) = More"
    "cut_all (bc_cut (sha env)) (in_buf (snd st) @ concat ts) = (fs, [], False)"
    "short (in_buf (snd st) @ concat ts)" "length fs < fuel"
  shows "bc_read_all fuel env now uuid ts st = Some (fold_out (bc_machine.receive env now uuid) ts st)"
  using assms
proof (induction ts arbitrary: st fs)
  case (Cons t ts)
  let ?b = "in_buf (snd st) @ t"
  have w: "cut_all (bc_cut (sha env)) (?b @ concat ts) = (fs, [], False)" "short (?b @ concat ts)"
    using Cons.prems(2,3) by simp_all
  from prefix_no_wrap [OF w] obtain gs r where g: "cut_all (bc_cut (sha env)) ?b = (gs, r, False)" "\<not> wraps r"
      "length gs \<le> length fs" by blast
  have s: "short ?b" using w(2) by (simp add: short_def)
  have h: "bc_handleBuffer fuel env now uuid t st = Some (bc_machine.receive env now uuid t st)"
    by (rule bc_handleBuffer_receive [OF s g(1,2)]) (use g(3) Cons.prems(4) in simp)
  show ?case
  proof (cases "bc_machine.receive env now uuid t st")
    case (Inr st1)
    then have b: "in_buf (snd st1) = r" by (rule bc_machine.receive_Inr [OF g(1)])
    obtain hs r' y where d: "cut_all (bc_cut (sha env)) (r @ concat ts) = (hs, r', y)" by (metis prod_cases3)
    have d': "fs = gs @ hs" "r' = []" "\<not> y"
      using w(1) bc.cut_all_append [of "sha env" ?b "concat ts"] g(1) d by (auto split: if_splits)
    have lr: "length r \<le> length ?b"
      using bc.cut_all_length [OF g(1)] .
    have "bc_read_all fuel env now uuid ts st1 = Some (fold_out (bc_machine.receive env now uuid) ts st1)"
      by (rule Cons.IH [of st1 hs]) (use b d d' bc.cut_all_rest [OF g(1)] w(2) lr Cons.prems(4) in \<open>auto simp: short_def\<close>)
    with h Inr show ?thesis by simp
  qed (use h in simp)
qed simp

lemma fold_receive:
  assumes "bc_cut (sha env) (in_buf (snd st)) = More"
    "cut_all (bc_cut (sha env)) (in_buf (snd st) @ concat ts) = (fs, r, False)"
  shows "fold_out (bc_machine.receive env now uuid) ts st
    = map_out (set_in_buf r) (fold_out (\<lambda>(t, p). bc_dispatch env now uuid t p) fs st)"
  unfolding bc_machine.receive_chunks [where env = env, OF assms]
  by (simp add: bc_machine.receive_def assms(2))

lemma dispatch_keeps_buf:
  "bc_dispatch env now uuid t p st = Inr st' \<Longrightarrow> in_buf (snd st') = in_buf (snd st)"
proof -
  assume s: "bc_dispatch env now uuid t p st = Inr st'"
  have "set_in_buf (in_buf (snd st)) st = st" by (simp add: set_in_buf_def)
  with dispatch_set [of env now uuid t p "in_buf (snd st)" st] s
  have eq: "st' = set_in_buf (in_buf (snd st)) st'" by simp
  show ?thesis by (subst eq) (simp add: set_in_buf_def)
qed

text \<open>Packets as they are sent, in any pieces: each is dispatched once, in order.\<close>

lemma stream_dispatched:
  assumes "list_all (\<lambda>(t, dat). type_ok t \<and> length dat < 2 ^ 31) ps" "\<And>x. 4 \<le> length (sha env x)"
    "concat ts = concat (map (\<lambda>(t, dat). bc_packet (sha env) t dat) ps)" "short (concat ts)"
    "in_buf (snd st) = []" "length ps < fuel"
  shows "bc_read_all fuel env now uuid ts st = Some (fold_out (\<lambda>(t, p). bc_dispatch env now uuid t p) ps st)"
proof -
  have m: "bc_cut (sha env) (in_buf (snd st)) = More" by (simp add: assms(5) bc_cut_def)
  have c: "cut_all (bc_cut (sha env)) (in_buf (snd st) @ concat ts) = (ps, [], False)"
    using cut_all_sent [OF assms(1,2)] by (simp add: assms(3,5))
  have b: "in_buf (snd st') = []" if "fold_out (\<lambda>(t, p). bc_dispatch env now uuid t p) qs st = Inr st'" for qs st'
    using that assms(5)
    by (induction qs arbitrary: st) (fastforce simp: bind_out_Inr_iff dest: dispatch_keeps_buf)+
  have "map_out (set_in_buf []) r = r" if "\<And>st'. r = Inr st' \<Longrightarrow> in_buf (snd st') = []" for r :: "'a bc_st outcome"
    using that by (cases r) (auto simp: set_in_buf_def)
  with b have "fold_out (bc_machine.receive env now uuid) ts st = fold_out (\<lambda>(t, p). bc_dispatch env now uuid t p) ps st"
    by (simp add: fold_receive [OF m c])
  with bc_read_all_receive [OF m c] assms(4-6) show ?thesis by simp
qed

section \<open>Inventory lists\<close>

definition inv_bytes :: "(32 word \<times> bytes) list \<Rightarrow> bytes" where
  "inv_bytes items = bc_writeInt (word_of_nat (length items)) @ concat (map inv_entry items)"

definition hash_ok :: "32 word \<times> bytes \<Rightarrow> bool" where
  "hash_ok it \<longleftrightarrow> length (snd it) = 32"

interpretation inv_codec: codec inv_entry read_inv hash_ok
  by unfold_locales (auto simp: hash_ok_def inv_entry_def read_inv_def bc_writeData_def bc_readData_def get_put_le)

lemma inv_entry_length: "hash_ok it \<Longrightarrow> length (inv_entry it) = 36"
  by (simp add: hash_ok_def inv_entry_def bc_writeData_def)

lemma inv_entries_length: "list_all hash_ok items \<Longrightarrow> length (concat (map inv_entry items)) = 36 * length items"
  by (induction items) (simp_all add: inv_entry_length)

lemma sint_product:
  assumes "n < 2 ^ 31" "k \<le> 36"
  shows "sint (word_of_nat k * word_of_nat n :: 64 word) = int (k * n)"
proof -
  have "k * n \<le> 36 * 2 ^ 31" using mult_le_mono [OF assms(2), of n "2 ^ 31"] assms(1) by simp
  also have "\<dots> < 2 ^ 63" by simp
  finally have "k * n < 2 ^ 63" .
  then have "int (k * n) < 2 ^ 63" by (metis of_nat_less_iff of_nat_numeral of_nat_power)
  moreover have "(word_of_nat k * word_of_nat n :: 64 word) = word_of_nat (k * n)" by simp
  moreover have "- (2 ^ 63) \<le> int (k * n)" by (rule order_trans [of _ 0]) simp_all
  ultimately show ?thesis by (simp only: signed_of_nat) (simp add: signed_take_bit_int_eq_self del: of_nat_mult)
qed

lemma inv_items_bytes:
  assumes "list_all hash_ok items" "short items"
  shows "inv_items (inv_bytes items) = Some items"
proof -
  have n: "length items < 2 ^ 31" using assms(2) by (simp add: short_def)
  have "sint (36 * word_of_nat (length items) :: 64 word) = int (36 * length items)"
    using sint_product [OF n, of 36] by simp
  then have "\<not> too_short 36 (word_of_nat (length items)) (inv_bytes items)"
    by (simp add: too_short_def inv_bytes_def inv_entries_length [OF assms(1)])
  moreover have "sint (word_of_nat (length items) :: 64 word) = int (length items)"
    using sint_product [OF n, of 1] by simp
  ultimately show ?thesis
    using inv_codec.get_list [OF assms(1), of "[]"]
    by (simp add: inv_items_def inv_bytes_def varint.get_put)
qed

text \<open>What \<open>inv\<close> asks for: everything unknown, but only one block when none is pending.\<close>

abbreviation unknown :: "'d bc_env \<Rightarrow> 'd bc_daemon \<Rightarrow> (32 word \<times> bytes) list \<Rightarrow> (32 word \<times> bytes) list" where
  "unknown env d items \<equiv> filter (\<lambda>it. \<not> knows env (fst it) (snd it) d) items"

abbreviation blocks :: "(32 word \<times> bytes) list \<Rightarrow> (32 word \<times> bytes) list" where
  "blocks items \<equiv> filter (\<lambda>it. fst it = 2) items"

abbreviation others :: "(32 word \<times> bytes) list \<Rightarrow> (32 word \<times> bytes) list" where
  "others items \<equiv> filter (\<lambda>it. fst it \<noteq> 2) items"

lemma inv_fold:
  "\<exists>asked. fold (inv_turn env d) items (n, buf, todl)
      = (n + length asked, buf @ concat (map inv_entry asked), todl @ map snd (blocks (unknown env d items)))
    \<and> others asked = others (unknown env d items)
    \<and> blocks asked = (if todl = [] then take 1 (blocks (unknown env d items)) else [])"
proof (induction items arbitrary: n buf todl)
  case (Cons it items)
  obtain type hash where it: "it = (type, hash)" by (cases it)
  consider (known) "knows env type hash d" | (other) "\<not> knows env type hash d" "type \<noteq> 2"
    | (later) "\<not> knows env type hash d" "type = 2" "todl \<noteq> []"
    | (first) "\<not> knows env type hash d" "type = 2" "todl = []" by blast
  then show ?case
  proof cases
    case known
    then have t: "inv_turn env d it (n, buf, todl) = (n, buf, todl)" by (simp add: it inv_turn_def)
    have f: "fold (inv_turn env d) (it # items) (n, buf, todl) = fold (inv_turn env d) items (n, buf, todl)"
      and u: "unknown env d (it # items) = unknown env d items" using t known it by simp_all
    show ?thesis unfolding f u by (rule Cons.IH)
  next
    case other
    then have t: "inv_turn env d it (n, buf, todl) = (n + 1, buf @ inv_entry it, todl)" by (simp add: it inv_turn_def Let_def)
    from Cons.IH [of "n + 1" "buf @ inv_entry it" todl] obtain asked where
      a: "fold (inv_turn env d) items (n + 1, buf @ inv_entry it, todl)
        = (n + 1 + length asked, (buf @ inv_entry it) @ concat (map inv_entry asked), todl @ map snd (blocks (unknown env d items)))"
        "others asked = others (unknown env d items)"
        "blocks asked = (if todl = [] then take 1 (blocks (unknown env d items)) else [])" by blast
    show ?thesis by (rule exI [of _ "it # asked"]) (use t a other it in simp)
  next
    case later
    then have t: "inv_turn env d it (n, buf, todl) = (n, buf, todl @ [hash])"
      by (cases todl) (simp_all add: it inv_turn_def Let_def)
    with Cons.IH [of n buf "todl @ [hash]"] later it show ?thesis by simp
  next
    case first
    then have t: "inv_turn env d it (n, buf, todl) = (n + 1, buf @ inv_entry it, [hash])" by (simp add: it inv_turn_def Let_def)
    from Cons.IH [of "n + 1" "buf @ inv_entry it" "[hash]"] obtain asked where
      a: "fold (inv_turn env d) items (n + 1, buf @ inv_entry it, [hash])
        = (n + 1 + length asked, (buf @ inv_entry it) @ concat (map inv_entry asked), [hash] @ map snd (blocks (unknown env d items)))"
        "others asked = others (unknown env d items)" "blocks asked = []" by auto
    show ?thesis by (rule exI [of _ "it # asked"]) (use t a first it in simp)
  qed
qed simp

lemma packet_inv_spec:
  assumes "list_all hash_ok items" "short items"
  shows "\<exists>asked. bitcoin_packet_inv env (inv_bytes items) (d, c)
      = (d, (if asked = [] then id else sendPacket env ''getdata'' (inv_bytes asked))
          (c\<lparr>block_todl_list := block_todl_list c @ map snd (blocks (unknown env d items))\<rparr>))
    \<and> others asked = others (unknown env d items)
    \<and> blocks asked = (if block_todl_list c = [] then take 1 (blocks (unknown env d items)) else [])"
proof -
  from inv_fold [of env d items 0 "[]" "block_todl_list c"] obtain asked where
    a: "fold (inv_turn env d) items (0, [], block_todl_list c)
      = (length asked, concat (map inv_entry asked), block_todl_list c @ map snd (blocks (unknown env d items)))"
      "others asked = others (unknown env d items)"
      "blocks asked = (if block_todl_list c = [] then take 1 (blocks (unknown env d items)) else [])" by auto
  show ?thesis
    by (rule exI [of _ asked]) (simp add: bitcoin_packet_inv_def inv_items_bytes [OF assms] a inv_bytes_def [of asked] Let_def)
qed

section \<open>Answers to getdata\<close>

lemma map_of_filter_key: "map_of (filter (\<lambda>e. fst e \<noteq> k) c) x = (if x = k then None else map_of c x)"
  by (induction c) auto

lemma map_of_touch [simp]: "map_of (cache_touch k c) = map_of c"
  by (rule ext) (auto simp: cache_touch_def map_of_filter_key split: option.splits)

lemma map_of_take_head: "map_of (take 100 ((k, v) # c)) k = Some v"
  by (simp add: numeral_eq_Suc)

lemma cached_inserted: "map_of (cache_insert k v c) k = Some v"
  by (simp add: cache_insert_def map_of_take_head)

definition offline :: "'d bc_env \<Rightarrow> 'd bc_daemon \<Rightarrow> bool" where
  "offline env d \<longleftrightarrow> (\<forall>id table. \<not> es_contains env (bd_db d) id table)"

definition cached :: "'d bc_daemon \<Rightarrow> 32 word \<times> bytes \<Rightarrow> bytes option" where
  "cached d it = map_of (bd_cache d) (inv_key (fst it) (snd it))"

lemma knows_offline: "offline env d \<Longrightarrow> knows env t h d \<longleftrightarrow> cached d (t, h) \<noteq> None"
  by (simp add: knows_def offline_def cached_def)

definition reply :: "'d bc_env \<Rightarrow> 'd bc_daemon \<Rightarrow> 32 word \<times> bytes \<Rightarrow> bytes list" where
  "reply env d it = (case cached d it of None \<Rightarrow> [] | Some dat \<Rightarrow>
     if fst it = 1 then [bc_packet (sha env) (lit ''tx'') dat]
     else if fst it = 2 then [bc_packet (sha env) (lit ''block'') dat] else [])"

lemma getdata_fold:
  assumes "offline env d" "bc_open c"
  shows "\<exists>d'. fold (getdata_turn env) items (n, buf, d, c)
      = (n + length (filter (\<lambda>it. cached d it = None) items),
         buf @ concat (map inv_entry (filter (\<lambda>it. cached d it = None) items)),
         d', c\<lparr>bc_sent := bc_sent c @ concat (map (reply env d) items)\<rparr>)"
  using assms
proof (induction items arbitrary: n buf d c)
  case (Cons it items)
  obtain type hash where it: "it = (type, hash)" by (cases it)
  show ?case
  proof (cases "cached d it")
    case None
    then have "getdata_turn env it (n, buf, d, c) = (n + 1, buf @ inv_entry it, d, c)"
      by (simp add: it getdata_turn_def knows_offline [OF Cons.prems(1)])
    with Cons.IH [OF Cons.prems, of "n + 1" "buf @ inv_entry it"] None show ?thesis by (auto simp: reply_def)
  next
    case (Some dat)
    let ?d = "d\<lparr>bd_cache := cache_touch (inv_key type hash) (bd_cache d)\<rparr>"
    let ?c = "c\<lparr>bc_sent := bc_sent c @ reply env d it\<rparr>"
    have "getdata_turn env it (n, buf, d, c) = (n, buf, ?d, ?c)"
      using Some Cons.prems by (auto simp: it getdata_turn_def knows_offline getInventory_def Let_def cached_def
          reply_def sendPacket_def)
    moreover have "offline env ?d" "cached ?d = cached d" "reply env ?d = reply env d"
      using Cons.prems(1) by (auto simp: offline_def cached_def reply_def fun_eq_iff)
    ultimately show ?thesis
      using Cons.IH [of ?d ?c n buf] Cons.prems(2) Some by auto
  qed
qed simp

lemma packet_getdata_spec:
  assumes "list_all hash_ok items" "short items" "offline env d" "bc_open c"
  shows "bc_sent (snd (bitcoin_packet_getdata env (inv_bytes items) (d, c)))
    = bc_sent c @ concat (map (reply env d) items)
      @ (let missing = filter (\<lambda>it. cached d it = None) items in
         if missing = [] then [] else [bc_packet (sha env) (lit ''notfound'') (inv_bytes missing)])"
proof -
  from getdata_fold [OF assms(3,4), of items 0 "[]"] obtain d' where
    f: "fold (getdata_turn env) items (0, [], d, c)
      = (length (filter (\<lambda>it. cached d it = None) items),
         concat (map inv_entry (filter (\<lambda>it. cached d it = None) items)),
         d', c\<lparr>bc_sent := bc_sent c @ concat (map (reply env d) items)\<rparr>)" by auto
  show ?thesis
    using assms(4) by (simp add: bitcoin_packet_getdata_def inv_items_bytes [OF assms(1,2)] f sendPacket_def
        inv_bytes_def [of "filter p xs" for p xs] Let_def)
qed

section \<open>No handler aborts\<close>

lemma addInventory_tx: "\<exists>d'. addInventory env 1 h dat q d = Inr d'"
  by (simp add: addInventory_def Let_def)

lemma add_block_txs: "\<exists>d'. fold_out (add_block_tx env h) its d = Inr d'"
proof (induction its arbitrary: d)
  case (Cons it its)
  obtain i t where it: "it = (i, t)" by (cases it)
  obtain e where "addInventory env 1 (tx_hash (sha env) t) (fst (tx_generate t)) False d = Inr e"
    using addInventory_tx by blast
  then have "\<exists>d'. add_block_tx env h it d = Inr d'" by (simp add: it add_block_tx_def Let_def)
  then obtain d' where "add_block_tx env h it d = Inr d'" by blast
  with Cons.IH [of d'] show ?case by simp
qed simp

lemma addBlock_Inr: "\<exists>d'. addBlock env bl d = Inr d'"
proof -
  obtain d' where "fold_out (add_block_tx env (bl_hash bl)) (List.enumerate 0 (getTransactions bl)) d = Inr d'"
    using add_block_txs by blast
  then show ?thesis by (simp add: addBlock_def Let_def)
qed

lemma dispatch_total: "\<exists>st'. bc_dispatch env now uuid t p st = Inr st'"
proof -
  obtain d c where st: "st = (d, c)" by (cases st)
  obtain e where "addInventory env 1 (sha env p) p True d = Inr e" using addInventory_tx by blast
  then have "\<exists>st'. bitcoin_packet_tx env p st = Inr st'" by (simp add: st bitcoin_packet_tx_def Let_def)
  moreover have "\<exists>st'. bitcoin_packet_block env p st = Inr st'"
  proof -
    have "\<exists>d'. store_block env p d = Inr d'"
      by (simp add: store_block_def Let_def addBlock_Inr)
    then obtain d' where "store_block env p d = Inr d'" by blast
    then show ?thesis by (simp add: st bitcoin_packet_block_def)
  qed
  ultimately show ?thesis by (simp add: bc_dispatch_def)
qed

section \<open>The handshake\<close>

declare lit_simps [simp del]

lemma na_bin_length: "(\<And>ip. a = IPv6 ip \<Longrightarrow> length ip = 16) \<Longrightarrow> a \<noteq> AnyAddr \<Longrightarrow>
    length (na_getBin (net_addr_of_host a p s)) = 26"
  by (cases a) (simp_all add: na_getBin_def net_addr_of_host_def Let_def put_bytes)

definition peer_ok :: "bc_client \<Rightarrow> bool" where
  "peer_ok c \<longleftrightarrow> length (na_getBin (net_addr_of_host (bc_addr c) (bc_port c) 0)) = 26"

definition user_agent :: bytes where
  "user_agent = lit ''/BitcoinConnector:0.1(pinetd4)/''"

lemma rd_skip_front: "length a = n \<Longrightarrow> run_state (rd_skip n) (a @ b) = ((), b)"
  by simp

lemma read_version_sent:
  assumes "length nonce = 8" "peer_ok c"
  shows "fst (run_state read_version (version_packet env now nonce d c))
    = (80000, 1, now, Some (nonce, user_agent, getBlockHeight env d))"
proof -
  let ?a = "bc_writeAddress (net_addr_of_host (bc_addr c) (bc_port c) 0)"
  let ?t = "bc_writeData nonce @ bc_writeString user_agent @ put_le (getBlockHeight env d)"
  have a: "length ?a = 26" using assms(2) by (simp add: peer_ok_def bc_writeAddress_def bc_writeData_def)
  have n: "length (bc_writeAddress net_addr_null) = 26"
    by (simp add: bc_writeAddress_def bc_writeData_def na_getBin_def net_addr_null_def)
  have v: "version_packet env now nonce d c
      = put_le (80000 :: 32 word) @ put_le (1 :: 64 word) @ put_le now @ ?a @ bc_writeAddress net_addr_null @ ?t"
    by (simp add: version_packet_def user_agent_def)
  have ne: "bc_writeAddress net_addr_null @ ?t \<noteq> []" using n by auto
  have u: "short user_agent" by (simp add: short_def user_agent_def)
  have d: "run_state (bc_readData 8) (bc_writeData nonce @ x) = (nonce, x)" for x
    using assms(1) by (simp add: bc_readData_def bc_writeData_def)
  show ?thesis
    unfolding v read_version_def
    using a n ne by (simp add: get_put_le d bcstring.get_put [OF u] u32le.get_put_nil)
qed

lemma version_packet_cong:
  "bc_addr c' = bc_addr c \<Longrightarrow> bc_port c' = bc_port c \<Longrightarrow> version_packet env now n d c' = version_packet env now n d c"
  by (simp add: version_packet_def)

lemma greet_spec:
  assumes "bc_open c" "\<not> sent_version c"
  shows "(case sendVersion env now uuid (d, c) of (d, c) \<Rightarrow> (d, sendPacket env ''verack'' [] c))
    = (registerNonce (ba_right 8 uuid) d, c\<lparr>sent_version := True, bc_nonce := ba_right 8 uuid,
        bc_sent := bc_sent c
          @ [bc_packet (sha env) (lit ''version'') (version_packet env now (ba_right 8 uuid) (registerNonce (ba_right 8 uuid) d) c),
             bc_packet (sha env) (lit ''verack'') []]\<rparr>)"
  using assms by (simp add: sendVersion_def sendPacket_def Let_def
      version_packet_cong [of "c\<lparr>sent_version := True, bc_nonce := ba_right 8 uuid\<rparr>" c])

lemma packet_version_unknown:
  assumes "fst (run_state read_version pkt) = (v, s, t, tail)" "case tail of None \<Rightarrow> True | Some (n, u, h) \<Rightarrow> \<not> knownNonce n d"
    "bc_open c" "\<not> sent_version c"
  shows "\<exists>c1. bitcoin_packet_version env now uuid pkt (d, c) = (registerNonce (ba_right 8 uuid) d, c1)
    \<and> got_version c1 \<and> sent_version c1 \<and> bc_sent c1 = bc_sent c
        @ [bc_packet (sha env) (lit ''version'') (version_packet env now (ba_right 8 uuid) (registerNonce (ba_right 8 uuid) d) c),
           bc_packet (sha env) (lit ''verack'') []]"
proof (cases tail)
  case None
  then show ?thesis
    using assms by (simp add: bitcoin_packet_version_def greet_spec version_packet_def)
next
  case (Some nuh)
  then show ?thesis
    using assms by (cases nuh) (simp add: bitcoin_packet_version_def greet_spec version_packet_def)
qed

text \<open>Version packets written by a client.\<close>

definition versions :: "bc_client \<Rightarrow> nat" where
  "versions c = length (filter (\<lambda>p. packet_type p = lit ''version'') (bc_sent c))"

definition ver_ok :: "bc_client \<Rightarrow> bool" where
  "ver_ok c \<longleftrightarrow> versions c \<le> (if sent_version c then 1 else 0)"

lemma packet_type_plain: "type_ok t \<Longrightarrow> packet_type (bc_packet h t dat) = t"
  using packet_type_sent [of t h dat "[]"] by simp

lemma type_names: "type_ok (lit ''version'')" "type_ok (lit ''verack'')" "type_ok (lit ''getdata'')"
  "type_ok (lit ''notfound'')" "type_ok (lit ''tx'')" "type_ok (lit ''block'')" "type_ok (lit ''pong'')"
  "type_ok (lit ''inv'')" "type_ok (lit ''getblocks'')"
  by code_simp+

lemma not_version: "lit ''verack'' \<noteq> lit ''version''" "lit ''getdata'' \<noteq> lit ''version''"
  "lit ''notfound'' \<noteq> lit ''version''" "lit ''tx'' \<noteq> lit ''version''" "lit ''block'' \<noteq> lit ''version''"
  "lit ''pong'' \<noteq> lit ''version''" "lit ''inv'' \<noteq> lit ''version''" "lit ''getblocks'' \<noteq> lit ''version''"
  by code_simp+

lemma ver_ok_send: "type_ok (lit t) \<Longrightarrow> lit t \<noteq> lit ''version'' \<Longrightarrow> ver_ok (sendPacket env t dat c) = ver_ok c"
  by (simp add: ver_ok_def versions_def sendPacket_def packet_type_plain)

lemma ver_ok_frame:
  "ver_ok (c\<lparr>block_todl_list := l\<rparr>) = ver_ok c" "ver_ok (c\<lparr>timer := n\<rparr>) = ver_ok c"
  "ver_ok (c\<lparr>remote_version := v\<rparr>) = ver_ok c" "ver_ok (c\<lparr>remote_services := s\<rparr>) = ver_ok c"
  "ver_ok (c\<lparr>remote_timestamp := t\<rparr>) = ver_ok c" "ver_ok (c\<lparr>remote_user_agent := u\<rparr>) = ver_ok c"
  "ver_ok (c\<lparr>remote_height := h\<rparr>) = ver_ok c" "ver_ok (c\<lparr>got_version := g\<rparr>) = ver_ok c"
  "ver_ok (c\<lparr>in_buf := b\<rparr>) = ver_ok c" "ver_ok (bc_close c) = ver_ok c"
  by (simp_all add: ver_ok_def versions_def bc_close_def)

lemmas ver_ok_simps = ver_ok_frame ver_ok_send [OF type_names(2) not_version(1)]
  ver_ok_send [OF type_names(3) not_version(2)] ver_ok_send [OF type_names(4) not_version(3)]
  ver_ok_send [OF type_names(5) not_version(4)] ver_ok_send [OF type_names(6) not_version(5)]
  ver_ok_send [OF type_names(7) not_version(6)] ver_ok_send [OF type_names(8) not_version(7)]
  ver_ok_send [OF type_names(9) not_version(8)]

lemma ver_ok_sendVersion: "ver_ok c \<Longrightarrow> ver_ok (snd (sendVersion env now uuid (d, c)))"
  by (cases "sent_version c")
    (auto simp: sendVersion_def ver_ok_def versions_def sendPacket_def packet_type_plain type_names Let_def)

lemma ver_ok_request: "ver_ok (snd (request_next env l (d, c))) = ver_ok c"
  by (induction l) (auto simp: ver_ok_simps)

lemma ver_ok_getdata: "ver_ok (snd (snd (snd (fold (getdata_turn env) items (n, buf, d, c))))) = ver_ok c"
proof (induction items arbitrary: n buf d c)
  case (Cons it items)
  obtain n1 buf1 d1 c1 where t: "getdata_turn env it (n, buf, d, c) = (n1, buf1, d1, c1)" by (metis prod_cases4)
  then have "ver_ok c1 = ver_ok c"
    by (auto simp: getdata_turn_def ver_ok_simps split: prod.splits if_splits)
  with t Cons.IH [of n1 buf1 d1 c1] show ?case by simp
qed simp

lemma ver_ok_version: "ver_ok c \<Longrightarrow> ver_ok (snd (bitcoin_packet_version env now uuid p (d, c)))"
proof -
  assume v: "ver_ok c"
  obtain a s t tail where r: "fst (run_state read_version p) = (a, s, t, tail)" by (metis prod_cases4)
  have g: "ver_ok (snd (case sendVersion env now uuid (d, x) of (d, c) \<Rightarrow> (d, sendPacket env ''verack'' [] c)))"
    if "ver_ok x" for x
    using ver_ok_sendVersion [OF that, of env now uuid d]
    by (cases "sendVersion env now uuid (d, x)") (simp add: ver_ok_simps)
  show ?thesis
    using v by (cases tail) (auto simp: bitcoin_packet_version_def r Let_def ver_ok_simps intro!: g)
qed

lemma ver_ok_dispatch:
  assumes "bc_dispatch env now uuid t p (d, c) = Inr st'" "ver_ok c"
  shows "ver_ok (snd st')"
proof -
  have "ver_ok (snd (bitcoin_packet_verack env now (d, c)))" "ver_ok (snd (bitcoin_packet_addr env now p (d, c)))"
    "ver_ok (snd (bitcoin_packet_ping env p (d, c)))" "ver_ok (snd (bitcoin_packet_inv env p (d, c)))"
    using assms(2) by (auto simp: bitcoin_packet_verack_def bitcoin_packet_addr_def bitcoin_packet_ping_def
        bitcoin_packet_inv_def ver_ok_simps Let_def split: prod.splits option.splits)
  moreover have "ver_ok (snd (bitcoin_packet_getdata env p (d, c)))"
  proof (cases "inv_items p")
    case (Some items)
    obtain n buf d1 c1 where f: "fold (getdata_turn env) items (0, [], d, c) = (n, buf, d1, c1)" by (metis prod_cases4)
    with ver_ok_getdata [of env items 0 "[]" d c] assms(2) have "ver_ok c1" by simp
    with Some f show ?thesis by (simp add: bitcoin_packet_getdata_def ver_ok_simps)
  qed (use assms(2) in \<open>simp add: bitcoin_packet_getdata_def\<close>)
  moreover have "ver_ok (snd st')" if "bitcoin_packet_tx env p (d, c) = Inr st'"
    using that assms(2) by (auto simp: bitcoin_packet_tx_def Let_def bind_out_Inr_iff split: if_splits)
  moreover have "ver_ok (snd st')" if "bitcoin_packet_block env p (d, c) = Inr st'"
    using that assms(2) by (auto simp: bitcoin_packet_block_def bind_out_Inr_iff ver_ok_request)
  ultimately show ?thesis
    using assms ver_ok_version [OF assms(2)] by (auto simp: bc_dispatch_def split: if_splits)
qed

lemma ver_ok_dispatches:
  "fold_out (\<lambda>(t, p). bc_dispatch env now uuid t p) ps st = Inr st' \<Longrightarrow> ver_ok (snd st) \<Longrightarrow> ver_ok (snd st')"
proof (induction ps arbitrary: st)
  case (Cons p ps)
  obtain t q where p: "p = (t, q)" by (cases p)
  with Cons.prems(1) obtain u where u: "bc_dispatch env now uuid t q st = Inr u"
      "fold_out (\<lambda>(t, p). bc_dispatch env now uuid t p) ps u = Inr st'"
    by (auto simp: bind_out_Inr_iff)
  from ver_ok_dispatch [of env now uuid t q "fst st" "snd st" u] u(1) Cons.prems(2) have "ver_ok (snd u)" by simp
  with Cons.IH u(2) show ?case by blast
qed simp

section \<open>Announcements\<close>

lemma concat_keys: "concat (map (\<lambda>it. inv_key (fst it) (snd it)) items) = concat (map inv_entry items)"
  by (simp add: inv_key_def inv_entry_def [abs_def] bc_writeData_def)

lemma ucast_length: "short xs \<Longrightarrow> (ucast (word_of_nat (length xs) :: 32 word) :: 64 word) = word_of_nat (length xs)"
  by (simp add: short_def word_unat_eq_iff unat_of_nat unat_ucast_small)

lemma announce_spec:
  assumes "bd_queue d = map (\<lambda>it. inv_key (fst it) (snd it)) items" "items \<noteq> []" "short items"
  shows "sendQueuedInventory env (d, cs)
    = (d\<lparr>bd_queue := []\<rparr>, qm_map (\<lambda>_. sendPacket env ''inv'' (inv_bytes items)) cs)"
  using assms(2) by (simp add: sendQueuedInventory_def assms(1) Let_def newInventory_def [abs_def] inv_bytes_def
      ucast_length [OF assms(3)] concat_keys)

end
