(* ===== verification/Bitcoin_Props.thy ===== *)
theory Bitcoin_Props
  imports Bitcoin_Handlers
begin

text \<open>
  The properties of the Bitcoin library and peer, with their witnesses: a store that knows nothing
  and a toy checksum stand for the parameters.
\<close>

definition ex_sha :: "bytes \<Rightarrow> bytes" where
  "ex_sha b = [word_of_nat (length b), fold (+) b 0, 7, 9]"

definition ex_bc_env :: "unit bc_env" where
  "ex_bc_env = \<lparr>sha = ex_sha, host_text = (\<lambda>a. ''1.2.3.4''), unb64 = (\<lambda>b. b), es_contains = (\<lambda>_ _ _. False),
     es_get = (\<lambda>_ _ _. []), es_index = (\<lambda>_ _ d. d), es_max_depth = (\<lambda>_. 0), es_at_depth = (\<lambda>_ _. [])\<rparr>"

definition ex_bc_daemon :: "unit bc_daemon" where
  "ex_bc_daemon = \<lparr>bd_peers = [], bd_nonce = {}, bd_open = True, bd_db = (), bd_cache = [], bd_queue = [],
     bd_peer_learn = True, bd_heard = []\<rparr>"

definition ex_bc_client :: bc_client where
  "ex_bc_client = new_bc_client (host_text ex_bc_env) (IPv4 0x01020304) 8333"

lemma ex_sha_length: "4 \<le> length (sha ex_bc_env x)"
  by (simp add: ex_bc_env_def ex_sha_def)

lemma ex_offline: "offline ex_bc_env d"
  by (simp add: offline_def ex_bc_env_def)

section \<open>Serialization\<close>

text \<open>Every 64 bit integer is read back from its variable-length form, and what follows it in the
  stream is left for the next read.\<close>

theorem bc_int_roundtrip: "run_state bc_readInt (bc_writeInt i @ r) = (i, r)"
  by (rule varint.get_put) simp

text \<open>A transaction written to a stream is read back field by field, its scripts and hashes
  included, and the rest of the stream is left.\<close>

theorem bc_tx_roundtrip:
  assumes "tx_ok [] t"
  shows "run_state tx_of_stream (tx_write t @ r) = (t, r) \<and> fst (tx_generate t) = tx_write t"
  using tx.get_put [OF assms] assms by (simp add: tx_generate_def tx_ok_def)

definition ex_tx :: bc_tx where
  "ex_tx = \<lparr>tx_valid = True, tx_raw = [], tx_version = 1,
     tx_ins = [\<lparr>prev_out_hash = replicate 32 5, prev_out_index = 2, in_script = [1, 2, 3], sequence = 0xffffffff\<rparr>],
     tx_outs = [\<lparr>out_value = 5000000000, out_script = []\<rparr>, \<lparr>out_value = 7, out_script = [9]\<rparr>], lock_time = 0\<rparr>"

lemma ex_tx_ok: "tx_ok [] ex_tx"
  by (simp add: tx_ok_def ex_tx_def tx_in_ok_def tx_out_ok_def short_def)

theorem bc_tx_roundtrip_witness: "run_state tx_of_stream (tx_write ex_tx @ [7]) = (ex_tx, [7])"
  using bc_tx_roundtrip [OF ex_tx_ok, of "[7]"] by simp

text \<open>C38: a block built from a header and transactions is taken apart completely: every header field,
  the hash of the header alone, and the transactions in order.\<close>

theorem bc_block_roundtrip:
  assumes "length p = 32" "length m = 32" "short txs" "list_all (tx_ok []) txs"
    "b = block_of_data h (header_bytes v p m t bits n @ txs_bytes txs) height"
  shows "bl_version b = v \<and> bl_parent b = p \<and> bl_merkle_root b = m \<and> bl_timestamp b = t \<and> bl_bits b = bits
    \<and> bl_nonce b = n \<and> bl_height b = height \<and> bl_hash b = h (header_bytes v p m t bits n)
    \<and> getTransactions b = txs \<and> from_hex (getHexHash b) = rev (bl_hash b)"
proof -
  note b = block_of_header [OF assms(1,2), of h v t bits n "txs_bytes txs" height]
  have "getTransactions b = txs"
    by (rule getTransactions_txs [OF assms(3,4)]) (simp add: assms(5) b)
  then show ?thesis by (simp add: assms(5) b getHexHash_def from_hex_to_hex)
qed

theorem bc_block_roundtrip_witness:
  "getTransactions (block_of_data ex_sha (header_bytes 1 (replicate 32 0) (replicate 32 1) 7 8 9 @ txs_bytes [ex_tx, ex_tx]) 5)
     = [ex_tx, ex_tx]"
  using bc_block_roundtrip [OF _ _ _ _ refl, of "replicate 32 0" "replicate 32 1" "[ex_tx, ex_tx]" ex_sha 1 7 8 9 5] ex_tx_ok
  by (simp add: short_def)

text \<open>An address built from a host and a port and read back from its 26 bytes keeps its port and
  services, and its host when that is an IPv6 address outside the IPv4-mapped range; an IPv4 host comes
  back with its four bytes reversed.\<close>

theorem bc_address_roundtrip:
  assumes "length ip6 = 16" "take 12 ip6 \<noteq> ipv4_prefix"
  shows "na_addr (net_addr_of_bin (na_getBin (net_addr_of_host (IPv6 ip6) p s))) = IPv6 ip6
    \<and> na_addr (net_addr_of_bin (na_getBin (net_addr_of_host (IPv4 ip) p s))) = IPv4 (swap32 ip)
    \<and> swap32 (swap32 ip) = ip
    \<and> (\<forall>a \<in> {IPv4 ip, IPv6 ip6}. let b = net_addr_of_bin (na_getBin (net_addr_of_host a p s)) in
        na_valid b \<and> na_port b = p \<and> na_services b = s)"
  using assms host_valid [of "IPv4 ip" p s] host_valid [of "IPv6 ip6" p s]
  by (simp add: na_getBin_def host_bin_v4 host_bin_v6 addr_of_bin_v4 addr_of_bin_v6 swap32_swap32)

theorem bc_address_roundtrip_witness:
  "na_addr (net_addr_of_bin (na_getBin (net_addr_of_host (IPv4 0x7f000001) 8333 1))) = IPv4 0x0100007f
   \<and> na_addr (net_addr_of_bin (na_getBin (net_addr_of_host (IPv6 (0x20 # replicate 15 1)) 8333 1))) = IPv6 (0x20 # replicate 15 1)"
proof -
  have "swap32 0x7f000001 = 0x0100007f" by (simp add: swap32_def put_be_def be_bytes_def)
  with bc_address_roundtrip [of "0x20 # replicate 15 1" 8333 1 "0x7f000001"] show ?thesis
    by (simp add: ipv4_prefix_def numeral_eq_Suc)
qed

text \<open>The address of a standard output script, OP_DUP OP_HASH160, 20 bytes, OP_EQUALVERIFY
  OP_CHECKSIG, is never found; only a script with 16 bytes in that place has one.\<close>

theorem bc_p2pkh_not_found:
  assumes "length h20 = 20" "length h16 = 16"
  shows "getTxOutAddr ([0x76, 0xa9, 0x14] @ h20 @ [0x88, 0xac]) = []
    \<and> getTxOutAddr ([0x76, 0xa9, 0x10] @ h16 @ [0x88, 0xac]) = h16"
  using assms by (simp add: getTxOutAddr_def ba_left_def ba_right_def ba_mid_def take_Cons')

theorem bc_p2pkh_not_found_witness:
  "getTxOutAddr ([0x76, 0xa9, 0x14] @ replicate 20 7 @ [0x88, 0xac]) = []"
  using bc_p2pkh_not_found [of "replicate 20 7" "replicate 16 0"] by simp

text \<open>The number of inputs of a transaction is whatever the stream claims, even when the stream
  ends right after the claim: a packet of 13 bytes makes the parser build any number of inputs.\<close>

theorem bc_tx_count_unbounded:
  "length (tx_ins (tx_of_bytes (put_le (1 :: 32 word) @ bc_writeInt n))) = unat n"
proof -
  obtain ins r where i: "run_state (rd_list (unat n) read_tx_in) [] = (ins, r)" by (metis prod.exhaust)
  then have "length ins = unat n" using rd_list_length [of "unat n" read_tx_in "[]"] by simp
  then show ?thesis
    by (simp add: tx_of_bytes_def read_tx_def get_put_le varint.get_put_nil i split: prod.splits)
qed

section \<open>The wire\<close>

text \<open>C33: packets written by \<open>sendPacket\<close>, cut by the network into any pieces, are dispatched
  completely, once each and in order; with one turn more than packets the loop never runs out.\<close>

theorem bc_stream_dispatched:
  assumes "list_all (\<lambda>(t, dat). type_ok t \<and> length dat < 2 ^ 31) ps" "\<And>x. 4 \<le> length (sha env x)"
    "concat ts = concat (map (\<lambda>(t, dat). bc_packet (sha env) t dat) ps)" "short (concat ts)"
    "in_buf (snd st) = []" "length ps < fuel"
  shows "bc_read_all fuel env now uuid ts st = Some (fold_out (\<lambda>(t, p). bc_dispatch env now uuid t p) ps st)"
  by (rule stream_dispatched [OF assms])

lemma three_pieces: "concat [take 5 s, take 20 (drop 5 s), drop 25 s] = s"
proof -
  have "take 20 (drop 5 s) @ drop 25 s = drop 5 s" using append_take_drop_id [of 20 "drop 5 s"] by simp
  then show ?thesis by simp
qed

theorem bc_stream_dispatched_witness:
  "\<exists>ts. concat ts = bc_packet ex_sha (lit ''ping'') [1, 2] @ bc_packet ex_sha (lit ''verack'') [] \<and> length ts = 3
   \<and> bc_read_all 5 ex_bc_env 9 [] ts (ex_bc_daemon, ex_bc_client)
     = Some (Inr (bitcoin_packet_verack ex_bc_env 9 (bitcoin_packet_ping ex_bc_env [1, 2] (ex_bc_daemon, ex_bc_client))))"
proof -
  let ?s = "bc_packet ex_sha (lit ''ping'') [1, 2] @ bc_packet ex_sha (lit ''verack'') []"
  let ?ts = "[take 5 ?s, take 20 (drop 5 ?s), drop 25 ?s]"
  let ?ps = "[(lit ''ping'', [1, 2]), (lit ''verack'', [])] :: (bytes \<times> bytes) list"
  have ok: "list_all (\<lambda>(t, dat). type_ok t \<and> length dat < 2 ^ 31) ?ps"
    using type_names by (simp add: type_ok_def lit_def byte_of_char_def)
  have c: "concat ?ts = ?s" by (rule three_pieces)
  have s: "short ?s" by (simp add: short_def bc_packet_def write_at_def ex_sha_def Let_def magic_def bc_writeData_def ba_left_def)
  have d: "bc_dispatch ex_bc_env 9 [] (lit ''ping'') [1, 2] st = Inr (bitcoin_packet_ping ex_bc_env [1, 2] st)"
      "bc_dispatch ex_bc_env 9 [] (lit ''verack'') [] st = Inr (bitcoin_packet_verack ex_bc_env 9 st)" for st
    by (simp_all add: bc_dispatch_def lit_def byte_of_char_def)
  have "bc_read_all 5 ex_bc_env 9 [] ?ts (ex_bc_daemon, ex_bc_client)
      = Some (fold_out (\<lambda>(t, p). bc_dispatch ex_bc_env 9 [] t p) ?ps (ex_bc_daemon, ex_bc_client))"
    by (rule bc_stream_dispatched [OF ok ex_sha_length])
      (use c s in \<open>simp_all add: ex_bc_env_def ex_bc_client_def new_bc_client_def\<close>)
  with c d show ?thesis by (intro exI [of _ ?ts]) simp
qed


text \<open>C35: a packet of 24 bytes, of a type nobody handles, whose length field is \<open>0xffffffe8\<close>, keeps the
  receive loop in a turn that changes nothing: no amount of turns ends it.\<close>

theorem bc_wrap_diverges:
  assumes "length t = 12" "4 \<le> length (sha env [])" "in_buf (snd st) = []"
    "filter (\<lambda>b. b \<noteq> 0) t \<notin> {lit ''verack'', lit ''version'', lit ''inv'', lit ''tx'', lit ''addr'', lit ''block'',
      lit ''getdata'', lit ''ping''}"
  shows "length (wrap_packet (sha env) t) = 24 \<and> bc_handleBuffer fuel env now uuid (wrap_packet (sha env) t) st = None"
proof -
  have "bc_loop fuel env now uuid (wrap_packet (sha env) t) st = None"
    by (rule wrap_packet_loops [where t = t]) (use assms(1,2,4) in \<open>simp_all add: bc_dispatch_def\<close>)
  with assms show ?thesis by (simp add: bc_handleBuffer_def wrap_packet_def ba_left_def)
qed

theorem bc_wrap_diverges_witness:
  "\<forall>fuel. bc_handleBuffer fuel ex_bc_env 9 [] (wrap_packet ex_sha (lit ''hello world!'')) (ex_bc_daemon, ex_bc_client) = None"
proof -
  have "filter (\<lambda>b. b \<noteq> 0) (lit ''hello world!'') \<notin> {lit ''verack'', lit ''version'', lit ''inv'', lit ''tx'', lit ''addr'',
      lit ''block'', lit ''getdata'', lit ''ping''}" by code_simp
  then show ?thesis
    using bc_wrap_diverges [of "lit ''hello world!''" ex_bc_env "(ex_bc_daemon, ex_bc_client)" _ 9 "[]"]
      ex_sha_length [of "[]"]
    by (simp add: ex_bc_env_def ex_bc_client_def new_bc_client_def)
qed

section \<open>The protocol\<close>

text \<open>A version packet whose nonce the receiving daemon has registered, as it has for every
  connection it greets itself, closes the connection without an answer; any other is answered with
  the version, unless it was sent before, and an acknowledgement.\<close>

theorem bc_handshake:
  assumes "8 \<le> length uuid" "peer_ok c1" "bc_open c2" "\<not> sent_version c1" "\<not> sent_version c2"
    "p = version_packet env now (ba_right 8 uuid) d1 c1"
  shows "knownNonce (ba_right 8 uuid) (fst (sendVersion env now uuid (d1, c1)))
    \<and> (if knownNonce (ba_right 8 uuid) d2
       then \<exists>c. bitcoin_packet_version env t u p (d2, c2) = (d2, c) \<and> \<not> bc_open c \<and> bc_sent c = bc_sent c2
       else \<exists>c. bitcoin_packet_version env t u p (d2, c2) = (registerNonce (ba_right 8 u) d2, c)
         \<and> got_version c \<and> sent_version c \<and> bc_sent c = bc_sent c2
           @ [bc_packet (sha env) (lit ''version'') (version_packet env t (ba_right 8 u) (registerNonce (ba_right 8 u) d2) c2),
              bc_packet (sha env) (lit ''verack'') []])"
proof -
  have "length (ba_right 8 uuid) = 8" using assms(1) by (simp add: ba_right_def)
  from read_version_sent [OF this assms(2)]
  have r: "fst (run_state read_version p)
      = (80000, 1, now, Some (ba_right 8 uuid, user_agent, getBlockHeight env d1))"
    using assms(6) by blast
  show ?thesis
    using assms(3-5) packet_version_unknown [OF r _ assms(3,5), of d2 env t u]
    by (auto simp: sendVersion_def registerNonce_def knownNonce_def Let_def r bitcoin_packet_version_def bc_close_def)
qed

theorem bc_handshake_witness:
  "\<exists>c. bitcoin_packet_version ex_bc_env 10 (replicate 16 4) (version_packet ex_bc_env 9 (replicate 8 3) ex_bc_daemon ex_bc_client)
     (ex_bc_daemon\<lparr>bd_nonce := {replicate 8 3}\<rparr>, ex_bc_client) = (ex_bc_daemon\<lparr>bd_nonce := {replicate 8 3}\<rparr>, c)
   \<and> \<not> bc_open c \<and> bc_sent c = []"
proof -
  have p: "peer_ok ex_bc_client"
    by (simp add: peer_ok_def ex_bc_client_def new_bc_client_def) (rule na_bin_length, simp_all)
  have r: "ba_right 8 (replicate 16 3) = replicate 8 (3 :: byte)" by (simp add: ba_right_def)
  show ?thesis
    using bc_handshake [of "replicate 16 3" ex_bc_client ex_bc_client _ ex_bc_env 9 ex_bc_daemon
        "ex_bc_daemon\<lparr>bd_nonce := {replicate 8 3}\<rparr>" 10 "replicate 16 4", OF _ p _ _ _ refl]
    by (simp add: r knownNonce_def ex_bc_client_def new_bc_client_def)
qed

text \<open>Whatever packets a client dispatches, none of them aborts the process, and the client
  never writes more than one version packet.\<close>

theorem bc_version_once:
  assumes "bc_sent (snd st) = []"
  shows "\<exists>st'. fold_out (\<lambda>(t, p). bc_dispatch env now uuid t p) ps st = Inr st' \<and> versions (snd st') \<le> 1"
proof -
  have "\<exists>st'. fold_out (\<lambda>(t, p). bc_dispatch env now uuid t p) ps st = Inr st'" for st :: "'a bc_st"
  proof (induction ps arbitrary: st)
    case (Cons q ps)
    obtain t p where q: "q = (t, p)" by (cases q)
    obtain st1 where "bc_dispatch env now uuid t p st = Inr st1" using dispatch_total by blast
    with Cons.IH [of st1] q show ?case by simp
  qed simp
  then obtain st' where f: "fold_out (\<lambda>(t, p). bc_dispatch env now uuid t p) ps st = Inr st'" by blast
  have "ver_ok (snd st')" by (rule ver_ok_dispatches [OF f]) (simp add: ver_ok_def versions_def assms)
  then have "versions (snd st') \<le> 1" by (simp add: ver_ok_def split: if_splits)
  with f show ?thesis by blast
qed

theorem bc_version_once_witness:
  "\<exists>st'. fold_out (\<lambda>(t, p). bc_dispatch ex_bc_env 9 [] t p) [(lit ''version'', []), (lit ''version'', [1]), (lit ''block'', [])]
    (ex_bc_daemon, ex_bc_client) = Inr st' \<and> versions (snd st') \<le> 1"
  by (rule bc_version_once) (simp add: ex_bc_client_def new_bc_client_def)

text \<open>An inventory announcement of a peer is answered with one request for what is not known,
  in the announced order: all transactions and other items, but a block only when no block is
  pending, and then only the first; every unknown block is remembered as pending.\<close>

theorem bc_inv_requests:
  assumes "list_all hash_ok items" "short items"
  shows "\<exists>asked. bitcoin_packet_inv env (inv_bytes items) (d, c)
      = (d, (if asked = [] then id else sendPacket env ''getdata'' (inv_bytes asked))
          (c\<lparr>block_todl_list := block_todl_list c @ map snd (blocks (unknown env d items))\<rparr>))
    \<and> others asked = others (unknown env d items)
    \<and> blocks asked = (if block_todl_list c = [] then take 1 (blocks (unknown env d items)) else [])"
  by (rule packet_inv_spec [OF assms])

definition ex_items :: "(32 word \<times> bytes) list" where
  "ex_items = [(2, replicate 32 1), (1, replicate 32 2), (2, replicate 32 3)]"

lemma ex_items_ok: "list_all hash_ok ex_items" "short ex_items" "ex_items \<noteq> []"
  by (simp_all add: ex_items_def hash_ok_def short_def)

theorem bc_inv_requests_witness:
  "block_todl_list (snd (bitcoin_packet_inv ex_bc_env (inv_bytes ex_items) (ex_bc_daemon, ex_bc_client)))
   = [replicate 32 1, replicate 32 3]"
proof -
  have "unknown ex_bc_env ex_bc_daemon ex_items = ex_items"
    by (simp add: ex_items_def knows_offline [OF ex_offline] cached_def ex_bc_daemon_def)
  then show ?thesis
    using bc_inv_requests [OF ex_items_ok(1,2), of ex_bc_env ex_bc_daemon ex_bc_client]
    by (auto simp: ex_items_def ex_bc_client_def new_bc_client_def sendPacket_def)
qed

text \<open>Without the document store, a request is answered item by item from the cache, in the
  order of the request, and the items that are not cached come back in one \<open>notfound\<close> packet.\<close>

theorem bc_getdata_answers:
  assumes "list_all hash_ok items" "short items" "offline env d" "bc_open c"
  shows "bc_sent (snd (bitcoin_packet_getdata env (inv_bytes items) (d, c)))
    = bc_sent c @ concat (map (reply env d) items)
      @ (let missing = filter (\<lambda>it. cached d it = None) items in
         if missing = [] then [] else [bc_packet (sha env) (lit ''notfound'') (inv_bytes missing)])"
  by (rule packet_getdata_spec [OF assms])

theorem bc_getdata_answers_witness:
  "bc_sent (snd (bitcoin_packet_getdata ex_bc_env (inv_bytes ex_items)
     (ex_bc_daemon\<lparr>bd_cache := [(inv_key 1 (replicate 32 2), [5, 6])]\<rparr>, ex_bc_client)))
   = [bc_packet ex_sha (lit ''tx'') [5, 6],
      bc_packet ex_sha (lit ''notfound'') (inv_bytes [(2, replicate 32 1), (2, replicate 32 3)])]"
proof -
  have o: "bc_open ex_bc_client" by (simp add: ex_bc_client_def new_bc_client_def)
  have k: "inv_key 2 h \<noteq> inv_key 1 h'" for h h'
    by (simp add: inv_key_def put_le_def)
  show ?thesis
    using bc_getdata_answers [OF ex_items_ok(1,2) ex_offline o, of "ex_bc_daemon\<lparr>bd_cache := [(inv_key 1 (replicate 32 2), [5, 6])]\<rparr>"]
    by (simp add: ex_items_def cached_def reply_def k ex_bc_client_def new_bc_client_def ex_bc_env_def)
qed

text \<open>A block that was just added is answered with its 80 byte header alone, and its
  transactions are not in the answer.\<close>

theorem bc_block_answer_is_header:
  assumes "addBlock env b d = Inr d'" "bl_valid b" "bl_raw b = ba_left 80 dat"
  shows "fst (getInventory env 2 (bl_hash b) d') = ba_left 80 dat"
proof -
  have "map_of (bd_cache d') (inv_key 2 (bl_hash b)) = Some (bl_raw b)"
    using assms(1,2) by (auto simp: addBlock_def Let_def bind_out_Inr_iff index_doc_def cached_inserted)
  then show ?thesis by (simp add: getInventory_def assms(3))
qed

theorem bc_block_answer_is_header_witness:
  "\<exists>d'. addBlock ex_bc_env (block_of_data ex_sha (header_bytes 1 zero_hash zero_hash 7 8 9 @ txs_bytes [ex_tx]) 0) ex_bc_daemon = Inr d'
   \<and> fst (getInventory ex_bc_env 2 (ex_sha (header_bytes 1 zero_hash zero_hash 7 8 9)) d') = header_bytes 1 zero_hash zero_hash 7 8 9"
proof -
  have z: "length zero_hash = 32" by (simp add: zero_hash_def)
  let ?b = "block_of_data ex_sha (header_bytes 1 zero_hash zero_hash 7 8 9 @ txs_bytes [ex_tx]) 0"
  note b = block_of_header [OF z z, of ex_sha 1 7 8 9 "txs_bytes [ex_tx]" 0]
  have l: "length (header_bytes 1 zero_hash zero_hash 7 8 9) = 80"
    by (simp add: header_bytes_def z put_bytes bc_writeData_def)
  obtain d' where d: "addBlock ex_bc_env ?b ex_bc_daemon = Inr d'" using addBlock_Inr by blast
  from bc_block_answer_is_header [OF d, of "header_bytes 1 zero_hash zero_hash 7 8 9"] d
  show ?thesis by (auto simp: b l ba_left_def)
qed

text \<open>The inventory queued by a daemon goes to every client in one packet, which a receiver
  decodes to the same items in the same order; the queue is then empty.\<close>

theorem bc_announcement_received:
  assumes "bd_queue d = map (\<lambda>it. inv_key (fst it) (snd it)) items" "items \<noteq> []" "short items" "list_all hash_ok items"
  shows "sendQueuedInventory env (d, cs)
      = (d\<lparr>bd_queue := []\<rparr>, qm_map (\<lambda>_. sendPacket env ''inv'' (inv_bytes items)) cs)
    \<and> inv_items (inv_bytes items) = Some items"
  using announce_spec [OF assms(1-3)] inv_items_bytes [OF assms(4,3)] by blast

theorem bc_announcement_received_witness:
  "sendQueuedInventory ex_bc_env (ex_bc_daemon\<lparr>bd_queue := map (\<lambda>it. inv_key (fst it) (snd it)) ex_items\<rparr>, [(3, ex_bc_client)])
   = (ex_bc_daemon, [(3, sendPacket ex_bc_env ''inv'' (inv_bytes ex_items) ex_bc_client)])"
  using bc_announcement_received [OF _ ex_items_ok(3,2,1), of "ex_bc_daemon\<lparr>bd_queue := map (\<lambda>it. inv_key (fst it) (snd it)) ex_items\<rparr>"
      ex_bc_env "[(3, ex_bc_client)]"]
  by (simp add: ex_bc_daemon_def qm_map_def)

end
