(* ===== verification/Kumo_Irc.thy ===== *)
theory Kumo_Irc
  imports Client_Tcp_Line Machine
begin

text \<open>
  mod/daemon/kumoircd: an IRC server with one command. A client splits a line into prefix, command
  and parameters, looks the command up among its slots, and answers the commands it does not know.
  Replies are written to the socket directly. \<open>irc_out\<close> are the writes to the socket while it
  was open.
\<close>

record irc_client = line_client +
  irc_out :: "bytes list"

definition new_irc_client :: irc_client where
  "new_irc_client = \<lparr>write_buf = [], sock_open = True, deleting = False, accepted = [], read_buffer = [],
     handled = [], irc_out = []\<rparr>"

definition getServerName :: bytes where
  "getServerName = lit ''localhost''"

section \<open>Replies\<close>

fun join_params :: "bool \<Rightarrow> bytes list \<Rightarrow> bytes" where
  "join_params sp [] = []"
| "join_params sp [p] = (if sp then lit '' :'' @ p else lit '' '' @ p)"
| "join_params sp (p # q # ps) = lit '' '' @ p @ join_params sp (q # ps)"

definition reply_text :: "bytes list \<Rightarrow> bytes \<Rightarrow> bool \<Rightarrow> bytes" where
  "reply_text params prefix sp =
     (if prefix \<noteq> [] then prefix @ lit '' '' else [])
     @ (case params of [] \<Rightarrow> [] | p # ps \<Rightarrow> p @ join_params sp ps)"

definition sendReply :: "bytes list \<Rightarrow> bytes \<Rightarrow> bool \<Rightarrow> irc_client \<Rightarrow> irc_client" where
  "sendReply params prefix sp c =
     (if sock_open c then c\<lparr>irc_out := irc_out c @ [reply_text params prefix sp @ [13, 10]]\<rparr> else c)"

text \<open>\<open>QByteArray::number(raw).rightJustified(3, '0')\<close>\<close>

definition raw_text :: "nat \<Rightarrow> bytes" where
  "raw_text n = (let t = lit (digits10 n) in replicate (3 - length t) 48 @ t)"

definition rawReply3 :: "nat \<Rightarrow> bytes list \<Rightarrow> bool \<Rightarrow> irc_client \<Rightarrow> irc_client" where
  "rawReply3 raw reply sp c = sendReply (raw_text raw # reply) (lit '':'' @ getServerName) sp c"

text \<open>The codes with a text; the others are only logged.\<close>

definition rawReply :: "nat \<Rightarrow> bytes list \<Rightarrow> irc_client \<Rightarrow> irc_client" where
  "rawReply raw reply c =
     (if raw = 421 then rawReply3 raw (reply @ [lit ''Unknown command'']) True c
      else if raw = 432 then rawReply3 raw (reply @ [lit ''Erroneus nickname'']) True c
      else if raw = 431 then rawReply3 raw [lit ''No nickname given''] True c
      else c)"

section \<open>Lines\<close>

text \<open>\<open>while(line[pos] == ' ')\<close>; after a blank at the end of the line \<open>pos\<close> is out of range.\<close>

function skip_blanks :: "bytes \<Rightarrow> nat \<Rightarrow> nat outcome" where
  "skip_blanks line pos = bind_out (byte_at line pos) (\<lambda>b.
     if b = 32 then if length line \<le> pos + 1 then Inr (pos + 1) else skip_blanks line (pos + 1)
     else Inr pos)"
  by pat_completeness auto
termination
  by (relation "measure (\<lambda>(line, pos). length line - pos)") auto

declare skip_blanks.simps [simp del]

lemma skip_blanks_ge: "skip_blanks line pos = Inr p \<Longrightarrow> pos \<le> p"
proof (induction line pos rule: skip_blanks.induct)
  case (1 line pos)
  from 1(2) obtain b where b: "byte_at line pos = Inr b"
    by (subst (asm) skip_blanks.simps) (auto simp: bind_out_Inr_iff)
  show ?case
  proof (cases "b = 32 \<and> \<not> length line \<le> pos + 1")
    case True
    with b 1(2) have "skip_blanks line (pos + 1) = Inr p"
      by (subst (asm) skip_blanks.simps) simp
    with 1(1) [of b] True have "pos + 1 \<le> p" by simp
    then show ?thesis by simp
  next
    case False
    with b 1(2) show ?thesis
      by (subst (asm) skip_blanks.simps) (auto split: if_splits)
  qed
qed

text \<open>The \<open>while(pos < line.length())\<close> of \<open>handleLine\<close>: the pieces of the line.\<close>

function irc_pieces :: "bytes \<Rightarrow> nat \<Rightarrow> bytes list outcome" where
  "irc_pieces line pos =
     (if length line \<le> pos then Inr []
      else if line ! pos = 58 \<and> pos \<noteq> 0 then Inr [drop (pos + 1) line]
      else case index_from 32 pos line of
          None \<Rightarrow> Inr [drop pos line]
        | Some tpos \<Rightarrow>
            (case skip_blanks line (tpos + 1) of
                Inl e \<Rightarrow> Inl e
              | Inr p \<Rightarrow> map_out ((#) (ba_mid pos (tpos - pos) line)) (irc_pieces line p)))"
  by pat_completeness auto
termination
proof (relation "measure (\<lambda>(line, pos). length line - pos)", goal_cases)
  case (2 line pos tpos p)
  then have "pos \<le> tpos" by (auto simp: index_from_def)
  with skip_blanks_ge [OF 2(4)] have "pos < p" by simp
  with 2(1) show ?case by simp
qed simp

declare irc_pieces.simps [simp del]

text \<open>The prefix and the rest; \<open>tmp.at(0)\<close> of an empty list is out of range.\<close>

definition irc_split :: "bytes \<Rightarrow> (bytes list \<times> bytes) outcome" where
  "irc_split line = bind_out (irc_pieces line 0) (\<lambda>tmp. case tmp of
       [] \<Rightarrow> Inl OutOfRange
     | p # ps \<Rightarrow> bind_out (byte_at p 0) (\<lambda>b. Inr (if b = 58 then (ps, p) else (p # ps, []))))"

definition irc_cmd_nick :: "bytes list \<Rightarrow> bytes \<Rightarrow> irc_client \<Rightarrow> irc_client" where
  "irc_cmd_nick cmd prefix c = c"

definition handleIrcCommand :: "bytes list \<Rightarrow> bytes \<Rightarrow> irc_client \<Rightarrow> irc_client outcome" where
  "handleIrcCommand cmd prefix c = (case cmd of
       [] \<Rightarrow> Inl OutOfRange
     | name # _ \<Rightarrow>
         if to_lower name = lit ''nick'' then Inr (irc_cmd_nick cmd prefix c)
         else Inr (rawReply 421 [name] c))"

definition irc_handleLine :: "bytes \<Rightarrow> irc_client \<Rightarrow> irc_client outcome" where
  "irc_handleLine line c =
     (if line = [] then Inr c
      else bind_out (irc_split line) (\<lambda>(tmp, prefix). handleIrcCommand tmp prefix c))"

text \<open>The inherited \<open>handleBuffer\<close> with this \<open>handleLine\<close>.\<close>

definition irc_handleBuffer :: "bytes \<Rightarrow> irc_client \<Rightarrow> irc_client outcome" where
  "irc_handleBuffer buf c =
     (case line_loop (read_buffer c @ buf) of (ls, r, closed) \<Rightarrow>
        map_out (\<lambda>c. c\<lparr>read_buffer := r, sock_open := sock_open c \<and> \<not> closed\<rparr>) (fold_out irc_handleLine ls c))"

end
