(* ===== verification/Kumo_Props.thy ===== *)
theory Kumo_Props
  imports Kumo_Irc
begin

text \<open>
  The IRC server: lines are taken apart as replies are put together, every line but a lonely prefix
  is answered or ignored, and the reads do not matter.
\<close>

declare lit_simps [simp del]

section \<open>Splitting never runs out of the line\<close>

lemma skip_blanks_in: "pos < length line \<Longrightarrow> last line \<noteq> 32 \<Longrightarrow> \<exists>p. skip_blanks line pos = Inr p \<and> p < length line"
proof (induction line pos rule: skip_blanks.induct)
  case (1 line pos)
  show ?case
  proof (cases "line ! pos = 32")
    case True
    have "last line = line ! (length line - 1)" using 1(2) by (intro last_conv_nth) auto
    with True 1(2,3) have "pos + 1 < length line" by (cases "length line = pos + 1") auto
    with True 1 show ?thesis by (subst skip_blanks.simps) simp
  next
    case False
    with 1(2) show ?thesis by (subst skip_blanks.simps) simp
  qed
qed

lemma index_from_bounds: "index_from c pos line = Some t \<Longrightarrow> pos \<le> t \<and> t < length line \<and> line ! t = c"
  by (auto simp: index_from_def dest!: index_of_Some)

text \<open>A blank that is not the last byte of the line is followed by another piece.\<close>

lemma blank_inside:
  assumes "t < length line" "line ! t = 32" "last line \<noteq> 32"
  shows "\<exists>p. skip_blanks line (t + 1) = Inr p \<and> p < length line"
proof -
  have "last line = line ! (length line - 1)" using assms(1) by (intro last_conv_nth) auto
  with assms have "t + 1 < length line" by (cases "length line = t + 1") auto
  from skip_blanks_in [OF this assms(3)] show ?thesis .
qed

lemma irc_pieces_total:
  "pos < length line \<Longrightarrow> last line \<noteq> 32 \<Longrightarrow> \<exists>p ps. irc_pieces line pos = Inr (p # ps)"
proof (induction "length line - pos" arbitrary: pos rule: less_induct)
  case less
  show ?case
  proof (cases "line ! pos = 58 \<and> pos \<noteq> 0")
    case False
    show ?thesis
    proof (cases "index_from 32 pos line")
      case None
      with False less(2) show ?thesis by (subst irc_pieces.simps) auto
    next
      case (Some t)
      note t = index_from_bounds [OF Some]
      with blank_inside [of t line] less(3) obtain p where p: "skip_blanks line (t + 1) = Inr p" "p < length line" by blast
      have "pos < p" using t skip_blanks_ge [OF p(1)] by simp
      with less(1) [of p] p(2) less(2,3) obtain q ps where "irc_pieces line p = Inr (q # ps)" by (auto simp: diff_less_mono2)
      with False less(2) Some p show ?thesis by (subst irc_pieces.simps) auto
    qed
  next
    case True
    with less(2) show ?thesis by (subst irc_pieces.simps) auto
  qed
qed

section \<open>Pieces of a reply\<close>

definition irc_word :: "bytes \<Rightarrow> bool" where
  "irc_word w \<longleftrightarrow> w \<noteq> [] \<and> 32 \<notin> set w"

definition irc_param :: "bytes \<Rightarrow> bool" where
  "irc_param w \<longleftrightarrow> irc_word w \<and> hd w \<noteq> 58"

fun params_ok :: "bool \<Rightarrow> bytes list \<Rightarrow> bool" where
  "params_ok sp [] = True"
| "params_ok sp [p] = (sp \<or> irc_param p)"
| "params_ok sp (p # q # ps) = (irc_param p \<and> params_ok sp (q # ps))"

lemma irc_param_hd: "irc_param w \<Longrightarrow> irc_word w \<and> w \<noteq> [] \<and> hd w \<noteq> 58 \<and> hd w \<noteq> 32 \<and> hd (w @ x) \<noteq> 32"
  by (cases w) (auto simp: irc_param_def irc_word_def)

lemma irc_word_hd: "irc_word w \<Longrightarrow> (pre @ w @ x) ! length pre = hd w"
  by (cases w) (simp_all add: irc_word_def)

lemma index_from_word: "irc_word w \<Longrightarrow> index_from 32 (length pre) (pre @ w) = None"
  by (simp add: index_from_def irc_word_def index_of_None)

lemma index_from_blank: "irc_word w \<Longrightarrow> index_from 32 (length pre) (pre @ w @ 32 # r) = Some (length pre + length w)"
  by (simp add: index_from_def irc_word_def)

lemma skip_one: "r \<noteq> [] \<Longrightarrow> hd r \<noteq> 32 \<Longrightarrow> skip_blanks (a @ r) (length a) = Inr (length a)"
  by (subst skip_blanks.simps) (cases r, simp_all)

lemma pieces_last:
  assumes "irc_word w" "pre = [] \<or> hd w \<noteq> 58"
  shows "irc_pieces (pre @ w) (length pre) = Inr [w]"
  using assms irc_word_hd [OF assms(1), of pre "[]"]
  by (subst irc_pieces.simps) (auto simp: index_from_word irc_word_def)

lemma pieces_trailing: "pre \<noteq> [] \<Longrightarrow> irc_pieces (pre @ 58 # t) (length pre) = Inr [t]"
  by (subst irc_pieces.simps) simp

lemma pieces_next:
  assumes "irc_word w" "pre = [] \<or> hd w \<noteq> 58" "r \<noteq> []" "hd r \<noteq> 32"
  shows "irc_pieces (pre @ w @ 32 # r) (length pre)
    = map_out ((#) w) (irc_pieces ((pre @ w @ [32]) @ r) (length (pre @ w @ [32])))"
proof -
  have s: "skip_blanks (pre @ w @ 32 # r) (length pre + length w + 1) = Inr (length pre + length w + 1)"
    using skip_one [OF assms(3,4), of "pre @ w @ [32]"] by simp
  have m: "ba_mid (length pre) (length w) (pre @ w @ 32 # r) = w" by (simp add: ba_mid_def)
  show ?thesis
    using assms(1,2) irc_word_hd [OF assms(1), of pre "32 # r"] s m
    by (subst irc_pieces.simps) (auto simp: index_from_blank irc_word_def)
qed

lemma blank_text: "lit '' :'' = [32, 58]" "lit '' '' = [32]"
  by code_simp+

lemma pieces_join:
  assumes "irc_word w" "pre = [] \<or> hd w \<noteq> 58" "params_ok sp ps"
  shows "irc_pieces (pre @ w @ join_params sp ps) (length pre) = Inr (w # ps)"
  using assms
proof (induction sp ps arbitrary: pre w rule: join_params.induct)
  case (1 sp)
  then show ?case by (simp add: pieces_last)
next
  case (2 sp p)
  let ?pre = "pre @ w @ [32]"
  show ?case
  proof (cases sp)
    case True
    have "irc_pieces (?pre @ 58 # p) (length ?pre) = Inr [p]" by (rule pieces_trailing) simp
    with True pieces_next [OF 2(1,2), of "58 # p"] show ?thesis by (simp add: blank_text)
  next
    case False
    with 2(3) have p: "irc_word p" "hd p \<noteq> 58" "p \<noteq> []" "hd p \<noteq> 32"
      using irc_param_hd [of p] by auto
    have "irc_pieces (?pre @ p) (length ?pre) = Inr [p]" by (rule pieces_last) (use p in simp_all)
    with False p pieces_next [OF 2(1,2), of p] show ?thesis by (simp add: blank_text)
  qed
next
  case (3 sp p q ps)
  let ?pre = "pre @ w @ [32]" and ?r = "p @ join_params sp (q # ps)"
  from 3(4) have p: "irc_word p" "hd p \<noteq> 58" "p \<noteq> []" "hd ?r \<noteq> 32" "params_ok sp (q # ps)"
    using irc_param_hd [of p] by auto
  have "irc_pieces (?pre @ ?r) (length ?pre) = Inr (p # q # ps)"
    by (rule 3(1)) (use p in simp_all)
  with p pieces_next [OF 3(2,3), of ?r] show ?case by (simp add: blank_text)
qed


lemma split_reply:
  assumes "params \<noteq> []" "irc_param (hd params)" "params_ok sp (tl params)" "prefix \<noteq> [] \<Longrightarrow> irc_word prefix \<and> hd prefix = 58"
  shows "irc_split (reply_text params prefix sp) = Inr (params, prefix)"
proof -
  obtain p ps where p: "params = p # ps" using assms(1) by (cases params) auto
  with assms(2,3) have w: "irc_word p" "hd p \<noteq> 58" "p \<noteq> []" "params_ok sp ps" "hd (p @ join_params sp ps) \<noteq> 32"
    using irc_param_hd [of p] by auto
  have b: "byte_at p 0 = Inr (hd p)" using w(3) by (cases p) simp_all
  show ?thesis
  proof (cases "prefix = []")
    case True
    have "irc_pieces (p @ join_params sp ps) 0 = Inr params"
      using pieces_join [OF w(1) _ w(4), of "[]"] by (simp add: p)
    with True b w(2) show ?thesis by (simp add: irc_split_def reply_text_def p)
  next
    case False
    with assms(4) have x: "irc_word prefix" "hd prefix = 58" by auto
    have "irc_pieces (prefix @ 32 # p @ join_params sp ps) 0
        = map_out ((#) prefix) (irc_pieces ((prefix @ [32]) @ p @ join_params sp ps) (length (prefix @ [32])))"
      using pieces_next [OF x(1), of "[]" "p @ join_params sp ps"] w by simp
    also have "irc_pieces ((prefix @ [32]) @ p @ join_params sp ps) (length (prefix @ [32])) = Inr params"
      using pieces_join [OF w(1) _ w(4), of "prefix @ [32]"] w(2) by (simp add: p)
    finally have q: "irc_pieces (prefix @ 32 # p @ join_params sp ps) 0 = Inr (prefix # params)" by simp
    have "byte_at prefix 0 = Inr 58" using False x(2) by (cases prefix) simp_all
    with False q show ?thesis by (simp add: irc_split_def reply_text_def p blank_text)
  qed
qed

section \<open>Lines that fault\<close>

lemma irc_pieces_one:
  assumes "line \<noteq> []" "32 \<notin> set line"
  shows "irc_pieces line 0 = Inr [line]"
proof -
  have "index_of 32 line = None" using assms(2) by (simp add: index_of_None)
  with assms(1) show ?thesis by (subst irc_pieces.simps) (simp add: index_from_def)
qed

lemma irc_pieces_more:
  assumes "line \<noteq> []" "hd line \<noteq> 32" "32 \<in> set line" "last line \<noteq> 32"
  shows "\<exists>p q ps. irc_pieces line 0 = Inr (p # q # ps) \<and> p \<noteq> []"
proof -
  obtain t where t: "index_of 32 line = Some t" using assms(3) index_of_None [of 32 line] by auto
  from index_of_Some [OF t] have b: "t < length line" "line ! t = 32" by auto
  from blank_inside [OF b assms(4)] obtain p where p: "skip_blanks line (t + 1) = Inr p" "p < length line" by blast
  with irc_pieces_total [OF _ assms(4), of p] obtain q ps where q: "irc_pieces line p = Inr (q # ps)" by blast
  have "irc_pieces line 0 = Inr (take t line # q # ps)"
    using assms(1) t p q by (subst irc_pieces.simps) (simp add: index_from_def ba_mid_def)
  moreover have "t \<noteq> 0" using assms(1,2) b(2) by (cases t) (auto simp: hd_conv_nth)
  ultimately show ?thesis using assms(1) by auto
qed

lemma irc_split_fault:
  assumes "line \<noteq> []" "hd line \<noteq> 32" "last line \<noteq> 32"
  shows "(\<exists>r. irc_split line = Inr r \<and> (fst r = [] \<longleftrightarrow> hd line = 58 \<and> 32 \<notin> set line))"
proof (cases "32 \<in> set line")
  case False
  with assms(1) show ?thesis
    by (cases line) (simp_all add: irc_split_def irc_pieces_one)
next
  case True
  from irc_pieces_more [OF assms(1,2) True assms(3)] obtain p q ps where
    p: "irc_pieces line 0 = Inr (p # q # ps)" "p \<noteq> []" by blast
  then have "\<exists>b. byte_at p 0 = Inr b" by (simp add: byte_at_def)
  with p True show ?thesis by (auto simp: irc_split_def)
qed

section \<open>The server as a packet machine\<close>

interpretation irc: packet_machine line_cut irc_handleLine "\<lambda>c. c\<lparr>sock_open := False\<rparr>" read_buffer
    "\<lambda>b c. c\<lparr>read_buffer := b\<rparr>"
proof unfold_locales
  have s: "rawReply n ps (c\<lparr>read_buffer := b\<rparr>) = (rawReply n ps c)\<lparr>read_buffer := b\<rparr>" for n ps c b
    by (simp add: rawReply_def rawReply3_def sendReply_def)
  show "irc_handleLine f (c\<lparr>read_buffer := b\<rparr>) = map_out (\<lambda>c. c\<lparr>read_buffer := b\<rparr>) (irc_handleLine f c)" for f b c
    by (auto simp: irc_handleLine_def map_bind_out handleIrcCommand_def irc_cmd_nick_def s
        intro!: arg_cong2 [of _ _ _ _ bind_out] split: list.splits)
qed auto

lemma irc_handleBuffer_receive: "irc_handleBuffer b c = irc.receive b c"
  by (auto simp: irc_handleBuffer_def irc.receive_def line_loop_cut_all intro!: arg_cong2 [of _ _ _ _ map_out]
      split: prod.splits)


section \<open>Properties\<close>

text \<open>A reply put together by \<open>sendReply\<close> is taken apart by the line parser into the same
  prefix and parameters: words that do not start with a colon, the last parameter being free when it is
  sent with a colon.\<close>

theorem irc_reply_roundtrip:
  assumes "params \<noteq> []" "irc_param (hd params)" "params_ok sp (tl params)"
    "prefix = [] \<or> irc_word prefix \<and> hd prefix = 58"
  shows "irc_split (reply_text params prefix sp) = Inr (params, prefix)"
  using split_reply [OF assms(1-3)] assms(4) by blast

theorem irc_reply_roundtrip_witness:
  "irc_split (lit '':localhost 421 FOO :Unknown command'') = Inr ([lit ''421'', lit ''FOO'', lit ''Unknown command''], lit '':localhost'')"
proof -
  have "reply_text [lit ''421'', lit ''FOO'', lit ''Unknown command''] (lit '':localhost'') True
      = lit '':localhost 421 FOO :Unknown command''" by code_simp
  moreover have "irc_param (lit ''421'')" "irc_param (lit ''FOO'')" "irc_word (lit '':localhost'')" "hd (lit '':localhost'') = 58"
    by code_simp+
  ultimately show ?thesis
    using irc_reply_roundtrip [of "[lit ''421'', lit ''FOO'', lit ''Unknown command'']" True "lit '':localhost''"] by simp
qed

text \<open>C39: a line of the client faults exactly when it is a prefix alone; otherwise NICK is ignored
  and any other command is answered with one "Unknown command" reply that names it.\<close>

theorem irc_line_answered:
  assumes "line \<noteq> []" "line = trimmed line" "sock_open c"
  shows "if hd line = 58 \<and> 32 \<notin> set line then irc_handleLine line c = Inl OutOfRange
    else \<exists>name ps prefix. irc_split line = Inr (name # ps, prefix)
      \<and> irc_handleLine line c = Inr (if to_lower name = lit ''nick'' then c
          else c\<lparr>irc_out := irc_out c @ [lit '':localhost 421 '' @ name @ lit '' :Unknown command'' @ [13, 10]]\<rparr>)"
proof -
  have "hd line \<noteq> 32" "last line \<noteq> 32" using assms(1,2) trimmed_hd [of line] by (auto simp: is_space_def)
  from irc_split_fault [OF assms(1) this] obtain tmp prefix where
    s: "irc_split line = Inr (tmp, prefix)" "tmp = [] \<longleftrightarrow> hd line = 58 \<and> 32 \<notin> set line" by auto
  have r: "reply_text [raw_text 421, name, lit ''Unknown command''] (lit '':'' @ getServerName) True
      = lit '':localhost 421 '' @ name @ lit '' :Unknown command''" for name
    by (simp add: reply_text_def raw_text_def getServerName_def) (simp add: lit_def byte_of_char_def)
  show ?thesis
    using assms(1,3) s
    by (cases tmp) (auto simp: irc_handleLine_def handleIrcCommand_def irc_cmd_nick_def rawReply_def rawReply3_def
        sendReply_def r)
qed

theorem irc_line_answered_witness:
  "irc_handleLine (lit '':joe'') new_irc_client = Inl OutOfRange
   \<and> irc_handleLine (lit ''JOIN #a'') new_irc_client
     = Inr (new_irc_client\<lparr>irc_out := [lit '':localhost 421 JOIN :Unknown command'' @ [13, 10]]\<rparr>)"
proof -
  have t: "lit '':joe'' = trimmed (lit '':joe'')" "lit ''JOIN #a'' = trimmed (lit ''JOIN #a'')" "lit '':joe'' \<noteq> []"
    "lit ''JOIN #a'' \<noteq> []" "hd (lit '':joe'') = 58" "32 \<notin> set (lit '':joe'')" "hd (lit ''JOIN #a'') \<noteq> 58"
    "to_lower (lit ''JOIN'') \<noteq> lit ''nick''"
    "lit '':localhost 421 '' @ lit ''JOIN'' @ lit '' :Unknown command'' @ [13, 10] = lit '':localhost 421 JOIN :Unknown command'' @ [13, 10]"
    by code_simp+
  have s: "irc_split (lit ''JOIN #a'') = Inr ([lit ''JOIN'', lit ''#a''], [])" by code_simp
  have o: "sock_open new_irc_client" "irc_out new_irc_client = []" by (simp_all add: new_irc_client_def)
  show ?thesis
    using irc_line_answered [OF t(3,1) o(1)] irc_line_answered [OF t(4,2) o(1)] t s o by auto
qed

text \<open>However the bytes of an IRC client are cut into reads, the replies are the ones a single
  read of everything gives, as long as no line is too long.\<close>

theorem irc_reads_compose:
  assumes "line_cut (read_buffer c) = More" "cut_all line_cut (read_buffer c @ concat ts) = (fs, r, False)"
  shows "fold_out irc_handleBuffer ts c = irc_handleBuffer (concat ts) c
    \<and> irc_handleBuffer (concat ts) c = map_out (\<lambda>c. c\<lparr>read_buffer := r\<rparr>) (fold_out irc_handleLine fs c)"
proof -
  have e: "irc_handleBuffer = irc.receive" by (intro ext) (rule irc_handleBuffer_receive)
  show ?thesis unfolding e using irc.receive_chunks [OF assms] assms(2) by (simp add: irc.receive_def)
qed

theorem irc_reads_compose_witness:
  "fold_out irc_handleBuffer [[70, 79], [79, 10, 66], [10]] new_irc_client = irc_handleBuffer [70, 79, 79, 10, 66, 10] new_irc_client"
proof -
  have c: "cut_all line_cut [70, 79, 79, 10, 66, 10] = ([trimmed [70, 79, 79], trimmed [66]], [], False)"
    using cut_all_lines [of "[[70, 79, 79], [66]]" "[]"] by simp
  have b: "read_buffer new_irc_client = []" by (simp add: new_irc_client_def)
  show ?thesis
    using irc_reads_compose [of new_irc_client "[[70, 79], [79, 10, 66], [10]]"] c by (simp add: b line_cut_def)
qed

end
