(* ===== verification/RConnect.thy ===== *)
theory RConnect
  imports Client_Tcp Machine Qt_Map Qt_Stream
begin

text \<open>
  mod/daemon/rconnect: a relay between clients. A client gets 16 random bytes as its id; what it
  sends is a sequence of packets, each with the id of a target, a length of 2 or 4 bytes and the
  data; the target receives the packet with the id of the sender in place of its own.
  The static map \<open>rconnect\<close> and the clients in it are one state, keyed by id; \<open>rc_took\<close> are
  the results of the coming socket writes, chosen by the environment.
\<close>

record rc_client = client_tcp +
  buf_in :: bytes

record rc_state =
  rconnect :: "(bytes, rc_client) qmap"
  rc_took :: "int list"

definition new_rc_client :: rc_client where
  "new_rc_client = \<lparr>write_buf = [], sock_open = True, deleting = False, accepted = [], buf_in = []\<rparr>"

text \<open>\<open>client->write(dat)\<close>; the next result is used up.\<close>

definition rc_write :: "bytes \<Rightarrow> bytes \<Rightarrow> rc_state \<Rightarrow> rc_state" where
  "rc_write i dat s =
     (case rc_took s of
        [] \<Rightarrow> s\<lparr>rconnect := qm_update i (tcp_write (int (length dat)) dat) (rconnect s)\<rparr>
      | r # rs \<Rightarrow> s\<lparr>rconnect := qm_update i (tcp_write r dat) (rconnect s), rc_took := rs\<rparr>)"

definition rc_connect :: "bytes \<Rightarrow> rc_state \<Rightarrow> rc_state" where
  "rc_connect raw_id s = rc_write raw_id raw_id (s\<lparr>rconnect := qm_insert raw_id new_rc_client (rconnect s)\<rparr>)"

definition rc_destroy :: "bytes \<Rightarrow> rc_state \<Rightarrow> rc_state" where
  "rc_destroy raw_id s = s\<lparr>rconnect := qm_remove raw_id (rconnect s)\<rparr>"

section \<open>The receive loop\<close>

definition rc_len_min :: "nat \<Rightarrow> bytes \<Rightarrow> 16 word" where
  "rc_len_min pos b = fst (run_state (get_be :: 16 word reader) (drop pos b))"

text \<open>The header: the length of the data and of the header, \<open>None\<close> for not enough bytes.\<close>

definition rc_header :: "bytes \<Rightarrow> (32 word \<times> nat) option" where
  "rc_header b =
     (if length b < 18 then None
      else
        let len_min = rc_len_min 16 b; len = (ucast len_min :: 32 word) in
        if len_min AND 0x8000 \<noteq> 0 then
          if length b < 20 then None
          else Some (push_bit 16 (len AND 0x7fff) OR ucast (rc_len_min 18 b), 20)
        else Some (len, 18))"

text \<open>The \<open>while(true)\<close>: a packet for an unknown target is dropped and ends the loop.\<close>

function rc_loop :: "bytes \<Rightarrow> bytes \<Rightarrow> rc_state \<Rightarrow> bytes \<times> rc_state" where
  "rc_loop me b s =
     (case rc_header b of
        None \<Rightarrow> (b, s)
      | Some (len, header_len) \<Rightarrow>
          if length b < unat len + header_len then (b, s)
          else
            let tgt = ba_mid 0 16 b; rest = drop (unat len + header_len) b in
            if \<not> qm_contains (rconnect s) tgt then (rest, s)
            else rc_loop me rest (rc_write tgt (me @ ba_mid 16 (unat len + header_len - 16) b) s))"
  by pat_completeness auto
termination
  by (relation "measure (\<lambda>(me, b, s). length b)") (auto simp: rc_header_def Let_def split: if_splits)

declare rc_loop.simps [simp del]

definition rc_handleBuffer :: "bytes \<Rightarrow> bytes \<Rightarrow> rc_state \<Rightarrow> rc_state" where
  "rc_handleBuffer me buf s =
     (case map_of (rconnect s) me of None \<Rightarrow> s
      | Some c \<Rightarrow>
          (case rc_loop me (buf_in c @ buf) s of (b, s) \<Rightarrow>
             s\<lparr>rconnect := qm_update me (\<lambda>c. c\<lparr>buf_in := b\<rparr>) (rconnect s)\<rparr>))"

end
