(* ===== verification/RConnect_Props.thy ===== *)
theory RConnect_Props
  imports RConnect
begin

text \<open>
  The relay: its packets as a cutter, what a sender's stream makes of the targets' streams, and the
  drop of a packet for an unknown target.
\<close>

unbundle bit_operations_syntax

section \<open>Lengths of 15 and 31 bits\<close>

lemma bit_flag: "bit (0x8000 :: 16 word) j \<longleftrightarrow> j = 15"
proof -
  have "(0x8000 :: 16 word) = 2 ^ 15" by simp
  then show ?thesis by (simp only: bit_exp_iff) (auto simp: possible_bit_def)
qed

lemma bit_flag_int: "bit (0x8000 :: int) j \<longleftrightarrow> j = 15"
proof -
  have "(0x8000 :: int) = 2 ^ 15" by simp
  then show ?thesis by (simp only: bit_exp_iff) (auto simp: possible_bit_def)
qed

lemma bit_flag_nat: "bit (0x8000 :: nat) j \<longleftrightarrow> j = 15"
proof -
  have "(0x8000 :: nat) = 2 ^ 15" by simp
  then show ?thesis by (simp only: bit_exp_iff) (auto simp: possible_bit_def)
qed

lemma flag_clear: "n < 2 ^ 15 \<Longrightarrow> (word_of_nat n :: 16 word) AND 0x8000 = 0"
proof -
  assume n: "n < 2 ^ 15"
  have "\<not> bit n 15" using n by (simp add: bit_iff_odd)
  then show ?thesis
    by (intro bit_word_eqI) (auto simp: bit_flag_int bit_flag_nat bit_simps)
qed

lemma flag_set: "((0x8000 OR w) AND 0x8000 :: 16 word) \<noteq> 0"
proof -
  have "bit ((0x8000 OR w) AND 0x8000 :: 16 word) 15" by (simp add: bit_flag bit_simps)
  then show ?thesis by (metis bit_0_eq bot_apply bot_bool_def)
qed

lemma long_len:
  assumes "n < 2 ^ 31"
  shows "push_bit 16 (ucast (0x8000 OR word_of_nat (n div 65536) :: 16 word) AND 0x7fff) OR ucast (word_of_nat n :: 16 word)
    = (word_of_nat n :: 32 word)"
proof (rule bit_word_eqI)
  fix i assume i: "i < LENGTH(32)"
  have m: "(0x7fff :: 32 word) = mask 15" by (simp add: mask_eq_exp_minus_1)
  have d: "n div 65536 = drop_bit 16 n" by (simp add: drop_bit_eq_div)
  have h: "\<not> bit n 31" using assms by (simp add: bit_iff_odd)
  show "bit (push_bit 16 (ucast (0x8000 OR word_of_nat (n div 65536) :: 16 word) AND 0x7fff) OR ucast (word_of_nat n :: 16 word) :: 32 word) i
    = bit (word_of_nat n :: 32 word) i"
    unfolding m d using i h by (cases "i = 31") (auto simp: bit_simps bit_flag_int bit_flag_nat)
qed

definition rc_body :: "bytes \<Rightarrow> bytes" where
  "rc_body p =
     (let n = length p in
      if n < 2 ^ 15 then put_be (word_of_nat n :: 16 word)
      else put_be (0x8000 OR word_of_nat (n div 65536) :: 16 word) @ put_be (word_of_nat n :: 16 word)) @ p"

lemma rc_len_min_put: "length a = pos \<Longrightarrow> rc_len_min pos (a @ put_be w @ r) = w"
  by (simp add: rc_len_min_def u16be.get_put)

lemma rc_header_body:
  assumes "length tgt = 16" "length p < 2 ^ 31"
  shows "\<exists>h. rc_header (tgt @ rc_body p @ r) = Some (word_of_nat (length p), h)
    \<and> h = 16 + (length (rc_body p) - length p) \<and> length p \<le> length (rc_body p)"
proof (cases "length p < 2 ^ 15")
  case True
  have b: "rc_body p = put_be (word_of_nat (length p) :: 16 word) @ p" using True by (simp add: rc_body_def)
  have "rc_len_min 16 (tgt @ rc_body p @ r) = word_of_nat (length p)"
    using rc_len_min_put [OF assms(1), of "word_of_nat (length p)" "p @ r"] by (simp add: b)
  moreover have "(ucast (word_of_nat (length p) :: 16 word) :: 32 word) = word_of_nat (length p)"
    using True by (simp add: word_unat_eq_iff unat_of_nat unat_ucast_small)
  ultimately show ?thesis
    using flag_clear [OF True] assms(1) by (simp add: rc_header_def b)
next
  case False
  let ?hi = "0x8000 OR word_of_nat (length p div 65536) :: 16 word" and ?lo = "word_of_nat (length p) :: 16 word"
  have b: "rc_body p = put_be ?hi @ put_be ?lo @ p" using False by (simp add: rc_body_def Let_def)
  have "rc_len_min 16 (tgt @ rc_body p @ r) = ?hi"
    using rc_len_min_put [OF assms(1), of ?hi "put_be ?lo @ p @ r"] by (simp only: b append_assoc)
  moreover have "rc_len_min 18 (tgt @ rc_body p @ r) = ?lo"
    using rc_len_min_put [of "tgt @ put_be ?hi" 18 ?lo "p @ r"] assms(1) by (simp add: b)
  ultimately have "rc_header (tgt @ rc_body p @ r)
      = Some (push_bit 16 (ucast ?hi AND 0x7fff) OR ucast ?lo, 20)"
    using flag_set assms(1) by (simp add: rc_header_def b)
  then show ?thesis using long_len [OF assms(2)] assms(1) by (simp add: b)
qed

section \<open>The cutter\<close>

definition rc_cut :: "bytes \<Rightarrow> (bytes \<times> bytes) cut" where
  "rc_cut b = (case rc_header b of
       None \<Rightarrow> More
     | Some (len, h) \<Rightarrow> if length b < unat len + h then More
         else Packet (ba_mid 0 16 b, ba_mid 16 (unat len + h - 16) b) (drop (unat len + h) b))"

lemma rc_len_min_append: "pos + 2 \<le> length b \<Longrightarrow> rc_len_min pos (b @ x) = rc_len_min pos b"
  by (simp add: rc_len_min_def run_get_be)

lemma rc_header_append: "rc_header b = Some lh \<Longrightarrow> rc_header (b @ x) = Some lh"
  by (auto simp: rc_header_def Let_def rc_len_min_append split: if_splits)

lemma rc_header_bounds: "rc_header b = Some (len, h) \<Longrightarrow> 18 \<le> h \<and> 18 \<le> length b"
  by (auto simp: rc_header_def Let_def split: if_splits)

interpretation rc: framer rc_cut
proof unfold_locales
  show "rc_cut b = Packet f r \<Longrightarrow> length r < length b" for b f r
    by (auto simp: rc_cut_def split: option.splits if_splits dest!: rc_header_bounds)
  show "rc_cut b = Packet f r \<Longrightarrow> rc_cut (b @ x) = Packet f (r @ x)" for b f r x
    by (auto simp: rc_cut_def rc_header_append split: option.splits if_splits dest!: rc_header_bounds)
  show "rc_cut b = Fatal \<Longrightarrow> rc_cut (b @ x) = Fatal" for b x
    by (auto simp: rc_cut_def split: option.splits if_splits)
qed

lemma rc_never_fatal: "cut_all rc_cut b = (fs, r, x) \<Longrightarrow> \<not> x"
proof (induction b arbitrary: fs rule: length_induct)
  case (1 b)
  show ?case
  proof (cases "rc_cut b")
    case (Packet f s)
    with 1 rc.shrinks [OF Packet] show ?thesis by (auto simp: rc.cut_all_Packet split: prod.splits)
  next
    case Fatal
    then show ?thesis by (auto simp: rc_cut_def split: option.splits if_splits)
  qed (use 1 in \<open>simp add: rc.cut_all_More\<close>)
qed

lemma rc_cut_body:
  assumes "length tgt = 16" "length p < 2 ^ 31"
  shows "rc_cut (tgt @ rc_body p @ r) = Packet (tgt, rc_body p) r"
proof -
  obtain h where h: "rc_header (tgt @ rc_body p @ r) = Some (word_of_nat (length p), h)"
      "h = 16 + (length (rc_body p) - length p)" "length p \<le> length (rc_body p)"
    using rc_header_body [OF assms] by blast
  have n: "unat (word_of_nat (length p) :: 32 word) = length p" using assms(2) by (simp add: unat_of_nat)
  have l: "unat (word_of_nat (length p) :: 32 word) + h = 16 + length (rc_body p)" using n h(2,3) by simp
  show ?thesis
    unfolding rc_cut_def h(1) option.case prod.case l using assms(1) by (simp add: ba_mid_def)
qed

lemma cut_all_bodies:
  assumes "list_all (\<lambda>(tgt, p). length tgt = 16 \<and> length p < 2 ^ 31) ms"
  shows "cut_all rc_cut (concat (map (\<lambda>(tgt, p). tgt @ rc_body p) ms)) = (map (apsnd rc_body) ms, [], False)"
  using assms
proof (induction ms)
  case Nil
  have "rc_cut [] = More" by (simp add: rc_cut_def rc_header_def)
  then show ?case by (simp add: rc.cut_all_More)
next
  case (Cons m ms)
  then show ?case by (cases m) (simp add: rc.cut_all_Packet [OF rc_cut_body])
qed

section \<open>The loop\<close>

definition rc_relay :: "bytes \<Rightarrow> bytes \<times> bytes \<Rightarrow> rc_state \<Rightarrow> rc_state" where
  "rc_relay me f = rc_write (fst f) (me @ snd f)"

definition rc_known :: "rc_state \<Rightarrow> bytes \<Rightarrow> bool" where
  "rc_known s i \<longleftrightarrow> qm_contains (rconnect s) i"

lemma rc_known_write [simp]: "rc_known (rc_write i dat s) = rc_known s"
  by (rule ext) (auto simp: rc_known_def qm_contains_def rc_write_def map_of_update split: list.splits)

lemma rc_known_relay [simp]: "rc_known (rc_relay me f s) = rc_known s"
  by (simp add: rc_relay_def)

lemma rc_loop_More: "rc_cut b = More \<Longrightarrow> rc_loop me b s = (b, s)"
  by (subst rc_loop.simps) (auto simp: rc_cut_def split: option.splits if_splits)

lemma rc_loop_Packet: "rc_cut b = Packet f r \<Longrightarrow>
    rc_loop me b s = (if rc_known s (fst f) then rc_loop me r (rc_relay me f s) else (r, s))"
  by (subst rc_loop.simps) (auto simp: rc_cut_def rc_known_def rc_relay_def Let_def split: option.splits if_splits)

lemma rc_loop_known:
  assumes "cut_all rc_cut b = (fs, r, False)" "list_all (\<lambda>f. rc_known s (fst f)) fs"
  shows "rc_loop me b s = (r, fold (rc_relay me) fs s)"
  using assms
proof (induction b arbitrary: fs s rule: length_induct)
  case (1 b)
  show ?case
  proof (cases "rc_cut b")
    case (Packet f s')
    then obtain gs where g: "cut_all rc_cut s' = (gs, r, False)" "fs = f # gs"
      using 1(2) by (auto simp: rc.cut_all_Packet split: prod.splits)
    have "rc_loop me s' (rc_relay me f s) = (r, fold (rc_relay me) gs (rc_relay me f s))"
      using 1(1) rc.shrinks [OF Packet] g 1(3) by simp
    with g 1(3) show ?thesis by (simp add: rc_loop_Packet [OF Packet])
  next
    case More
    with 1(2) show ?thesis by (auto simp: rc_loop_More rc.cut_all_More)
  qed (use 1(2) in \<open>simp add: rc.cut_all_Fatal\<close>)
qed

section \<open>Reads in pieces\<close>

definition rc_set :: "bytes \<Rightarrow> bytes \<Rightarrow> rc_state \<Rightarrow> rc_state" where
  "rc_set me b s = s\<lparr>rconnect := qm_update me (\<lambda>c. c\<lparr>buf_in := b\<rparr>) (rconnect s)\<rparr>"

lemma tcp_write_set: "tcp_write n dat (c\<lparr>buf_in := b\<rparr>) = (tcp_write n dat c)\<lparr>buf_in := b\<rparr>"
  by (simp add: tcp_defs Let_def)

lemma qm_update_commute: "(\<And>v. f (g v) = g (f v)) \<Longrightarrow> qm_update i f (qm_update j g m) = qm_update j g (qm_update i f m)"
  by (induction m) (auto simp: qm_update_Cons)

lemma write_set_commute:
  "qm_update i (tcp_write n dat) (qm_update me (\<lambda>c. c\<lparr>buf_in := b\<rparr>) m)
    = qm_update me (\<lambda>c. c\<lparr>buf_in := b\<rparr>) (qm_update i (tcp_write n dat) m)"
  by (rule qm_update_commute) (rule tcp_write_set)

lemma rc_write_set: "rc_write i dat (rc_set me b s) = rc_set me b (rc_write i dat s)"
  by (simp add: rc_write_def rc_set_def write_set_commute split: list.split)

lemma rc_set_set: "rc_set me a (rc_set me b s) = rc_set me a s"
  by (simp add: rc_set_def qm_update_update)

lemma fold_relay_set: "fold (rc_relay me) fs (rc_set me b s) = rc_set me b (fold (rc_relay me) fs s)"
  by (induction fs arbitrary: s) (simp_all add: rc_relay_def rc_write_set)

lemma rc_known_set [simp]: "rc_known (rc_set me b s) = rc_known s"
  by (rule ext) (simp add: rc_known_def qm_contains_def rc_set_def map_of_update)

lemma rc_known_fold [simp]: "rc_known (fold (rc_relay me) fs s) = rc_known s"
  by (induction fs arbitrary: s) simp_all

definition rc_buf :: "bytes \<Rightarrow> rc_state \<Rightarrow> bytes option" where
  "rc_buf me s = map_option buf_in (map_of (rconnect s) me)"

lemma rc_buf_set: "rc_known s me \<Longrightarrow> rc_buf me (rc_set me b s) = Some b"
  by (auto simp: rc_known_def qm_contains_def rc_buf_def rc_set_def map_of_update)

lemma rc_set_id: "rc_buf me s = Some b \<Longrightarrow> qm_wf (rconnect s) \<Longrightarrow> rc_set me b s = s"
proof -
  assume b: "rc_buf me s = Some b" and w: "qm_wf (rconnect s)"
  then obtain c where c: "map_of (rconnect s) me = Some c" "buf_in c = b" by (auto simp: rc_buf_def)
  have "qm_update me (\<lambda>c. c\<lparr>buf_in := b\<rparr>) m = m" if "\<forall>(k, v) \<in> set m. k = me \<longrightarrow> v = c" for m
    using that c(2) by (induction m) (auto simp: qm_update_Cons)
  moreover have "\<forall>(k, v) \<in> set (rconnect s). k = me \<longrightarrow> v = c"
    using c(1) w by (auto simp: qm_wf_map_of_set)
  ultimately show ?thesis by (simp add: rc_set_def)
qed

lemma rc_handle:
  assumes "rc_buf me s = Some b" "cut_all rc_cut (b @ t) = (fs, r, False)" "list_all (\<lambda>f. rc_known s (fst f)) fs"
  shows "rc_handleBuffer me t s = rc_set me r (fold (rc_relay me) fs s)"
  using assms(1) rc_loop_known [OF assms(2,3)]
  by (auto simp: rc_buf_def rc_handleBuffer_def rc_set_def)

lemma rc_wf_write: "qm_wf (rconnect s) \<Longrightarrow> qm_wf (rconnect (rc_write i dat s))"
  by (simp add: rc_write_def split: list.split)

lemma rc_handles:
  assumes "rc_buf me s = Some b" "rc_cut b = More" "qm_wf (rconnect s)"
    "cut_all rc_cut (b @ concat ts) = (fs, r, False)" "list_all (\<lambda>f. rc_known s (fst f)) fs"
  shows "fold (rc_handleBuffer me) ts s = rc_set me r (fold (rc_relay me) fs s)"
  using assms
proof (induction ts arbitrary: s b fs)
  case Nil
  then show ?case by (auto simp: rc.cut_all_More rc_set_id)
next
  case (Cons t ts)
  obtain gs r1 x where c: "cut_all rc_cut (b @ t) = (gs, r1, x)" by (metis prod_cases3)
  obtain hs r2 y where d: "cut_all rc_cut (r1 @ concat ts) = (hs, r2, y)" by (metis prod_cases3)
  have x: "\<not> x" "\<not> y" using rc_never_fatal c d by blast+
  then have fs: "fs = gs @ hs" "r = r2"
    using Cons.prems(4) rc.cut_all_append [of "b @ t" "concat ts"] c d by auto
  let ?s = "rc_set me r1 (fold (rc_relay me) gs s)"
  have me: "rc_known s me" using Cons.prems(1) by (auto simp: rc_buf_def rc_known_def qm_contains_def)
  have h: "rc_handleBuffer me t s = ?s"
    by (rule rc_handle [OF Cons.prems(1)]) (use c x fs Cons.prems(5) in auto)
  have w: "qm_wf (rconnect ?s)"
    using Cons.prems(3) by (induction gs arbitrary: s) (simp_all add: rc_set_def rc_relay_def rc_wf_write)
  have "fold (rc_handleBuffer me) ts ?s = rc_set me r (fold (rc_relay me) hs ?s)"
    by (rule Cons.IH [of _ r1])
      (use me w d x fs rc.cut_all_rest [of "b @ t" gs r1] c Cons.prems(5) in \<open>simp_all add: rc_buf_set\<close>)
  then show ?case by (simp add: h fold_relay_set rc_set_set fs)
qed


section \<open>Properties\<close>

lemma fold_relay_bodies: "fold (rc_relay me) (map (apsnd rc_body) ms) s = fold (\<lambda>(tgt, p). rc_write tgt (me @ rc_body p)) ms s"
  by (induction ms arbitrary: s) (auto simp: rc_relay_def)

text \<open>C40: packets for connected targets, cut into any reads, are each written to their target in
  order, whole, with the id of the sender in place of the target's; and the target, if it reads its
  stream with the same format, gets the same lengths and data back.\<close>

theorem rc_relays:
  assumes "rc_buf me s = Some []" "qm_wf (rconnect s)" "length me = 16"
    "list_all (\<lambda>(tgt, p). length tgt = 16 \<and> length p < 2 ^ 31 \<and> rc_known s tgt) ms"
    "concat ts = concat (map (\<lambda>(tgt, p). tgt @ rc_body p) ms)"
  shows "fold (rc_handleBuffer me) ts s = fold (\<lambda>(tgt, p). rc_write tgt (me @ rc_body p)) ms s
    \<and> cut_all rc_cut (concat (map (\<lambda>(tgt, p). me @ rc_body p) ms)) = (map (\<lambda>(tgt, p). (me, rc_body p)) ms, [], False)"
proof -
  have n: "rc_cut [] = More" by (simp add: rc_cut_def rc_header_def)
  have "list_all (\<lambda>(tgt, p). length tgt = 16 \<and> length p < 2 ^ 31) ms"
    using assms(4) by (auto simp: list_all_iff)
  then have c: "cut_all rc_cut ([] @ concat ts) = (map (apsnd rc_body) ms, [], False)"
    using cut_all_bodies by (simp add: assms(5))
  have k: "list_all (\<lambda>f. rc_known s (fst f)) (map (apsnd rc_body) ms)"
    using assms(4) by (auto simp: list_all_iff)
  have "fold (rc_handleBuffer me) ts s = rc_set me [] (fold (rc_relay me) (map (apsnd rc_body) ms) s)"
    by (rule rc_handles [OF assms(1) n assms(2) c k])
  also have "\<dots> = fold (rc_relay me) (map (apsnd rc_body) ms) s"
    by (metis fold_relay_set rc_set_id [OF assms(1,2)])
  finally have f: "fold (rc_handleBuffer me) ts s = fold (\<lambda>(tgt, p). rc_write tgt (me @ rc_body p)) ms s"
    by (simp only: fold_relay_bodies)
  have "list_all (\<lambda>(tgt, p). length tgt = 16 \<and> length p < 2 ^ 31) (map (\<lambda>(tgt, p). (me, p)) ms)"
    using assms(3,4) by (auto simp: list_all_iff)
  from cut_all_bodies [OF this] f show ?thesis by (simp add: comp_def split_def)
qed

definition ex_a :: bytes where
  "ex_a = replicate 16 1"

definition ex_b :: bytes where
  "ex_b = replicate 16 2"

definition ex_relay :: rc_state where
  "ex_relay = rc_connect ex_b (rc_connect ex_a \<lparr>rconnect = [], rc_took = [16, 16, 5]\<rparr>)"

lemma ex_relay_eq: "ex_relay = \<lparr>rconnect = [(ex_a, new_rc_client\<lparr>accepted := ex_a\<rparr>), (ex_b, new_rc_client\<lparr>accepted := ex_b\<rparr>)], rc_took = [5]\<rparr>"
proof -
  have "ex_a < ex_b" "ex_b \<noteq> ex_a" "\<not> ex_b < ex_a" "length ex_a = 16" "length ex_b = 16" by code_simp+
  then show ?thesis
    by (simp add: ex_relay_def rc_connect_def rc_write_def qm_update_Cons new_rc_client_def tcp_defs Let_def)
qed

lemma ex_relay_ok: "rc_buf ex_a ex_relay = Some []" "qm_wf (rconnect ex_relay)" "rc_known ex_relay ex_b"
    "length ex_a = 16" "length ex_b = 16" "\<not> rc_known ex_relay (replicate 16 3)"
proof -
  have o: "ex_a < ex_b" "length ex_a = 16" "length ex_b = 16" "ex_a \<noteq> ex_b" "ex_a \<noteq> replicate 16 3" "ex_b \<noteq> replicate 16 3"
    by code_simp+
  then show "rc_buf ex_a ex_relay = Some []" "qm_wf (rconnect ex_relay)" "rc_known ex_relay ex_b"
    "length ex_a = 16" "length ex_b = 16" "\<not> rc_known ex_relay (replicate 16 3)"
    by (simp_all add: ex_relay_eq rc_buf_def new_rc_client_def qm_wf_Cons rc_known_def qm_contains_def)
qed

theorem rc_relays_witness:
  "fold (rc_handleBuffer ex_a) [ex_b @ [0], [2, 65, 66]] ex_relay = rc_write ex_b (ex_a @ [0, 2, 65, 66]) ex_relay"
proof -
  have b: "rc_body [65, 66] = [0, 2, 65, 66]" by code_simp
  show ?thesis
    using rc_relays [OF ex_relay_ok(1,2,4), of "[(ex_b, [65, 66])]" "[ex_b @ [0], [2, 65, 66]]"] ex_relay_ok(3,5)
    by (simp add: b)
qed

text \<open>A packet for an unknown target is dropped without a trace, and with it stops the handling of
  the packets that were read together with it: they stay in the buffer, even complete ones for
  connected targets, until more bytes arrive.\<close>

theorem rc_unknown_stalls:
  assumes "rc_buf me s = Some []" "length tgt = 16" "length p < 2 ^ 31" "\<not> rc_known s tgt"
  shows "rc_handleBuffer me ((tgt @ rc_body p) @ rest) s = rc_set me rest s"
proof -
  have "rc_loop me (tgt @ rc_body p @ rest) s = (rest, s)"
    using assms(4) by (simp add: rc_loop_Packet [OF rc_cut_body [OF assms(2,3)]])
  then show ?thesis using assms(1) by (auto simp: rc_handleBuffer_def rc_buf_def rc_set_def)
qed

theorem rc_unknown_stalls_witness:
  "rc_handleBuffer ex_a ((replicate 16 3 @ rc_body [7]) @ ex_b @ rc_body [65]) ex_relay = rc_set ex_a (ex_b @ rc_body [65]) ex_relay"
  by (rule rc_unknown_stalls [OF ex_relay_ok(1) _ _ ex_relay_ok(6)]) simp_all

end
