(* ===== verification/Broadcast.thy ===== *)
theory Broadcast
  imports Client_Tcp_Line Qt_Map
begin

text \<open>
  core/Daemon, the base of all daemons, and two that need little more: echo, which writes back what
  it reads, and broadcast, which sends every line of a client to all clients, the sender included.
  Clients are objects numbered by the model; writes go to the socket directly and are recorded while
  it is open.
\<close>

section \<open>Daemon\<close>

text \<open>The map \<open>clients\<close>, by client id. \<open>clientLost\<close> runs when the object is already
  destroyed; the id it reads from it is whatever that memory holds, the argument \<open>stale\<close>.\<close>

record daemon =
  modname :: string
  instname :: string
  clients :: "(string, nat) qmap"

definition new_daemon :: "string \<Rightarrow> string \<Rightarrow> daemon" where
  "new_daemon m i = \<lparr>modname = m, instname = i, clients = []\<rparr>"

definition clientAdd :: "string \<Rightarrow> nat \<Rightarrow> daemon \<Rightarrow> daemon" where
  "clientAdd cid client d = d\<lparr>clients := qm_insert cid client (clients d)\<rparr>"

definition clientLost :: "string \<Rightarrow> daemon \<Rightarrow> daemon" where
  "clientLost stale d = d\<lparr>clients := qm_remove stale (clients d)\<rparr>"

text \<open>The operations a daemon inherits when it has none of its own: a reload changes nothing, a connection is closed.\<close>

definition instanceName :: "daemon \<Rightarrow> string" where
  "instanceName d = instname d"

definition daemon_reload :: "daemon \<Rightarrow> daemon" where
  "daemon_reload d = d"

definition daemon_incomingTcp :: "string \<Rightarrow> client_tcp \<Rightarrow> daemon \<Rightarrow> client_tcp \<times> daemon" where
  "daemon_incomingTcp entry sock d = (drop_link sock, d)"

text \<open>If the memory still holds the id, the client is removed; if not, its entry stays and points
  to an object that is gone.\<close>

lemma clientLost_spec:
  assumes "qm_wf (clients d)" "map_of (clients d) cid = Some client"
  shows "map_of (clients (clientLost stale d)) cid = (if stale = cid then None else Some client)"
  using assms by (simp add: clientLost_def map_of_remove)

section \<open>echo\<close>

record echo_client = client_tcp +
  echo_out :: bytes

definition echo_handleBuffer :: "bytes \<Rightarrow> echo_client \<Rightarrow> echo_client" where
  "echo_handleBuffer buf c = (if sock_open c then c\<lparr>echo_out := echo_out c @ buf\<rparr> else c)"

lemma echo_returns: "sock_open c \<Longrightarrow> echo_out (fold echo_handleBuffer bs c) = echo_out c @ concat bs"
  by (induction bs arbitrary: c) (simp_all add: echo_handleBuffer_def)

section \<open>broadcast\<close>

record bcast_client = line_client +
  bcast_out :: "bytes list"

type_synonym bcast = "(nat, bcast_client) qmap"

definition new_bcast_client :: bcast_client where
  "new_bcast_client = \<lparr>write_buf = [], sock_open = True, deleting = False, accepted = [], read_buffer = [],
     handled = [], bcast_out = []\<rparr>"

definition bcast_send :: "bytes \<Rightarrow> bcast_client \<Rightarrow> bcast_client" where
  "bcast_send buf c = (if sock_open c then c\<lparr>bcast_out := bcast_out c @ [buf @ [13, 10]]\<rparr> else c)"

text \<open>\<open>recv\<close>, connected to \<open>incoming\<close>, which emits \<open>broadcast\<close>, connected to every
  \<open>send\<close>.\<close>

definition bcast_incoming :: "bytes \<Rightarrow> bcast \<Rightarrow> bcast" where
  "bcast_incoming m s = qm_map (\<lambda>_. bcast_send m) s"

definition bcast_handleLine :: "bytes \<Rightarrow> bcast \<Rightarrow> bcast" where
  "bcast_handleLine l s = bcast_incoming l s"

definition bcast_incomingTcp :: "nat \<Rightarrow> bcast \<Rightarrow> bcast" where
  "bcast_incomingTcp i s = qm_insert i new_bcast_client s"

text \<open>The inherited \<open>handleBuffer\<close> of client \<open>i\<close>, run when its open socket has data.\<close>

definition bcast_handleBuffer :: "nat \<Rightarrow> bytes \<Rightarrow> bcast \<Rightarrow> bcast" where
  "bcast_handleBuffer i buf s =
     (case map_of s i of None \<Rightarrow> s
      | Some c \<Rightarrow>
          if \<not> sock_open c then s
          else (case line_loop (read_buffer c @ buf) of (ls, r, closed) \<Rightarrow>
            qm_update i (\<lambda>c. c\<lparr>read_buffer := r, sock_open := sock_open c \<and> \<not> closed\<rparr>) (fold bcast_handleLine ls s)))"

datatype bcast_event = Connect nat | Receive nat bytes | Lost nat

fun bcast_step :: "bcast_event \<Rightarrow> bcast \<Rightarrow> bcast" where
  "bcast_step (Connect i) s = bcast_incomingTcp i s"
| "bcast_step (Receive i b) s = bcast_handleBuffer i b s"
| "bcast_step (Lost i) s = qm_remove i s"

text \<open>The lines that clients send, in the order they complete them.\<close>

definition bcast_new_lines :: "bcast_event \<Rightarrow> bcast \<Rightarrow> bytes list" where
  "bcast_new_lines e s = (case e of
       Receive i b \<Rightarrow> (case map_of s i of Some c \<Rightarrow> if sock_open c then fst (line_loop (read_buffer c @ b)) else [] | None \<Rightarrow> [])
     | _ \<Rightarrow> [])"

fun bcast_lines :: "bcast_event list \<Rightarrow> bcast \<Rightarrow> bytes list" where
  "bcast_lines [] s = []"
| "bcast_lines (e # es) s = bcast_new_lines e s @ bcast_lines es (bcast_step e s)"

definition stays :: "nat \<Rightarrow> bcast_event \<Rightarrow> bool" where
  "stays i e \<longleftrightarrow> e \<noteq> Connect i \<and> e \<noteq> Lost i"

section \<open>What a client is sent\<close>

lemma bcast_wf_fold: "qm_wf (fold bcast_handleLine ls s) = qm_wf s"
  by (induction ls arbitrary: s) (simp_all add: bcast_handleLine_def bcast_incoming_def)

lemma bcast_wf_step: "qm_wf s \<Longrightarrow> qm_wf (bcast_step e s)"
  by (cases e) (auto simp: bcast_incomingTcp_def bcast_handleBuffer_def qm_wf_insert qm_wf_remove bcast_wf_fold
      split: option.splits prod.splits)

lemma bcast_fold_lines: "map_of (fold bcast_handleLine ls s) i = map_option (fold bcast_send ls) (map_of s i)"
proof (induction ls arbitrary: s)
  case (Cons l ls)
  then show ?case
    by (simp add: bcast_handleLine_def bcast_incoming_def map_of_qm_map option.map_comp comp_def)
qed (simp add: option.map_id)

lemma bcast_fold_send: "sock_open c \<Longrightarrow> fold bcast_send ls c = c\<lparr>bcast_out := bcast_out c @ map (\<lambda>l. l @ [13, 10]) ls\<rparr>"
  by (induction ls arbitrary: c) (simp_all add: bcast_send_def)

lemma bcast_closed_send: "\<not> sock_open c \<Longrightarrow> fold bcast_send ls c = c"
  by (induction ls) (simp_all add: bcast_send_def)

text \<open>A client that stays gets the new lines if it was open, and nothing if it was not.\<close>

lemma bcast_step_client:
  assumes "qm_wf s" "stays i e" "map_of s i = Some c"
  shows "\<exists>c'. map_of (bcast_step e s) i = Some c' \<and> (\<not> sock_open c \<longrightarrow> \<not> sock_open c' \<and> bcast_out c' = bcast_out c)
    \<and> (sock_open c \<longrightarrow> bcast_out c' = bcast_out c @ map (\<lambda>l. l @ [13, 10]) (bcast_new_lines e s))"
proof (cases e)
  case (Connect j)
  with assms show ?thesis by (simp add: stays_def bcast_incomingTcp_def map_of_insert bcast_new_lines_def)
next
  case (Lost j)
  with assms show ?thesis by (simp add: stays_def map_of_remove bcast_new_lines_def)
next
  case (Receive j b)
  show ?thesis
  proof (cases "map_of s j")
    case None
    with Receive assms(3) show ?thesis by (simp add: bcast_handleBuffer_def bcast_new_lines_def)
  next
    case (Some d)
    obtain ls r x where l: "line_loop (read_buffer d @ b) = (ls, r, x)" by (metis prod_cases3)
    show ?thesis
    proof (cases "sock_open d")
      case False
      with Receive Some assms(3) show ?thesis by (simp add: bcast_handleBuffer_def bcast_new_lines_def)
    next
      case True
      have "map_of (bcast_step e s) i = Some ((if i = j then \<lambda>c. c\<lparr>read_buffer := r, sock_open := sock_open c \<and> \<not> x\<rparr> else id)
          (fold bcast_send ls c))"
        using Receive Some True assms(3) l by (auto simp: bcast_handleBuffer_def map_of_update bcast_fold_lines)
      moreover have "bcast_new_lines e s = ls" using Receive Some True l by (simp add: bcast_new_lines_def)
      moreover have "i = j \<Longrightarrow> sock_open c" using Some True assms(3) by simp
      ultimately show ?thesis
        by (cases "sock_open c") (auto simp: bcast_fold_send bcast_closed_send)
    qed
  qed
qed

section \<open>Property\<close>

lemma bcast_closed_stays:
  assumes "qm_wf s" "list_all (stays i) es" "map_of s i = Some c" "\<not> sock_open c"
  shows "\<exists>c'. map_of (fold bcast_step es s) i = Some c' \<and> \<not> sock_open c'"
  using assms
proof (induction es arbitrary: s c)
  case (Cons e es)
  from bcast_step_client [OF Cons.prems(1) _ Cons.prems(3), of e] Cons.prems obtain c' where
    "map_of (bcast_step e s) i = Some c'" "\<not> sock_open c'" by auto
  with Cons.IH [of "bcast_step e s" c'] bcast_wf_step [OF Cons.prems(1)] Cons.prems(2) show ?case by simp
qed simp

lemma bcast_sent:
  assumes "qm_wf s" "list_all (stays i) es" "map_of s i = Some c" "map_of (fold bcast_step es s) i = Some c'" "sock_open c'"
  shows "bcast_out c' = bcast_out c @ map (\<lambda>l. l @ [13, 10]) (bcast_lines es s)"
  using assms(1-4)
proof (induction es arbitrary: s c)
  case (Cons e es)
  obtain d where d: "map_of (bcast_step e s) i = Some d"
      "sock_open c \<Longrightarrow> bcast_out d = bcast_out c @ map (\<lambda>l. l @ [13, 10]) (bcast_new_lines e s)"
    using bcast_step_client [OF Cons.prems(1) _ Cons.prems(3), of e] Cons.prems(2) by auto
  have "sock_open c"
    using bcast_closed_stays [OF Cons.prems(1,2,3)] Cons.prems(4) assms(5) by auto
  moreover have "bcast_out c' = bcast_out d @ map (\<lambda>l. l @ [13, 10]) (bcast_lines es (bcast_step e s))"
    by (rule Cons.IH) (use Cons.prems d bcast_wf_step in simp_all)
  ultimately show ?case using d(2) by simp
qed simp

text \<open>A client that stays connected and open is sent exactly the lines that all clients
  completed in that time, in their order, each followed by CR LF; so any two such clients are sent the
  same.\<close>

theorem broadcast_reaches_all:
  assumes "qm_wf s" "list_all (stays i) es" "map_of s i = Some c" "map_of (fold bcast_step es s) i = Some c'" "sock_open c'"
  shows "bcast_out c' = bcast_out c @ map (\<lambda>l. l @ [13, 10]) (bcast_lines es s)"
  by (rule bcast_sent [OF assms])

theorem broadcast_reaches_all_witness:
  "map_option bcast_out (map_of (fold bcast_step [Receive 1 [65, 10, 66], Receive 2 [67, 10], Receive 1 [10]]
      [(1, new_bcast_client), (2, new_bcast_client)]) 2) = Some [[65, 13, 10], [67, 13, 10], [66, 13, 10]]"
proof -
  let ?s = "[(1, new_bcast_client), (2, new_bcast_client)] :: bcast"
  let ?es = "[Receive 1 [65, 10, 66], Receive 2 [67, 10], Receive 1 [10]]"
  have l: "line_loop [65, 10, 66] = ([[65]], [66], False)" "line_loop [67, 10] = ([[67]], [], False)"
    "line_loop [66, 10] = ([[66]], [], False)"
    by code_simp+
  have "qm_wf ?s" "list_all (stays 2) ?es" "map_of ?s 2 = Some new_bcast_client"
    by (simp_all add: qm_wf_Cons stays_def)
  moreover have "\<exists>c'. map_of (fold bcast_step ?es ?s) 2 = Some c' \<and> sock_open c'"
      "bcast_lines ?es ?s = [[65], [67], [66]]"
    by (simp_all add: bcast_handleBuffer_def new_bcast_client_def l bcast_new_lines_def qm_update_Cons
        bcast_handleLine_def bcast_incoming_def qm_map_def bcast_send_def)
  ultimately show ?thesis
    using broadcast_reaches_all [of ?s 2 ?es new_bcast_client] by (fastforce simp: new_bcast_client_def)
qed

end
