(* ===== verification/Spoolers.thy ===== *)
theory Spoolers
  imports Qt_Map Qt_Stream
begin

text \<open>
  The two daemons that write files. netflow appends every datagram to the file of the current
  minute, as a length and the bytes. midasinput writes the messages of its queue to a data file; on
  a switch it ends the file with a record that names the next one, and replaces the checkpoint file
  by one that names it too. The clock and the success of \<open>open\<close> are arguments.
\<close>

section \<open>netflow\<close>

text \<open>\<open>QDataStream::writeBytes\<close>\<close>

definition write_bytes :: "bytes \<Rightarrow> bytes" where
  "write_bytes b = put_be (word_of_nat (length b) :: 32 word) @ b"

definition nf_file :: "nat \<Rightarrow> string" where
  "nf_file t = ''/var/spool/netflow/nf_'' @ digits10 t @ ''.raw''"

definition file_append :: "string \<Rightarrow> bytes \<Rightarrow> (string, bytes) qmap \<Rightarrow> (string, bytes) qmap" where
  "file_append n b fs = qm_insert n ((case map_of fs n of None \<Rightarrow> [] | Some c \<Rightarrow> c) @ b) fs"

definition nf_incomingDatagram :: "nat \<Rightarrow> bool \<Rightarrow> bytes \<Rightarrow> (string, bytes) qmap \<Rightarrow> (string, bytes) qmap" where
  "nf_incomingDatagram msecs opened dat fs =
     (let t = msecs div 1000 div 60 in
      if opened then file_append (nf_file t) (write_bytes dat) fs else fs)"

text \<open>Reading a spool file back.\<close>

definition read_bytes :: "bytes reader" where
  "read_bytes = State_Monad.bind (get_be :: 32 word reader) (\<lambda>n. rd_raw (unat n))"

interpretation spool: codec write_bytes read_bytes "\<lambda>b. length b < 2 ^ 32"
  by unfold_locales (simp add: write_bytes_def read_bytes_def u32be.get_put unat_of_nat)

lemma nf_fold:
  assumes "qm_wf fs" "list_all (\<lambda>(ms, dat). ms div 60000 = t) ds"
  shows "qm_wf (fold (\<lambda>(ms, dat). nf_incomingDatagram ms True dat) ds fs)
    \<and> (ds \<noteq> [] \<longrightarrow> map_of (fold (\<lambda>(ms, dat). nf_incomingDatagram ms True dat) ds fs) (nf_file t)
      = Some ((case map_of fs (nf_file t) of None \<Rightarrow> [] | Some c \<Rightarrow> c) @ concat (map (\<lambda>(ms, dat). write_bytes dat) ds)))"
  using assms
proof (induction ds arbitrary: fs)
  case (Cons d ds)
  obtain ms dat where d: "d = (ms, dat)" by (cases d)
  let ?fs = "nf_incomingDatagram ms True dat fs"
  have t: "ms div 1000 div 60 = t" using Cons.prems(2) d by (simp flip: div_mult2_eq)
  then have f: "map_of ?fs (nf_file t) = Some ((case map_of fs (nf_file t) of None \<Rightarrow> [] | Some c \<Rightarrow> c) @ write_bytes dat)"
      "qm_wf ?fs"
    using Cons.prems(1) by (simp_all add: nf_incomingDatagram_def file_append_def map_of_insert qm_wf_insert)
  have "qm_wf (fold (\<lambda>(ms, dat). nf_incomingDatagram ms True dat) ds ?fs)
    \<and> (ds \<noteq> [] \<longrightarrow> map_of (fold (\<lambda>(ms, dat). nf_incomingDatagram ms True dat) ds ?fs) (nf_file t)
      = Some ((case map_of ?fs (nf_file t) of None \<Rightarrow> [] | Some c \<Rightarrow> c) @ concat (map (\<lambda>(ms, dat). write_bytes dat) ds)))"
    by (rule Cons.IH [OF f(2)]) (use Cons.prems(2) in simp)
  with f d show ?case by (cases "ds = []") simp_all
qed simp

section \<open>midasinput\<close>

text \<open>\<open>output\<close>: the current file and whether it is open. A write to a file that is not open does
  nothing; through a null pointer it faults.\<close>

record midas =
  mi_files :: "(string, bytes) qmap"
  mi_output :: "(string \<times> bool) option"
  mi_acked :: "bytes list"

definition new_midas :: midas where
  "new_midas = \<lparr>mi_files = [], mi_output = None, mi_acked = []\<rparr>"

definition mi_put :: "bytes \<Rightarrow> midas \<Rightarrow> midas outcome" where
  "mi_put b s = (case mi_output s of None \<Rightarrow> Inl NullDeref
     | Some (n, opened) \<Rightarrow> Inr (if opened then s\<lparr>mi_files := file_append n b (mi_files s)\<rparr> else s))"

definition c_record :: "byte \<Rightarrow> bytes \<Rightarrow> bytes" where
  "c_record type dat =
     (let buf = [] @ [type];
          buf = buf @ [word_of_nat (length dat) AND 0xff];
          buf = buf @ [word_of_nat (length dat div 256) AND 0xff]
      in buf @ dat)"

definition c_write :: "byte \<Rightarrow> bytes \<Rightarrow> midas \<Rightarrow> midas outcome" where
  "c_write type dat s = mi_put (c_record type dat) s"

definition c_switch :: "string \<Rightarrow> midas \<Rightarrow> midas outcome" where
  "c_switch n s = c_write 0x00 (lit n) s"

definition c_abort :: "midas \<Rightarrow> midas outcome" where
  "c_abort s = c_write 0xff [] s"

definition mi_close :: "midas \<Rightarrow> midas" where
  "mi_close s = s\<lparr>mi_output := map_option (apsnd (\<lambda>_. False)) (mi_output s)\<rparr>"

text \<open>\<open>open(WriteOnly | Truncate)\<close> and \<open>rename\<close>\<close>

definition file_create :: "string \<Rightarrow> bool \<Rightarrow> midas \<Rightarrow> midas" where
  "file_create n opened s = (if opened then s\<lparr>mi_files := qm_insert n [] (mi_files s)\<rparr> else s)"

definition file_rename :: "string \<Rightarrow> string \<Rightarrow> midas \<Rightarrow> midas" where
  "file_rename a b s = (case map_of (mi_files s) a of None \<Rightarrow> s
     | Some c \<Rightarrow> s\<lparr>mi_files := qm_insert b c (qm_remove a (mi_files s))\<rparr>)"

definition data_name :: "string \<Rightarrow> string" where
  "data_name now = ''/opt/midas/data_'' @ now @ ''.dat''"

definition checkpoint_tmp :: "string \<Rightarrow> string" where
  "checkpoint_tmp now = ''/opt/midas/checkpoint_'' @ now @ ''.dat''"

definition checkpoint_name :: string where
  "checkpoint_name = ''/opt/midas/checkpoint.dat''"

definition switchOutput :: "string \<Rightarrow> bool \<Rightarrow> bool \<Rightarrow> midas \<Rightarrow> midas outcome" where
  "switchOutput now ok_new ok_check s =
     (let newfile = data_name now;
          s = file_create newfile ok_new s;
          s = file_create (checkpoint_tmp now) ok_check s
      in bind_out
        (case mi_output s of
           Some (_, True) \<Rightarrow> bind_out (c_switch newfile s) (\<lambda>s. bind_out (c_abort s) (\<lambda>s. Inr (mi_close s)))
         | _ \<Rightarrow> Inr s)
        (\<lambda>s. let s = s\<lparr>mi_output := Some (checkpoint_tmp now, ok_check)\<rparr> in
          bind_out (c_switch newfile s) (\<lambda>s. bind_out (c_abort s) (\<lambda>s.
            let s = mi_close s; s = file_rename (checkpoint_tmp now) checkpoint_name s
            in Inr (s\<lparr>mi_output := Some (newfile, ok_new)\<rparr>)))))"

definition mi_messageReceived :: "bytes \<Rightarrow> midas \<Rightarrow> midas outcome" where
  "mi_messageReceived payload s = bind_out (mi_put payload s) (\<lambda>s. Inr (s\<lparr>mi_acked := mi_acked s @ [payload]\<rparr>))"

section \<open>The chain of data files\<close>

declare lit_simps [simp del]

definition next_mark :: "string \<Rightarrow> bytes" where
  "next_mark now = c_record 0 (lit (data_name now)) @ c_record 255 []"

lemma name_neq [simp]: "checkpoint_tmp a \<noteq> checkpoint_name" "data_name a \<noteq> checkpoint_name" "data_name a \<noteq> checkpoint_tmp b"
    "checkpoint_tmp b \<noteq> data_name a" "checkpoint_name \<noteq> data_name a" "checkpoint_name \<noteq> checkpoint_tmp a"
  by (simp_all add: checkpoint_tmp_def checkpoint_name_def data_name_def)

lemma data_name_inj [simp]: "data_name a = data_name b \<longleftrightarrow> a = b"
  by (simp add: data_name_def)

lemma mi_put_open: "mi_output s = Some (n, True) \<Longrightarrow> mi_put b s = Inr (s\<lparr>mi_files := file_append n b (mi_files s)\<rparr>)"
  by (simp add: mi_put_def)

lemma file_append_wf: "qm_wf fs \<Longrightarrow> qm_wf (file_append n b fs)"
  by (simp add: file_append_def qm_wf_insert)

lemma map_of_append: "qm_wf fs \<Longrightarrow> map_of (file_append n b fs)
    = (map_of fs)(n \<mapsto> (case map_of fs n of None \<Rightarrow> [] | Some c \<Rightarrow> c) @ b)"
  by (simp add: file_append_def map_of_insert)

lemma switch_new:
  assumes "qm_wf (mi_files s)" "mi_output s = None \<or> mi_output s = Some (data_name old, True)" "old \<noteq> now"
  shows "\<exists>s'. switchOutput now True True s = Inr s' \<and> qm_wf (mi_files s') \<and> mi_output s' = Some (data_name now, True)
    \<and> mi_acked s' = mi_acked s
    \<and> map_of (mi_files s') (data_name now) = Some [] \<and> map_of (mi_files s') checkpoint_name = Some (next_mark now)
    \<and> (\<forall>a. a \<noteq> now \<longrightarrow> map_of (mi_files s') (data_name a) =
        (if mi_output s = Some (data_name a, True)
         then Some ((case map_of (mi_files s) (data_name a) of None \<Rightarrow> [] | Some c \<Rightarrow> c) @ next_mark now)
         else map_of (mi_files s) (data_name a)))"
  using assms
  by (cases "mi_output s")
    (auto simp: switchOutput_def Let_def file_create_def c_switch_def c_abort_def c_write_def mi_put_open mi_close_def
      file_rename_def map_of_append map_of_insert map_of_remove qm_wf_insert qm_wf_remove file_append_wf next_mark_def)

lemma messages_put:
  assumes "qm_wf (mi_files s)" "mi_output s = Some (data_name now, True)" "map_of (mi_files s) (data_name now) = Some c"
  shows "\<exists>s'. fold_out mi_messageReceived ps s = Inr s' \<and> qm_wf (mi_files s') \<and> mi_output s' = mi_output s
    \<and> mi_acked s' = mi_acked s @ ps
    \<and> map_of (mi_files s') = (map_of (mi_files s))(data_name now \<mapsto> c @ concat ps)"
  using assms
proof (induction ps arbitrary: s c)
  case Nil
  then show ?case by (auto simp: fun_upd_idem)
next
  case (Cons p ps)
  let ?s = "s\<lparr>mi_files := file_append (data_name now) p (mi_files s), mi_acked := mi_acked s @ [p]\<rparr>"
  have m: "mi_messageReceived p s = Inr ?s"
    using Cons.prems(2) by (simp add: mi_messageReceived_def mi_put_open)
  have "\<exists>s'. fold_out mi_messageReceived ps ?s = Inr s' \<and> qm_wf (mi_files s') \<and> mi_output s' = mi_output ?s
    \<and> mi_acked s' = mi_acked ?s @ ps
    \<and> map_of (mi_files s') = (map_of (mi_files ?s))(data_name now \<mapsto> (c @ p) @ concat ps)"
    by (rule Cons.IH) (use Cons.prems in \<open>simp_all add: file_append_wf map_of_append\<close>)
  then obtain s' where "fold_out mi_messageReceived ps ?s = Inr s'" "qm_wf (mi_files s')" "mi_output s' = mi_output ?s"
    "mi_acked s' = mi_acked ?s @ ps"
    "map_of (mi_files s') = (map_of (mi_files ?s))(data_name now \<mapsto> (c @ p) @ concat ps)" by blast
  with m Cons.prems show ?case by (intro exI [of _ s']) (simp add: map_of_append)
qed

text \<open>A run: at each time a switch, then the messages until the next one.\<close>

definition mi_segment :: "string \<times> bytes list \<Rightarrow> midas \<Rightarrow> midas outcome" where
  "mi_segment g s = bind_out (switchOutput (fst g) True True s) (fold_out mi_messageReceived (snd g))"

text \<open>The file of each segment: its messages, and the mark of the next segment.\<close>

fun chained :: "(string \<times> bytes list) list \<Rightarrow> midas \<Rightarrow> bool" where
  "chained [] s = True"
| "chained [g] s = (map_of (mi_files s) (data_name (fst g)) = Some (concat (snd g)))"
| "chained (g # h # gs) s = (map_of (mi_files s) (data_name (fst g)) = Some (concat (snd g) @ next_mark (fst h)) \<and> chained (h # gs) s)"

lemma chained_snoc:
  assumes "chained gs s" "distinct (map fst (gs @ [g]))"
    "map_of (mi_files s') (data_name (fst g)) = Some (concat (snd g))"
    "\<And>a. a \<in> fst ` set gs \<Longrightarrow> map_of (mi_files s') (data_name a) = (if a = fst (last gs)
      then Some (concat (snd (last gs)) @ next_mark (fst g)) else map_of (mi_files s) (data_name a))"
  shows "chained (gs @ [g]) s'"
  using assms
proof (induction gs s rule: chained.induct)
  case (3 x y gs s)
  then have c: "chained ((y # gs) @ [g]) s'" by simp
  have "last (y # gs) \<in> set (y # gs)" by (rule last_in_set) simp
  then have "fst (last (y # gs)) \<in> fst ` set (y # gs)" by (rule imageI)
  moreover have "fst x \<notin> fst ` set (y # gs)" using 3(3) by auto
  ultimately have "fst x \<noteq> fst (last (y # gs))" by metis
  with c show ?case using 3(2,5) by simp
qed simp_all

lemma segments:
  assumes "distinct (map fst gs)" "gs \<noteq> []"
  shows "\<exists>s. fold_out mi_segment gs new_midas = Inr s \<and> qm_wf (mi_files s) \<and> mi_output s = Some (data_name (fst (last gs)), True)
    \<and> chained gs s \<and> map_of (mi_files s) checkpoint_name = Some (next_mark (fst (last gs))) \<and> mi_acked s = concat (map snd gs)"
  using assms
proof (induction gs rule: rev_induct)
  case (snoc g gs)
  have "\<exists>s old. fold_out mi_segment gs new_midas = Inr s \<and> qm_wf (mi_files s) \<and> old \<noteq> fst g \<and> chained gs s
      \<and> mi_acked s = concat (map snd gs)
      \<and> (if gs = [] then mi_output s = None else old = fst (last gs) \<and> mi_output s = Some (data_name old, True))"
  proof (cases "gs = []")
    case True
    have "fst g @ ''x'' \<noteq> fst g" by simp
    with True show ?thesis by (auto simp: new_midas_def intro!: exI [of _ "fst g @ ''x''"])
  next
    case False
    with snoc obtain s where "fold_out mi_segment gs new_midas = Inr s" "qm_wf (mi_files s)"
      "mi_output s = Some (data_name (fst (last gs)), True)" "chained gs s" "mi_acked s = concat (map snd gs)" by auto
    note r = this
    have "fst (last gs) \<in> fst ` set gs" using False by simp
    moreover have "fst g \<notin> fst ` set gs" using snoc.prems(1) by simp
    ultimately have "fst (last gs) \<noteq> fst g" by metis
    with r show ?thesis using False by auto
  qed
  then obtain s old where s: "fold_out mi_segment gs new_midas = Inr s" "qm_wf (mi_files s)" "old \<noteq> fst g" "chained gs s"
      "mi_acked s = concat (map snd gs)"
      "if gs = [] then mi_output s = None else old = fst (last gs) \<and> mi_output s = Some (data_name old, True)" by blast
  then have o: "mi_output s = None \<or> mi_output s = Some (data_name old, True)" by (auto split: if_splits)
  from switch_new [OF s(2) o s(3)] obtain s1 where s1: "switchOutput (fst g) True True s = Inr s1" "qm_wf (mi_files s1)"
    "mi_output s1 = Some (data_name (fst g), True)" "mi_acked s1 = mi_acked s"
    "map_of (mi_files s1) (data_name (fst g)) = Some []" "map_of (mi_files s1) checkpoint_name = Some (next_mark (fst g))"
    "\<And>a. a \<noteq> fst g \<Longrightarrow> map_of (mi_files s1) (data_name a) = (if mi_output s = Some (data_name a, True)
         then Some ((case map_of (mi_files s) (data_name a) of None \<Rightarrow> [] | Some c \<Rightarrow> c) @ next_mark (fst g))
         else map_of (mi_files s) (data_name a))" by blast
  from messages_put [OF s1(2,3,5), of "snd g"] obtain s2 where s2: "fold_out mi_messageReceived (snd g) s1 = Inr s2"
    "qm_wf (mi_files s2)" "mi_output s2 = mi_output s1" "mi_acked s2 = mi_acked s1 @ snd g"
    "map_of (mi_files s2) = (map_of (mi_files s1))(data_name (fst g) \<mapsto> concat (snd g))" by auto
  have l: "gs \<noteq> [] \<Longrightarrow> map_of (mi_files s) (data_name (fst (last gs))) = Some (concat (snd (last gs)))"
    using s(4) by (induction gs s rule: chained.induct) auto
  have "chained (gs @ [g]) s2"
  proof (rule chained_snoc [OF s(4) snoc.prems(1)])
    fix a assume a: "a \<in> fst ` set gs"
    moreover have "fst g \<notin> fst ` set gs" using snoc.prems(1) by simp
    ultimately have "a \<noteq> fst g" "gs \<noteq> []" by (metis, auto)
    then show "map_of (mi_files s2) (data_name a) = (if a = fst (last gs)
      then Some (concat (snd (last gs)) @ next_mark (fst g)) else map_of (mi_files s) (data_name a))"
      using s(6) s1(7) [of a] s2(5) l by auto
  qed (simp add: s2(5))
  moreover have "mi_segment g s = Inr s2" by (simp add: mi_segment_def s1(1) s2(1))
  then have "fold_out mi_segment (gs @ [g]) new_midas = Inr s2" by (simp add: fold_out_append s(1))
  moreover have "map_of (mi_files s2) checkpoint_name = Some (next_mark (fst g))" by (simp add: s2(5) s1(6))
  ultimately show ?case using s(5) s1(3,4) s2(2-4) by (intro exI [of _ s2]) simp
qed simp

section \<open>Properties\<close>

text \<open>The datagrams of a minute are read back from its spool file, in order and whole, after what
  the file held before.\<close>

theorem netflow_spool_roundtrip:
  assumes "qm_wf fs" "ds \<noteq> []" "list_all (\<lambda>(ms, dat). ms div 60000 = t \<and> length dat < 2 ^ 32) ds" "map_of fs (nf_file t) = None"
  shows "\<exists>c. map_of (fold (\<lambda>(ms, dat). nf_incomingDatagram ms True dat) ds fs) (nf_file t) = Some c
    \<and> run_state (rd_list (length ds) read_bytes) c = (map snd ds, [])"
proof -
  have a: "list_all (\<lambda>(ms, dat). ms div 60000 = t) ds" "list_all (\<lambda>b. length b < 2 ^ 32) (map snd ds)"
    using assms(3) by (auto simp: list_all_iff)
  have "concat (map (\<lambda>(ms, dat). write_bytes dat) ds) = concat (map write_bytes (map snd ds))"
    by (simp add: comp_def split_def)
  with nf_fold [OF assms(1) a(1)] assms(2,4) spool.get_list [OF a(2), of "[]"] show ?thesis by simp
qed

theorem netflow_spool_roundtrip_witness:
  "\<exists>c. map_of (nf_incomingDatagram 60500 True [] (nf_incomingDatagram 60001 True [1, 2] [])) (nf_file 1) = Some c
    \<and> run_state (rd_list 2 read_bytes) c = ([[1, 2], []], [])"
  using netflow_spool_roundtrip [of "[]" "[(60001, [1, 2]), (60500, [])]" 1]
  by (simp del: rd_list.simps flip: numeral_2_eq_2)

text \<open>When every file opens and no two switches fall in the same millisecond, each data file
  holds the messages between its switch and the next, in order, followed by the record that names the
  next file; the checkpoint names the current file; and exactly the messages written are
  acknowledged.\<close>

theorem midas_chain:
  assumes "distinct (map fst gs)" "gs \<noteq> []"
  shows "\<exists>s. fold_out mi_segment gs new_midas = Inr s \<and> chained gs s \<and> mi_acked s = concat (map snd gs)
    \<and> map_of (mi_files s) checkpoint_name = Some (next_mark (fst (last gs)))"
  using segments [OF assms] by blast

theorem midas_chain_witness:
  "\<exists>s. fold_out mi_segment [(''1'', [[7, 8], [9]]), (''2'', [[5]])] new_midas = Inr s
    \<and> map_of (mi_files s) (data_name ''1'') = Some ([7, 8, 9] @ next_mark ''2'')
    \<and> map_of (mi_files s) (data_name ''2'') = Some [5] \<and> map_of (mi_files s) checkpoint_name = Some (next_mark ''2'')"
  using midas_chain [of "[(''1'', [[7, 8], [9]]), (''2'', [[5]])]"] by auto

end
