(* ===== verification/VServ.thy ===== *)
theory VServ
  imports Qt_Map
begin

text \<open>
  mod/daemon/vserv, VServ: a virtual machine as a map of settings, and the command line for qemu made
  from it. The random UUID is an argument; the process and the monitor socket are reduced to the
  calls that start and connect them. A missing setting reads as the empty string.
\<close>

type_synonym settings = "(string, string) qmap"

record vserv =
  vs_config :: settings
  qemu_exe :: string
  vs_name :: string
  bpath :: string
  vs_running :: bool
  vs_started :: "(string \<times> string list) list"
  vs_connects :: "string list"

definition setting :: "settings \<Rightarrow> string \<Rightarrow> string" where
  "setting m k = (case map_of m k of None \<Rightarrow> [] | Some v \<Rightarrow> v)"

definition new_vserv :: "string \<Rightarrow> string \<Rightarrow> vserv" where
  "new_vserv uuid name =
     (let c = [];
          c = qm_insert ''model'' ''pc-1.0'' c;
          c = qm_insert ''cpu'' ''Nehalem'' c;
          c = qm_insert ''memory'' ''512'' c;
          c = qm_insert ''smp_count'' ''1'' c;
          c = qm_insert ''smp_max'' ''32'' c;
          c = qm_insert ''system_name'' name c;
          c = qm_insert ''system_uuid'' uuid c;
          c = qm_insert ''rtc_base'' ''utc'' c;
          c = qm_insert ''vga'' ''cirrus'' c;
          c = qm_insert ''net_mac'' ''52:05:99:00:00:01'' c;
          c = qm_insert ''net_if'' (name @ ''0'') c;
          c = qm_insert ''device0'' (''virtio-blk-pci|bus=pci.0|addr=0x4|drive=drive-device0|id=device0|bootindex=2|file=''
                @ setting c ''system_uuid'' @ ''.bin|format=raw'') c;
          c = qm_insert ''device1'' ''ide-drive|bus=ide.1|unit=0|drive=drive-device1|id=ide0-1-0|bootindex=1|media=cdrom|readonly=on|format=raw'' c
      in \<lparr>vs_config = c, qemu_exe = ''/usr/bin/qemu-system-x86_64'', vs_name = name, bpath = ''/tmp/'',
           vs_running = False, vs_started = [], vs_connects = []\<rparr>)"

section \<open>Devices\<close>

definition dev_key :: "nat \<Rightarrow> string" where
  "dev_key i = ''device'' @ digits10 i"

definition dev_field :: "string \<Rightarrow> settings \<Rightarrow> settings" where
  "dev_field f m = (case index_of CHR ''='' f of None \<Rightarrow> m
     | Some k \<Rightarrow> qm_insert (take k f) (drop (k + 1) f) m)"

definition dev_parse :: "string \<Rightarrow> string \<times> settings" where
  "dev_parse v = (case split_on CHR ''|'' v of [] \<Rightarrow> ([], [])
     | t # fs \<Rightarrow> (t, fold dev_field fs []))"

definition opt_field :: "settings \<Rightarrow> string \<Rightarrow> string" where
  "opt_field m k = (if qm_contains m k then '','' @ k @ ''='' @ setting m k else [])"

definition dev_args :: "string \<Rightarrow> string list" where
  "dev_args v =
     (case dev_parse v of (devtype, devinfo) \<Rightarrow>
      let devtype = devtype @ opt_field devinfo ''bus'' @ opt_field devinfo ''unit'' @ opt_field devinfo ''addr''
            @ opt_field devinfo ''drive'' @ opt_field devinfo ''id'' @ opt_field devinfo ''bootindex'';
          driveinfo = ''id='' @ setting devinfo ''drive'' @ '',if=none'' @ opt_field devinfo ''file''
            @ opt_field devinfo ''format'' @ opt_field devinfo ''media'' @ opt_field devinfo ''readonly''
      in (if qm_contains devinfo ''drive'' then [''-drive'', driveinfo] else []) @ [''-device'', devtype])"

text \<open>The keys are different numbers in decimal, so the loop over them ends.\<close>

definition undigits :: "string \<Rightarrow> nat" where
  "undigits s = foldl (\<lambda>n c. 10 * n + (of_char c - 48)) 0 s"

lemma undigits_digits: "undigits (digits10 n) = n"
proof (induction n rule: digits10.induct)
  case (1 n)
  show ?case
  proof (cases "n < 10")
    case True
    then show ?thesis by (subst digits10.simps) (simp add: undigits_def)
  next
    case False
    with 1 have "undigits (digits10 (n div 10)) = n div 10" by simp
    with False show ?thesis by (subst digits10.simps) (simp add: undigits_def)
  qed
qed

lemma dev_key_inj: "dev_key i = dev_key j \<longleftrightarrow> i = j"
proof
  assume "dev_key i = dev_key j"
  then have "undigits (digits10 i) = undigits (digits10 j)" by (simp add: dev_key_def del: digits10.simps)
  then show "i = j" by (simp add: undigits_digits del: digits10.simps)
qed simp

lemma finite_devices: "finite {j. i \<le> j \<and> qm_contains m (dev_key j)}"
proof -
  have "inj_on dev_key A" for A by (simp add: inj_on_def dev_key_inj)
  moreover have "dev_key ` {j. i \<le> j \<and> qm_contains m (dev_key j)} \<subseteq> dom (map_of m)"
    by (auto simp: qm_contains_def)
  ultimately show ?thesis by (meson finite_dom_map_of finite_imageD finite_subset)
qed

function devices :: "settings \<Rightarrow> nat \<Rightarrow> string list" where
  "devices m i = (if qm_contains m (dev_key i)
     then dev_args (setting m (dev_key i)) @ devices m (i + 1) else [])"
  by pat_completeness auto
termination
proof (relation "measure (\<lambda>(m, i). card {j. i \<le> j \<and> qm_contains m (dev_key j)})", goal_cases)
  case (2 m i)
  let ?L = "{j. i + 1 \<le> j \<and> qm_contains m (dev_key j)}" and ?R = "{j. i \<le> j \<and> qm_contains m (dev_key j)}"
  have "i \<in> ?R" "i \<notin> ?L" "?L \<subseteq> ?R" using 2 by auto
  then have "?L \<subset> ?R" by blast
  then show ?case by (simp add: psubset_card_mono finite_devices)
qed simp

declare devices.simps [simp del]

definition cmd_head :: "vserv \<Rightarrow> string list" where
  "cmd_head v =
     (let m = vs_config v; s = setting m in
      [''-S'']
      @ [''-M'', s ''model'', ''-cpu'', s ''cpu'']
      @ [''-enable-kvm'']
      @ [''-m'', s ''memory'']
      @ [''-smp'', s ''smp_count'' @ '',maxcpus='' @ s ''smp_max'']
      @ [''-name'', s ''system_name'']
      @ [''-uuid'', s ''system_uuid'']
      @ (if qm_contains m ''net_mac'' \<and> qm_contains m ''net_if''
         then [''-net'', ''nic,macaddr='' @ s ''net_mac'' @ '',model=virtio'', ''-net'', ''tap,name='' @ s ''net_if''] else [])
      @ [''-nodefconfig'', ''-nodefaults'']
      @ [''-chardev'', ''socket,id=charmonitor,path='' @ bpath v @ s ''system_uuid'' @ ''.monitor,server'']
      @ [''-mon'', ''chardev=charmonitor,id=monitor,mode=control'']
      @ (if qm_contains m ''rtc_base'' then [''-rtc'', ''base='' @ s ''rtc_base''] else []))"

definition cmd_tail :: "vserv \<Rightarrow> string list" where
  "cmd_tail v =
     (let s = setting (vs_config v) in
      [''-usb'']
      @ [''-device'', ''usb-tablet,id=input0'']
      @ [''-vnc'', ''unix:'' @ bpath v @ s ''system_uuid'' @ ''.vnc'']
      @ [''-vga'', s ''vga'']
      @ [''-device'', ''virtio-balloon-pci,id=balloon0,bus=pci.0,addr=0x5''])"

definition cmdLine :: "vserv \<Rightarrow> string list" where
  "cmdLine v = cmd_head v @ devices (vs_config v) 0 @ cmd_tail v"

definition vs_start :: "vserv \<Rightarrow> vserv" where
  "vs_start v = (if vs_running v then v
     else v\<lparr>vs_running := True, vs_started := vs_started v @ [(qemu_exe v, cmdLine v)]\<rparr>)"

definition processStarted :: "vserv \<Rightarrow> vserv" where
  "processStarted v = v\<lparr>vs_connects := vs_connects v @ [bpath v @ setting (vs_config v) ''system_uuid'' @ ''.monitor'']\<rparr>"

section \<open>Device texts\<close>

definition dev_text :: "string \<Rightarrow> (string \<times> string) list \<Rightarrow> string" where
  "dev_text t fs = t @ concat (map (\<lambda>(k, v). ''|'' @ k @ ''='' @ v) fs)"

lemma split_on_free: "c \<notin> set p \<Longrightarrow> split_on c p = [p]"
  by (induction p) auto

lemma split_on_sep: "c \<notin> set p \<Longrightarrow> split_on c (p @ c # r) = p # split_on c r"
proof (induction p)
  case (Cons x p)
  then show ?case by (cases "split_on c r") auto
qed simp

definition field_ok :: "string \<times> string \<Rightarrow> bool" where
  "field_ok f \<longleftrightarrow> CHR ''|'' \<notin> set (fst f) \<and> CHR ''='' \<notin> set (fst f) \<and> CHR ''|'' \<notin> set (snd f)"

lemma split_dev_text:
  assumes "CHR ''|'' \<notin> set t" "list_all field_ok fs"
  shows "split_on CHR ''|'' (dev_text t fs) = t # map (\<lambda>(k, v). k @ ''='' @ v) fs"
  using assms
proof (induction fs arbitrary: t)
  case Nil
  then show ?case by (simp add: dev_text_def split_on_free)
next
  case (Cons f fs)
  obtain k v where f: "f = (k, v)" by (cases f)
  have "CHR ''|'' \<notin> set (k @ ''='' @ v)" using Cons.prems(2) by (simp add: f field_ok_def)
  from Cons.IH [OF this] Cons.prems
  have "split_on CHR ''|'' (dev_text (k @ ''='' @ v) fs) = (k @ ''='' @ v) # map (\<lambda>(k, v). k @ ''='' @ v) fs" by simp
  moreover have "dev_text t (f # fs) = t @ CHR ''|'' # dev_text (k @ ''='' @ v) fs" by (simp add: dev_text_def f)
  ultimately show ?case using Cons.prems(1) by (simp add: f split_on_sep)
qed

lemma dev_field_text: "CHR ''='' \<notin> set k \<Longrightarrow> dev_field (k @ CHR ''='' # v) m = qm_insert k v m"
  by (simp add: dev_field_def)

lemma dev_parse_text:
  assumes "CHR ''|'' \<notin> set t" "list_all field_ok fs"
  shows "dev_parse (dev_text t fs) = (t, fold (\<lambda>(k, v). qm_insert k v) fs [])"
proof -
  have "fold dev_field (map (\<lambda>(k, v). k @ ''='' @ v) fs) m = fold (\<lambda>(k, v). qm_insert k v) fs m" for m
    using assms(2) by (induction fs arbitrary: m) (auto simp: field_ok_def dev_field_text)
  with split_dev_text [OF assms] show ?thesis by (simp add: dev_parse_def)
qed

lemma fold_insert_wf: "qm_wf m \<Longrightarrow> qm_wf (fold (\<lambda>(k, v). qm_insert k v) fs m)"
  by (induction fs arbitrary: m) (auto simp: qm_wf_insert)

lemma fold_insert_map: "qm_wf m \<Longrightarrow> map_of (fold (\<lambda>(k, v). qm_insert k v) fs m) = map_of m ++ map_of (rev fs)"
proof (induction fs arbitrary: m)
  case (Cons f fs)
  then show ?case
    by (cases f) (auto simp: qm_wf_insert map_of_insert map_add_def fun_eq_iff split: option.splits)
qed simp

lemma devices_run: "(\<And>j. i \<le> j \<Longrightarrow> j < n \<Longrightarrow> qm_contains m (dev_key j)) \<Longrightarrow> \<not> qm_contains m (dev_key n) \<Longrightarrow> i \<le> n \<Longrightarrow>
    devices m i = concat (map (\<lambda>j. dev_args (setting m (dev_key j))) [i..<n])"
proof (induction "n - i" arbitrary: i)
  case 0
  then show ?case by (subst devices.simps) simp
next
  case (Suc k)
  then have "i < n" by simp
  moreover have "devices m (i + 1) = concat (map (\<lambda>j. dev_args (setting m (dev_key j))) [i + 1..<n])"
    by (rule Suc.hyps(1)) (use Suc in simp_all)
  ultimately show ?case using Suc.prems(1) [of i] by (subst devices.simps) (simp add: upt_conv_Cons)
qed

text \<open>The devices on the command line are those numbered from 0 without a gap, in order; and a
  device text written as a type and fields with \<open>|\<close> and \<open>=\<close> is read back to the type and,
  for each key, its last value.\<close>

theorem vserv_devices:
  assumes "\<And>j. j < n \<Longrightarrow> qm_contains (vs_config v) (dev_key j)" "\<not> qm_contains (vs_config v) (dev_key n)"
    "CHR ''|'' \<notin> set t" "list_all field_ok fs"
  shows "cmdLine v
      = cmd_head v @ concat (map (\<lambda>j. dev_args (setting (vs_config v) (dev_key j))) [0..<n]) @ cmd_tail v
    \<and> fst (dev_parse (dev_text t fs)) = t \<and> map_of (snd (dev_parse (dev_text t fs))) = map_of (rev fs)"
proof -
  have "devices (vs_config v) 0 = concat (map (\<lambda>j. dev_args (setting (vs_config v) (dev_key j))) [0..<n])"
    by (rule devices_run) (use assms(1,2) in simp_all)
  then show ?thesis
    using assms(3,4) by (simp add: cmdLine_def dev_parse_text fold_insert_map)
qed

definition ex_vserv :: vserv where
  "ex_vserv = new_vserv ''u-1'' ''vm''"

lemma ex_device0: "dev_args (setting (vs_config ex_vserv) (dev_key 0)) =
  [''-drive'', ''id=drive-device0,if=none,file=u-1.bin,format=raw'',
   ''-device'', ''virtio-blk-pci,bus=pci.0,addr=0x4,drive=drive-device0,id=device0,bootindex=2'']"
  by code_simp

lemma ex_devices: "qm_contains (vs_config ex_vserv) (dev_key 0)" "qm_contains (vs_config ex_vserv) (dev_key 1)"
  "\<not> qm_contains (vs_config ex_vserv) (dev_key 2)"
  by code_simp+

theorem vserv_devices_witness:
  "\<exists>rest. cmdLine ex_vserv = cmd_head ex_vserv @ [''-drive'', ''id=drive-device0,if=none,file=u-1.bin,format=raw'',
     ''-device'', ''virtio-blk-pci,bus=pci.0,addr=0x4,drive=drive-device0,id=device0,bootindex=2''] @ rest
   \<and> map_of (snd (dev_parse (dev_text ''t'' [(''a'', ''b=c''), (''a'', ''d'')]))) ''a'' = Some ''d''"
proof -
  have d: "qm_contains (vs_config ex_vserv) (dev_key j)" if "j < 2" for j
    using that ex_devices(1,2) by (cases j) simp_all
  from vserv_devices [OF d ex_devices(3), of "''t''" "[(''a'', ''b=c''), (''a'', ''d'')]"]
  show ?thesis by (simp add: field_ok_def ex_device0 numeral_2_eq_2 upt_rec)
qed

end
