(* ===== verification/Amqp_Field.thy ===== *)
theory Amqp_Field
  imports Qt_Stream
begin

text \<open>
  mod/ext/qamqp, the field values of the AMQP protocol (amqp_frame.cpp: \<open>readField\<close>,
  \<open>writeField\<close>, \<open>serialize\<close>, \<open>deserialize\<close>). Values are QVariants. A QString is the list
  of its UTF-16 units. A QHash is the list of its entries in the order its iterators meet them, which
  Qt leaves open. A float is held as the double of the same value, and a QDataStream writes it in 8
  bytes, because its default floating-point precision is double.
\<close>

type_synonym qstring = "16 word list"

datatype variant = VInvalid | VBool bool | VInt "32 word" | VUInt "32 word" | VLongLong "64 word" | VULongLong "64 word"
  | VFloat "64 word" | VDouble "64 word" | VDecimal "8 word" "32 word" | VString qstring | VBytes bytes
  | VDateTime "64 word" | VList "variant list" | VHash "(qstring \<times> variant) list"

type_synonym table = "(qstring \<times> variant) list"

text \<open>
  What Qt decides: the conversion of a value to text, a whole number, a double or a date where the
  type of the value is not already that one, and what freshly allocated memory holds.
\<close>

record qt_env =
  qt_text :: "variant \<Rightarrow> qstring"
  qt_num :: "variant \<Rightarrow> 64 word"
  qt_real :: "variant \<Rightarrow> 64 word"
  qt_date :: "variant \<Rightarrow> 64 word"
  qt_junk :: "nat \<Rightarrow> bytes"
  qt_utf8 :: "qstring \<Rightarrow> bytes"
  qt_version :: qstring

definition from_latin1 :: "bytes \<Rightarrow> qstring" where
  "from_latin1 b = map ucast b"

definition to_latin1 :: "qstring \<Rightarrow> bytes" where
  "to_latin1 s = map (\<lambda>c. if c < 256 then ucast c else 63) s"

text \<open>\<open>toString\<close>, \<open>toBool\<close>, \<open>toInt\<close>, \<open>toUInt\<close>, \<open>toLongLong\<close>, \<open>toULongLong\<close>: whole
  numbers are cut to the width asked for.\<close>

definition v_toString :: "qt_env \<Rightarrow> variant \<Rightarrow> qstring" where
  "v_toString q v = (case v of VString s \<Rightarrow> s | _ \<Rightarrow> qt_text q v)"

definition v_num :: "qt_env \<Rightarrow> variant \<Rightarrow> 64 word" where
  "v_num q v = (case v of VBool b \<Rightarrow> if b then 1 else 0 | VInt w \<Rightarrow> scast w | VUInt w \<Rightarrow> ucast w
     | VLongLong w \<Rightarrow> w | VULongLong w \<Rightarrow> w | _ \<Rightarrow> qt_num q v)"

definition v_toBool :: "qt_env \<Rightarrow> variant \<Rightarrow> bool" where
  "v_toBool q v \<longleftrightarrow> v_num q v \<noteq> 0"

definition v_toDouble :: "qt_env \<Rightarrow> variant \<Rightarrow> 64 word" where
  "v_toDouble q v = (case v of VDouble w \<Rightarrow> w | VFloat w \<Rightarrow> w | _ \<Rightarrow> qt_real q v)"

definition v_toMSecs :: "qt_env \<Rightarrow> variant \<Rightarrow> 64 word" where
  "v_toMSecs q v = (case v of VDateTime w \<Rightarrow> w | _ \<Rightarrow> qt_date q v)"

section \<open>Floats as doubles\<close>

text \<open>\<open>n / 2 ^ k\<close> rounded to the nearest, ties to even.\<close>

definition round_shift :: "nat \<Rightarrow> nat \<Rightarrow> nat" where
  "round_shift k n =
     (let q = n div 2 ^ k; r = n mod 2 ^ k in
      if 2 * r > 2 ^ k \<or> (2 * r = 2 ^ k \<and> odd q) then q + 1 else q)"

fun bit_length :: "nat \<Rightarrow> nat" where
  "bit_length n = (if n = 0 then 0 else Suc (bit_length (n div 2)))"

declare bit_length.simps [simp del]

text \<open>The conversion of a double to float and back, on the bit patterns: infinities and NaN, overflow,
  normal floats with 23 bits after the point, and subnormal floats, the multiples of \<open>2 ^ -149\<close>.\<close>

definition float_of_bits :: "nat \<Rightarrow> nat" where
  "float_of_bits a =
     (if a > 0x7ff0000000000000 then (a div 2 ^ 29 * 2 ^ 29) OR 0x0008000000000000
      else if a \<ge> 0x47effffff0000000 then 0x7ff0000000000000
      else if a \<ge> 0x3810000000000000 then round_shift 29 a * 2 ^ 29
      else
        let e = a div 2 ^ 52; m = a mod 2 ^ 52 + 2 ^ 52; n = (if e = 0 then 0 else round_shift (926 - e) m) in
        if n = 0 then 0
        else let k = bit_length n - 1 in (1023 + k - 149) * 2 ^ 52 + (n * 2 ^ (52 - k) - 2 ^ 52))"

definition fp_round :: "64 word \<Rightarrow> 64 word" where
  "fp_round w = word_of_nat (float_of_bits (unat w mod 2 ^ 63) + unat w div 2 ^ 63 * 2 ^ 63)"

text \<open>\<open>x > FLT_MAX\<close>: positive, above the pattern of FLT_MAX, and no NaN.\<close>

definition above_flt_max :: "64 word \<Rightarrow> bool" where
  "above_flt_max w \<longleftrightarrow> 0x47efffffe0000000 < w \<and> w \<le> 0x7ff0000000000000"

section \<open>Writing\<close>

definition chr :: "char \<Rightarrow> byte" where
  "chr c = byte_of_char c"

lemma chr_eq [simp]: "chr a = chr b \<longleftrightarrow> a = b"
proof
  assume "chr a = chr b"
  then have "char_of (unat (byte_of_char a)) = (char_of (unat (byte_of_char b)) :: char)" by (simp add: chr_def)
  then show "a = b" by (simp add: byte_of_char_def unat_of_nat)
qed simp

lemma chr_zero [simp]: "chr a = 0 \<longleftrightarrow> a = CHR 0x00"
proof -
  have "chr CHR 0x00 = 0" by (simp add: chr_def byte_of_char_def)
  then show ?thesis by (metis chr_eq)
qed

text \<open>The length of a short string is cut to 8 bits, its bytes are all written.\<close>

definition write_short :: "qstring \<Rightarrow> bytes" where
  "write_short s = put_be (word_of_nat (length s) :: 8 word) @ to_latin1 s"

definition write_long :: "qstring \<Rightarrow> bytes" where
  "write_long s = put_be (word_of_nat (length s) :: 32 word) @ to_latin1 s"

text \<open>\<open>writeField(s, value)\<close>: the type it picks, 0 for none. The comparisons of \<open>Int\<close> and
  \<open>UInt\<close> are with \<open>qint8(0xFF)\<close>, \<open>qint16(0xFFFF)\<close> and \<open>qint16(0xFFFFFFFF)\<close>, each of which is -1.\<close>

definition abs_int :: "32 word \<Rightarrow> 32 word" where
  "abs_int w = (if sint w \<ge> 0 then w else - w)"

definition int_type :: "byte \<Rightarrow> byte \<Rightarrow> byte \<Rightarrow> 32 word \<Rightarrow> byte" where
  "int_type a b c i = (if sint i \<le> sint (ucast (0xff :: 32 word) :: 8 word) then a
     else if sint i \<le> sint (ucast (0xffff :: 32 word) :: 16 word) then b
     else if sint i \<le> sint (ucast (0xffffffff :: 32 word) :: 16 word) then c else 0)"

definition field_type :: "variant \<Rightarrow> byte" where
  "field_type v = (case v of
       VBool _ \<Rightarrow> chr CHR ''t''
     | VBytes _ \<Rightarrow> chr CHR ''S''
     | VInt w \<Rightarrow> int_type (chr CHR ''b'') (chr CHR ''U'') (chr CHR ''I'') (abs_int w)
     | VUInt w \<Rightarrow> int_type (chr CHR ''B'') (chr CHR ''u'') (chr CHR ''i'') w
     | VLongLong _ \<Rightarrow> chr CHR ''L''
     | VULongLong _ \<Rightarrow> chr CHR ''l''
     | VString _ \<Rightarrow> chr CHR ''S''
     | VDateTime _ \<Rightarrow> chr CHR ''T''
     | VDouble w \<Rightarrow> if above_flt_max w then chr CHR ''d'' else chr CHR ''f''
     | VHash _ \<Rightarrow> chr CHR ''F''
     | VList _ \<Rightarrow> chr CHR ''A''
     | _ \<Rightarrow> 0)"

text \<open>\<open>writeField(valueType, s, value)\<close> without the type, for every type; the two recursive
  cases go through \<open>writeField(s, value)\<close> and \<open>serialize\<close>. The list of a value that is none, and its
  table, are empty.\<close>

fun write_typed :: "qt_env \<Rightarrow> byte \<Rightarrow> variant \<Rightarrow> bytes" where
  "write_typed q t v =
     (if t = chr CHR ''t'' then put_be (if v_toBool q v then 1 else 0 :: 8 word)
      else if t = chr CHR ''b'' then put_be (ucast (v_num q v) :: 8 word)
      else if t = chr CHR ''B'' then put_be (ucast (v_num q v) :: 8 word)
      else if t = chr CHR ''U'' then put_be (ucast (v_num q v) :: 16 word)
      else if t = chr CHR ''u'' then put_be (ucast (v_num q v) :: 16 word)
      else if t = chr CHR ''I'' then put_be (ucast (v_num q v) :: 32 word)
      else if t = chr CHR ''i'' then put_be (ucast (v_num q v) :: 32 word)
      else if t = chr CHR ''L'' then put_be (v_num q v)
      else if t = chr CHR ''l'' then put_be (v_num q v)
      else if t = chr CHR ''f'' then put_be (fp_round (v_toDouble q v))
      else if t = chr CHR ''d'' then put_be (v_toDouble q v)
      else if t = chr CHR ''D'' then
        (case v of VDecimal s w \<Rightarrow> put_be s @ put_be w | _ \<Rightarrow> take 5 (qt_junk q 5))
      else if t = chr CHR ''s'' then write_short (v_toString q v)
      else if t = chr CHR ''S'' then
        write_long (v_toString q v)
      else if t = chr CHR ''A'' then
        (case v of VList l \<Rightarrow> put_be (word_of_nat (length l) :: 32 word)
             @ concat (map (\<lambda>x. if field_type x = 0 then [] else field_type x # write_typed q (field_type x) x) l)
         | _ \<Rightarrow> put_be (0 :: 32 word))
      else if t = chr CHR ''T'' then put_be (v_toMSecs q v)
      else if t = chr CHR ''F'' then
        (case v of VHash f \<Rightarrow>
            (let dat = concat (map (\<lambda>e. write_short (fst e)
               @ (if field_type (snd e) = 0 then [] else field_type (snd e) # write_typed q (field_type (snd e)) (snd e))) f)
             in put_be (word_of_nat (length dat) :: 32 word) @ dat)
         | _ \<Rightarrow> put_be (0 :: 32 word))
      else [])"

declare write_typed.simps [simp del]

definition write_field :: "qt_env \<Rightarrow> variant \<Rightarrow> bytes" where
  "write_field q v = (if field_type v = 0 then [] else field_type v # write_typed q (field_type v) v)"

definition serialize :: "qt_env \<Rightarrow> table \<Rightarrow> bytes" where
  "serialize q f =
     (let dat = concat (map (\<lambda>e. write_short (fst e) @ write_field q (snd e)) f) in
      if dat = [] then put_be (0 :: 32 word) else put_be (word_of_nat (length dat) :: 32 word) @ dat)"

lemma serialize_eq:
  "serialize q f = (let dat = concat (map (\<lambda>e. write_short (fst e) @ write_field q (snd e)) f)
     in put_be (word_of_nat (length dat) :: 32 word) @ dat)"
proof -
  have nil: "(if b = [] then put_be (0 :: 32 word) else put_be (word_of_nat (length b) :: 32 word) @ b)
      = put_be (word_of_nat (length b) :: 32 word) @ b" for b :: bytes by (cases b) simp_all
  show ?thesis by (simp only: serialize_def Let_def nil)
qed

lemma write_table: "write_typed q (chr CHR ''F'') (VHash f) = serialize q f"
  by (subst write_typed.simps) (simp add: write_field_def serialize_eq)

lemma write_array: "write_typed q (chr CHR ''A'') (VList l) = put_be (word_of_nat (length l) :: 32 word) @ concat (map (write_field q) l)"
  by (subst write_typed.simps) (simp add: write_field_def [abs_def])

section \<open>Reading\<close>

text \<open>\<open>tmp.resize(n); s.readRawData(tmp.data(), tmp.size())\<close>: a negative size is 0; where the
  stream is too short the rest of the array is what the memory held.\<close>

definition rd_sized :: "qt_env \<Rightarrow> int \<Rightarrow> bytes reader" where
  "rd_sized q n = State (\<lambda>s. let b = take (nat n) s in (b @ drop (length b) (take (nat n) (qt_junk q (nat n))), drop (nat n) s))"

text \<open>\<open>s.readRawData(&octet, 1)\<close> with \<open>octet\<close> 0 before.\<close>

definition rd_octet :: "byte reader" where
  "rd_octet = do { b \<leftarrow> rd_raw 1; State_Monad.return (if b = [] then 0 else hd b) }"

definition rd_short :: "qt_env \<Rightarrow> qstring reader" where
  "rd_short q = do { n \<leftarrow> (get_be :: 8 word reader); b \<leftarrow> rd_sized q (sint n); State_Monad.return (from_latin1 b) }"

definition rd_long :: "qt_env \<Rightarrow> qstring reader" where
  "rd_long q = do { n \<leftarrow> (get_be :: 32 word reader); b \<leftarrow> rd_sized q (sint n); State_Monad.return (from_latin1 b) }"

text \<open>\<open>stream >> QByteArray\<close>: a length, 0xffffffff for the null array; nothing is left of an array
  that is too short.\<close>

definition rd_array :: "bytes reader" where
  "rd_array = do { n \<leftarrow> (get_be :: 32 word reader);
     if n = 0xffffffff then State_Monad.return []
     else do { b \<leftarrow> rd_raw (unat n); State_Monad.return (if length b < unat n then [] else b) } }"

text \<open>\<open>f[name] = value\<close>.\<close>

fun table_set :: "'k \<Rightarrow> 'v \<Rightarrow> ('k \<times> 'v) list \<Rightarrow> ('k \<times> 'v) list" where
  "table_set k v [] = [(k, v)]"
| "table_set k v (e # t) = (if fst e = k then (k, v) # t else e # table_set k v t)"

text \<open>The loop of \<open>deserialize\<close>; every turn takes the length byte of a name, so the length of the
  stream bounds their number.\<close>

fun table_loop :: "qt_env \<Rightarrow> (byte \<Rightarrow> variant reader) \<Rightarrow> nat \<Rightarrow> bytes \<Rightarrow> table \<Rightarrow> table" where
  "table_loop q rf 0 s f = f"
| "table_loop q rf (Suc n) s f =
     (if s = [] then f
      else let (name, s1) = run_state (rd_short q) s;
               (t, s2) = run_state (get_be :: 8 word reader) s1;
               (v, s3) = run_state (rf t) s2
           in table_loop q rf n s3 (table_set name v f))"

definition deserialize_with :: "qt_env \<Rightarrow> (byte \<Rightarrow> variant reader) \<Rightarrow> table reader" where
  "deserialize_with q rf = do { d \<leftarrow> rd_array; State_Monad.return (table_loop q rf (length d) d []) }"

text \<open>The body of \<open>readField\<close>, with the calls of itself as \<open>rf\<close>.\<close>

definition read_step :: "qt_env \<Rightarrow> (byte \<Rightarrow> variant reader) \<Rightarrow> byte \<Rightarrow> variant reader" where
  "read_step q rf t =
     (if t = chr CHR ''t'' then do { c \<leftarrow> rd_octet; State_Monad.return (VBool (sint c > 0)) }
      else if t = chr CHR ''b'' then do { c \<leftarrow> rd_octet; State_Monad.return (VInt (scast c)) }
      else if t = chr CHR ''B'' then do { c \<leftarrow> rd_octet; State_Monad.return (VUInt (scast c)) }
      else if t = chr CHR ''U'' then do { w \<leftarrow> (get_be :: 16 word reader); State_Monad.return (VInt (scast w)) }
      else if t = chr CHR ''u'' then do { w \<leftarrow> (get_be :: 16 word reader); State_Monad.return (VUInt (ucast w)) }
      else if t = chr CHR ''I'' then do { w \<leftarrow> (get_be :: 32 word reader); State_Monad.return (VInt w) }
      else if t = chr CHR ''i'' then do { w \<leftarrow> (get_be :: 32 word reader); State_Monad.return (VUInt w) }
      else if t = chr CHR ''L'' then do { w \<leftarrow> (get_be :: 64 word reader); State_Monad.return (VLongLong w) }
      else if t = chr CHR ''l'' then do { w \<leftarrow> (get_be :: 64 word reader); State_Monad.return (VULongLong w) }
      else if t = chr CHR ''f'' then do { w \<leftarrow> (get_be :: 64 word reader); State_Monad.return (VFloat (fp_round w)) }
      else if t = chr CHR ''d'' then do { w \<leftarrow> (get_be :: 64 word reader); State_Monad.return (VDouble w) }
      else if t = chr CHR ''D'' then
        do { s \<leftarrow> (get_be :: 8 word reader); w \<leftarrow> (get_be :: 32 word reader); State_Monad.return (VDecimal s w) }
      else if t = chr CHR ''s'' then do { s \<leftarrow> rd_short q; State_Monad.return (VString s) }
      else if t = chr CHR ''S'' then do { s \<leftarrow> rd_long q; State_Monad.return (VString s) }
      else if t = chr CHR ''A'' then
        do { n \<leftarrow> (get_be :: 32 word reader);
             l \<leftarrow> rd_list (nat (sint n)) (do { u \<leftarrow> (get_be :: 8 word reader); rf u });
             State_Monad.return (VList l) }
      else if t = chr CHR ''T'' then do { w \<leftarrow> (get_be :: 64 word reader); State_Monad.return (VDateTime w) }
      else if t = chr CHR ''F'' then do { f \<leftarrow> deserialize_with q rf; State_Monad.return (VHash f) }
      else State_Monad.return VInvalid)"

text \<open>\<open>readField\<close> to a depth of nested arrays and tables; each level takes the four bytes of a
  length, so the length of the stream is deep enough.\<close>

primrec read_field :: "qt_env \<Rightarrow> nat \<Rightarrow> byte \<Rightarrow> variant reader" where
  "read_field q 0 = read_step q (\<lambda>_. State_Monad.return VInvalid)"
| "read_field q (Suc d) = read_step q (read_field q d)"

definition readField :: "qt_env \<Rightarrow> byte \<Rightarrow> variant reader" where
  "readField q t = State (\<lambda>s. run_state (read_field q (length s) t) s)"

definition deserialize :: "qt_env \<Rightarrow> table reader" where
  "deserialize q = deserialize_with q (readField q)"

end
