(* ===== verification/Amqp_Field_Proofs.thy ===== *)
theory Amqp_Field_Proofs
  imports Amqp_Field
begin

text \<open>
  Reading a field consumes its stream and never lengthens it; the depth of \<open>read_field\<close> and the
  fuel of \<open>table_loop\<close> are enough, so that \<open>readField\<close> satisfies the recursive equation of
  the code; and what was written is read back.
\<close>

section \<open>Readers do not lengthen the stream\<close>

definition short_reader :: "'a reader \<Rightarrow> bool" where
  "short_reader g \<longleftrightarrow> (\<forall>s. length (snd (run_state g s)) \<le> length s)"

named_theorems reader_short \<comment> \<open>readers that do not lengthen the stream\<close>

lemma short_readerD: "short_reader g \<Longrightarrow> run_state g s = (x, r) \<Longrightarrow> length r \<le> length s"
  by (metis short_reader_def snd_conv)

lemma short_bind [reader_short]:
  assumes "short_reader m" "\<And>x. short_reader (f x)"
  shows "short_reader (State_Monad.bind m f)"
  unfolding short_reader_def
proof
  fix s
  obtain x r where m: "run_state m s = (x, r)" by force
  have "length (snd (run_state (f x) r)) \<le> length r" using assms(2) by (simp add: short_reader_def)
  also have "\<dots> \<le> length s" using assms(1) m by (rule short_readerD)
  finally show "length (snd (run_state (State_Monad.bind m f) s)) \<le> length s" using m by (simp add: run_bind)
qed

lemma short_basic [reader_short]:
  "short_reader (State_Monad.return x)" "short_reader (rd_raw n)" "short_reader (get_be :: 'a::len word reader)"
  "short_reader (rd_sized q i)"
  by (simp_all add: short_reader_def run_get_be rd_sized_def Let_def State_Monad.return_def)

lemma short_rd_list [reader_short]: "short_reader g \<Longrightarrow> short_reader (rd_list n g)"
  by (induction n) (simp_all add: reader_short)

lemma short_strings [reader_short]: "short_reader rd_octet" "short_reader (rd_short q)" "short_reader (rd_long q)"
  by (simp_all add: rd_octet_def rd_short_def rd_long_def reader_short)

lemma short_array [reader_short]: "short_reader rd_array"
  unfolding rd_array_def by (intro short_bind) (auto intro: short_bind simp: reader_short)

lemma short_deserialize_with [reader_short]: "short_reader (deserialize_with q rf)"
  by (simp add: deserialize_with_def reader_short)

lemma short_read_step [reader_short]: "(\<And>t. short_reader (rf t)) \<Longrightarrow> short_reader (read_step q rf t)"
  unfolding read_step_def by (simp add: reader_short)

lemma short_read_field [reader_short]: "short_reader (read_field q d t)"
  by (induction d arbitrary: t) (simp_all add: reader_short)

lemma short_readField [reader_short]: "short_reader (readField q t)"
  using short_read_field by (simp add: short_reader_def readField_def)

section \<open>The depth is enough\<close>

text \<open>Two readers agree on short streams.\<close>

definition agree :: "nat \<Rightarrow> 'a reader \<Rightarrow> 'a reader \<Rightarrow> bool" where
  "agree m g h \<longleftrightarrow> (\<forall>s. length s < m \<longrightarrow> run_state g s = run_state h s)"

lemma agree_list:
  assumes "agree m g h" "short_reader g"
  shows "agree m (rd_list n g) (rd_list n h)"
proof (induction n)
  case (Suc n)
  show ?case unfolding agree_def
  proof (intro allI impI)
    fix s :: bytes assume s: "length s < m"
    then obtain x r where g: "run_state g s = (x, r)" "run_state h s = (x, r)"
      using assms(1) by (metis agree_def surj_pair)
    then have "length r < m" using s short_readerD [OF assms(2)] by fastforce
    with Suc g show "run_state (rd_list (Suc n) g) s = run_state (rd_list (Suc n) h) s"
      by (simp add: run_bind agree_def)
  qed
qed (simp add: agree_def)

lemma short_get_run: "run_state (get_be :: 'a::len word reader) s = (w, r) \<Longrightarrow> length r \<le> length s"
  by (rule short_readerD [OF short_basic(3)])

text \<open>A turn of the loop shortens its stream, so more fuel than the stream is long changes nothing, and
  readers that agree on shorter streams give the same table.\<close>

lemma rd_short_shrinks: "s \<noteq> [] \<Longrightarrow> run_state (rd_short q) s = (x, r) \<Longrightarrow> length r < length s"
  by (auto simp: rd_short_def run_bind run_get_be rd_sized_def Let_def State_Monad.return_def split: if_splits)

lemma table_loop_agree:
  assumes "\<And>t. agree m (rf t) (rg t)" "\<And>t. short_reader (rf t)" "length s \<le> m" "length s \<le> n" "length s \<le> k"
  shows "table_loop q rf n s f = table_loop q rg k s f"
  using assms(3-)
proof (induction n arbitrary: s f k)
  case (Suc n)
  show ?case
  proof (cases "s = []")
    case False
    then obtain j where k: "k = Suc j" using Suc.prems by (cases k) auto
    obtain name s1 where 1: "run_state (rd_short q) s = (name, s1)" by force
    obtain t s2 where 2: "run_state (get_be :: 8 word reader) s1 = (t, s2)" by force
    obtain v s3 where 3: "run_state (rf t) s2 = (v, s3)" by force
    have less: "length s1 < length s" "length s2 \<le> length s1" "length s3 \<le> length s2"
      using rd_short_shrinks [OF False 1] short_get_run [OF 2] short_readerD [OF assms(2) 3] by auto
    then have "run_state (rg t) s2 = (v, s3)" using assms(1) [of t] 3 Suc.prems by (simp add: agree_def)
    then show ?thesis using 1 2 3 k less Suc.prems Suc.IH [of s3 j "table_set name v f"] False by simp
  next
    case True
    then show ?thesis by (cases k) simp_all
  qed
next
  case 0
  then show ?case by (cases k) simp_all
qed

lemma rd_array_shrinks: "run_state rd_array s = (d, r) \<Longrightarrow> d \<noteq> [] \<Longrightarrow> length d + length r < length s"
  by (auto simp: rd_array_def run_bind run_get_be State_Monad.return_def split: if_splits)

lemma deserialize_agree:
  assumes "\<And>t. agree (length s) (rf t) (rg t)" "\<And>t. short_reader (rf t)"
  shows "run_state (deserialize_with q rf) s = run_state (deserialize_with q rg) s"
proof -
  obtain d r where d: "run_state rd_array s = (d, r)" by force
  have "length d \<le> length s" using rd_array_shrinks [OF d] by (cases d) auto
  then have "table_loop q rf (length d) d [] = table_loop q rg (length d) d []"
    by (intro table_loop_agree [OF assms(1) assms(2)]) simp_all
  with d show ?thesis by (simp add: deserialize_with_def run_bind State_Monad.return_def)
qed

lemma array_agree:
  assumes "\<And>t. agree (length s) (rf t) (rg t)" "\<And>t. short_reader (rf t)"
  defines "elem \<equiv> \<lambda>rh :: byte \<Rightarrow> variant reader. do { u \<leftarrow> (get_be :: 8 word reader); rh u }"
  shows "run_state (do { n \<leftarrow> (get_be :: 32 word reader); l \<leftarrow> rd_list (nat (sint n)) (elem rf); State_Monad.return (VList l) }) s
    = run_state (do { n \<leftarrow> (get_be :: 32 word reader); l \<leftarrow> rd_list (nat (sint n)) (elem rg); State_Monad.return (VList l) }) s"
proof -
  have elem: "agree (length s) (elem rf) (elem rg)" unfolding agree_def
  proof (intro allI impI)
    fix z :: bytes assume z: "length z < length s"
    obtain t r where t: "run_state (get_be :: 8 word reader) z = (t, r)" by force
    then have "length r < length s" using z short_get_run [OF t] by simp
    with assms(1) [of t] t show "run_state (elem rf) z = run_state (elem rg) z"
      by (simp add: elem_def run_bind agree_def)
  qed
  have short: "short_reader (elem rf)" by (simp add: elem_def assms(2) reader_short)
  show ?thesis
  proof (cases "length s < 4")
    case False
    obtain n r where n: "run_state (get_be :: 32 word reader) s = (n, r)" by force
    then have "length r < length s" using False by (auto simp: run_get_be)
    then have "run_state (rd_list (nat (sint n)) (elem rf)) r = run_state (rd_list (nat (sint n)) (elem rg)) r"
      using agree_list [OF elem short] by (simp add: agree_def)
    with n show ?thesis by (simp add: run_bind)
  qed (simp add: run_bind run_get_be)
qed

lemma read_step_agree:
  assumes "\<And>t. agree (length s) (rf t) (rg t)" "\<And>t. short_reader (rf t)"
  shows "run_state (read_step q rf t) s = run_state (read_step q rg t) s"
proof -
  have "run_state (State_Monad.bind (deserialize_with q rf) (\<lambda>f. State_Monad.return (VHash f))) s
      = run_state (State_Monad.bind (deserialize_with q rg) (\<lambda>f. State_Monad.return (VHash f))) s"
    using deserialize_agree [OF assms] by (simp add: run_bind)
  with array_agree [OF assms] show ?thesis by (simp add: read_step_def)
qed

lemma read_field_depth:
  "length s \<le> d \<Longrightarrow> length s \<le> e \<Longrightarrow> run_state (read_field q d t) s = run_state (read_field q e t) s"
proof (induction d arbitrary: s t e)
  case 0
  then show ?case by (cases e) (auto intro!: read_step_agree simp: agree_def reader_short)
next
  case (Suc d)
  have rec: "agree (length s) (read_field q d u) (read_field q d' u)" if "length s \<le> Suc d'" for d' u
    using Suc.IH that Suc.prems by (auto simp: agree_def)
  show ?case
  proof (cases e)
    case 0
    with Suc.prems show ?thesis by (auto intro!: read_step_agree simp: agree_def reader_short)
  next
    case (Suc e')
    with rec Suc.prems show ?thesis by (auto intro!: read_step_agree simp: reader_short)
  qed
qed

text \<open>The recursive equation of the code.\<close>

lemma readField_unfold: "run_state (readField q t) s = run_state (read_step q (readField q) t) s"
proof -
  have "run_state (readField q t) s = run_state (read_field q (Suc (length s)) t) s"
    by (simp add: readField_def del: read_field.simps) (rule read_field_depth; simp)
  also have "\<dots> = run_state (read_step q (readField q) t) s"
    unfolding read_field.simps
    by (rule read_step_agree) (auto simp: agree_def readField_def reader_short intro!: read_field_depth)
  finally show ?thesis .
qed

section \<open>What is written is read back\<close>

definition latin1_text :: "qstring \<Rightarrow> bool" where
  "latin1_text s \<longleftrightarrow> list_all (\<lambda>c. c < 256) s"

text \<open>The values that keep their meaning: booleans, Latin-1 strings, 64-bit integers, times, doubles,
  and the lists and tables of these, within the sizes of the format.\<close>

fun carried :: "qt_env \<Rightarrow> variant \<Rightarrow> bool" where
  "carried q (VBool b) = True"
| "carried q (VString s) = (latin1_text s \<and> length s < 2 ^ 31)"
| "carried q (VLongLong w) = True"
| "carried q (VULongLong w) = True"
| "carried q (VDateTime w) = True"
| "carried q (VDouble w) = True"
| "carried q (VList l) = (length l < 2 ^ 31 \<and> (\<forall>x\<in>set l. carried q x))"
| "carried q (VHash f) = (distinct (map fst f) \<and> (\<forall>e\<in>set f. latin1_text (fst e) \<and> length (fst e) < 128 \<and> carried q (snd e))
     \<and> length (serialize q f) < 2 ^ 32)"
| "carried q _ = False"

text \<open>What comes back: a double at or below FLT_MAX is a float.\<close>

fun read_back :: "variant \<Rightarrow> variant" where
  "read_back (VDouble w) = (if above_flt_max w then VDouble w else VFloat (fp_round (fp_round w)))"
| "read_back (VList l) = VList (map read_back l)"
| "read_back (VHash f) = VHash (map (\<lambda>e. (fst e, read_back (snd e))) f)"
| "read_back v = v"

lemma get_byte: "run_state (get_be :: 8 word reader) (b # s) = (b, s)"
  by (simp add: run_get_be be_nat_def)

lemma latin1_roundtrip: "latin1_text s \<Longrightarrow> from_latin1 (to_latin1 s) = s"
proof (induction s)
  case (Cons c s)
  then have c: "c < 256" by (simp add: latin1_text_def)
  then have "unat c < 2 ^ LENGTH(8)" by (simp add: word_less_nat_alt)
  then have "unat (ucast c :: byte) = unat c" by (rule unat_ucast_small)
  then have "unat (ucast (ucast c :: byte) :: 16 word) = unat c"
    using c by (subst unat_ucast_small) (simp_all add: word_less_nat_alt)
  then have "ucast (ucast c :: byte) = c" by (simp only: word_unat_eq_iff)
  with Cons c show ?case by (simp add: from_latin1_def to_latin1_def latin1_text_def)
qed (simp add: from_latin1_def to_latin1_def)

lemma length_to_latin1 [simp]: "length (to_latin1 s) = length s"
  by (simp add: to_latin1_def)

lemma rd_sized_exact: "length b = n \<Longrightarrow> run_state (rd_sized q (int n)) (b @ r) = (b, r)"
  by (simp add: rd_sized_def)

lemma sint_length: "n < 2 ^ (LENGTH('a) - 1) \<Longrightarrow> sint (word_of_nat n :: 'a::len word) = int n"
proof -
  assume "n < 2 ^ (LENGTH('a) - 1)"
  then have "int n < 2 ^ (LENGTH('a) - 1)" by (metis of_nat_less_iff of_nat_numeral of_nat_power)
  moreover have "- (2 ^ (LENGTH('a) - 1)) \<le> int n" by (rule order_trans [of _ 0]) simp_all
  ultimately show ?thesis by (simp only: signed_of_nat) (simp add: signed_take_bit_int_eq_self)
qed

lemma short_roundtrip:
  "latin1_text s \<Longrightarrow> length s < 128 \<Longrightarrow> run_state (rd_short q) (write_short s @ r) = (s, r)"
  by (simp add: rd_short_def write_short_def run_bind u8be.get_put sint_length rd_sized_exact latin1_roundtrip
      State_Monad.return_def)

lemma long_roundtrip:
  "latin1_text s \<Longrightarrow> length s < 2 ^ 31 \<Longrightarrow> run_state (rd_long q) (write_long s @ r) = (s, r)"
  by (simp add: rd_long_def write_long_def run_bind u32be.get_put sint_length rd_sized_exact latin1_roundtrip
      State_Monad.return_def)

text \<open>The elements of an array: a type byte and a value.\<close>

definition read_elem :: "qt_env \<Rightarrow> variant reader" where
  "read_elem q = do { t \<leftarrow> (get_be :: 8 word reader); readField q t }"

lemma read_elem_byte: "run_state (read_elem q) (t # s) = run_state (read_step q (readField q) t) s"
  by (simp add: read_elem_def run_bind get_byte readField_unfold)

lemma elems_roundtrip:
  assumes "\<And>x r. x \<in> set l \<Longrightarrow> run_state (read_elem q) (write_field q x @ r) = (read_back x, r)"
  shows "run_state (rd_list (length l) (read_elem q)) (concat (map (write_field q) l) @ r) = (map read_back l, r)"
  using assms by (induction l) (simp_all add: run_bind State_Monad.return_def)

lemma table_set_new: "k \<notin> fst ` set f \<Longrightarrow> table_set k v f = f @ [(k, v)]"
  by (induction f) auto

lemma table_loop_roundtrip:
  assumes "\<And>e r. e \<in> set t \<Longrightarrow> run_state (read_elem q) (write_field q (snd e) @ r) = (read_back (snd e), r)"
    and "\<And>e. e \<in> set t \<Longrightarrow> latin1_text (fst e) \<and> length (fst e) < 128"
    and "distinct (map fst t)" "fst ` set f \<inter> fst ` set t = {}"
    and "length (concat (map (\<lambda>e. write_short (fst e) @ write_field q (snd e)) t)) \<le> n"
  shows "table_loop q (readField q) n (concat (map (\<lambda>e. write_short (fst e) @ write_field q (snd e)) t)) f
    = f @ map (\<lambda>e. (fst e, read_back (snd e))) t"
  using assms
proof (induction t arbitrary: f n)
  case Nil
  then show ?case by (cases n) simp_all
next
  case (Cons e t)
  let ?rest = "concat (map (\<lambda>e. write_short (fst e) @ write_field q (snd e)) t)"
  have key: "latin1_text (fst e)" "length (fst e) < 128" using Cons.prems(2) [of e] by simp_all
  have "length (write_short (fst e)) > 0" by (simp add: write_short_def)
  with Cons.prems(5) have less: "length ?rest < n" by (simp del: length_greater_0_conv)
  then obtain m where n: "n = Suc m" by (cases n) auto
  with less have m: "length ?rest \<le> m" by simp
  have ne: "write_short (fst e) @ write_field q (snd e) @ ?rest \<noteq> []"
    using \<open>length (write_short (fst e)) > 0\<close> by auto
  obtain u s2 where u: "run_state (get_be :: 8 word reader) (write_field q (snd e) @ ?rest) = (u, s2)" by force
  have "run_state (readField q u) s2 = (read_back (snd e), ?rest)"
    using Cons.prems(1) [of e ?rest] u by (simp add: read_elem_def run_bind)
  moreover have "table_set (fst e) (read_back (snd e)) f = f @ [(fst e, read_back (snd e))]"
    using Cons.prems(4) by (intro table_set_new) auto
  moreover have "table_loop q (readField q) m ?rest (f @ [(fst e, read_back (snd e))])
      = (f @ [(fst e, read_back (snd e))]) @ map (\<lambda>e. (fst e, read_back (snd e))) t"
    using Cons.prems m by (intro Cons.IH) auto
  ultimately show ?case using ne u by (simp add: n short_roundtrip [OF key])
qed

lemma rd_array_exact:
  "length d < 2 ^ 32 - 1 \<Longrightarrow> run_state rd_array (put_be (word_of_nat (length d) :: 32 word) @ d @ r) = (d, r)"
proof -
  assume d: "length d < 2 ^ 32 - 1"
  then have u: "unat (word_of_nat (length d) :: 32 word) = length d" by (simp add: unat_of_nat)
  have "(word_of_nat (length d) :: 32 word) \<noteq> 0xffffffff"
  proof
    assume "(word_of_nat (length d) :: 32 word) = 0xffffffff"
    then have "length d = unat (0xffffffff :: 32 word)" using u by metis
    with d show False by simp
  qed
  with u show ?thesis by (simp add: rd_array_def run_bind u32be.get_put State_Monad.return_def)
qed

lemma write_read_field:
  "carried q v \<Longrightarrow> run_state (read_elem q) (write_field q v @ r) = (read_back v, r)"
proof (induction v arbitrary: r)
  case (VList l)
  then have elems: "run_state (rd_list (length l) (read_elem q)) (concat (map (write_field q) l) @ r) = (map read_back l, r)"
    by (intro elems_roundtrip) auto
  have "write_field q (VList l) = chr CHR ''A'' # put_be (word_of_nat (length l) :: 32 word) @ concat (map (write_field q) l)"
    by (simp add: write_field_def field_type_def write_array)
  with elems VList.prems show ?case
    by (simp add: read_elem_byte read_step_def run_bind u32be.get_put sint_length State_Monad.return_def
        flip: read_elem_def)
next
  case (VHash f)
  let ?dat = "concat (map (\<lambda>e. write_short (fst e) @ write_field q (snd e)) f)"
  have len: "length ?dat < 2 ^ 32 - 1" using VHash.prems by (simp add: serialize_eq Let_def)
  have "table_loop q (readField q) (length ?dat) ?dat [] = [] @ map (\<lambda>e. (fst e, read_back (snd e))) f"
    using VHash.prems by (intro table_loop_roundtrip VHash.IH) (auto simp: snds.simps)
  moreover have "serialize q f = put_be (word_of_nat (length ?dat) :: 32 word) @ ?dat"
    by (simp add: serialize_eq Let_def)
  then have "write_field q (VHash f) = chr CHR ''F'' # put_be (word_of_nat (length ?dat) :: 32 word) @ ?dat"
    by (simp add: write_field_def field_type_def write_table)
  ultimately show ?case
    using rd_array_exact [OF len, of r]
    by (simp add: read_elem_byte read_step_def deserialize_with_def run_bind State_Monad.return_def)
next
  case (VString s)
  then show ?case
    by (simp add: write_field_def field_type_def write_typed.simps [of q _ "VString s"] v_toString_def read_elem_byte
        read_step_def run_bind long_roundtrip State_Monad.return_def)
next
  case (VBool b)
  then show ?case
    by (simp add: write_field_def field_type_def write_typed.simps [of q _ "VBool b"] v_toBool_def v_num_def
        read_elem_byte read_step_def rd_octet_def run_bind State_Monad.return_def put_be_def be_bytes_def)
next
  case (VDouble w)
  then show ?case
    by (simp add: write_field_def field_type_def write_typed.simps [of q _ "VDouble w"] v_toDouble_def
        read_elem_byte read_step_def run_bind u64be.get_put State_Monad.return_def)
qed (simp_all add: write_field_def field_type_def write_typed.simps v_num_def v_toMSecs_def
        read_elem_byte read_step_def run_bind u64be.get_put State_Monad.return_def)

end
