(* ===== verification/Amqp_Frame.thy ===== *)
theory Amqp_Frame
  imports Amqp_Field_Proofs Framing
begin

text \<open>
  mod/ext/qamqp, frames (amqp_frame.h, amqp_frame.cpp): the classes \<open>Base\<close>, \<open>Method\<close>, \<open>Content\<close>,
  \<open>ContentBody\<close> and \<open>Heartbeat\<close>, how they are written to and read from a stream, and the cutter of
  \<open>Network::readyRead\<close> (amqp_network.cpp).
\<close>

section \<open>Frames\<close>

record frame_base =
  fr_type :: byte
  fr_channel :: "16 word"
  fr_size :: "32 word"

record meth = frame_base +
  me_class :: "16 word"
  me_id :: "16 word"
  me_args :: bytes

text \<open>The properties are a QHash from the flag of a property to its value.\<close>

record content = frame_base +
  co_class :: "16 word"
  co_body :: bytes
  co_props :: "(16 word \<times> variant) list"
  co_bodySize :: "64 word"

record content_body = frame_base +
  cb_body :: bytes

datatype frame = FMethod meth | FContent content | FBody content_body | FHeartbeat frame_base

definition frame_end :: byte where
  "frame_end = 0xCE"

definition new_method :: "16 word \<Rightarrow> 16 word \<Rightarrow> meth" where
  "new_method c i = \<lparr>fr_type = 1, fr_channel = 0, fr_size = 0, me_class = c, me_id = i, me_args = []\<rparr>"

definition new_content :: "16 word \<Rightarrow> content" where
  "new_content c = \<lparr>fr_type = 2, fr_channel = 0, fr_size = 0, co_class = c, co_body = [], co_props = [], co_bodySize = 0\<rparr>"

definition new_body :: content_body where
  "new_body = \<lparr>fr_type = 3, fr_channel = 0, fr_size = 0, cb_body = []\<rparr>"

definition new_heartbeat :: frame_base where
  "new_heartbeat = \<lparr>fr_type = 8, fr_channel = 0, fr_size = 0\<rparr>"

text \<open>The flags as amqp_frame.h defines them, in the order the code tests them, with the type each
  value has on the wire.\<close>

definition prop_order :: "(16 word \<times> byte) list" where
  "prop_order = [(0x8000, chr CHR ''s''), (0x0080, chr CHR ''s''), (0x2000, chr CHR ''F''), (0x1000, chr CHR ''b''),
     (0x0800, chr CHR ''b''), (0x0400, chr CHR ''s''), (0x0200, chr CHR ''s''), (0x0100, chr CHR ''s''),
     (0x4000, chr CHR ''s''), (0x0040, chr CHR ''T''), (0x0020, chr CHR ''s''), (0x0010, chr CHR ''s''),
     (0x0008, chr CHR ''s''), (0x0004, chr CHR ''s'')]"

definition setProperty :: "16 word \<Rightarrow> variant \<Rightarrow> content \<Rightarrow> content" where
  "setProperty p v c = c\<lparr>co_props := table_set p v (co_props c)\<rparr>"

definition prop_value :: "(16 word \<times> variant) list \<Rightarrow> 16 word \<Rightarrow> variant" where
  "prop_value ps p = (case map_of ps p of Some v \<Rightarrow> v | None \<Rightarrow> VInvalid)"

definition bodySize :: "content \<Rightarrow> 64 word" where
  "bodySize c = (if co_body c = [] then co_bodySize c else word_of_nat (length (co_body c)))"

section \<open>Writing\<close>

definition prop_flags :: "(16 word \<times> variant) list \<Rightarrow> 16 word" where
  "prop_flags ps = fold (\<lambda>e f. f OR fst e) ps 0"

fun write_props :: "qt_env \<Rightarrow> (16 word \<times> variant) list \<Rightarrow> 16 word \<Rightarrow> (16 word \<times> byte) list \<Rightarrow> bytes" where
  "write_props q ps fl [] = []"
| "write_props q ps fl ((p, t) # os) = (if fl AND p \<noteq> 0 then write_typed q t (prop_value ps p) else []) @ write_props q ps fl os"

text \<open>What \<open>Content::size\<close> leaves in \<open>buffer_\<close>; the size is that of the buffer.\<close>

definition content_buffer :: "qt_env \<Rightarrow> content \<Rightarrow> bytes" where
  "content_buffer q c =
     put_be (co_class c) @ put_be (0 :: 16 word) @ put_be (word_of_nat (length (co_body c)) :: 64 word)
     @ put_be (prop_flags (co_props c)) @ write_props q (co_props c) (prop_flags (co_props c)) prop_order"

definition frame_payload :: "qt_env \<Rightarrow> frame \<Rightarrow> bytes" where
  "frame_payload q f = (case f of
       FMethod m \<Rightarrow> put_be (me_class m) @ put_be (me_id m) @ me_args m
     | FContent c \<Rightarrow> content_buffer q c
     | FBody b \<Rightarrow> cb_body b
     | FHeartbeat h \<Rightarrow> [])"

definition frame_size :: "qt_env \<Rightarrow> frame \<Rightarrow> 32 word" where
  "frame_size q f = (case f of
       FMethod m \<Rightarrow> 2 + 2 + word_of_nat (length (me_args m))
     | FContent c \<Rightarrow> word_of_nat (length (content_buffer q c))
     | FBody b \<Rightarrow> word_of_nat (length (cb_body b))
     | FHeartbeat h \<Rightarrow> 0)"

definition the_base :: "frame \<Rightarrow> frame_base" where
  "the_base f = (case f of FMethod m \<Rightarrow> frame_base.truncate m | FContent c \<Rightarrow> frame_base.truncate c
     | FBody b \<Rightarrow> frame_base.truncate b | FHeartbeat h \<Rightarrow> h)"

definition writeHeader :: "qt_env \<Rightarrow> frame \<Rightarrow> bytes" where
  "writeHeader q f = put_be (fr_type (the_base f)) @ put_be (fr_channel (the_base f)) @ put_be (frame_size q f)"

definition toStream :: "qt_env \<Rightarrow> frame \<Rightarrow> bytes" where
  "toStream q f = writeHeader q f @ frame_payload q f @ [frame_end]"

section \<open>Reading\<close>

definition readHeader :: "frame_base reader" where
  "readHeader = do { t \<leftarrow> (get_be :: 8 word reader); c \<leftarrow> (get_be :: 16 word reader); n \<leftarrow> (get_be :: 32 word reader);
     State_Monad.return \<lparr>fr_type = t, fr_channel = c, fr_size = n\<rparr> }"

definition read_method :: "qt_env \<Rightarrow> meth reader" where
  "read_method q = do { h \<leftarrow> readHeader; c \<leftarrow> (get_be :: 16 word reader); i \<leftarrow> (get_be :: 16 word reader);
     a \<leftarrow> rd_sized q (sint (fr_size h - 4));
     State_Monad.return (frame_base.extend h \<lparr>me_class = c, me_id = i, me_args = a\<rparr>) }"

fun read_props :: "qt_env \<Rightarrow> 16 word \<Rightarrow> (16 word \<times> byte) list \<Rightarrow> (16 word \<times> variant) list \<Rightarrow> (16 word \<times> variant) list reader" where
  "read_props q fl [] ps = State_Monad.return ps"
| "read_props q fl ((p, t) # os) ps =
     (if fl AND p \<noteq> 0 then do { v \<leftarrow> readField q t; read_props q fl os (table_set p v ps) }
      else read_props q fl os ps)"

definition read_content :: "qt_env \<Rightarrow> content reader" where
  "read_content q = do { h \<leftarrow> readHeader; c \<leftarrow> (get_be :: 16 word reader); _ \<leftarrow> rd_skip 2;
     n \<leftarrow> (get_be :: 64 word reader); fl \<leftarrow> (get_be :: 16 word reader); ps \<leftarrow> read_props q fl prop_order [];
     State_Monad.return (frame_base.extend h \<lparr>co_class = c, co_body = [], co_props = ps, co_bodySize = n\<rparr>) }"

definition read_body :: "qt_env \<Rightarrow> content_body reader" where
  "read_body q = do { h \<leftarrow> readHeader; b \<leftarrow> rd_sized q (sint (fr_size h));
     State_Monad.return (frame_base.extend h \<lparr>cb_body = b\<rparr>) }"

section \<open>Cutting the input\<close>

text \<open>\<open>Network::readyRead\<close>: a frame is taken when all of it is there; a wrong end is only warned about.\<close>

definition payload_size :: "bytes \<Rightarrow> nat" where
  "payload_size b = be_nat (take 4 (drop 3 b))"

definition amqp_cut :: "bytes \<Rightarrow> bytes cut" where
  "amqp_cut b = (if length b < 7 then More
     else let n = 7 + payload_size b + 1 in
       if length b < n then More else Packet (take n b) (drop n b))"

lemma payload_size_append: "7 \<le> length b \<Longrightarrow> payload_size (b @ x) = payload_size b"
  by (simp add: payload_size_def)

interpretation amqp: framer amqp_cut
proof unfold_locales
  show "amqp_cut b = Packet f r \<Longrightarrow> length r < length b" for b f r
    by (auto simp: amqp_cut_def Let_def split: if_splits)
  show "amqp_cut b = Packet f r \<Longrightarrow> amqp_cut (b @ x) = Packet f (r @ x)" for b f r x
    by (auto simp: amqp_cut_def Let_def payload_size_append split: if_splits)
  show "amqp_cut b = Fatal \<Longrightarrow> amqp_cut (b @ x) = Fatal" for b x
    by (auto simp: amqp_cut_def Let_def split: if_splits)
qed

text \<open>The frame in a packet, by its type byte.\<close>

definition parse_packet :: "qt_env \<Rightarrow> bytes \<Rightarrow> frame option" where
  "parse_packet q p = (let t = hd p in
     if t = 1 then Some (FMethod (fst (run_state (read_method q) p)))
     else if t = 2 then Some (FContent (fst (run_state (read_content q) p)))
     else if t = 3 then Some (FBody (fst (run_state (read_body q) p)))
     else if t = 8 then Some (FHeartbeat new_heartbeat)
     else None)"

end
