(* ===== verification/Amqp_Frame_Proofs.thy ===== *)
theory Amqp_Frame_Proofs
  imports Amqp_Frame
begin

text \<open>
  A frame that was written is cut from the stream as a whole and parsed to itself: methods, content
  headers with their properties, and bodies.
\<close>

section \<open>Headers and cutting\<close>

definition fits :: "qt_env \<Rightarrow> frame \<Rightarrow> bool" where
  "fits q f \<longleftrightarrow> length (frame_payload q f) < 2 ^ 31"

lemma frame_size_payload: "frame_size q f = word_of_nat (length (frame_payload q f))"
  by (simp add: frame_size_def frame_payload_def split: frame.splits)

lemma readHeader_written:
  "run_state readHeader (writeHeader q f @ r) = ((the_base f)\<lparr>fr_size := frame_size q f\<rparr>, r)"
  by (simp add: readHeader_def writeHeader_def run_bind u8be.get_put u16be.get_put u32be.get_put State_Monad.return_def)

lemma length_writeHeader [simp]: "length (writeHeader q f) = 7"
  by (simp add: writeHeader_def)

lemma length_toStream: "length (toStream q f) = 8 + length (frame_payload q f)"
  by (simp add: toStream_def)

lemma be_nat_put_be: "8 dvd LENGTH('a) \<Longrightarrow> be_nat (put_be (w :: 'a::len word)) = unat w"
proof -
  assume d: "8 dvd LENGTH('a)"
  have "unat w < 2 ^ LENGTH('a)" by (rule unsigned_less)
  then show ?thesis by (simp add: put_be_def be_nat_be_bytes pow256 [OF d])
qed

lemma payload_size_written: "fits q f \<Longrightarrow> payload_size (writeHeader q f @ r) = length (frame_payload q f)"
proof -
  assume f: "fits q f"
  have "take 4 (drop 3 (writeHeader q f @ r)) = put_be (frame_size q f)"
    by (simp add: writeHeader_def)
  then show ?thesis
    using f by (simp add: payload_size_def be_nat_put_be frame_size_payload fits_def unat_of_nat)
qed

lemma amqp_cut_sent: "fits q f \<Longrightarrow> amqp_cut (toStream q f @ x) = Packet (toStream q f) x"
proof -
  assume f: "fits q f"
  have p: "payload_size (toStream q f @ x) = length (frame_payload q f)"
    using payload_size_written [OF f] by (simp add: toStream_def)
  have "7 + payload_size (toStream q f @ x) + 1 = length (toStream q f)" by (simp add: p length_toStream)
  then show ?thesis by (simp add: amqp_cut_def length_toStream)
qed

lemma cut_all_sent_frames:
  "list_all (fits q) fs \<Longrightarrow> cut_all amqp_cut (concat (map (toStream q) fs)) = (map (toStream q) fs, [], False)"
proof (induction fs)
  case Nil
  have "amqp_cut [] = More" by (simp add: amqp_cut_def)
  then show ?case by (simp add: amqp.cut_all_More)
next
  case (Cons f fs)
  then show ?case by (simp add: amqp.cut_all_Packet [OF amqp_cut_sent])
qed

section \<open>Methods and bodies\<close>

lemma hd_toStream: "hd (toStream q f) = fr_type (the_base f)"
proof -
  have "put_be (w :: 8 word) = [w]" for w
    by (simp add: put_be_def be_bytes_def)
  then show ?thesis by (simp add: toStream_def writeHeader_def)
qed

lemma parse_method:
  assumes "fits q (FMethod m)" "fr_type m = 1"
  shows "parse_packet q (toStream q (FMethod m)) = Some (FMethod (m\<lparr>fr_size := frame_size q (FMethod m)\<rparr>))"
proof -
  let ?f = "FMethod m"
  have "run_state (read_method q) (toStream q ?f) = (m\<lparr>fr_size := frame_size q ?f\<rparr>, [frame_end])"
  proof -
    have l: "length (me_args m) < 2 ^ 31" using assms(1) by (simp add: fits_def frame_payload_def)
    have "frame_size q ?f - 4 = word_of_nat (length (me_args m))" by (simp add: frame_size_def)
    then have n: "sint (frame_size q ?f - 4) = int (length (me_args m))" using l by (simp add: sint_length)
    show ?thesis
      by (simp add: read_method_def toStream_def run_bind readHeader_written frame_payload_def u16be.get_put n
          rd_sized_exact State_Monad.return_def the_base_def frame_base.defs)
  qed
  then show ?thesis using assms(2) by (simp add: parse_packet_def hd_toStream the_base_def frame_base.defs)
qed

lemma parse_body:
  assumes "fits q (FBody b)" "fr_type b = 3"
  shows "parse_packet q (toStream q (FBody b)) = Some (FBody (b\<lparr>fr_size := frame_size q (FBody b)\<rparr>))"
proof -
  have l: "length (cb_body b) < 2 ^ 31" using assms(1) by (simp add: fits_def frame_payload_def)
  then have n: "sint (frame_size q (FBody b)) = int (length (cb_body b))"
    by (simp add: frame_size_def sint_length)
  have "run_state (read_body q) (toStream q (FBody b)) = (b\<lparr>fr_size := frame_size q (FBody b)\<rparr>, [frame_end])"
    by (simp add: read_body_def toStream_def run_bind readHeader_written frame_payload_def n
        rd_sized_exact State_Monad.return_def the_base_def frame_base.defs)
  then show ?thesis using assms(2) by (simp add: parse_packet_def hd_toStream the_base_def frame_base.defs)
qed

section \<open>Content headers\<close>

text \<open>The values that suit the wire type of a property.\<close>

definition prop_fits :: "qt_env \<Rightarrow> byte \<Rightarrow> variant \<Rightarrow> bool" where
  "prop_fits q t v \<longleftrightarrow> (case v of
       VString s \<Rightarrow> t = chr CHR ''s'' \<and> latin1_text s \<and> length s < 128
     | VHash f \<Rightarrow> t = chr CHR ''F'' \<and> carried q (VHash f)
     | VInt w \<Rightarrow> t = chr CHR ''b'' \<and> scast (ucast w :: 8 word) = w
     | VDateTime w \<Rightarrow> t = chr CHR ''T''
     | _ \<Rightarrow> False)"

lemma prop_roundtrip:
  assumes "prop_fits q t v"
  shows "run_state (readField q t) (write_typed q t v @ r) = (read_back v, r)"
proof (cases v)
  case (VHash f)
  with assms have t: "t = chr CHR ''F''" and c: "carried q v" by (simp_all add: prop_fits_def)
  with VHash have w: "write_field q v = t # write_typed q t v" by (simp add: write_field_def field_type_def)
  have "run_state (read_elem q) (t # (write_typed q t v @ r)) = (read_back v, r)"
    using write_read_field [OF c, of r] w by simp
  then show ?thesis by (simp only: read_elem_byte readField_unfold)
next
  case (VString s)
  with assms show ?thesis
    by (simp add: prop_fits_def readField_unfold read_step_def write_typed.simps [of q _ "VString s"] v_toString_def
        run_bind short_roundtrip State_Monad.return_def)
next
  case (VInt w)
  have "put_be (b :: 8 word) = [b]" for b by (simp add: put_be_def be_bytes_def)
  moreover have "ucast (scast w :: 64 word) = (ucast w :: 8 word)"
    by (rule bit_word_eqI) (auto simp: bit_simps)
  ultimately show ?thesis
    using VInt assms
    by (simp add: prop_fits_def readField_unfold read_step_def write_typed.simps [of q _ "VInt w"] v_num_def
        run_bind rd_octet_def State_Monad.return_def)
next
  case (VDateTime w)
  with assms show ?thesis
    by (simp add: prop_fits_def readField_unfold read_step_def write_typed.simps [of q _ "VDateTime w"] v_toMSecs_def
        run_bind u64be.get_put State_Monad.return_def)
qed (use assms in \<open>simp_all add: prop_fits_def\<close>)

definition known_props :: "(16 word \<times> variant) list \<Rightarrow> bool" where
  "known_props ps \<longleftrightarrow> fst ` set ps \<subseteq> fst ` set prop_order"

definition props_fit :: "qt_env \<Rightarrow> (16 word \<times> variant) list \<Rightarrow> bool" where
  "props_fit q ps \<longleftrightarrow> known_props ps
     \<and> (\<forall>(p, t) \<in> set prop_order. p \<in> fst ` set ps \<longrightarrow> prop_fits q t (prop_value ps p))"

lemma prop_bits: "list_all (\<lambda>k. list_all (\<lambda>p. (k AND p \<noteq> 0) = (k = p)) (map fst prop_order)) (map fst prop_order)"
  by (simp add: prop_order_def)

lemma prop_bit: "k \<in> fst ` set prop_order \<Longrightarrow> p \<in> fst ` set prop_order \<Longrightarrow> k AND p \<noteq> 0 \<longleftrightarrow> k = p"
  using prop_bits unfolding list_all_iff set_map by blast

lemma prop_order_distinct: "distinct (map fst prop_order)"
  by (simp add: prop_order_def)

lemma flags_member:
  assumes "known_props ps" "p \<in> fst ` set prop_order"
  shows "prop_flags ps AND p \<noteq> 0 \<longleftrightarrow> p \<in> fst ` set ps"
proof -
  have gen: "fold (\<lambda>e f. f OR fst e) ps fl AND p \<noteq> 0 \<longleftrightarrow> fl AND p \<noteq> 0 \<or> p \<in> fst ` set ps" for fl
    using assms(1)
  proof (induction ps arbitrary: fl)
    case (Cons e ps)
    then have e: "fst e \<in> fst ` set prop_order" "known_props ps" by (simp_all add: known_props_def)
    have "(fl OR fst e) AND p \<noteq> 0 \<longleftrightarrow> fl AND p \<noteq> 0 \<or> fst e = p"
      using prop_bit [OF e(1) assms(2)] by (simp add: bit.conj_disj_distrib2 or_eq_0_iff)
    with Cons.IH [OF e(2)] show ?case by auto
  qed simp
  show ?thesis using gen [of 0] by (simp add: prop_flags_def)
qed

definition sent_props :: "(16 word \<times> variant) list \<Rightarrow> 16 word \<Rightarrow> (16 word \<times> byte) list \<Rightarrow> (16 word \<times> variant) list" where
  "sent_props ps fl os = map (\<lambda>(p, t). (p, read_back (prop_value ps p))) (filter (\<lambda>(p, t). fl AND p \<noteq> 0) os)"

lemma read_props_written:
  assumes "\<forall>(p, t) \<in> set os. fl AND p \<noteq> 0 \<longrightarrow> prop_fits q t (prop_value ps p)"
    and "distinct (map fst os)" "fst ` set acc \<inter> fst ` set os = {}"
  shows "run_state (read_props q fl os acc) (write_props q ps fl os @ r) = (acc @ sent_props ps fl os, r)"
  using assms
proof (induction os arbitrary: acc)
  case (Cons e os)
  obtain p t where e: "e = (p, t)" by force
  have new: "table_set p v acc = acc @ [(p, v)]" for v
    using Cons.prems(3) e by (intro table_set_new) auto
  have ih: "fst ` set acc' \<inter> fst ` set os = {} \<Longrightarrow>
      run_state (read_props q fl os acc') (write_props q ps fl os @ r) = (acc' @ sent_props ps fl os, r)" for acc'
    using Cons.prems Cons.IH by simp
  show ?case
  proof (cases "fl AND p = 0")
    case True
    with ih [of acc] Cons.prems(3) e show ?thesis by (simp add: sent_props_def)
  next
    case False
    then have "prop_fits q t (prop_value ps p)" using Cons.prems(1) e by simp
    moreover have "fst ` set (acc @ [(p, read_back (prop_value ps p))]) \<inter> fst ` set os = {}"
      using Cons.prems e by auto
    ultimately show ?thesis
      using False e ih [of "acc @ [(p, read_back (prop_value ps p))]"]
      by (simp add: run_bind prop_roundtrip new) (simp add: sent_props_def)
  qed
qed (simp add: sent_props_def State_Monad.return_def)

lemma parse_content:
  assumes "fits q (FContent c)" "fr_type c = 2" "props_fit q (co_props c)"
  shows "parse_packet q (toStream q (FContent c)) =
    Some (FContent (c\<lparr>fr_size := frame_size q (FContent c), co_body := [],
      co_props := sent_props (co_props c) (prop_flags (co_props c)) prop_order,
      co_bodySize := word_of_nat (length (co_body c))\<rparr>))"
proof -
  let ?fl = "prop_flags (co_props c)"
  have "\<forall>(p, t) \<in> set prop_order. ?fl AND p \<noteq> 0 \<longrightarrow> prop_fits q t (prop_value (co_props c) p)"
    using assms(3) flags_member [of "co_props c"] by (force simp: props_fit_def)
  then have "run_state (read_props q ?fl prop_order []) (write_props q (co_props c) ?fl prop_order @ r)
      = (sent_props (co_props c) ?fl prop_order, r)" for r
    using read_props_written [of prop_order ?fl q "co_props c" "[]" r] prop_order_distinct by simp
  then have "run_state (read_content q) (toStream q (FContent c)) =
      (c\<lparr>fr_size := frame_size q (FContent c), co_body := [], co_props := sent_props (co_props c) ?fl prop_order,
         co_bodySize := word_of_nat (length (co_body c))\<rparr>, [frame_end])"
    by (simp add: read_content_def toStream_def run_bind readHeader_written
        frame_payload_def content_buffer_def u16be.get_put u64be.get_put State_Monad.return_def
        the_base_def frame_base.defs)
  then show ?thesis using assms(2) by (simp add: parse_packet_def hd_toStream the_base_def frame_base.defs)
qed

lemma sent_prop_value:
  assumes "props_fit q ps" "p \<in> fst ` set prop_order"
  shows "prop_value (sent_props ps (prop_flags ps) prop_order) p = read_back (prop_value ps p)"
proof -
  have m: "map_of (sent_props ps fl os) p = (if p \<in> fst ` set os \<and> fl AND p \<noteq> 0 then Some (read_back (prop_value ps p)) else None)" for fl os
    by (induction os) (auto simp: sent_props_def)
  have "prop_value ps p = VInvalid" if "p \<notin> fst ` set ps"
    using that by (simp add: prop_value_def flip: map_of_eq_None_iff)
  then show ?thesis
    using flags_member [OF _ assms(2), of ps] assms by (auto simp: m prop_value_def [of "sent_props _ _ _"] props_fit_def)
qed

end
