(* ===== verification/Amqp_Typing.thy ===== *)
theory Amqp_Typing
  imports Amqp_Frame_Proofs
begin

text \<open>
  What the reader of field values can return, whatever the bytes: a value of the kind its type code names,
  with strings of Latin-1 characters and tables without a name twice, at every depth.
\<close>

section \<open>Kinds\<close>

text \<open>The type codes that give a kind of value.\<close>

definition codes_of :: "variant \<Rightarrow> string" where
  "codes_of v = (case v of VBool _ \<Rightarrow> ''t'' | VInt _ \<Rightarrow> ''bUI'' | VUInt _ \<Rightarrow> ''Bui'' | VLongLong _ \<Rightarrow> ''L'' | VULongLong _ \<Rightarrow> ''l''
     | VFloat _ \<Rightarrow> ''f'' | VDouble _ \<Rightarrow> ''d'' | VDecimal _ _ \<Rightarrow> ''D'' | VString _ \<Rightarrow> ''sS'' | VDateTime _ \<Rightarrow> ''T'' | VList _ \<Rightarrow> ''A''
     | VHash _ \<Rightarrow> ''F'' | VBytes _ \<Rightarrow> [] | VInvalid \<Rightarrow> [])"

definition kind_of_code :: "byte \<Rightarrow> variant \<Rightarrow> bool" where
  "kind_of_code t v \<longleftrightarrow> (if v = VInvalid then t \<notin> chr ` set ''tbBUuIiLlfdDsSATF'' else t \<in> chr ` set (codes_of v))"

fun read_value :: "variant \<Rightarrow> bool" where
  "read_value (VString s) = latin1_text s"
| "read_value (VBytes b) = False"
| "read_value (VList l) = (\<forall>v \<in> set l. read_value v)"
| "read_value (VHash f) = (distinct (map fst f) \<and> (\<forall>e \<in> set f. latin1_text (fst e) \<and> read_value (snd e)))"
| "read_value v = True"

section \<open>Reading keeps them\<close>

lemma from_latin1_text: "latin1_text (from_latin1 b)"
proof -
  have "unat (ucast x :: 16 word) < 256" for x :: byte
  proof -
    have "unat x < 2 ^ LENGTH(8)" by (rule unsigned_less)
    then have "unat x < 256" by simp
    then show ?thesis by (simp add: unsigned_ucast_eq take_bit_nat_eq_self)
  qed
  then show ?thesis by (simp add: latin1_text_def from_latin1_def list_all_iff word_less_nat_alt)
qed

lemma table_set_set: "set (table_set k v f) \<subseteq> insert (k, v) (set f)"
  by (induction f) auto

lemma table_set_keys: "fst ` set (table_set k v f) = insert k (fst ` set f)"
  by (induction f) auto

lemma table_set_distinct: "distinct (map fst f) \<Longrightarrow> distinct (map fst (table_set k v f))"
  by (induction f) (auto simp: table_set_keys)

lemma table_set_value: "read_value (VHash f) \<Longrightarrow> latin1_text k \<Longrightarrow> read_value v \<Longrightarrow> read_value (VHash (table_set k v f))"
  using table_set_set [of k v f] by (auto simp: table_set_distinct)

text \<open>A reader that only returns such values.\<close>

definition typed_reader :: "(byte \<Rightarrow> variant reader) \<Rightarrow> bool" where
  "typed_reader rf \<longleftrightarrow> (\<forall>t s. read_value (fst (run_state (rf t) s)))"

lemma table_loop_value:
  assumes "typed_reader rf"
  shows "read_value (VHash f) \<Longrightarrow> read_value (VHash (table_loop q rf n s f))"
proof (induction n arbitrary: s f)
  case (Suc n)
  obtain k s1 where k: "run_state (rd_short q) s = (k, s1)" by force
  obtain t s2 where t: "run_state (get_be :: 8 word reader) s1 = (t, s2)" by force
  obtain v s3 where v: "run_state (rf t) s2 = (v, s3)" by force
  have "latin1_text k" using k by (auto simp: rd_short_def run_bind State_Monad.return_def from_latin1_text split: prod.splits)
  moreover have "read_value v" using assms v by (metis typed_reader_def fst_conv)
  ultimately show ?case using Suc k t v by (simp add: table_set_value del: read_value.simps)
qed simp

lemma rd_list_value:
  assumes "typed_reader rf"
  shows "\<forall>v \<in> set (fst (run_state (rd_list n (do { u \<leftarrow> (get_be :: 8 word reader); rf u })) s)). read_value v"
proof (induction n arbitrary: s)
  case (Suc n)
  obtain t s1 where t: "run_state (get_be :: 8 word reader) s = (t, s1)" by force
  obtain v s2 where v: "run_state (rf t) s1 = (v, s2)" by force
  have "read_value v" using assms v by (metis typed_reader_def fst_conv)
  then show ?case using Suc [of s2] t v by (auto simp: run_bind State_Monad.return_def split: prod.splits)
qed (simp add: State_Monad.return_def)

lemma read_step_typed:
  assumes "typed_reader rf"
  shows "kind_of_code t (fst (run_state (read_step q rf t) s)) \<and> read_value (fst (run_state (read_step q rf t) s))"
proof -
  have l: "read_value (VList (fst (run_state (rd_list n (do { u \<leftarrow> (get_be :: 8 word reader); rf u })) s)))" for n s
    using rd_list_value [OF assms] by simp
  have f: "read_value (VHash (fst (run_state (deserialize_with q rf) s)))" for s
    using table_loop_value [OF assms, of "[]"]
    by (simp add: deserialize_with_def run_bind State_Monad.return_def split: prod.splits del: read_value.simps)
      (simp)
  have long: "latin1_text (fst (run_state (rd_long q) s))" "latin1_text (fst (run_state (rd_short q) s))" for s
    by (simp_all add: rd_long_def rd_short_def run_bind State_Monad.return_def from_latin1_text split: prod.splits)
  show ?thesis
    using l f long
    by (simp add: read_step_def run_bind State_Monad.return_def kind_of_code_def codes_of_def split: prod.splits
        del: read_value.simps(3,4)) (metis fst_conv)
qed

lemma read_field_typed: "typed_reader (read_field q d)"
proof (induction d)
  case 0
  have "typed_reader (\<lambda>_. State_Monad.return VInvalid)" by (simp add: typed_reader_def State_Monad.return_def)
  then show ?case using read_step_typed by (simp add: typed_reader_def)
next
  case (Suc d)
  then show ?case using read_step_typed by (simp add: typed_reader_def)
qed

text \<open>C24: Whatever the bytes, \<open>readField\<close> returns a value of the kind that its type code names, and none for other codes;
  its texts, and those of \<open>deserialize\<close>, are Latin-1, and no table in it, at any depth, has a name twice.\<close>

theorem amqp_field_typed:
  "kind_of_code t (fst (run_state (readField q t) s)) \<and> read_value (fst (run_state (readField q t) s))
    \<and> read_value (VHash (fst (run_state (deserialize q) s)))"
proof -
  have field: "kind_of_code t (fst (run_state (read_field q d t) s))" for d
    using read_step_typed [OF read_field_typed] read_step_typed [of "\<lambda>_. State_Monad.return VInvalid" t q s]
    by (cases d) (simp_all add: typed_reader_def State_Monad.return_def)
  have typed: "typed_reader (readField q)" using read_field_typed by (simp add: typed_reader_def readField_def)
  have "read_value (VHash (table_loop q (readField q) n b []))" for n b by (rule table_loop_value [OF typed]) simp
  then have "read_value (VHash (fst (run_state (deserialize q) s)))"
    by (simp add: deserialize_def deserialize_with_def run_bind State_Monad.return_def split: prod.splits del: read_value.simps)
  then show ?thesis using field typed by (simp add: readField_def typed_reader_def del: read_value.simps)
qed

end
