(* ===== verification/Amqp_Channel.thy ===== *)
theory Amqp_Channel
  imports Amqp_Frame
begin

text \<open>
  mod/ext/qamqp, channels: \<open>Channel\<close> (amqp_channel.cpp), \<open>Queue\<close> (amqp_queue.cpp) and
  \<open>Exchange\<close> (amqp_exchange.cpp). An operation returns the new state and, in order, the frames it sends
  and the signals it emits. What the program does in a slot on such a signal is a later operation.
\<close>

datatype signal = SOpened | SClosed | SDeclared | SRemoved | SBinded bool | SMessageReceived | SEmpty
  | SConnected | SDisconnected

datatype effect = Send frame | Emit signal

section \<open>Channel\<close>

record channel =
  ch_name :: qstring
  ch_number :: int
  ch_opened :: bool
  ch_needOpen :: bool

text \<open>A method frame; \<open>setChannel\<close> cuts the number to 16 bits. Where the code forgets \<open>setChannel\<close>
  the channel stays 0.\<close>

definition method_frame :: "16 word \<Rightarrow> 16 word \<Rightarrow> bytes \<Rightarrow> frame" where
  "method_frame c i args = FMethod ((new_method c i)\<lparr>me_args := args\<rparr>)"

definition channel_frame :: "('a channel_scheme) \<Rightarrow> 16 word \<Rightarrow> 16 word \<Rightarrow> bytes \<Rightarrow> frame" where
  "channel_frame ch c i args = FMethod ((new_method c i)\<lparr>fr_channel := word_of_int (ch_number ch), me_args := args\<rparr>)"

text \<open>\<open>writeField('s', out, s)\<close>, and \<open>writeField('F', out, t)\<close>.\<close>

definition write_s :: "qt_env \<Rightarrow> qstring \<Rightarrow> bytes" where
  "write_s q s = write_typed q (chr CHR ''s'') (VString s)"

definition write_F :: "qt_env \<Rightarrow> table \<Rightarrow> bytes" where
  "write_F q t = write_typed q (chr CHR ''F'') (VHash t)"

text \<open>\<open>ChannelPrivate::init\<close>, with the static counter of channel numbers.\<close>

definition ch_init :: "int \<Rightarrow> int \<Rightarrow> 'a channel_scheme \<Rightarrow> int \<times> 'a channel_scheme" where
  "ch_init n counter c =
     (let counter1 = (if n = -1 then counter + 1 else counter) in
      (max n (counter1 + 1), c\<lparr>ch_needOpen := (n = -1), ch_number := (if n = -1 then counter1 else n)\<rparr>))"

definition ch_open :: "bool \<Rightarrow> 'a channel_scheme \<Rightarrow> effect list" where
  "ch_open connected c = (if \<not> ch_needOpen c \<or> ch_opened c then []
     else if \<not> connected then [] else [Send (channel_frame c 20 10 [0])])"

definition close_args :: "qt_env \<Rightarrow> qstring \<Rightarrow> int \<Rightarrow> qstring \<Rightarrow> int \<Rightarrow> int \<Rightarrow> bytes" where
  "close_args q vhost code txt classId methodId =
     write_s q vhost @ put_be (word_of_int code :: 16 word) @ write_s q txt
     @ put_be (word_of_int classId :: 16 word) @ put_be (word_of_int methodId :: 16 word)"

definition ch_close :: "qt_env \<Rightarrow> qstring \<Rightarrow> int \<Rightarrow> qstring \<Rightarrow> int \<Rightarrow> int \<Rightarrow> effect list" where
  "ch_close q vhost code txt classId methodId = [Send (method_frame 20 40 (close_args q vhost code txt classId methodId))]"

definition closeChannel :: "qt_env \<Rightarrow> qstring \<Rightarrow> 'a channel_scheme \<Rightarrow> 'a channel_scheme \<times> effect list" where
  "closeChannel q vhost c = (let c' = c\<lparr>ch_needOpen := True\<rparr> in
     (c', if ch_opened c' then ch_close q vhost 0 [] 0 0 else []))"

definition ch_reopen :: "qt_env \<Rightarrow> qstring \<Rightarrow> bool \<Rightarrow> 'a channel_scheme \<Rightarrow> 'a channel_scheme \<times> effect list" where
  "ch_reopen q vhost connected c = (case closeChannel q vhost c of (c', e) \<Rightarrow> (c', e @ ch_open connected c'))"

text \<open>\<open>openOk\<close>, \<open>close\<close> and \<open>closeOk\<close> of the peer, with the virtual \<open>onOpen\<close> and \<open>onClose\<close>.\<close>

definition ch_openOk :: "('a channel_scheme \<Rightarrow> 'a channel_scheme \<times> effect list) \<Rightarrow> 'a channel_scheme \<Rightarrow> 'a channel_scheme \<times> effect list" where
  "ch_openOk on_open c = (case on_open (c\<lparr>ch_opened := True\<rparr>) of (c', e) \<Rightarrow> (c', Emit SOpened # e))"

definition ch_closed :: "'a channel_scheme \<Rightarrow> 'a channel_scheme \<times> effect list" where
  "ch_closed c = (c, [Emit SClosed])"

definition ch_closeOk :: "('a channel_scheme \<Rightarrow> 'a channel_scheme \<times> effect list) \<Rightarrow> 'a channel_scheme \<Rightarrow> 'a channel_scheme \<times> effect list" where
  "ch_closeOk on_close c = (case on_close c of (c', e) \<Rightarrow> (c'\<lparr>ch_opened := False\<rparr>, Emit SClosed # e))"

text \<open>\<open>ChannelPrivate::_q_method\<close>: \<open>None\<close> for a method of another class.\<close>

definition ch_method :: "('a channel_scheme \<Rightarrow> 'a channel_scheme \<times> effect list) \<Rightarrow> ('a channel_scheme \<Rightarrow> 'a channel_scheme \<times> effect list)
    \<Rightarrow> meth \<Rightarrow> 'a channel_scheme \<Rightarrow> ('a channel_scheme \<times> effect list) option" where
  "ch_method on_open on_close f c =
     (if sint (fr_channel f) \<noteq> ch_number c then Some (c, [])
      else if me_class f \<noteq> 20 then None
      else if me_id f = 11 then Some (ch_openOk on_open c)
      else if me_id f = 40 then Some (ch_closed c)
      else if me_id f = 41 then Some (ch_closeOk on_close c)
      else Some (c, []))"

definition ch_setQOS :: "'a channel_scheme \<Rightarrow> 32 word \<Rightarrow> 16 word \<Rightarrow> effect list" where
  "ch_setQOS c prefetchSize prefetchCount = [Send (channel_frame c 60 10 (put_be prefetchSize @ put_be prefetchCount @ [0]))]"

definition ch_disconnected :: "'a channel_scheme \<Rightarrow> 'a channel_scheme" where
  "ch_disconnected c = c\<lparr>ch_opened := False\<rparr>"

section \<open>Queue\<close>

record message =
  mg_deliveryTag :: "64 word"
  mg_payload :: bytes
  mg_property :: "(16 word \<times> variant) list"
  mg_headers :: table
  mg_routeKey :: qstring
  mg_exchangeName :: qstring
  mg_leftSize :: "32 word"

definition new_message :: message where
  "new_message = \<lparr>mg_deliveryTag = 0, mg_payload = [], mg_property = [], mg_headers = [], mg_routeKey = [],
     mg_exchangeName = [], mg_leftSize = 0\<rparr>"

record queue = channel +
  qu_options :: "32 word"
  qu_delayedDeclare :: bool
  qu_declared :: bool
  qu_noAck :: bool
  qu_consumerTag :: qstring
  qu_delayedBindings :: "(qstring \<times> qstring) list"
  qu_messages :: "message list"

definition new_queue :: queue where
  "new_queue = \<lparr>ch_name = [], ch_number = 0, ch_opened = False, ch_needOpen = True, qu_options = 0, qu_delayedDeclare = False,
     qu_declared = False, qu_noAck = True, qu_consumerTag = [], qu_delayedBindings = [], qu_messages = []\<rparr>"

text \<open>The methods the client sends.\<close>

definition qu_declare :: "qt_env \<Rightarrow> queue \<Rightarrow> queue \<times> effect list" where
  "qu_declare q u = (if \<not> ch_opened u then (u\<lparr>qu_delayedDeclare := True\<rparr>, [])
     else (u\<lparr>qu_delayedDeclare := False\<rparr>, [Send (channel_frame u 50 10
       (put_be (0 :: 16 word) @ write_s q (ch_name u) @ put_be (ucast (qu_options u) :: 8 word) @ write_F q []))]))"

definition qu_declare_as :: "qt_env \<Rightarrow> qstring \<Rightarrow> 32 word \<Rightarrow> queue \<Rightarrow> queue \<times> effect list" where
  "qu_declare_as q name opts u = qu_declare q (u\<lparr>ch_name := name, qu_options := opts\<rparr>)"

definition qu_declare_default :: "qt_env \<Rightarrow> queue \<Rightarrow> queue \<times> effect list" where
  "qu_declare_default q u = qu_declare_as q (ch_name u) (0x02 OR 0x08) u"

definition flag_if :: "bool \<Rightarrow> byte \<Rightarrow> byte" where
  "flag_if b w = (if b then w else 0)"

definition qu_remove :: "qt_env \<Rightarrow> bool \<Rightarrow> bool \<Rightarrow> bool \<Rightarrow> queue \<Rightarrow> effect list" where
  "qu_remove q ifUnused ifEmpty noWait u = (if \<not> qu_declared u then []
     else [Send (channel_frame u 50 40 (put_be (0 :: 16 word) @ write_s q (ch_name u)
       @ put_be (flag_if ifUnused 1 OR flag_if ifEmpty 2 OR flag_if noWait 4)))])"

definition qu_purge :: "qt_env \<Rightarrow> queue \<Rightarrow> effect list" where
  "qu_purge q u = (if \<not> ch_opened u then []
     else [Send (channel_frame u 50 30 (put_be (0 :: 16 word) @ write_s q (ch_name u) @ [0]))])"

definition qu_bind :: "qt_env \<Rightarrow> qstring \<Rightarrow> qstring \<Rightarrow> queue \<Rightarrow> queue \<times> effect list" where
  "qu_bind q exchangeName key u = (if \<not> ch_opened u
     then (u\<lparr>qu_delayedBindings := qu_delayedBindings u @ [(exchangeName, key)]\<rparr>, [])
     else (u, [Send (channel_frame u 50 20 (put_be (0 :: 16 word) @ write_s q (ch_name u) @ write_s q exchangeName
       @ write_s q key @ [0] @ write_F q []))]))"

definition qu_unbind :: "qt_env \<Rightarrow> qstring \<Rightarrow> qstring \<Rightarrow> queue \<Rightarrow> effect list" where
  "qu_unbind q exchangeName key u = (if \<not> ch_opened u then []
     else [Send (channel_frame u 50 50 (put_be (0 :: 16 word) @ write_s q (ch_name u) @ write_s q exchangeName
       @ write_s q key @ write_F q []))])"

definition qu_get :: "qt_env \<Rightarrow> queue \<Rightarrow> effect list" where
  "qu_get q u = (if \<not> ch_opened u then []
     else [Send (channel_frame u 60 70 (put_be (0 :: 16 word) @ write_s q (ch_name u) @ [if qu_noAck u then 1 else 0]))])"

definition qu_ack :: "message \<Rightarrow> queue \<Rightarrow> effect list" where
  "qu_ack m u = (if \<not> ch_opened u then []
     else [Send (channel_frame u 60 80 (put_be (mg_deliveryTag m) @ [0]))])"

definition qu_consume :: "qt_env \<Rightarrow> 32 word \<Rightarrow> queue \<Rightarrow> effect list" where
  "qu_consume q opts u = (if \<not> ch_opened u then []
     else [Send (channel_frame u 60 20 (put_be (0 :: 16 word) @ write_s q (ch_name u) @ write_s q (qu_consumerTag u)
       @ put_be (ucast opts :: 8 word) @ write_F q []))])"

text \<open>\<open>onOpen\<close>: what was asked for before the channel was open. \<open>onClose\<close> asks to remove the queue.\<close>

definition qu_onOpen :: "qt_env \<Rightarrow> queue \<Rightarrow> queue \<times> effect list" where
  "qu_onOpen q u =
     (let (u1, e1) = (if qu_delayedDeclare u then qu_declare q u else (u, []));
          (u2, e2) = fold (\<lambda>(x, k) (u, e). case qu_bind q x k u of (u', e') \<Rightarrow> (u', e @ e')) (qu_delayedBindings u1) (u1, [])
      in (if qu_delayedBindings u1 \<noteq> [] then u2\<lparr>qu_delayedBindings := []\<rparr> else u2, e1 @ e2))"

definition qu_onClose :: "qt_env \<Rightarrow> queue \<Rightarrow> queue \<times> effect list" where
  "qu_onClose q u = (u, qu_remove q True True True u)"

text \<open>The methods of the peer. \<open>args\<close> are read as far as the code uses them.\<close>

definition read_s :: "qt_env \<Rightarrow> qstring reader" where
  "read_s q = do { v \<leftarrow> readField q (chr CHR ''s''); State_Monad.return (v_toString q v) }"

definition qu_declareOk :: "qt_env \<Rightarrow> meth \<Rightarrow> queue \<Rightarrow> queue \<times> effect list" where
  "qu_declareOk q f u = (u\<lparr>qu_declared := True, ch_name := fst (run_state (read_s q) (me_args f))\<rparr>, [Emit SDeclared])"

definition qu_deleteOk :: "queue \<Rightarrow> queue \<times> effect list" where
  "qu_deleteOk u = (u\<lparr>qu_declared := False\<rparr>, [Emit SRemoved])"

definition qu_consumeOk :: "qt_env \<Rightarrow> meth \<Rightarrow> queue \<Rightarrow> queue" where
  "qu_consumeOk q f u = u\<lparr>qu_declared := False, qu_consumerTag := fst (run_state (read_s q) (me_args f))\<rparr>"

definition read_delivery :: "qt_env \<Rightarrow> message reader" where
  "read_delivery q = do { tag \<leftarrow> readField q (chr CHR ''L''); _ \<leftarrow> readField q (chr CHR ''t''); x \<leftarrow> read_s q; k \<leftarrow> read_s q;
     State_Monad.return (new_message\<lparr>mg_routeKey := k, mg_exchangeName := x, mg_deliveryTag := v_num q tag\<rparr>) }"

definition qu_getOk :: "qt_env \<Rightarrow> meth \<Rightarrow> queue \<Rightarrow> queue" where
  "qu_getOk q f u = u\<lparr>qu_messages := qu_messages u @ [fst (run_state (read_delivery q) (me_args f))]\<rparr>"

definition qu_deliver :: "qt_env \<Rightarrow> meth \<Rightarrow> queue \<Rightarrow> queue" where
  "qu_deliver q f u = (case run_state (read_s q) (me_args f) of (consumer, s) \<Rightarrow>
     if consumer \<noteq> qu_consumerTag u then u
     else u\<lparr>qu_messages := qu_messages u @ [fst (run_state (read_delivery q) s)]\<rparr>)"

definition qu_method :: "qt_env \<Rightarrow> meth \<Rightarrow> queue \<Rightarrow> queue \<times> effect list" where
  "qu_method q f u = (case ch_method (qu_onOpen q) (qu_onClose q) f u of
       Some r \<Rightarrow> r
     | None \<Rightarrow>
         if me_class f = 50 then
           (if me_id f = 11 then qu_declareOk q f u
            else if me_id f = 40 then qu_deleteOk u
            else if me_id f = 21 then (u, [Emit (SBinded True)])
            else if me_id f = 51 then (u, [Emit (SBinded False)])
            else if me_id f = 31 then qu_deleteOk u
            else (u, []))
         else if me_class f = 60 then
           (if me_id f = 21 then (qu_consumeOk q f u, [])
            else if me_id f = 60 then (qu_deliver q f u, [])
            else if me_id f = 71 then (qu_getOk q f u, [])
            else if me_id f = 72 then (u, [Emit SEmpty])
            else (u, []))
         else (u, []))"

text \<open>Content headers and bodies belong to the last message.\<close>

definition qu_content :: "content \<Rightarrow> queue \<Rightarrow> queue" where
  "qu_content f u = (if sint (fr_channel f) \<noteq> ch_number u then u
     else if qu_messages u = [] then u
     else let m = last (qu_messages u) in
       u\<lparr>qu_messages := butlast (qu_messages u) @ [m\<lparr>mg_leftSize := ucast (bodySize f),
         mg_property := fold (\<lambda>(k, v). table_set k v) (co_props f) (mg_property m)\<rparr>]\<rparr>)"

definition qu_body :: "content_body \<Rightarrow> queue \<Rightarrow> queue \<times> effect list" where
  "qu_body f u = (if sint (fr_channel f) \<noteq> ch_number u then (u, [])
     else if qu_messages u = [] then (u, [])
     else let m = last (qu_messages u);
              m' = m\<lparr>mg_payload := mg_payload m @ cb_body f, mg_leftSize := mg_leftSize m - word_of_nat (length (cb_body f))\<rparr> in
       (u\<lparr>qu_messages := butlast (qu_messages u) @ [m']\<rparr>,
        if mg_leftSize m' = 0 \<and> length (qu_messages u) = 1 then [Emit SMessageReceived] else []))"

text \<open>\<open>getMessage\<close> takes from the front, which must be there; \<open>hasMessage\<close>.\<close>

definition qu_getMessage :: "queue \<Rightarrow> (queue \<times> message) outcome" where
  "qu_getMessage u = (case qu_messages u of [] \<Rightarrow> Inl OutOfRange | m # ms \<Rightarrow> Inr (u\<lparr>qu_messages := ms\<rparr>, m))"

definition qu_hasMessage :: "queue \<Rightarrow> bool" where
  "qu_hasMessage u = (case qu_messages u of [] \<Rightarrow> False | m # _ \<Rightarrow> mg_leftSize m = 0)"

section \<open>Exchange\<close>

record exchange = channel +
  ex_type :: qstring
  ex_options :: "32 word"
  ex_arguments :: table
  ex_delayedDeclare :: bool
  ex_declared :: bool

definition new_exchange :: exchange where
  "new_exchange = \<lparr>ch_name = [], ch_number = 0, ch_opened = False, ch_needOpen = True, ex_type = [], ex_options = 0,
     ex_arguments = [], ex_delayedDeclare = False, ex_declared = False\<rparr>"

definition ex_declare :: "qt_env \<Rightarrow> exchange \<Rightarrow> exchange \<times> effect list" where
  "ex_declare q x = (if \<not> ch_opened x then (x\<lparr>ex_delayedDeclare := True\<rparr>, [])
     else if ch_name x = [] then (x, [])
     else (x\<lparr>ex_delayedDeclare := False\<rparr>, [Send (channel_frame x 40 10 (put_be (0 :: 16 word) @ write_s q (ch_name x)
       @ write_s q (ex_type x) @ put_be (ucast (ex_options x) :: 8 word) @ write_F q (ex_arguments x)))]))"

definition ex_declare_as :: "qt_env \<Rightarrow> qstring \<Rightarrow> 32 word \<Rightarrow> table \<Rightarrow> exchange \<Rightarrow> exchange \<times> effect list" where
  "ex_declare_as q ty opts arg x = ex_declare q (x\<lparr>ex_options := opts, ex_type := ty, ex_arguments := arg\<rparr>)"

definition ex_remove :: "qt_env \<Rightarrow> bool \<Rightarrow> bool \<Rightarrow> exchange \<Rightarrow> effect list" where
  "ex_remove q ifUnused noWait x = [Send (channel_frame x 40 20 (put_be (0 :: 16 word) @ write_s q (ch_name x)
     @ put_be (flag_if ifUnused 1 OR flag_if noWait 2)))]"

definition ex_onOpen :: "qt_env \<Rightarrow> exchange \<Rightarrow> exchange \<times> effect list" where
  "ex_onOpen q x = (if ex_delayedDeclare x then ex_declare q x else (x, []))"

definition ex_onClose :: "qt_env \<Rightarrow> exchange \<Rightarrow> exchange \<times> effect list" where
  "ex_onClose q x = (x, ex_remove q True True x)"

definition ex_method :: "qt_env \<Rightarrow> meth \<Rightarrow> exchange \<Rightarrow> exchange \<times> effect list" where
  "ex_method q f x = (case ch_method (ex_onOpen q) (ex_onClose q) f x of
       Some r \<Rightarrow> r
     | None \<Rightarrow>
         if me_class f \<noteq> 40 then (x, [])
         else if me_id f = 11 then (x\<lparr>ex_declared := True\<rparr>, [Emit SDeclared])
         else if me_id f = 20 then (x\<lparr>ex_declared := False\<rparr>, [Emit SRemoved])
         else (x, []))"

definition ex_disconnected :: "exchange \<Rightarrow> exchange" where
  "ex_disconnected x = (ch_disconnected x)\<lparr>ex_delayedDeclare := False, ex_declared := False\<rparr>"

text \<open>\<open>publish\<close>: the method, the header, and the message in pieces of FRAME_MAX - 7 bytes.\<close>

function body_parts :: "nat \<Rightarrow> bytes \<Rightarrow> bytes list" where
  "body_parts sended m = (if sended < length m then ba_mid sended 131065 m # body_parts (sended + 131065) m else [])"
  by pat_completeness auto
termination
  by (relation "measure (\<lambda>(sended, m). length m - sended)") auto

declare body_parts.simps [simp del]

definition qs :: "string \<Rightarrow> qstring" where
  "qs s = from_latin1 (lit s)"

definition publish_content :: "exchange \<Rightarrow> bytes \<Rightarrow> qstring \<Rightarrow> table \<Rightarrow> (16 word \<times> variant) list \<Rightarrow> content" where
  "publish_content x msg mimeType headers props =
     (let c = (new_content 60)\<lparr>fr_channel := word_of_int (ch_number x)\<rparr>;
          c = setProperty 0x8000 (VString mimeType) c;
          c = setProperty 0x0080 (VString (qs ''utf-8'')) c;
          c = setProperty 0x2000 (VHash headers) c;
          c = setProperty 0x4000 (VString (qs ''0'')) c;
          c = fold (\<lambda>(k, v). setProperty k v) props c
      in c\<lparr>co_body := msg\<rparr>)"

definition publish_body :: "exchange \<Rightarrow> bytes \<Rightarrow> content_body" where
  "publish_body x b = new_body\<lparr>fr_channel := word_of_int (ch_number x), cb_body := b\<rparr>"

definition ex_publish :: "qt_env \<Rightarrow> bytes \<Rightarrow> qstring \<Rightarrow> qstring \<Rightarrow> table \<Rightarrow> (16 word \<times> variant) list \<Rightarrow> exchange \<Rightarrow> effect list" where
  "ex_publish q msg key mimeType headers props x =
     [Send (channel_frame x 60 40 (put_be (0 :: 16 word) @ write_s q (ch_name x) @ write_s q key @ [0])),
      Send (FContent (publish_content x msg mimeType headers props))]
     @ map (\<lambda>b. Send (FBody (publish_body x b))) (body_parts 0 msg)"

text \<open>The overload for text.\<close>

definition ex_publish_text :: "qt_env \<Rightarrow> qstring \<Rightarrow> qstring \<Rightarrow> (16 word \<times> variant) list \<Rightarrow> exchange \<Rightarrow> effect list" where
  "ex_publish_text q msg key props x = ex_publish q (qt_utf8 q msg) key (qs ''text.plain'') [] props x"

text \<open>\<open>Exchange::bind(queue)\<close> binds the queue to itself under its own name as the key.\<close>

definition ex_bind :: "qt_env \<Rightarrow> exchange \<Rightarrow> queue \<Rightarrow> queue \<times> effect list" where
  "ex_bind q x u = qu_bind q (ch_name x) (ch_name x) u"

text \<open>\<open>Queue::bind\<close> and \<open>unbind\<close> with an exchange, which may be null.\<close>

definition qu_bind_exchange :: "qt_env \<Rightarrow> exchange option \<Rightarrow> qstring \<Rightarrow> queue \<Rightarrow> queue \<times> effect list" where
  "qu_bind_exchange q x key u = (case x of None \<Rightarrow> (u, []) | Some x \<Rightarrow> qu_bind q (ch_name x) key u)"

definition qu_unbind_exchange :: "qt_env \<Rightarrow> exchange option \<Rightarrow> qstring \<Rightarrow> queue \<Rightarrow> effect list" where
  "qu_unbind_exchange q x key u = (case x of None \<Rightarrow> [] | Some x \<Rightarrow> qu_unbind q (ch_name x) key u)"

text \<open>\<open>ChannelPrivate::closeOk()\<close>, without the number of its channel; \<open>flow\<close> and \<open>flowOk\<close> do nothing.\<close>

definition ch_send_closeOk :: "effect list" where
  "ch_send_closeOk = [Send (method_frame 20 41 [])]"

end
