(* ===== verification/Amqp_Client.thy ===== *)
theory Amqp_Client
  imports Amqp_Channel
begin

text \<open>
  mod/ext/qamqp, the client: the socket and its reconnection (amqp_network.cpp), the connection class
  of the protocol (amqp_connection.cpp, amqp_authenticator.cpp) and the client that owns them and the
  channels (amqp.cpp). Channels are numbered in the order of their creation; the bytes that the
  socket has received and the client has not taken are kept beside the client.
\<close>

section \<open>Network\<close>

datatype link_state = Unconnected | Connecting | Connected

text \<open>\<open>connectToHost\<close> and \<open>connectToHostEncrypted\<close> are recorded in \<open>nt_calls\<close>, the single-shot
  timers that are set in \<open>nt_timers\<close>.\<close>

record network =
  nt_state :: link_state
  nt_ssl :: bool
  nt_lastHost :: qstring
  nt_lastPort :: "32 word"
  nt_auto :: bool
  nt_timeOut :: int
  nt_connect :: bool
  nt_out :: bytes
  nt_timers :: "int list"
  nt_calls :: "(bool \<times> qstring \<times> 32 word) list"
  nt_methods :: "16 word \<Rightarrow> nat list"
  nt_contents :: "16 word \<Rightarrow> nat list"
  nt_bodies :: "16 word \<Rightarrow> nat list"

text \<open>\<open>autoReconnect_\<close> and \<open>lastPort_\<close> are not initialised: any value.\<close>

definition new_network :: "bool \<Rightarrow> 32 word \<Rightarrow> network" where
  "new_network auto port = \<lparr>nt_state = Unconnected, nt_ssl = False, nt_lastHost = [], nt_lastPort = port, nt_auto = auto,
     nt_timeOut = 1000, nt_connect = False, nt_out = [], nt_timers = [], nt_calls = [],
     nt_methods = (\<lambda>_. []), nt_contents = (\<lambda>_. []), nt_bodies = (\<lambda>_. [])\<rparr>"

text \<open>A socket that is already connecting or connected refuses \<open>connectToHost\<close> with a warning.\<close>

definition net_connectTo :: "qstring \<Rightarrow> 32 word \<Rightarrow> network \<Rightarrow> network" where
  "net_connectTo host port n =
     (let h = (if host = [] then nt_lastHost n else host);
          p = (if port = 0 then nt_lastPort n else port);
          n1 = n\<lparr>nt_connect := True, nt_lastHost := h, nt_lastPort := p\<rparr>
      in if nt_state n = Unconnected then n1\<lparr>nt_state := Connecting, nt_calls := nt_calls n @ [(nt_ssl n, h, p)]\<rparr> else n1)"

definition net_disconnect :: "network \<Rightarrow> network" where
  "net_disconnect n = n\<lparr>nt_connect := False, nt_state := Unconnected\<rparr>"

definition next_timeOut :: "int \<Rightarrow> int" where
  "next_timeOut t = (if t = 0 then 1000 else if t < 120000 then t * 5 else t)"

definition net_error :: "network \<Rightarrow> network" where
  "net_error n =
     (let n1 = n\<lparr>nt_timeOut := next_timeOut (nt_timeOut n)\<rparr> in
      if nt_auto n1 \<and> nt_connect n1 then n1\<lparr>nt_timers := nt_timers n1 @ [nt_timeOut n1]\<rparr> else n1)"

definition net_sendFrame :: "qt_env \<Rightarrow> frame \<Rightarrow> network \<Rightarrow> network" where
  "net_sendFrame q f n = (if nt_state n = Connected then n\<lparr>nt_out := nt_out n @ toStream q f\<rparr> else n)"

definition amqp_header :: bytes where
  "amqp_header = [chr CHR ''A'', chr CHR ''M'', chr CHR ''Q'', chr CHR ''P'', 0, 0, 9, 1]"

text \<open>The socket has connected.\<close>

definition conectionReady :: "network \<Rightarrow> network" where
  "conectionReady n = n\<lparr>nt_state := Connected, nt_timeOut := 0, nt_out := nt_out n @ amqp_header\<rparr>"

text \<open>A new socket replaces the old one.\<close>

definition initSocket :: "bool \<Rightarrow> network \<Rightarrow> network" where
  "initSocket ssl n = n\<lparr>nt_state := Unconnected, nt_ssl := ssl\<rparr>"

definition add_handler :: "16 word \<Rightarrow> nat \<Rightarrow> (16 word \<Rightarrow> nat list) \<Rightarrow> 16 word \<Rightarrow> nat list" where
  "add_handler c i h = h(c := h c @ [i])"

section \<open>Connection\<close>

text \<open>\<open>cn_wired\<close>: its signals are still connected to the client and the channels.\<close>

record connection =
  cn_closed :: bool
  cn_connected :: bool
  cn_interval :: int
  cn_running :: bool
  cn_custom :: table
  cn_wired :: bool

definition new_connection :: connection where
  "new_connection = \<lparr>cn_closed = False, cn_connected = False, cn_interval = 0, cn_running = False, cn_custom = [], cn_wired = True\<rparr>"

text \<open>The authenticator, AMQPlain.\<close>

record plain_auth =
  au_login :: qstring
  au_password :: qstring

definition auth_write :: "qt_env \<Rightarrow> plain_auth \<Rightarrow> bytes" where
  "auth_write q a = write_s q (qs ''AMQPLAIN'')
     @ serialize q (table_set (qs ''PASSWORD'') (VString (au_password a)) (table_set (qs ''LOGIN'') (VString (au_login a)) []))"

datatype chan = CQueue queue | CExchange exchange

record amqp =
  am_port :: "32 word"
  am_host :: qstring
  am_vhost :: qstring
  am_auth :: plain_auth
  am_net :: network
  am_conn :: connection
  am_chans :: "chan list"
  am_counter :: int
  am_log :: "(nat option \<times> signal) list"

definition am_send :: "qt_env \<Rightarrow> frame \<Rightarrow> amqp \<Rightarrow> amqp" where
  "am_send q f a = a\<lparr>am_net := net_sendFrame q f (am_net a)\<rparr>"

definition am_effect :: "qt_env \<Rightarrow> nat \<Rightarrow> effect \<Rightarrow> amqp \<Rightarrow> amqp" where
  "am_effect q i e a = (case e of Send f \<Rightarrow> am_send q f a | Emit s \<Rightarrow> a\<lparr>am_log := am_log a @ [(Some i, s)]\<rparr>)"

text \<open>A channel takes a new state and its effects take place.\<close>

definition am_chan :: "qt_env \<Rightarrow> nat \<Rightarrow> chan \<times> effect list \<Rightarrow> amqp \<Rightarrow> amqp" where
  "am_chan q i r a = fold (am_effect q i) (snd r) (a\<lparr>am_chans := (am_chans a)[i := fst r]\<rparr>)"

definition chan_open :: "bool \<Rightarrow> chan \<Rightarrow> effect list" where
  "chan_open connected c = (case c of CQueue u \<Rightarrow> ch_open connected u | CExchange x \<Rightarrow> ch_open connected x)"

definition chan_disconnected :: "chan \<Rightarrow> chan" where
  "chan_disconnected c = (case c of CQueue u \<Rightarrow> CQueue (ch_disconnected u) | CExchange x \<Rightarrow> CExchange (ex_disconnected x))"

text \<open>The signals \<open>connected\<close> and \<open>disconnected\<close> of the connection: the client passes them on, and the
  channels run \<open>_q_open\<close> and \<open>_q_disconnected\<close> in the order of their creation.\<close>

definition emit_connected :: "qt_env \<Rightarrow> amqp \<Rightarrow> amqp" where
  "emit_connected q a =
     (if cn_wired (am_conn a)
      then fold (\<lambda>i a. fold (am_effect q i) (chan_open (cn_connected (am_conn a)) (am_chans a ! i)) a) [0..<length (am_chans a)]
        (a\<lparr>am_log := am_log a @ [(None, SConnected)]\<rparr>)
      else a)"

definition emit_disconnected :: "amqp \<Rightarrow> amqp" where
  "emit_disconnected a =
     a\<lparr>am_log := am_log a @ [(None, SDisconnected)], am_chans := map chan_disconnected (am_chans a),
       am_counter := (if am_chans a = [] then am_counter a else 0)\<rparr>"

definition conn_disconnected :: "amqp \<Rightarrow> amqp" where
  "conn_disconnected a = (if cn_wired (am_conn a) then emit_disconnected a else a)"

text \<open>What the connection sends.\<close>

definition client_properties :: "qt_env \<Rightarrow> table \<Rightarrow> table" where
  "client_properties q custom =
     [(qs ''version'', VString (qs ''0.2.0'')), (qs ''platform'', VString (qs ''Qt '' @ qt_version q)),
      (qs ''product'', VString (qs ''QAMQP''))] @ custom"

definition startOk :: "qt_env \<Rightarrow> amqp \<Rightarrow> frame" where
  "startOk q a = method_frame 10 11 (serialize q (client_properties q (cn_custom (am_conn a)))
     @ auth_write q (am_auth a) @ write_s q (qs ''en_US''))"

definition tuneOk :: "connection \<Rightarrow> frame" where
  "tuneOk c = method_frame 10 31 (put_be (0 :: 16 word) @ put_be (131072 :: 32 word) @ put_be (word_of_int (cn_interval c div 1000) :: 16 word))"

definition conn_open :: "qt_env \<Rightarrow> qstring \<Rightarrow> frame" where
  "conn_open q vhost = method_frame 10 40 (write_s q vhost @ [0] @ [0])"

definition conn_close :: "qt_env \<Rightarrow> int \<Rightarrow> qstring \<Rightarrow> int \<Rightarrow> int \<Rightarrow> amqp \<Rightarrow> amqp" where
  "conn_close q code txt classId methodId a =
     am_send q (method_frame 10 50 (close_args q (am_vhost a) code txt classId methodId)) a"

text \<open>\<open>Connection::closeOk\<close> calls \<open>disconnect()\<close>, which unhooks every signal, where the signal
  \<open>disconnected()\<close> was meant.\<close>

definition conn_send_closeOk :: "qt_env \<Rightarrow> amqp \<Rightarrow> amqp" where
  "conn_send_closeOk q a = am_send q (method_frame 10 51 []) (a\<lparr>am_conn := (am_conn a)\<lparr>cn_connected := False\<rparr>\<rparr>)"

definition conn_closeOk :: "qt_env \<Rightarrow> amqp \<Rightarrow> amqp" where
  "conn_closeOk q a = (let a1 = conn_send_closeOk q a in a1\<lparr>am_conn := (am_conn a1)\<lparr>cn_wired := False\<rparr>\<rparr>)"

definition conn_setQOS :: "qt_env \<Rightarrow> 32 word \<Rightarrow> 16 word \<Rightarrow> amqp \<Rightarrow> amqp" where
  "conn_setQOS q prefetchSize prefetchCount a =
     am_send q (method_frame 60 10 (put_be prefetchSize @ put_be prefetchCount @ [1])) a"

definition conn_heartbeat :: "qt_env \<Rightarrow> amqp \<Rightarrow> amqp" where
  "conn_heartbeat q a = am_send q (FHeartbeat new_heartbeat) a"

text \<open>What it does on the methods of the peer.\<close>

definition conn_start :: "qt_env \<Rightarrow> amqp \<Rightarrow> amqp" where
  "conn_start q a = am_send q (startOk q a) a"

definition tune_heartbeat :: "bytes \<Rightarrow> 16 word" where
  "tune_heartbeat args = fst (run_state (do { _ \<leftarrow> (get_be :: 16 word reader); _ \<leftarrow> (get_be :: 32 word reader); get_be }) args)"

definition conn_tune :: "qt_env \<Rightarrow> meth \<Rightarrow> amqp \<Rightarrow> amqp" where
  "conn_tune q f a =
     (let i = sint (tune_heartbeat (me_args f)) * 1000;
          a1 = a\<lparr>am_conn := (am_conn a)\<lparr>cn_interval := i, cn_running := (i > 0)\<rparr>\<rparr>
      in am_send q (conn_open q (am_vhost a1)) (am_send q (tuneOk (am_conn a1)) a1))"

definition conn_openOk :: "qt_env \<Rightarrow> amqp \<Rightarrow> amqp" where
  "conn_openOk q a = emit_connected q (a\<lparr>am_conn := (am_conn a)\<lparr>cn_connected := True\<rparr>\<rparr>)"

definition conn_closed :: "amqp \<Rightarrow> amqp" where
  "conn_closed a = conn_disconnected (a\<lparr>am_conn := (am_conn a)\<lparr>cn_connected := False\<rparr>, am_net := net_error (am_net a)\<rparr>)"

definition conn_closedOk :: "amqp \<Rightarrow> amqp" where
  "conn_closedOk a =
     (let a1 = conn_disconnected (a\<lparr>am_conn := (am_conn a)\<lparr>cn_connected := False\<rparr>\<rparr>)
      in a1\<lparr>am_conn := (am_conn a1)\<lparr>cn_running := False\<rparr>\<rparr>)"

definition conn_method :: "qt_env \<Rightarrow> meth \<Rightarrow> amqp \<Rightarrow> amqp" where
  "conn_method q f a =
     (if me_class f \<noteq> 10 then a
      else if cn_closed (am_conn a) then (if me_id f = 51 then conn_closedOk a else a)
      else if me_id f = 10 then conn_start q a
      else if me_id f = 20 then a
      else if me_id f = 30 then conn_tune q f a
      else if me_id f = 41 then conn_openOk q a
      else if me_id f = 50 then conn_closed a
      else if me_id f = 51 then conn_closedOk a
      else a)"

section \<open>Frames of the peer\<close>

definition chan_method :: "qt_env \<Rightarrow> meth \<Rightarrow> chan \<Rightarrow> chan \<times> effect list" where
  "chan_method q f c = (case c of CQueue u \<Rightarrow> apfst CQueue (qu_method q f u) | CExchange x \<Rightarrow> apfst CExchange (ex_method q f x))"

text \<open>Only queues are registered for contents and bodies.\<close>

definition chan_content :: "content \<Rightarrow> chan \<Rightarrow> chan \<times> effect list" where
  "chan_content f c = (case c of CQueue u \<Rightarrow> (CQueue (qu_content f u), []) | CExchange x \<Rightarrow> (c, []))"

definition chan_body :: "content_body \<Rightarrow> chan \<Rightarrow> chan \<times> effect list" where
  "chan_body f c = (case c of CQueue u \<Rightarrow> apfst CQueue (qu_body f u) | CExchange x \<Rightarrow> (c, []))"

definition to_handlers :: "qt_env \<Rightarrow> nat list \<Rightarrow> (chan \<Rightarrow> chan \<times> effect list) \<Rightarrow> amqp \<Rightarrow> amqp" where
  "to_handlers q is g a = fold (\<lambda>i a. am_chan q i (g (am_chans a ! i)) a) is a"

definition am_frame :: "qt_env \<Rightarrow> frame \<Rightarrow> amqp \<Rightarrow> amqp" where
  "am_frame q f a = (case f of
       FMethod m \<Rightarrow> if me_class m = 10 then conn_method q m a
         else to_handlers q (nt_methods (am_net a) (fr_channel m)) (chan_method q m) a
     | FContent c \<Rightarrow> to_handlers q (nt_contents (am_net a) (fr_channel c)) (chan_content c) a
     | FBody b \<Rightarrow> to_handlers q (nt_bodies (am_net a) (fr_channel b)) (chan_body b) a
     | FHeartbeat h \<Rightarrow> a)"

definition am_packet :: "qt_env \<Rightarrow> bytes \<Rightarrow> amqp \<Rightarrow> amqp" where
  "am_packet q p a = (case parse_packet q p of Some f \<Rightarrow> am_frame q f a | None \<Rightarrow> a)"

text \<open>\<open>Network::readyRead\<close>, with the bytes that are left.\<close>

type_synonym amqp_st = "bytes \<times> amqp"

definition readyRead :: "qt_env \<Rightarrow> bytes \<Rightarrow> amqp_st \<Rightarrow> amqp_st" where
  "readyRead q t s = (case cut_all amqp_cut (fst s @ t) of (ps, r, _) \<Rightarrow> (r, fold (am_packet q) ps (snd s)))"

section \<open>Client\<close>

definition new_client_private :: "bool \<Rightarrow> 32 word \<Rightarrow> amqp" where
  "new_client_private auto port =
     \<lparr>am_port = 5672, am_host = qs ''localhost'', am_vhost = qs ''/'', am_auth = \<lparr>au_login = qs ''guest'', au_password = qs ''guest''\<rparr>,
      am_net = new_network auto port, am_conn = new_connection, am_chans = [], am_counter = 0, am_log = []\<rparr>"

definition cl_disconnect :: "amqp \<Rightarrow> amqp" where
  "cl_disconnect a = (if nt_state (am_net a) = Unconnected then a
     else emit_disconnected (a\<lparr>am_net := net_disconnect (am_net a), am_conn := (am_conn a)\<lparr>cn_connected := False\<rparr>\<rparr>))"

definition cl_connect :: "amqp \<Rightarrow> amqp" where
  "cl_connect a = (let a1 = (if nt_state (am_net a) \<noteq> Unconnected then cl_disconnect a else a)
     in a1\<lparr>am_net := net_connectTo (am_host a1) (am_port a1) (am_net a1)\<rparr>)"

definition cl_reopen :: "amqp \<Rightarrow> amqp" where
  "cl_reopen a = cl_connect (cl_disconnect a)"

definition setName :: "qstring \<Rightarrow> 'a channel_scheme \<Rightarrow> 'a channel_scheme" where
  "setName name c = c\<lparr>ch_name := name\<rparr>"

definition createExchange :: "qt_env \<Rightarrow> int \<Rightarrow> qstring \<Rightarrow> amqp \<Rightarrow> amqp" where
  "createExchange q number name a =
     (let i = length (am_chans a);
          (counter, x) = ch_init number (am_counter a) new_exchange;
          n = (am_net a)\<lparr>nt_methods := add_handler (word_of_int (ch_number x)) i (nt_methods (am_net a))\<rparr>;
          a1 = a\<lparr>am_net := n, am_counter := counter, am_chans := am_chans a @ [CExchange (setName name x)]\<rparr>
      in fold (am_effect q i) (ch_open (cn_connected (am_conn a1)) x) a1)"

definition createQueue :: "qt_env \<Rightarrow> int \<Rightarrow> qstring \<Rightarrow> amqp \<Rightarrow> amqp" where
  "createQueue q number name a =
     (let i = length (am_chans a);
          (counter, u) = ch_init number (am_counter a) new_queue;
          c = word_of_int (ch_number u);
          n = (am_net a)\<lparr>nt_methods := add_handler c i (nt_methods (am_net a)),
             nt_contents := add_handler c i (nt_contents (am_net a)), nt_bodies := add_handler c i (nt_bodies (am_net a))\<rparr>;
          a1 = a\<lparr>am_net := n, am_counter := counter, am_chans := am_chans a @ [CQueue (setName name u)]\<rparr>
      in fold (am_effect q i) (ch_open (cn_connected (am_conn a1)) u) a1)"

text \<open>\<open>parseCnnString\<close>. The constructor with a URL calls it before \<open>init\<close> has made the network and the
  authenticator: \<open>setSsl\<close> goes through a null pointer.\<close>

record url =
  url_scheme :: qstring
  url_user :: qstring
  url_password :: qstring
  url_host :: qstring
  url_port :: int
  url_path :: qstring

definition is_amqp_url :: "url \<Rightarrow> bool" where
  "is_amqp_url con \<longleftrightarrow> url_scheme con = qs ''amqp'' \<or> url_scheme con = qs ''amqps''"

definition setSsl :: "bool \<Rightarrow> amqp \<Rightarrow> amqp" where
  "setSsl b a = a\<lparr>am_net := initSocket b (am_net a)\<rparr>"

definition setUser :: "qstring \<Rightarrow> amqp \<Rightarrow> amqp" where
  "setUser u a = a\<lparr>am_auth := (am_auth a)\<lparr>au_login := u\<rparr>\<rparr>"

definition setPassword :: "qstring \<Rightarrow> amqp \<Rightarrow> amqp" where
  "setPassword p a = a\<lparr>am_auth := (am_auth a)\<lparr>au_password := p\<rparr>\<rparr>"

definition setPort :: "32 word \<Rightarrow> amqp \<Rightarrow> amqp" where
  "setPort p a = a\<lparr>am_port := p\<rparr>"

definition setHost :: "qstring \<Rightarrow> amqp \<Rightarrow> amqp" where
  "setHost h a = a\<lparr>am_host := h\<rparr>"

definition setVirtualHost :: "qstring \<Rightarrow> amqp \<Rightarrow> amqp" where
  "setVirtualHost v a = a\<lparr>am_vhost := v\<rparr>"

definition parseCnnString :: "url \<Rightarrow> amqp \<Rightarrow> amqp" where
  "parseCnnString con a =
     (if is_amqp_url con
      then (let a = setSsl (url_scheme con = qs ''amqps'') a;
                a = setPassword (url_password con) a;
                a = setUser (url_user con) a;
                a = setPort (word_of_int (url_port con)) a;
                a = setHost (url_host con) a
            in setVirtualHost (url_path con) a)
      else a)"

lemmas client_setters = setSsl_def setUser_def setPassword_def setPort_def setHost_def setVirtualHost_def

definition new_client_url :: "bool \<Rightarrow> 32 word \<Rightarrow> url \<Rightarrow> amqp outcome" where
  "new_client_url auto port con =
     (if is_amqp_url con then Inl NullDeref else Inr (cl_connect (new_client_private auto port)))"

definition cl_open_url :: "url \<Rightarrow> amqp \<Rightarrow> amqp" where
  "cl_open_url con a = cl_connect (parseCnnString con a)"

definition addCustomProperty :: "qstring \<Rightarrow> qstring \<Rightarrow> amqp \<Rightarrow> amqp" where
  "addCustomProperty name v a = a\<lparr>am_conn := (am_conn a)\<lparr>cn_custom := table_set name (VString v) (cn_custom (am_conn a))\<rparr>\<rparr>"

definition customProperty :: "qt_env \<Rightarrow> qstring \<Rightarrow> amqp \<Rightarrow> qstring" where
  "customProperty q name a = (case map_of (cn_custom (am_conn a)) name of Some v \<Rightarrow> v_toString q v | None \<Rightarrow> [])"

section \<open>What the program can ask\<close>

text \<open>The getters of \<open>Client\<close>; \<open>user\<close> and \<open>password\<close> are those of the AMQPlain authenticator.\<close>

definition cl_port :: "amqp \<Rightarrow> 32 word" where "cl_port a = am_port a"

definition cl_host :: "amqp \<Rightarrow> qstring" where "cl_host a = am_host a"

definition cl_virtualHost :: "amqp \<Rightarrow> qstring" where "cl_virtualHost a = am_vhost a"

definition cl_user :: "amqp \<Rightarrow> qstring" where "cl_user a = au_login (am_auth a)"

definition cl_password :: "amqp \<Rightarrow> qstring" where "cl_password a = au_password (am_auth a)"

definition cl_isSsl :: "amqp \<Rightarrow> bool" where "cl_isSsl a = nt_ssl (am_net a)"

definition cl_autoReconnect :: "amqp \<Rightarrow> bool" where "cl_autoReconnect a = nt_auto (am_net a)"

definition cl_isConnected :: "amqp \<Rightarrow> bool" where "cl_isConnected a = cn_connected (am_conn a)"

definition setAutoReconnect :: "bool \<Rightarrow> amqp \<Rightarrow> amqp" where
  "setAutoReconnect b a = a\<lparr>am_net := (am_net a)\<lparr>nt_auto := b\<rparr>\<rparr>"

text \<open>The client takes another authenticator.\<close>

definition setAuth :: "plain_auth \<Rightarrow> amqp \<Rightarrow> amqp" where
  "setAuth au a = a\<lparr>am_auth := au\<rparr>"

end
