(* ===== verification/Amqp_Steps.thy ===== *)
theory Amqp_Steps
  imports Amqp_Client
begin

text \<open>
  The runs of a client: what the socket, the timers and the program can do to it, as a step relation,
  and what holds in every reachable state. Slots of the program that run inside a signal are steps
  after the one that emits it.
\<close>

section \<open>Calls of the program\<close>

datatype channel_call = CloseChannel | ReopenChannel | SetName qstring | SetQOS "32 word" "16 word"

definition channel_call :: "qt_env \<Rightarrow> qstring \<Rightarrow> bool \<Rightarrow> channel_call \<Rightarrow> 'a channel_scheme \<Rightarrow> 'a channel_scheme \<times> effect list" where
  "channel_call q vhost connected k c = (case k of
       CloseChannel \<Rightarrow> closeChannel q vhost c
     | ReopenChannel \<Rightarrow> ch_reopen q vhost connected c
     | SetName name \<Rightarrow> (setName name c, [])
     | SetQOS n m \<Rightarrow> (c, ch_setQOS c n m))"

datatype queue_call = QDeclare | QDeclareAs qstring "32 word" | QRemove bool bool bool | QPurge | QBind qstring qstring
  | QUnbind qstring qstring | QGet | QAck message | QConsume "32 word" | QConsumerTag qstring | QNoAck bool | QGetMessage
  | QBindExchange "exchange option" qstring | QUnbindExchange "exchange option" qstring | QChannel channel_call

definition queue_call :: "qt_env \<Rightarrow> qstring \<Rightarrow> bool \<Rightarrow> queue_call \<Rightarrow> queue \<Rightarrow> (queue \<times> effect list) outcome" where
  "queue_call q vhost connected k u = (case k of
       QDeclare \<Rightarrow> Inr (qu_declare_default q u)
     | QDeclareAs name opts \<Rightarrow> Inr (qu_declare_as q name opts u)
     | QRemove a b c \<Rightarrow> Inr (u, qu_remove q a b c u)
     | QPurge \<Rightarrow> Inr (u, qu_purge q u)
     | QBind x key \<Rightarrow> Inr (qu_bind q x key u)
     | QUnbind x key \<Rightarrow> Inr (u, qu_unbind q x key u)
     | QBindExchange x key \<Rightarrow> Inr (qu_bind_exchange q x key u)
     | QUnbindExchange x key \<Rightarrow> Inr (u, qu_unbind_exchange q x key u)
     | QGet \<Rightarrow> Inr (u, qu_get q u)
     | QAck m \<Rightarrow> Inr (u, qu_ack m u)
     | QConsume opts \<Rightarrow> Inr (u, qu_consume q opts u)
     | QConsumerTag tag \<Rightarrow> Inr (u\<lparr>qu_consumerTag := tag\<rparr>, [])
     | QNoAck b \<Rightarrow> Inr (u\<lparr>qu_noAck := b\<rparr>, [])
     | QGetMessage \<Rightarrow> map_out (\<lambda>(u', m). (u', [])) (qu_getMessage u)
     | QChannel k \<Rightarrow> Inr (channel_call q vhost connected k u))"

datatype exchange_call = XDeclare qstring "32 word" table | XRemove bool bool
  | XPublish bytes qstring qstring table "(16 word \<times> variant) list"
  | XPublishText qstring qstring "(16 word \<times> variant) list" | XBindName qstring "qstring option" | XChannel channel_call

definition exchange_call :: "qt_env \<Rightarrow> qstring \<Rightarrow> bool \<Rightarrow> exchange_call \<Rightarrow> exchange \<Rightarrow> exchange \<times> effect list" where
  "exchange_call q vhost connected k x = (case k of
       XDeclare ty opts arg \<Rightarrow> ex_declare_as q ty opts arg x
     | XRemove a b \<Rightarrow> (x, ex_remove q a b x)
     | XPublish msg key mime headers props \<Rightarrow> (x, ex_publish q msg key mime headers props x)
     | XPublishText msg key props \<Rightarrow> (x, ex_publish_text q msg key props x)
     | XBindName name key \<Rightarrow> (x, [])
     | XChannel k \<Rightarrow> channel_call q vhost connected k x)"

datatype client_call = ClOpen | ClOpenUrl url | ClClose | ClReopen | ClCreateQueue int qstring | ClCreateExchange int qstring
  | ClAutoReconnect bool | ClAuth plain_auth | ClSsl bool | ClUser qstring | ClPassword qstring | ClPort "32 word" | ClHost qstring | ClVirtualHost qstring | ClProperty qstring qstring | ClConnClose int qstring int int | ClConnCloseOk
  | ClConnQOS "32 word" "16 word"

definition client_call :: "qt_env \<Rightarrow> client_call \<Rightarrow> amqp \<Rightarrow> amqp" where
  "client_call q k a = (case k of
       ClOpen \<Rightarrow> cl_connect a
     | ClOpenUrl con \<Rightarrow> cl_open_url con a
     | ClClose \<Rightarrow> cl_disconnect a
     | ClReopen \<Rightarrow> cl_reopen a
     | ClCreateQueue n name \<Rightarrow> createQueue q n name a
     | ClCreateExchange n name \<Rightarrow> createExchange q n name a
     | ClAutoReconnect b \<Rightarrow> setAutoReconnect b a
     | ClAuth au \<Rightarrow> setAuth au a
     | ClSsl b \<Rightarrow> setSsl b a
     | ClUser u \<Rightarrow> setUser u a
     | ClPassword p \<Rightarrow> setPassword p a
     | ClPort p \<Rightarrow> setPort p a
     | ClHost h \<Rightarrow> setHost h a
     | ClVirtualHost v \<Rightarrow> setVirtualHost v a
     | ClProperty name v \<Rightarrow> addCustomProperty name v a
     | ClConnClose code txt c i \<Rightarrow> conn_close q code txt c i a
     | ClConnCloseOk \<Rightarrow> conn_closeOk q a
     | ClConnQOS n m \<Rightarrow> conn_setQOS q n m a)"

section \<open>Steps\<close>

inductive amqp_step :: "qt_env \<Rightarrow> amqp_st \<Rightarrow> amqp_st \<Rightarrow> bool" for q where
  sock_connected: "nt_state (am_net a) = Connecting \<Longrightarrow> amqp_step q (b, a) ([], a\<lparr>am_net := conectionReady (am_net a)\<rparr>)"
| sock_read: "nt_state (am_net a) = Connected \<Longrightarrow> amqp_step q (b, a) (readyRead q t (b, a))"
| sock_error: "nt_state (am_net a) \<noteq> Unconnected \<Longrightarrow>
    amqp_step q (b, a) ([], a\<lparr>am_net := net_error ((am_net a)\<lparr>nt_state := Unconnected\<rparr>)\<rparr>)"
| timer: "t \<in> set (nt_timers (am_net a)) \<Longrightarrow>
    amqp_step q (b, a) (b, a\<lparr>am_net := net_connectTo [] 0 ((am_net a)\<lparr>nt_timers := remove1 t (nt_timers (am_net a))\<rparr>)\<rparr>)"
| heartbeat: "cn_running (am_conn a) \<Longrightarrow> amqp_step q (b, a) (b, conn_heartbeat q a)"
| client: "a' = client_call q k a \<Longrightarrow> amqp_step q (b, a) (if nt_state (am_net a') = Connected then b else [], a')"
| queue: "i < length (am_chans a) \<Longrightarrow> am_chans a ! i = CQueue u \<Longrightarrow>
    queue_call q (am_vhost a) (cn_connected (am_conn a)) k u = Inr (u', e) \<Longrightarrow>
    amqp_step q (b, a) (b, am_chan q i (CQueue u', e) a)"
| exchange: "i < length (am_chans a) \<Longrightarrow> am_chans a ! i = CExchange x \<Longrightarrow>
    exchange_call q (am_vhost a) (cn_connected (am_conn a)) k x = (x', e) \<Longrightarrow>
    amqp_step q (b, a) (b, am_chan q i (CExchange x', e) a)"

inductive amqp_reach :: "qt_env \<Rightarrow> amqp_st \<Rightarrow> bool" for q where
  start: "amqp_reach q ([], new_client_private auto port)"
| step: "amqp_reach q s \<Longrightarrow> amqp_step q s s' \<Longrightarrow> amqp_reach q s'"

text \<open>An invariant: what holds of a new client and is kept by every step.\<close>

lemma reach_invariant:
  assumes "amqp_reach q s" "\<And>auto port. P (new_client_private auto port)"
    and "\<And>b a b' a'. P a \<Longrightarrow> amqp_step q (b, a) (b', a') \<Longrightarrow> P a'"
  shows "P (snd s)"
  using assms(1)
proof (induction rule: amqp_reach.induct)
  case (step s s')
  then show ?case using assms(3) [of "snd s" "fst s" "fst s'" "snd s'"] by simp
qed (simp add: assms(2))

section \<open>Effects\<close>

definition sent_frames :: "effect list \<Rightarrow> frame list" where
  "sent_frames es = List.map_filter (\<lambda>e. case e of Send f \<Rightarrow> Some f | Emit s \<Rightarrow> None) es"

definition emitted :: "effect list \<Rightarrow> signal list" where
  "emitted es = List.map_filter (\<lambda>e. case e of Send f \<Rightarrow> None | Emit s \<Rightarrow> Some s) es"

lemma sent_frames_simps [simp]:
  "sent_frames [] = []" "sent_frames (Send f # es) = f # sent_frames es" "sent_frames (Emit s # es) = sent_frames es"
  "sent_frames (xs @ ys) = sent_frames xs @ sent_frames ys"
  by (simp_all add: sent_frames_def map_filter_def)

lemma emitted_simps [simp]:
  "emitted [] = []" "emitted (Send f # es) = emitted es" "emitted (Emit s # es) = s # emitted es"
  "emitted (xs @ ys) = emitted xs @ emitted ys"
  by (simp_all add: emitted_def map_filter_def)

definition out_bytes :: "qt_env \<Rightarrow> network \<Rightarrow> frame list \<Rightarrow> bytes" where
  "out_bytes q n fs = (if nt_state n = Connected then concat (map (toStream q) fs) else [])"

text \<open>What a list of effects does as a whole: it writes and logs, nothing else.\<close>

lemma am_effects:
  "fold (am_effect q i) es a =
     a\<lparr>am_net := (am_net a)\<lparr>nt_out := nt_out (am_net a) @ out_bytes q (am_net a) (sent_frames es)\<rparr>,
       am_log := am_log a @ map (Pair (Some i)) (emitted es)\<rparr>"
proof (induction es arbitrary: a)
  case (Cons e es)
  then show ?case
    by (cases e) (simp_all add: am_effect_def am_send_def net_sendFrame_def out_bytes_def)
qed (simp add: out_bytes_def)

section \<open>What no step but the creation of a channel changes\<close>

fun shape :: "chan \<Rightarrow> bool \<times> int" where
  "shape (CQueue u) = (True, ch_number u)"
| "shape (CExchange x) = (False, ch_number x)"

definition delays :: "int set" where
  "delays = {1000, 5000, 25000, 125000}"

definition net_ok :: "network \<Rightarrow> bool" where
  "net_ok n \<longleftrightarrow> nt_timeOut n \<in> insert 0 delays \<and> set (nt_timers n) \<subseteq> delays"

definition calm :: "amqp \<Rightarrow> amqp \<Rightarrow> bool" where
  "calm a b \<longleftrightarrow> map shape (am_chans b) = map shape (am_chans a)
     \<and> nt_methods (am_net b) = nt_methods (am_net a) \<and> nt_contents (am_net b) = nt_contents (am_net a)
     \<and> nt_bodies (am_net b) = nt_bodies (am_net a) \<and> (net_ok (am_net a) \<longrightarrow> net_ok (am_net b))
     \<and> (0 \<le> am_counter a \<longrightarrow> 0 \<le> am_counter b)"

lemma calm_refl [simp]: "calm a a"
  by (simp add: calm_def)

lemma calm_trans: "calm a b \<Longrightarrow> calm b c \<Longrightarrow> calm a c"
  by (simp add: calm_def)

lemma calm_fold: "(\<And>x b. calm b (f x b)) \<Longrightarrow> calm a (fold f xs a)"
  by (induction xs arbitrary: a) (auto intro: calm_trans)

text \<open>The network operations keep the delays.\<close>

lemma net_ok_ops:
  "net_ok n \<Longrightarrow> net_ok (net_error n)" "net_ok n \<Longrightarrow> net_ok (net_connectTo h p n)"
  "net_ok n \<Longrightarrow> net_ok (conectionReady n)" "net_ok n \<Longrightarrow> net_ok (initSocket b n)"
  "net_ok n \<Longrightarrow> net_ok (net_disconnect n)" "net_ok (n\<lparr>nt_out := x\<rparr>) = net_ok n"
  by (auto simp: net_ok_def net_error_def next_timeOut_def delays_def net_connectTo_def conectionReady_def
      initSocket_def net_disconnect_def Let_def)

lemma net_handlers:
  "nt_methods (net_error n) = nt_methods n" "nt_contents (net_error n) = nt_contents n" "nt_bodies (net_error n) = nt_bodies n"
  "nt_methods (net_connectTo h p n) = nt_methods n" "nt_contents (net_connectTo h p n) = nt_contents n"
  "nt_bodies (net_connectTo h p n) = nt_bodies n"
  by (simp_all add: net_error_def net_connectTo_def Let_def)

lemmas net_plain = conectionReady_def initSocket_def net_disconnect_def

lemma calm_send: "calm a (am_send q f a)"
  by (simp add: calm_def am_send_def net_sendFrame_def net_ok_ops)

lemma calm_effects: "calm a (fold (am_effect q i) es a)"
  by (simp add: am_effects calm_def net_ok_ops)

lemma calm_net: "(net_ok (am_net a) \<Longrightarrow> net_ok n) \<Longrightarrow> nt_methods n = nt_methods (am_net a) \<Longrightarrow>
    nt_contents n = nt_contents (am_net a) \<Longrightarrow> nt_bodies n = nt_bodies (am_net a) \<Longrightarrow> calm a (a\<lparr>am_net := n\<rparr>)"
  by (simp add: calm_def)

text \<open>Channels keep their kind and number.\<close>

definition declare_frame :: "qt_env \<Rightarrow> queue \<Rightarrow> frame" where
  "declare_frame q u = channel_frame u 50 10
     (put_be (0 :: 16 word) @ write_s q (ch_name u) @ put_be (ucast (qu_options u) :: 8 word) @ write_F q [])"

definition bind_frame :: "qt_env \<Rightarrow> queue \<Rightarrow> qstring \<times> qstring \<Rightarrow> frame" where
  "bind_frame q u b = channel_frame u 50 20 (put_be (0 :: 16 word) @ write_s q (ch_name u) @ write_s q (fst b)
     @ write_s q (snd b) @ [0] @ write_F q [])"

lemma qu_binds_open: "ch_opened u \<Longrightarrow>
    fold (\<lambda>(x, k) (u, e). case qu_bind q x k u of (u', e') \<Rightarrow> (u', e @ e')) bs (u, e)
    = (u, e @ map (Send \<circ> bind_frame q u) bs)"
  by (induction bs arbitrary: e) (auto simp: qu_bind_def bind_frame_def)

lemma bind_frame_update: "bind_frame q (u\<lparr>qu_delayedDeclare := d\<rparr>) = bind_frame q u"
  by (rule ext) (simp add: bind_frame_def channel_frame_def)

text \<open>On an open channel \<open>onOpen\<close> sends what was delayed, once and in order.\<close>

lemma qu_onOpen_eq:
  assumes "ch_opened u"
  shows "qu_onOpen q u = (u\<lparr>qu_delayedDeclare := False, qu_delayedBindings := []\<rparr>,
    (if qu_delayedDeclare u then [Send (declare_frame q u)] else []) @ map (Send \<circ> bind_frame q u) (qu_delayedBindings u))"
proof -
  obtain u1 e1 where u1: "(if qu_delayedDeclare u then qu_declare q u else (u, [])) = (u1, e1)" by force
  then have 1: "u1 = u\<lparr>qu_delayedDeclare := False\<rparr>" "e1 = (if qu_delayedDeclare u then [Send (declare_frame q u)] else [])"
    using assms by (auto simp: qu_declare_def declare_frame_def split: if_splits)
  have "u = u\<lparr>qu_delayedBindings := []\<rparr>" if "qu_delayedBindings u = []"
    using that by (cases u) simp
  then have "(if qu_delayedBindings u1 \<noteq> [] then u1\<lparr>qu_delayedBindings := []\<rparr> else u1)
      = u\<lparr>qu_delayedDeclare := False, qu_delayedBindings := []\<rparr>"
    by (cases u) (simp add: 1(1))
  moreover have "ch_opened u1" using assms 1 by simp
  ultimately show ?thesis
    unfolding qu_onOpen_def u1 Let_def prod.case
    by (simp add: qu_binds_open) (simp add: 1 bind_frame_update)
qed

named_theorems keeps_number \<comment> \<open>operations that keep the number of a channel\<close>

lemma ch_method_number:
  assumes "\<And>c. ch_opened c \<Longrightarrow> ch_number (fst (on_open c)) = ch_number c" "\<And>c. ch_number (fst (on_close c)) = ch_number c"
    and "ch_method on_open on_close f c = Some r"
  shows "ch_number (fst r) = ch_number c"
  using assms(3) assms(1) [of "c\<lparr>ch_opened := True\<rparr>"] assms(2) [of c]
  by (auto simp: ch_method_def ch_openOk_def ch_closed_def ch_closeOk_def split: if_splits prod.splits)

lemma hooks_number [keeps_number]:
  "ch_opened u \<Longrightarrow> ch_number (fst (qu_onOpen q u)) = ch_number u" "ch_number (fst (qu_onClose q u)) = ch_number u"
  "ch_number (fst (ex_onOpen q x)) = ch_number x" "ch_number (fst (ex_onClose q x)) = ch_number x"
  by (simp_all add: qu_onOpen_eq qu_onClose_def ex_onOpen_def ex_declare_def ex_onClose_def)

lemma qu_method_number [keeps_number]: "ch_number (fst (qu_method q f u)) = ch_number u"
proof (cases "ch_method (qu_onOpen q) (qu_onClose q) f u")
  case None
  then show ?thesis
    by (simp add: qu_method_def qu_declareOk_def qu_deleteOk_def qu_consumeOk_def qu_deliver_def qu_getOk_def
        split: prod.splits)
next
  case (Some r)
  then show ?thesis
    using ch_method_number [of "qu_onOpen q" "qu_onClose q" f u r] by (simp add: qu_method_def keeps_number)
qed

lemma ex_method_number [keeps_number]: "ch_number (fst (ex_method q f x)) = ch_number x"
proof (cases "ch_method (ex_onOpen q) (ex_onClose q) f x")
  case (Some r)
  then show ?thesis
    using ch_method_number [of "ex_onOpen q" "ex_onClose q" f x r] by (simp add: ex_method_def keeps_number)
qed (simp add: ex_method_def)

lemma chan_handlers_shape:
  "shape (fst (chan_method q m c)) = shape c" "shape (fst (chan_content d c)) = shape c" "shape (fst (chan_body b c)) = shape c"
  by (cases c; simp add: chan_method_def chan_content_def chan_body_def qu_content_def qu_body_def Let_def keeps_number)+

lemma channel_call_number [keeps_number]: "ch_number (fst (channel_call q vhost cn k c)) = ch_number c"
  by (cases k) (simp_all add: channel_call_def closeChannel_def ch_reopen_def setName_def Let_def)

lemma queue_call_number: "queue_call q vhost cn k u = Inr r \<Longrightarrow> ch_number (fst r) = ch_number u"
  by (cases k) (auto simp: queue_call_def qu_declare_default_def qu_declare_as_def qu_declare_def qu_bind_def
      qu_bind_exchange_def qu_getMessage_def keeps_number split: list.splits option.splits)

lemma exchange_call_number [keeps_number]: "ch_number (fst (exchange_call q vhost cn k x)) = ch_number x"
  by (cases k) (simp_all add: exchange_call_def ex_declare_as_def ex_declare_def keeps_number)

section \<open>The client keeps shape and delays\<close>

lemma calm_chan: "shape (fst r) = shape (am_chans a ! i) \<Longrightarrow> calm a (am_chan q i r a)"
proof -
  assume s: "shape (fst r) = shape (am_chans a ! i)"
  have "map shape ((am_chans a)[i := fst r]) = map shape (am_chans a)"
    by (cases "i < length (am_chans a)") (simp_all add: map_update s list_update_same_conv list_update_beyond)
  then have "calm a (a\<lparr>am_chans := (am_chans a)[i := fst r]\<rparr>)" by (simp add: calm_def)
  then show ?thesis unfolding am_chan_def by (rule calm_trans [OF _ calm_effects])
qed

lemma calm_to_handlers: "(\<And>c. shape (fst (g c)) = shape c) \<Longrightarrow> calm a (to_handlers q is g a)"
  unfolding to_handlers_def by (intro calm_fold calm_chan) simp

lemma shape_disconnected: "shape (chan_disconnected c) = shape c"
  by (cases c) (simp_all add: chan_disconnected_def ch_disconnected_def ex_disconnected_def)

lemma calm_emit: "calm a (emit_connected q a)" "calm a (emit_disconnected a)" "calm a (conn_disconnected a)"
proof -
  have "calm (a\<lparr>am_log := l\<rparr>) (fold f xs (a\<lparr>am_log := l\<rparr>)) \<Longrightarrow> calm a (fold f xs (a\<lparr>am_log := l\<rparr>))" for l f and xs :: "nat list"
    by (simp add: calm_def)
  then show "calm a (emit_connected q a)" by (simp add: emit_connected_def calm_fold calm_effects)
  show d: "calm a (emit_disconnected a)" for a by (simp add: emit_disconnected_def calm_def shape_disconnected comp_def)
  show "calm a (conn_disconnected a)" by (simp add: conn_disconnected_def d)
qed

lemma calm_conn: "calm (a\<lparr>am_conn := c\<rparr>) b \<Longrightarrow> calm a b" "calm b (a\<lparr>am_conn := c\<rparr>) = calm b a"
  by (simp_all add: calm_def)

lemma calm_conn_method: "calm a (conn_method q f a)"
proof -
  have "calm a (conn_closed a)" for a
  proof -
    have "calm a (a\<lparr>am_conn := c, am_net := net_error (am_net a)\<rparr>)" for c
      by (simp add: calm_def net_ok_ops net_handlers)
    then show ?thesis unfolding conn_closed_def by (rule calm_trans) (rule calm_emit)
  qed
  moreover have "calm a (conn_closedOk a)"
    unfolding conn_closedOk_def Let_def calm_conn(2) by (rule calm_conn(1)) (rule calm_emit)
  moreover have "calm a (conn_openOk q a)"
    unfolding conn_openOk_def by (rule calm_conn(1)) (rule calm_emit)
  moreover have "calm a (conn_tune q f a)"
    unfolding conn_tune_def Let_def by (rule calm_conn(1), rule calm_trans) (rule calm_send)+
  ultimately show ?thesis by (simp add: conn_method_def conn_start_def calm_send)
qed

lemma calm_packet: "calm a (am_packet q p a)"
  by (auto simp: am_packet_def am_frame_def calm_conn_method calm_to_handlers chan_handlers_shape
      split: option.splits frame.splits)

lemma calm_readyRead: "calm (snd s) (snd (readyRead q t s))"
  by (auto simp: readyRead_def calm_fold calm_packet split: prod.splits)

section \<open>Handlers\<close>

text \<open>The channels of a number, in the order of their creation; and the queues among them.\<close>

definition numbered :: "(bool \<times> int \<Rightarrow> bool) \<Rightarrow> (bool \<times> int) list \<Rightarrow> 16 word \<Rightarrow> nat list" where
  "numbered P sh c = filter (\<lambda>i. P (sh ! i) \<and> word_of_int (snd (sh ! i)) = c) [0..<length sh]"

definition handlers_ok :: "amqp \<Rightarrow> bool" where
  "handlers_ok a \<longleftrightarrow> (let sh = map shape (am_chans a) in
     nt_methods (am_net a) = numbered (\<lambda>_. True) sh \<and> nt_contents (am_net a) = numbered fst sh
     \<and> nt_bodies (am_net a) = numbered fst sh)"

lemma calm_handlers: "calm a b \<Longrightarrow> handlers_ok b = handlers_ok a"
  by (simp add: calm_def handlers_ok_def)

lemma numbered_append: "numbered P (sh @ [x]) c = numbered P sh c @ (if P x \<and> word_of_int (snd x) = c then [length sh] else [])"
proof -
  have "filter (\<lambda>i. P ((sh @ [x]) ! i) \<and> word_of_int (snd ((sh @ [x]) ! i)) = c) [0..<length sh] = numbered P sh c"
    unfolding numbered_def by (rule filter_cong) simp_all
  then show ?thesis by (simp add: numbered_def)
qed

lemma add_handler_numbered:
  "P x \<Longrightarrow> add_handler (word_of_int (snd x)) (length sh) (numbered P sh) = numbered P (sh @ [x])"
  by (rule ext) (simp add: add_handler_def numbered_append)

text \<open>A new channel.\<close>

definition created :: "chan \<Rightarrow> int \<Rightarrow> network \<Rightarrow> amqp \<Rightarrow> amqp" where
  "created c counter n a = a\<lparr>am_net := n, am_counter := counter, am_chans := am_chans a @ [c]\<rparr>"

lemma created_handlers:
  assumes "handlers_ok a" "i = length (am_chans a)" "w = word_of_int (snd (shape c))"
    and "nt_methods n = add_handler w i (nt_methods (am_net a))"
    and "if fst (shape c) then nt_contents n = add_handler w i (nt_contents (am_net a)) \<and> nt_bodies n = add_handler w i (nt_bodies (am_net a))
      else nt_contents n = nt_contents (am_net a) \<and> nt_bodies n = nt_bodies (am_net a)"
  shows "handlers_ok (created c counter n a)"
proof -
  let ?sh = "map shape (am_chans a)"
  have i: "i = length ?sh" using assms(2) by simp
  have no: "numbered fst (?sh @ [shape c]) = numbered fst ?sh" if "\<not> fst (shape c)"
    by (rule ext) (simp add: numbered_append that)
  show ?thesis
    using assms(1,4,5) add_handler_numbered [of "\<lambda>_. True" "shape c" ?sh] add_handler_numbered [of fst "shape c" ?sh] no
    by (simp add: handlers_ok_def created_def i assms(3) Let_def split: if_splits)
qed

lemma ch_init_counter: "ch_init n k c = (k', c') \<Longrightarrow> 0 \<le> k \<Longrightarrow> 0 \<le> k'"
  by (auto simp: ch_init_def Let_def)

lemma createExchange_created:
  obtains x k n where "calm (created (CExchange x) k n a) (createExchange q number name a)"
    "nt_methods n = add_handler (word_of_int (ch_number x)) (length (am_chans a)) (nt_methods (am_net a))"
    "nt_contents n = nt_contents (am_net a)" "nt_bodies n = nt_bodies (am_net a)" "net_ok n = net_ok (am_net a)"
    "0 \<le> am_counter a \<longrightarrow> 0 \<le> k"
proof -
  obtain k x where x: "ch_init number (am_counter a) new_exchange = (k, x)" by force
  show thesis
    by (rule that [of "setName name x" k "(am_net a)\<lparr>nt_methods := add_handler (word_of_int (ch_number x))
          (length (am_chans a)) (nt_methods (am_net a))\<rparr>"])
      (simp_all add: createExchange_def x Let_def setName_def net_ok_def ch_init_counter [OF x],
        simp add: created_def calm_effects)
qed

lemma createQueue_created:
  obtains u k n where "calm (created (CQueue u) k n a) (createQueue q number name a)"
    "nt_methods n = add_handler (word_of_int (ch_number u)) (length (am_chans a)) (nt_methods (am_net a))"
    "nt_contents n = add_handler (word_of_int (ch_number u)) (length (am_chans a)) (nt_contents (am_net a))"
    "nt_bodies n = add_handler (word_of_int (ch_number u)) (length (am_chans a)) (nt_bodies (am_net a))"
    "net_ok n = net_ok (am_net a)"
    "0 \<le> am_counter a \<longrightarrow> 0 \<le> k"
proof -
  obtain k u where u: "ch_init number (am_counter a) new_queue = (k, u)" by force
  show thesis
    by (rule that [of "setName name u" k "(am_net a)\<lparr>
          nt_methods := add_handler (word_of_int (ch_number u)) (length (am_chans a)) (nt_methods (am_net a)),
          nt_contents := add_handler (word_of_int (ch_number u)) (length (am_chans a)) (nt_contents (am_net a)),
          nt_bodies := add_handler (word_of_int (ch_number u)) (length (am_chans a)) (nt_bodies (am_net a))\<rparr>"])
      (simp_all add: createQueue_def u Let_def setName_def net_ok_def ch_init_counter [OF u],
        simp add: created_def calm_effects)
qed

lemma cl_disconnect_calm: "calm a (cl_disconnect a)"
proof -
  have "calm a (a\<lparr>am_net := net_disconnect (am_net a), am_conn := c\<rparr>)" for c
    by (simp add: calm_def net_ok_ops net_plain net_ok_def)
  then show ?thesis unfolding cl_disconnect_def by (auto intro: calm_trans calm_emit)
qed

lemma cl_connect_calm: "calm a (cl_connect a)"
proof -
  have "calm b (b\<lparr>am_net := net_connectTo h p (am_net b)\<rparr>)" for b h p
    by (rule calm_net) (simp_all add: net_ok_ops net_handlers)
  then show ?thesis unfolding cl_connect_def Let_def by (auto intro: calm_trans cl_disconnect_calm)
qed

lemma parseCnnString_calm: "calm a (parseCnnString con a)"
  by (simp add: parseCnnString_def client_setters Let_def calm_def net_plain net_ok_def)

definition amqp_ok :: "amqp \<Rightarrow> bool" where
  "amqp_ok a \<longleftrightarrow> handlers_ok a \<and> net_ok (am_net a) \<and> 0 \<le> am_counter a"

lemma calm_ok: "calm a b \<Longrightarrow> amqp_ok a \<Longrightarrow> amqp_ok b"
  using calm_handlers [of a b] by (simp add: calm_def amqp_ok_def)

lemma client_call_keeps:
  assumes "amqp_ok a"
  shows "amqp_ok (client_call q k a)"
proof -
  have calm: "amqp_ok b" if "calm a b" for b
    using that assms by (rule calm_ok)
  show ?thesis
  proof (cases k)
    case (ClCreateQueue m name)
    obtain u c n where n: "calm (created (CQueue u) c n a) (createQueue q m name a)"
      "nt_methods n = add_handler (word_of_int (ch_number u)) (length (am_chans a)) (nt_methods (am_net a))"
      "nt_contents n = add_handler (word_of_int (ch_number u)) (length (am_chans a)) (nt_contents (am_net a))"
      "nt_bodies n = add_handler (word_of_int (ch_number u)) (length (am_chans a)) (nt_bodies (am_net a))"
      "net_ok n = net_ok (am_net a)" "0 \<le> am_counter a \<longrightarrow> 0 \<le> c" by (rule createQueue_created)
    have "handlers_ok (created (CQueue u) c n a)" using assms n by (intro created_handlers) (simp_all add: amqp_ok_def)
    with calm_ok [OF n(1)] assms n(5,6) ClCreateQueue show ?thesis by (simp add: client_call_def created_def amqp_ok_def handlers_ok_def)
  next
    case (ClCreateExchange m name)
    obtain x c n where n: "calm (created (CExchange x) c n a) (createExchange q m name a)"
      "nt_methods n = add_handler (word_of_int (ch_number x)) (length (am_chans a)) (nt_methods (am_net a))"
      "nt_contents n = nt_contents (am_net a)" "nt_bodies n = nt_bodies (am_net a)" "net_ok n = net_ok (am_net a)"
      "0 \<le> am_counter a \<longrightarrow> 0 \<le> c" by (rule createExchange_created)
    have "handlers_ok (created (CExchange x) c n a)" using assms n by (intro created_handlers) (simp_all add: amqp_ok_def)
    with calm_ok [OF n(1)] assms n(5,6) ClCreateExchange show ?thesis by (simp add: client_call_def created_def amqp_ok_def handlers_ok_def)
  next
    case (ClOpenUrl con)
    with calm [OF calm_trans [OF parseCnnString_calm cl_connect_calm]] show ?thesis
      by (simp add: client_call_def cl_open_url_def)
  next
    case ClReopen
    with calm [OF calm_trans [OF cl_disconnect_calm cl_connect_calm]] show ?thesis
      by (simp add: client_call_def cl_reopen_def)
  next
    case (ClConnCloseOk)
    then have "calm a (client_call q k a)" by (simp add: client_call_def conn_closeOk_def conn_send_closeOk_def Let_def calm_conn(2))
        (rule calm_conn(1), rule calm_send)
    then show ?thesis by (rule calm)
  qed (use calm [OF cl_disconnect_calm] calm [OF cl_connect_calm] calm [OF calm_send] assms in
    \<open>simp_all add: client_call_def conn_close_def conn_setQOS_def addCustomProperty_def setAutoReconnect_def setAuth_def client_setters amqp_ok_def handlers_ok_def net_plain net_ok_def\<close>)
qed

inductive_cases amqp_stepE [consumes 1, case_names sock_connected sock_read sock_error timer heartbeat client queue exchange]:
  "amqp_step q (b, a) (b', a')"

lemma step_keeps:
  assumes "amqp_ok a" "amqp_step q (b, a) (b', a')"
  shows "amqp_ok a'"
proof -
  have calm: "amqp_ok c" if "calm a c" for c
    using that assms(1) by (rule calm_ok)
  from assms(2) show ?thesis
  proof (cases rule: amqp_stepE)
    case sock_connected
    then show ?thesis using assms(1) by (simp add: amqp_ok_def handlers_ok_def net_ok_ops) (simp add: conectionReady_def)
  next
    case (sock_read t)
    have "calm a a'" using calm_readyRead [of "(b, a)" q t] sock_read(1) by (metis snd_conv)
    then show ?thesis by (rule calm)
  next
    case sock_error
    then show ?thesis using assms(1) net_ok_ops(1) [of "(am_net a)\<lparr>nt_state := Unconnected\<rparr>"]
      by (simp add: amqp_ok_def handlers_ok_def net_handlers net_ok_def)
  next
    case (timer t)
    have "net_ok ((am_net a)\<lparr>nt_timers := remove1 t (nt_timers (am_net a))\<rparr>)"
      using assms(1) set_remove1_subset [of t "nt_timers (am_net a)"] by (auto simp: amqp_ok_def net_ok_def)
    then show ?thesis using timer assms(1) net_ok_ops(2) by (simp add: amqp_ok_def handlers_ok_def net_handlers)
  next
    case heartbeat
    then show ?thesis using calm [OF calm_send] by (simp add: conn_heartbeat_def)
  next
    case (client k)
    then show ?thesis using client_call_keeps [OF assms(1)] by simp
  next
    case (queue i u k u' e)
    then have "ch_number u' = ch_number u" using queue_call_number by fastforce
    with queue calm [OF calm_chan] show ?thesis by simp
  next
    case (exchange i x k x' e)
    then have "ch_number x' = ch_number x" using exchange_call_number by (metis fst_conv)
    with exchange calm [OF calm_chan] show ?thesis by simp
  qed
qed

lemma reach_ok: "amqp_reach q s \<Longrightarrow> amqp_ok (snd s)"
proof (rule reach_invariant)
  show "amqp_ok (new_client_private auto port)" for auto port
    by (simp add: new_client_private_def new_network_def amqp_ok_def handlers_ok_def numbered_def [abs_def] net_ok_def delays_def)
  show "amqp_ok a'" if "amqp_ok a" "amqp_step q (b, a) (b', a')" for b a b' a'
    using that by (rule step_keeps)
qed

end
