(* ===== verification/Amqp_Delivery.thy ===== *)
theory Amqp_Delivery
  imports Amqp_Steps Amqp_Frame_Proofs Machine
begin

text \<open>
  What a client does with the frames it receives: the reads of the socket may split them anywhere; a
  queue puts a message together from the frames of its channel.
\<close>

section \<open>Reads\<close>

lemma amqp_never_fatal: "cut_all amqp_cut b = (fs, r, x) \<Longrightarrow> \<not> x"
proof (induction b arbitrary: fs rule: length_induct)
  case (1 b)
  show ?case
  proof (cases "amqp_cut b")
    case (Packet f s)
    with 1 amqp.shrinks [OF Packet] show ?thesis by (auto simp: amqp.cut_all_Packet split: prod.splits)
  next
    case Fatal
    then show ?thesis by (auto simp: amqp_cut_def Let_def split: if_splits)
  qed (use 1 in \<open>simp add: amqp.cut_all_More\<close>)
qed

definition am_handle :: "qt_env \<Rightarrow> bytes \<Rightarrow> amqp_st \<Rightarrow> amqp_st outcome" where
  "am_handle q p s = Inr (fst s, am_packet q p (snd s))"

interpretation am: packet_machine amqp_cut "am_handle q" id fst "\<lambda>b s. (b, snd s)" for q
  by unfold_locales (simp_all add: am_handle_def)

lemma fold_am_handle: "fold_out (am_handle q) ps (b, a) = Inr (b, fold (am_packet q) ps a)"
  by (induction ps arbitrary: a) (simp_all add: am_handle_def)

lemma receive_readyRead: "am.receive q t s = Inr (readyRead q t s)"
proof -
  obtain ps r x where c: "cut_all amqp_cut (fst s @ t) = (ps, r, x)" by (metis prod_cases3)
  with amqp_never_fatal have "\<not> x" by blast
  with c show ?thesis
    using fold_am_handle [of q ps "fst s" "snd s"] by (simp add: am.receive_def readyRead_def)
qed

lemma readyRead_chunks:
  assumes "amqp_cut b = More"
  shows "fold (readyRead q) ts (b, a) = readyRead q (concat ts) (b, a)"
proof -
  obtain ps r x where c: "cut_all amqp_cut (b @ concat ts) = (ps, r, x)" by (metis prod_cases3)
  with amqp_never_fatal have "\<not> x" by blast
  with c assms have "fold_out (am.receive q) ts (b, a) = am.receive q (concat ts) (b, a)"
    by (intro am.receive_chunks) simp_all
  moreover have "fold_out (am.receive q) ts s = Inr (fold (readyRead q) ts s)" for s
    by (induction ts arbitrary: s) (simp_all add: receive_readyRead)
  ultimately show ?thesis by (simp add: receive_readyRead)
qed

section \<open>Frames\<close>

text \<open>The frames a peer may send, and what the client makes of one.\<close>

fun sendable :: "qt_env \<Rightarrow> frame \<Rightarrow> bool" where
  "sendable q (FMethod m) = (fits q (FMethod m) \<and> fr_type m = 1)"
| "sendable q (FContent c) = (fits q (FContent c) \<and> fr_type c = 2 \<and> props_fit q (co_props c))"
| "sendable q (FBody b) = (fits q (FBody b) \<and> fr_type b = 3)"
| "sendable q (FHeartbeat h) = (fr_type h = 8)"

fun wire :: "qt_env \<Rightarrow> frame \<Rightarrow> frame" where
  "wire q (FMethod m) = FMethod (m\<lparr>fr_size := frame_size q (FMethod m)\<rparr>)"
| "wire q (FContent c) = FContent (c\<lparr>fr_size := frame_size q (FContent c), co_body := [],
      co_props := sent_props (co_props c) (prop_flags (co_props c)) prop_order,
      co_bodySize := word_of_nat (length (co_body c))\<rparr>)"
| "wire q (FBody b) = FBody (b\<lparr>fr_size := frame_size q (FBody b)\<rparr>)"
| "wire q (FHeartbeat h) = FHeartbeat new_heartbeat"

lemma sendable_fits: "sendable q f \<Longrightarrow> fits q f"
  by (cases f) (simp_all add: fits_def frame_payload_def)

lemma parse_wire: "sendable q f \<Longrightarrow> parse_packet q (toStream q f) = Some (wire q f)"
  by (cases f) (simp_all add: parse_method parse_content parse_body, simp add: parse_packet_def hd_toStream the_base_def)

lemma packets_frames:
  "list_all (sendable q) fs \<Longrightarrow> fold (am_packet q) (map (toStream q) fs) a = fold (am_frame q) (map (wire q) fs) a"
  by (induction fs arbitrary: a) (simp_all add: am_packet_def parse_wire)

lemma read_frames:
  assumes "list_all (sendable q) fs" "concat ts = concat (map (toStream q) fs)"
  shows "fold (readyRead q) ts ([], a) = ([], fold (am_frame q) (map (wire q) fs) a)"
proof -
  have "amqp_cut [] = More" by (simp add: amqp_cut_def)
  moreover have "list_all (fits q) fs" using assms(1) by (auto simp: list_all_iff intro: sendable_fits)
  ultimately show ?thesis
    using assms by (simp add: readyRead_chunks readyRead_def cut_all_sent_frames packets_frames)
qed

section \<open>One queue\<close>

definition queue_frame :: "qt_env \<Rightarrow> frame \<Rightarrow> queue \<Rightarrow> queue \<times> effect list" where
  "queue_frame q f u = (case f of FMethod m \<Rightarrow> qu_method q m u | FContent c \<Rightarrow> (qu_content c u, [])
     | FBody b \<Rightarrow> qu_body b u | FHeartbeat h \<Rightarrow> (u, []))"

fun queue_run :: "qt_env \<Rightarrow> frame list \<Rightarrow> queue \<Rightarrow> queue \<times> effect list" where
  "queue_run q [] u = (u, [])"
| "queue_run q (f # fs) u = (case queue_frame q f u of (u1, e1) \<Rightarrow> case queue_run q fs u1 of (u2, e2) \<Rightarrow> (u2, e1 @ e2))"

text \<open>Frames of a channel that only queue \<open>i\<close> is registered for.\<close>

definition on_channel :: "16 word \<Rightarrow> frame \<Rightarrow> bool" where
  "on_channel c f \<longleftrightarrow> (case f of FMethod m \<Rightarrow> fr_channel m = c \<and> me_class m \<noteq> 10 | FContent d \<Rightarrow> fr_channel d = c
     | FBody b \<Rightarrow> fr_channel b = c | FHeartbeat h \<Rightarrow> False)"

definition only_queue :: "nat \<Rightarrow> 16 word \<Rightarrow> amqp \<Rightarrow> bool" where
  "only_queue i c a \<longleftrightarrow> nt_methods (am_net a) c = [i] \<and> nt_contents (am_net a) c = [i] \<and> nt_bodies (am_net a) c = [i]"

lemma am_chan_twice:
  "am_chan q i (c2, e2) (am_chan q i (c1, e1) a) = am_chan q i (c2, e1 @ e2) a"
  by (simp add: am_chan_def am_effects out_bytes_def)

lemma am_frame_queue:
  assumes "only_queue i c a" "on_channel c f" "am_chans a ! i = CQueue u"
  shows "am_frame q f a = am_chan q i (apfst CQueue (queue_frame q f u)) a"
  using assms
  by (cases f) (simp_all add: am_frame_def on_channel_def only_queue_def to_handlers_def queue_frame_def
      chan_method_def chan_content_def chan_body_def)

lemma am_chan_keeps:
  assumes "i < length (am_chans a)"
  shows "only_queue i c (am_chan q i r a) = only_queue i c a" "am_chans (am_chan q i r a) ! i = fst r"
    "length (am_chans (am_chan q i r a)) = length (am_chans a)"
  using assms by (simp_all add: am_chan_def am_effects only_queue_def)

lemma frames_queue:
  assumes "only_queue i c a" "list_all (on_channel c) fs" "i < length (am_chans a)" "am_chans a ! i = CQueue u"
  shows "fold (am_frame q) fs a = am_chan q i (apfst CQueue (queue_run q fs u)) a"
  using assms
proof (induction fs arbitrary: a u)
  case Nil
  have "(am_chans a)[i := CQueue u] = am_chans a" using Nil.prems(4) by (metis list_update_id)
  then show ?case by (simp add: am_chan_def)
next
  case (Cons f fs)
  obtain u1 e1 where f: "queue_frame q f u = (u1, e1)" by force
  obtain u2 e2 where fs: "queue_run q fs u1 = (u2, e2)" by force
  have "am_frame q f a = am_chan q i (CQueue u1, e1) a"
    using Cons.prems f am_frame_queue [of i c a f u q] by simp
  with Cons.prems Cons.IH [of "am_chan q i (CQueue u1, e1) a" u1] fs f show ?case
    by (simp add: am_chan_keeps am_chan_twice)
qed

section \<open>A delivery\<close>

lemma read_s_written: "latin1_text s \<Longrightarrow> length s < 128 \<Longrightarrow> run_state (read_s q) (write_s q s @ r) = (s, r)"
  by (simp add: read_s_def write_s_def run_bind prop_roundtrip prop_fits_def State_Monad.return_def v_toString_def)

definition deliver_frame :: "qt_env \<Rightarrow> 16 word \<Rightarrow> qstring \<Rightarrow> 64 word \<Rightarrow> byte \<Rightarrow> qstring \<Rightarrow> qstring \<Rightarrow> frame" where
  "deliver_frame q c tag dtag red ex key = FMethod ((new_method 60 60)\<lparr>fr_channel := c,
     me_args := write_s q tag @ put_be dtag @ [red] @ write_s q ex @ write_s q key\<rparr>)"

lemma read_delivery_written:
  assumes "latin1_text ex" "length ex < 128" "latin1_text key" "length key < 128"
  shows "run_state (read_delivery q) (put_be dtag @ [red] @ write_s q ex @ write_s q key) =
    (new_message\<lparr>mg_routeKey := key, mg_exchangeName := ex, mg_deliveryTag := dtag\<rparr>, [])"
proof -
  have k: "run_state (read_s q) (write_s q key) = (key, [])" using read_s_written [of key q "[]"] assms by simp
  show ?thesis
    using assms k by (simp add: read_delivery_def run_bind readField_unfold read_step_def u64be.get_put rd_octet_def
        State_Monad.return_def read_s_written v_num_def)
qed

lemma deliver_queue:
  assumes "sint c = ch_number u" "latin1_text (qu_consumerTag u)" "length (qu_consumerTag u) < 128"
    and "latin1_text ex" "length ex < 128" "latin1_text key" "length key < 128"
  shows "queue_frame q (wire q (deliver_frame q c (qu_consumerTag u) dtag red ex key)) u =
    (u\<lparr>qu_messages := qu_messages u @ [new_message\<lparr>mg_routeKey := key, mg_exchangeName := ex, mg_deliveryTag := dtag\<rparr>]\<rparr>, [])"
  using assms
  by (simp add: queue_frame_def deliver_frame_def qu_method_def ch_method_def new_method_def qu_deliver_def
      read_s_written read_delivery_written [simplified])

lemma fold_table_set_new:
  "distinct (map fst ps) \<Longrightarrow> fst ` set acc \<inter> fst ` set ps = {} \<Longrightarrow> fold (\<lambda>(k, v). table_set k v) ps acc = acc @ ps"
proof (induction ps arbitrary: acc)
  case (Cons e ps)
  obtain k v where e: "e = (k, v)" by force
  have "table_set k v acc = acc @ [(k, v)]" using Cons.prems(2) e by (intro table_set_new) auto
  moreover have "fst ` set (acc @ [(k, v)]) \<inter> fst ` set ps = {}" using Cons.prems e by auto
  ultimately show ?case using Cons.prems(1) Cons.IH [of "acc @ [(k, v)]"] e by simp
qed simp

lemma sent_props_distinct: "distinct (map fst (sent_props ps fl prop_order))"
proof -
  have "map fst (sent_props ps fl os) = map fst (filter (\<lambda>(p, t). fl AND p \<noteq> 0) os)" for os
    by (auto simp: sent_props_def)
  moreover have "distinct (map fst (filter P prop_order))" for P
    using prop_order_distinct by (rule distinct_map_filter)
  ultimately show ?thesis by simp
qed

lemma content_queue:
  assumes "sint (fr_channel d) = ch_number u" "qu_messages u = [m]" "mg_property m = []"
  shows "queue_frame q (wire q (FContent d)) u = (u\<lparr>qu_messages := [m\<lparr>mg_leftSize := word_of_nat (length (co_body d)),
      mg_property := sent_props (co_props d) (prop_flags (co_props d)) prop_order\<rparr>]\<rparr>, [])"
proof -
  have "ucast (word_of_nat n :: 64 word) = (word_of_nat n :: 32 word)" for n
    by (simp add: word_unat_eq_iff unsigned_ucast_eq unat_of_nat take_bit_eq_mod mod_mod_cancel)
  then show ?thesis
    using assms fold_table_set_new [of _ "[]", OF sent_props_distinct]
    by (simp add: queue_frame_def qu_content_def bodySize_def)
qed

lemma bodies_queue:
  assumes "qu_messages u = [m]" "mg_leftSize m = word_of_nat (length (concat ps) + k)" "length (concat ps) + k < 2 ^ 31"
    and "\<forall>p \<in> set ps. p \<noteq> []" "sint c = ch_number u"
  shows "queue_run q (map (\<lambda>p. wire q (FBody (new_body\<lparr>fr_channel := c, cb_body := p\<rparr>))) ps) u =
    (u\<lparr>qu_messages := [m\<lparr>mg_payload := mg_payload m @ concat ps, mg_leftSize := word_of_nat k\<rparr>]\<rparr>,
     if k = 0 \<and> ps \<noteq> [] then [Emit SMessageReceived] else [])"
  using assms
proof (induction ps arbitrary: u m)
  case Nil
  then have "m\<lparr>mg_payload := mg_payload m @ [], mg_leftSize := word_of_nat k\<rparr> = m" by (cases m) simp
  moreover have "u\<lparr>qu_messages := [m]\<rparr> = u" using Nil.prems(1) by (cases u) simp
  ultimately show ?case by simp
next
  case (Cons p ps)
  let ?n = "length (concat ps) + k"
  let ?m = "m\<lparr>mg_payload := mg_payload m @ p, mg_leftSize := word_of_nat ?n\<rparr>"
  let ?u = "u\<lparr>qu_messages := [?m]\<rparr>"
  have len: "unat (word_of_nat ?n :: 32 word) = ?n"
    using Cons.prems(3) by (simp only: unat_of_nat) simp
  have zero: "(word_of_nat ?n :: 32 word) = 0 \<longleftrightarrow> k = 0 \<and> ps = []"
  proof
    assume "(word_of_nat ?n :: 32 word) = 0"
    then have "?n = 0" using len by simp
    then show "k = 0 \<and> ps = []" using Cons.prems(4) by (cases ps) auto
  qed simp
  have left: "mg_leftSize m = word_of_nat (length p) + (word_of_nat ?n :: 32 word)"
    using Cons.prems(2) by simp
  have "queue_frame q (wire q (FBody (new_body\<lparr>fr_channel := c, cb_body := p\<rparr>))) u =
      (?u, if k = 0 \<and> ps = [] then [Emit SMessageReceived] else [])"
    using Cons.prems(1,5) by (simp add: queue_frame_def new_body_def qu_body_def Let_def left zero del: of_nat_add)
  moreover have "queue_run q (map (\<lambda>p. wire q (FBody (new_body\<lparr>fr_channel := c, cb_body := p\<rparr>))) ps) ?u =
      (?u\<lparr>qu_messages := [?m\<lparr>mg_payload := mg_payload ?m @ concat ps, mg_leftSize := word_of_nat k\<rparr>]\<rparr>,
       if k = 0 \<and> ps \<noteq> [] then [Emit SMessageReceived] else [])"
    using Cons.prems by (intro Cons.IH) simp_all
  ultimately show ?case by (auto simp del: wire.simps of_nat_add)
qed

section \<open>What an exchange sends\<close>

lemma concat_body_parts: "concat (body_parts k m) = drop k m"
proof (induction k m rule: body_parts.induct)
  case (1 k m)
  then show ?case
    by (subst body_parts.simps) (auto simp: ba_mid_def append_take_drop_id [symmetric] drop_drop add.commute
        simp del: append_take_drop_id intro: append_take_drop_id [of 131065 "drop k m", simplified])
qed

lemma body_parts_sizes: "p \<in> set (body_parts k m) \<Longrightarrow> p \<noteq> [] \<and> length p \<le> 131065"
proof (induction k m rule: body_parts.induct)
  case (1 k m)
  then show ?case by (subst (asm) (2) body_parts.simps) (auto simp: ba_mid_def split: if_splits)
qed

section \<open>A published message\<close>

definition body_frame :: "16 word \<Rightarrow> bytes \<Rightarrow> frame" where
  "body_frame c p = FBody (new_body\<lparr>fr_channel := c, cb_body := p\<rparr>)"

lemma published_header:
  assumes "ch_number x = sint c"
  shows "fr_channel (publish_content x msg mime headers props) = c" "fr_type (publish_content x msg mime headers props) = 2"
    "co_body (publish_content x msg mime headers props) = msg"
proof -
  have keep: "fr_channel (fold (\<lambda>(k, v). setProperty k v) ps e) = fr_channel e
      \<and> fr_type (fold (\<lambda>(k, v). setProperty k v) ps e) = fr_type e" for ps and e :: content
    by (induction ps arbitrary: e) (auto simp: setProperty_def)
  show "fr_channel (publish_content x msg mime headers props) = c" "fr_type (publish_content x msg mime headers props) = 2"
    "co_body (publish_content x msg mime headers props) = msg"
    using assms by (simp_all add: publish_content_def Let_def keep) (simp_all add: setProperty_def new_content_def)
qed

lemma published_frames:
  assumes "ch_number x = sint c"
  shows "tl (sent_frames (ex_publish q msg key mime headers props x)) =
    FContent (publish_content x msg mime headers props) # map (body_frame c) (body_parts 0 msg)"
proof -
  have "sent_frames (map (\<lambda>b. Send (FBody (publish_body x b))) ps) = map (body_frame c) ps" for ps
    using assms by (induction ps) (simp_all add: publish_body_def body_frame_def)
  then show ?thesis by (simp add: ex_publish_def)
qed

text \<open>The strings of a method must be short.\<close>

definition short_text :: "qstring \<Rightarrow> bool" where
  "short_text s \<longleftrightarrow> latin1_text s \<and> length s < 128"

lemma deliver_sendable:
  "short_text tag \<Longrightarrow> short_text ex \<Longrightarrow> short_text key \<Longrightarrow> sendable q (deliver_frame q c tag dtag red ex key)"
proof -
  have "length (write_s q s) = Suc (length s)" for s
    by (simp add: write_s_def write_typed.simps v_toString_def write_short_def)
  then show "short_text tag \<Longrightarrow> short_text ex \<Longrightarrow> short_text key \<Longrightarrow> ?thesis"
    by (simp add: deliver_frame_def new_method_def fits_def frame_payload_def short_text_def)
qed

lemma bodies_sendable: "list_all (sendable q) (map (body_frame c) (body_parts k msg))"
proof -
  have "length p < 2 ^ 31" if "p \<in> set (body_parts k msg)" for p using body_parts_sizes [OF that] by simp
  then show ?thesis by (auto simp: list_all_iff body_frame_def new_body_def fits_def frame_payload_def)
qed

lemma delivery_on_channel:
  "fr_channel d = c \<Longrightarrow> list_all (on_channel c) (map (wire q) (deliver_frame q c tag dtag red ex key # FContent d # map (body_frame c) ps))"
  by (auto simp: list_all_iff on_channel_def deliver_frame_def new_method_def body_frame_def)

text \<open>The message, when a part of its payload has come and some bytes are left.\<close>

definition delivered :: "content \<Rightarrow> qstring \<Rightarrow> qstring \<Rightarrow> 64 word \<Rightarrow> bytes \<Rightarrow> nat \<Rightarrow> message" where
  "delivered d ex key dtag payload left = new_message\<lparr>mg_routeKey := key, mg_exchangeName := ex, mg_deliveryTag := dtag,
     mg_payload := payload, mg_leftSize := word_of_nat left,
     mg_property := sent_props (co_props d) (prop_flags (co_props d)) prop_order\<rparr>"

lemma delivery_run:
  assumes "sint c = ch_number u" "short_text (qu_consumerTag u)" "short_text ex" "short_text key" "qu_messages u = []"
    and "fr_channel d = c" "length (co_body d) = length (concat ps) + k" "length (co_body d) < 2 ^ 31" "\<forall>p \<in> set ps. p \<noteq> []"
  shows "queue_run q (map (wire q) (deliver_frame q c (qu_consumerTag u) dtag red ex key # FContent d # map (body_frame c) ps)) u =
    (u\<lparr>qu_messages := [delivered d ex key dtag (concat ps) k]\<rparr>, if k = 0 \<and> ps \<noteq> [] then [Emit SMessageReceived] else [])"
proof -
  define m1 where "m1 = new_message\<lparr>mg_routeKey := key, mg_exchangeName := ex, mg_deliveryTag := dtag\<rparr>"
  let ?u1 = "u\<lparr>qu_messages := [m1]\<rparr>"
  let ?m2 = "m1\<lparr>mg_leftSize := word_of_nat (length (co_body d)), mg_property := sent_props (co_props d) (prop_flags (co_props d)) prop_order\<rparr>"
  let ?u2 = "u\<lparr>qu_messages := [?m2]\<rparr>"
  have 1: "queue_frame q (wire q (deliver_frame q c (qu_consumerTag u) dtag red ex key)) u = (?u1, [])"
    using deliver_queue assms(1-5) by (simp add: m1_def short_text_def)
  have m1: "mg_property m1 = []" "mg_payload m1 = []" by (simp_all add: m1_def new_message_def)
  then have 2: "queue_frame q (wire q (FContent d)) ?u1 = (?u2, [])"
    using content_queue [of d ?u1 m1 q] assms(1,6) by simp
  have "queue_run q (map (\<lambda>p. wire q (FBody (new_body\<lparr>fr_channel := c, cb_body := p\<rparr>))) ps) ?u2
      = (?u2\<lparr>qu_messages := [?m2\<lparr>mg_payload := mg_payload ?m2 @ concat ps, mg_leftSize := word_of_nat k\<rparr>]\<rparr>,
         if k = 0 \<and> ps \<noteq> [] then [Emit SMessageReceived] else [])"
    using assms(1,7-9) by (intro bodies_queue) simp_all
  moreover have "?m2\<lparr>mg_payload := mg_payload ?m2 @ concat ps, mg_leftSize := word_of_nat k\<rparr> = delivered d ex key dtag (concat ps) k"
    using m1 by (simp add: delivered_def m1_def)
  ultimately show ?thesis using 1 2 by (simp add: comp_def body_frame_def del: wire.simps)
qed

end
