(* ===== verification/Amqp_Props.thy ===== *)
theory Amqp_Props
  imports Amqp_Delivery
begin

text \<open>
  The properties of the AMQP client: its encoding of values, its frames, the messages it carries, its
  handshake, its channels and its reconnection.
\<close>

section \<open>Values\<close>

definition plain_env :: qt_env where
  "plain_env = \<lparr>qt_text = (\<lambda>_. []), qt_num = (\<lambda>_. 0), qt_real = (\<lambda>_. 0), qt_date = (\<lambda>_. 0),
     qt_junk = (\<lambda>n. replicate n 0), qt_utf8 = to_latin1, qt_version = []\<rparr>"

text \<open>The values for which nothing is written, not even a type: no value, a float, a decimal, a signed 32-bit
  integer but the least one, and an unsigned one below \<open>2 ^ 31\<close>. The comparisons of \<open>writeField\<close> are all with -1.\<close>

fun dropped :: "variant \<Rightarrow> bool" where
  "dropped VInvalid = True"
| "dropped (VFloat w) = True"
| "dropped (VDecimal s w) = True"
| "dropped (VInt i) = (i \<noteq> 0x80000000)"
| "dropped (VUInt i) = (0 \<le> sint i)"
| "dropped v = False"

lemma abs_int_negative: "sint (abs_int i) \<le> -1 \<longleftrightarrow> i = 0x80000000"
proof (cases "sint i \<ge> 0 \<or> i = 0x80000000")
  case False
  have "sint i \<noteq> - (2 ^ 31)"
  proof
    assume "sint i = - (2 ^ 31)"
    moreover have "word_of_int (sint i) = i" by simp
    ultimately have "i = word_of_int (- (2 ^ 31))" by simp
    with False show False by simp
  qed
  moreover have "- (2 ^ 31) \<le> sint i" using sint_ge [of i] by simp
  ultimately have "- sint i < 2 ^ 31" "0 < - sint i" using False by auto
  moreover have "sint (- i) = signed_take_bit 31 (- sint i)" by (simp add: sint_word_ariths)
  moreover have "signed_take_bit 31 (- sint i) = - sint i" using calculation(1,2)
    by (intro signed_take_bit_int_eq_self) auto
  ultimately show ?thesis using False by (simp add: abs_int_def)
qed (auto simp: abs_int_def)

lemma write_dropped: "write_field q v = [] \<longleftrightarrow> dropped v"
  by (cases v) (auto simp: write_field_def field_type_def int_type_def abs_int_negative)

text \<open>C23: what the field format keeps of a value. The values \<open>carried\<close> are booleans, Latin-1 strings, 64-bit
  integers, times and doubles, and the lists and tables of them, to any depth, within the sizes of the format and with
  Latin-1 names of at most 127 characters. Such a value is read back by \<open>readField\<close> after
  \<open>writeField\<close>, and such a table by \<open>deserialize\<close> after \<open>serialize\<close>, as \<open>read_back\<close> says: unchanged
  but for the doubles that are not above FLT_MAX, which come back as floats, rounded; and nothing behind it is consumed.
  Of all values, nothing is written exactly for those \<open>dropped\<close>: floats, decimals, the signed 32-bit integers other
  than the least and the unsigned ones below \<open>2 ^ 31\<close>. Byte arrays and the remaining 32-bit integers are written as
  something else, and not part of the round trip.\<close>

theorem amqp_field_roundtrip:
  assumes "carried q v" "carried q (VHash t)"
  shows "run_state (read_elem q) (write_field q v @ r) = (read_back v, r)
    \<and> run_state (deserialize q) (serialize q t @ r) = (map (\<lambda>e. (fst e, read_back (snd e))) t, r)
    \<and> (write_field q u = [] \<longleftrightarrow> dropped u)"
proof -
  have "run_state (read_elem q) (write_field q (VHash t) @ r) = (read_back (VHash t), r)"
    using assms(2) by (rule write_read_field)
  moreover have "write_field q (VHash t) = chr CHR ''F'' # serialize q t"
    by (simp add: write_field_def field_type_def write_table)
  ultimately have "run_state (deserialize q) (serialize q t @ r) = (map (\<lambda>e. (fst e, read_back (snd e))) t, r)"
    by (simp add: read_elem_byte read_step_def deserialize_def run_bind State_Monad.return_def split: prod.splits)
  with write_read_field [OF assms(1)] write_dropped show ?thesis by simp
qed

definition sample_table :: table where
  "sample_table = [(qs ''ids'', VList [VBool True, VLongLong 5]), (qs ''host'', VString (qs ''pine''))]"

lemma sample_carried: "carried q (VHash sample_table)"
  by (simp add: sample_table_def qs_def from_latin1_def latin1_text_def byte_of_char_def serialize_eq Let_def
      write_short_def write_field_def field_type_def write_typed.simps write_long_def v_toString_def)

theorem amqp_field_roundtrip_witness:
  "run_state (deserialize plain_env) (serialize plain_env sample_table @ [7]) = (sample_table, [7])
   \<and> write_field plain_env (VInt 60) = [] \<and> write_field plain_env (VLongLong 60) \<noteq> []"
proof -
  have "map (\<lambda>e. (fst e, read_back (snd e))) sample_table = sample_table" by (simp add: sample_table_def)
  then show ?thesis
    using amqp_field_roundtrip [of plain_env "VBool True" sample_table "[7]" "VInt 60"]
      amqp_field_roundtrip [of plain_env "VBool True" sample_table "[7]" "VLongLong 60"] sample_carried by simp
qed

text \<open>A whole number of 32 bits in a table is dropped: only its name is written, and the entry that is
  read back has no value.\<close>

theorem amqp_int_dropped:
  assumes "i \<noteq> 0x80000000" "latin1_text k" "length k < 128"
  shows "write_field q (VInt i) = [] \<and> run_state (deserialize q) (serialize q [(k, VInt i)]) = ([(k, VInvalid)], [])"
proof -
  have none: "write_field q (VInt i) = []" using assms(1) by (simp add: write_dropped)
  have ser: "serialize q [(k, VInt i)] = put_be (word_of_nat (length (write_short k)) :: 32 word) @ write_short k"
    by (simp add: serialize_eq none Let_def)
  have l: "length (write_short k) = Suc (length k)" by (simp add: write_short_def)
  have arr: "run_state rd_array (serialize q [(k, VInt i)]) = (write_short k, [])"
    using rd_array_exact [of "write_short k" "[]"] assms(3) l by (simp add: ser)
  have ne: "write_short k \<noteq> []" using l by auto
  have name: "run_state (rd_short q) (write_short k) = (k, [])"
    using short_roundtrip [OF assms(2,3), of q "[]"] by simp
  have "run_state (readField q 0) [] = (VInvalid, [])"
    by (simp add: readField_unfold read_step_def eq_commute [of 0] State_Monad.return_def)
  then have "table_loop q (readField q) (Suc n) (write_short k) [] = [(k, VInvalid)]" for n
    using ne name by (cases n) (simp_all add: run_get_be)
  then show ?thesis
    using none arr l by (simp add: deserialize_def deserialize_with_def run_bind State_Monad.return_def)
qed

theorem amqp_int_dropped_witness:
  "run_state (deserialize plain_env) (serialize plain_env [(qs ''ttl'', VInt 60)]) = ([(qs ''ttl'', VInvalid)], [])"
proof -
  have "latin1_text (qs ''ttl'')" "length (qs ''ttl'') < 128"
    by (simp_all add: qs_def from_latin1_def latin1_text_def byte_of_char_def)
  then show ?thesis using amqp_int_dropped [of 60 "qs ''ttl''" plain_env] by simp
qed

section \<open>Frames\<close>

text \<open>C26: However the network splits the bytes of a sequence of frames into reads, the client handles these
  frames in order, with the properties of their headers as they were written, and keeps no byte back.\<close>

theorem amqp_reads_frames:
  assumes "list_all (sendable q) fs" "concat ts = concat (map (toStream q) fs)"
  shows "fold (readyRead q) ts ([], a) = ([], fold (am_frame q) (map (wire q) fs) a)"
  using assms by (rule read_frames)

definition open_ok :: frame where
  "open_ok = method_frame 10 41 []"

lemma open_ok_stream: "toStream q open_ok = [1, 0, 0, 0, 0, 0, 4, 0, 10, 0, 41, 0xCE]"
  by (simp add: open_ok_def method_frame_def new_method_def toStream_def writeHeader_def the_base_def frame_base.defs
      frame_size_def frame_payload_def frame_end_def put_be_def be_bytes_def)

theorem amqp_reads_frames_witness:
  "cn_connected (am_conn (snd (fold (readyRead plain_env) [[1, 0, 0, 0], [0, 0, 4], [0, 10, 0, 41, 0xCE]]
     ([], new_client_private False 0))))"
proof -
  have "list_all (sendable plain_env) [open_ok]"
    by (simp add: open_ok_def method_frame_def new_method_def fits_def frame_payload_def)
  then have "fold (readyRead plain_env) [[1, 0, 0, 0], [0, 0, 4], [0, 10, 0, 41, 0xCE]] ([], new_client_private False 0)
      = ([], fold (am_frame plain_env) (map (wire plain_env) [open_ok]) (new_client_private False 0))"
    by (intro amqp_reads_frames) (simp_all add: open_ok_stream)
  then show ?thesis
    by (simp add: open_ok_def method_frame_def new_method_def am_frame_def conn_method_def conn_openOk_def
        emit_connected_def new_client_private_def new_connection_def)
qed

section \<open>Messages\<close>

text \<open>C15: A message that an exchange publishes and the broker delivers on the channel of a queue that waits for
  it, split into reads anywhere, becomes exactly one message of the queue: the payload, its properties,
  the keys and the tag as they were sent, nothing left to come; and the program is told once, unless the
  message is empty, when it is never told.\<close>

theorem amqp_publish_deliver:
  assumes "i < length (am_chans a)" "am_chans a ! i = CQueue u" "only_queue i c a" "ch_number u = sint c" "qu_messages u = []"
    and "short_text (qu_consumerTag u)" "short_text ex" "short_text key" "length msg < 2 ^ 31"
    and x: "ch_number x = sint c" and d: "d = publish_content x msg mime headers props"
    and "props_fit q (co_props d)" "fits q (FContent d)"
    and ts: "concat ts = concat (map (toStream q) (deliver_frame q c (qu_consumerTag u) dtag red ex key
        # tl (sent_frames (ex_publish q msg key mime headers props x))))"
  shows "\<exists>m. fold (readyRead q) ts ([], a) = ([], a\<lparr>am_chans := (am_chans a)[i := CQueue (u\<lparr>qu_messages := [m]\<rparr>)],
        am_log := am_log a @ (if msg = [] then [] else [(Some i, SMessageReceived)])\<rparr>)
    \<and> mg_payload m = msg \<and> mg_leftSize m = 0 \<and> mg_routeKey m = key \<and> mg_exchangeName m = ex \<and> mg_deliveryTag m = dtag
    \<and> (\<forall>p \<in> fst ` set prop_order. prop_value (mg_property m) p = read_back (prop_value (co_props d) p))"
proof -
  let ?ps = "body_parts 0 msg"
  let ?fs = "deliver_frame q c (qu_consumerTag u) dtag red ex key # FContent d # map (body_frame c) ?ps"
  let ?m = "delivered d ex key dtag msg 0"
  have dch: "fr_channel d = c" "fr_type d = 2" "co_body d = msg" unfolding d by (rule published_header [OF x])+
  have cat: "concat ?ps = msg" using concat_body_parts [of 0 msg] by simp
  have parts: "\<forall>p \<in> set ?ps. p \<noteq> []" using body_parts_sizes by blast
  then have "?ps = [] \<longleftrightarrow> msg = []" using cat by (cases ?ps) auto
  then have run: "queue_run q (map (wire q) ?fs) u =
      (u\<lparr>qu_messages := [?m]\<rparr>, if msg = [] then [] else [Emit SMessageReceived])"
    using delivery_run [of c u ex key d ?ps 0 q dtag red] assms(4-9) dch cat parts by simp
  have "list_all (sendable q) ?fs"
    using assms(6-8,12,13) dch bodies_sendable by (simp add: deliver_sendable)
  then have "fold (readyRead q) ts ([], a) = ([], fold (am_frame q) (map (wire q) ?fs) a)"
    using ts by (intro read_frames) (simp_all add: published_frames [OF x] d)
  also have "fold (am_frame q) (map (wire q) ?fs) a = am_chan q i (apfst CQueue (queue_run q (map (wire q) ?fs) u)) a"
    using assms(1-3) delivery_on_channel [OF dch(1)] by (intro frames_queue)
  also have "\<dots> = a\<lparr>am_chans := (am_chans a)[i := CQueue (u\<lparr>qu_messages := [?m]\<rparr>)],
      am_log := am_log a @ (if msg = [] then [] else [(Some i, SMessageReceived)])\<rparr>"
    unfolding run by (simp add: am_chan_def am_effects out_bytes_def)
  finally have "fold (readyRead q) ts ([], a) = ([], a\<lparr>am_chans := (am_chans a)[i := CQueue (u\<lparr>qu_messages := [?m]\<rparr>)],
      am_log := am_log a @ (if msg = [] then [] else [(Some i, SMessageReceived)])\<rparr>)" .
  then show ?thesis
    using sent_prop_value [OF assms(12)] by (intro exI [of _ ?m]) (simp add: delivered_def)
qed

definition sample_queue :: queue where
  "sample_queue = new_queue\<lparr>ch_number := 1, ch_opened := True, qu_consumerTag := qs ''t''\<rparr>"

definition sample_client :: amqp where
  "sample_client = (new_client_private False 0)\<lparr>am_chans := [CQueue sample_queue],
     am_net := (new_network False 0)\<lparr>nt_methods := \<lambda>_. [0], nt_contents := \<lambda>_. [0], nt_bodies := \<lambda>_. [0]\<rparr>\<rparr>"

definition sample_delivery :: bytes where
  "sample_delivery = concat (map (toStream plain_env) (deliver_frame plain_env 1 (qs ''t'') 9 0 (qs ''x'') (qs ''k'')
     # tl (sent_frames (ex_publish plain_env (lit ''hi'') (qs ''k'') (qs ''text'') [] [] (new_exchange\<lparr>ch_number := 1\<rparr>)))))"

lemma sample_short: "short_text (qs ''t'')" "short_text (qs ''x'')" "short_text (qs ''k'')"
  by (simp_all add: short_text_def qs_def from_latin1_def latin1_text_def byte_of_char_def)

lemma sample_props:
  fixes n :: int
  defines "d \<equiv> publish_content (new_exchange\<lparr>ch_number := n\<rparr>) (lit ''hi'') (qs ''text'') [] []"
  shows "props_fit plain_env (co_props d)" "fits plain_env (FContent d)"
proof -
  have p: "co_props d = [(0x8000, VString (qs ''text'')), (0x0080, VString (qs ''utf-8'')), (0x2000, VHash []), (0x4000, VString (qs ''0''))]"
    by (simp add: d_def publish_content_def setProperty_def new_content_def Let_def)
  show "props_fit plain_env (co_props d)"
    by (simp add: p props_fit_def known_props_def prop_order_def prop_value_def prop_fits_def qs_def from_latin1_def
        latin1_text_def byte_of_char_def serialize_eq)
  have f: "prop_flags (co_props d) = 0xE080" by (simp add: p prop_flags_def)
  show "fits plain_env (FContent d)"
    unfolding fits_def frame_payload_def frame.case content_buffer_def f
    by (simp add: p prop_order_def prop_value_def write_typed.simps qs_def from_latin1_def v_toString_def write_short_def)
qed

theorem amqp_publish_deliver_witness:
  "\<exists>m. am_chans (snd (fold (readyRead plain_env) (map (\<lambda>b. [b]) sample_delivery) ([], sample_client)))
       = [CQueue (sample_queue\<lparr>qu_messages := [m]\<rparr>)]
     \<and> mg_payload m = lit ''hi'' \<and> mg_deliveryTag m = 9"
proof -
  let ?d = "publish_content (new_exchange\<lparr>ch_number := 1\<rparr>) (lit ''hi'') (qs ''text'') [] []"
  have "concat (map (\<lambda>b. [b]) sample_delivery) = sample_delivery" by simp
  then obtain m where "fold (readyRead plain_env) (map (\<lambda>b. [b]) sample_delivery) ([], sample_client) =
        ([], sample_client\<lparr>am_chans := (am_chans sample_client)[0 := CQueue (sample_queue\<lparr>qu_messages := [m]\<rparr>)],
          am_log := am_log sample_client @ [(Some 0, SMessageReceived)]\<rparr>)"
      "mg_payload m = lit ''hi''" "mg_deliveryTag m = 9"
    using amqp_publish_deliver [of 0 sample_client sample_queue 1 "qs ''x''" "qs ''k''" "lit ''hi''" "new_exchange\<lparr>ch_number := 1\<rparr>" ?d
        "qs ''text''" "[]" "[]" plain_env "map (\<lambda>b. [b]) sample_delivery" 9 0] sample_props [of 1] sample_short
    by (auto simp: sample_client_def sample_queue_def new_queue_def only_queue_def sample_delivery_def)
  then show ?thesis by (intro exI [of _ m]) (simp add: sample_client_def)
qed

section \<open>Channels\<close>












text \<open>Channels that are created without a number get numbers of their own, every second one, from the
  first not used; but a lost connection starts the count again, so that the next channel has the number of
  the first, and the frames of that number reach both.\<close>

theorem amqp_channel_numbers:
  assumes "amqp_reach q (b, a)" "am_chans a \<noteq> []" "snd (shape (hd (am_chans a))) = 1"
  shows "map (\<lambda>c. snd (shape c)) (am_chans (fold (createQueue q (-1)) names a))
        = map (\<lambda>c. snd (shape c)) (am_chans a) @ map (\<lambda>j. am_counter a + 1 + 2 * int j) [0..<length names]
    \<and> (\<exists>between. nt_methods (am_net (createQueue q (-1) name (emit_disconnected a))) 1 = 0 # between @ [length (am_chans a)])"
proof -
  have ok: "amqp_ok a" using reach_ok [OF assms(1)] by simp
  have create: "map shape (am_chans (createQueue q (-1) n d)) = map shape (am_chans d) @ [(True, am_counter d + 1)]"
    "0 \<le> am_counter d \<Longrightarrow> am_counter (createQueue q (-1) n d) = am_counter d + 2"
    "nt_methods (am_net (createQueue q (-1) n d)) =
       add_handler (word_of_int (am_counter d + 1)) (length (am_chans d)) (nt_methods (am_net d))" for n d
    by (simp_all add: createQueue_def ch_init_def Let_def am_effects setName_def)
  have numbers: "map shape (am_chans (fold (createQueue q (-1)) names d)) =
      map shape (am_chans d) @ map (\<lambda>j. (True, am_counter d + 1 + 2 * int j)) [0..<length names]"
    if "0 \<le> am_counter d" for d
    using that
  proof (induction names arbitrary: d)
    case (Cons n names)
    have shift: "map (\<lambda>j. f (int j)) [0..<Suc k] = f 0 # map (\<lambda>j. f (int j + 1)) [0..<k]" for f :: "int \<Rightarrow> bool \<times> int" and k
      by (simp add: upt_rec [of 0] map_Suc_upt [symmetric] comp_def add.commute del: upt_Suc)
    have "map shape (am_chans (fold (createQueue q (-1)) names (createQueue q (-1) n d))) =
        map shape (am_chans (createQueue q (-1) n d))
        @ map (\<lambda>j. (True, am_counter (createQueue q (-1) n d) + 1 + 2 * int j)) [0..<length names]"
      using Cons.prems by (intro Cons.IH) (simp add: create)
    then show ?case
      using Cons.prems shift [of "\<lambda>j. (True, am_counter d + 1 + 2 * j)" "length names"]
      by (simp add: create algebra_simps del: upt_Suc)
  qed simp
  have "map snd (map shape (am_chans (fold (createQueue q (-1)) names a))) =
      map snd (map shape (am_chans a)) @ map (\<lambda>j. am_counter a + 1 + 2 * int j) [0..<length names]"
    using ok by (simp add: numbers amqp_ok_def comp_def del: map_map) (simp add: comp_def)
  moreover have "nt_methods (am_net a) 1 = 0 # filter (\<lambda>i. word_of_int (snd (map shape (am_chans a) ! i)) = (1 :: 16 word)) [1..<length (am_chans a)]"
    using ok assms(2,3) by (cases "am_chans a") (simp_all add: amqp_ok_def handlers_ok_def numbered_def Let_def upt_conv_Cons del: upt_Suc)
  moreover have "am_chans (emit_disconnected a) = map chan_disconnected (am_chans a)" "am_counter (emit_disconnected a) = 0"
    "am_net (emit_disconnected a) = am_net a"
    using assms(2) by (simp_all add: emit_disconnected_def)
  ultimately show ?thesis by (auto simp: create add_handler_def comp_def)
qed

lemma sample_reach: "amqp_reach plain_env ([], createQueue plain_env (-1) [] (new_client_private False 0))"
proof -
  have "amqp_step plain_env ([], new_client_private False 0) (if nt_state (am_net (client_call plain_env (ClCreateQueue (-1) [])
      (new_client_private False 0))) = Connected then [] else [], client_call plain_env (ClCreateQueue (-1) []) (new_client_private False 0))"
    by (rule amqp_step.client) (rule refl)
  then have "amqp_step plain_env ([], new_client_private False 0) ([], createQueue plain_env (-1) [] (new_client_private False 0))"
    by (simp add: client_call_def)
  with amqp_reach.start show ?thesis by (rule amqp_reach.step)
qed

lemma sample_created: "am_chans (createQueue plain_env (-1) [] (new_client_private False 0)) = [CQueue (new_queue\<lparr>ch_number := 1\<rparr>)]"
  "am_counter (createQueue plain_env (-1) [] (new_client_private False 0)) = 2"
  by (simp_all add: createQueue_def ch_init_def Let_def am_effects setName_def new_client_private_def new_queue_def)

theorem amqp_channel_numbers_witness:
  "map (\<lambda>c. snd (shape c)) (am_chans (fold (createQueue plain_env (-1)) [[], []]
     (createQueue plain_env (-1) [] (new_client_private False 0)))) = [1, 3, 5]"
  using amqp_channel_numbers [OF sample_reach, of "[[], []]" "[]"] by (simp add: sample_created del: fold_simps)

text \<open>C29: In every reachable state the frames of a channel number go to exactly the channel objects of that
  number, contents and bodies to the queues among them, in the order of their creation.\<close>

theorem amqp_routing:
  assumes "amqp_reach q s"
  shows "nt_methods (am_net (snd s)) c = filter (\<lambda>i. word_of_int (snd (shape (am_chans (snd s) ! i))) = c) [0..<length (am_chans (snd s))]
    \<and> nt_contents (am_net (snd s)) c = filter (\<lambda>i. fst (shape (am_chans (snd s) ! i)) \<and> word_of_int (snd (shape (am_chans (snd s) ! i))) = c) [0..<length (am_chans (snd s))]
    \<and> nt_bodies (am_net (snd s)) c = nt_contents (am_net (snd s)) c"
proof -
  have "numbered P (map shape cs) c = filter (\<lambda>i. P (shape (cs ! i)) \<and> word_of_int (snd (shape (cs ! i))) = c) [0..<length cs]" for P cs
    unfolding numbered_def by (rule filter_cong) simp_all
  with reach_ok [OF assms] show ?thesis by (simp add: amqp_ok_def handlers_ok_def Let_def)
qed

theorem amqp_routing_witness:
  "nt_contents (am_net (createQueue plain_env (-1) [] (new_client_private False 0))) 1 = [0]"
  using amqp_routing [OF sample_reach, of 1] by (simp add: sample_created)

section \<open>Connections\<close>

text \<open>C37: In every run the pauses before a reconnection are 1, 5, 25 or 125 seconds.\<close>

theorem amqp_backoff:
  assumes "amqp_reach q s" "t \<in> set (nt_timers (am_net (snd s)))"
  shows "t \<in> {1000, 5000, 25000, 125000} \<and> nt_timeOut (am_net (snd s)) \<in> {0, 1000, 5000, 25000, 125000}"
  using reach_ok [OF assms(1)] assms(2) by (auto simp: amqp_ok_def net_ok_def delays_def)

definition sample_refused :: amqp where
  "sample_refused = (let a = cl_connect (new_client_private True 0)
     in a\<lparr>am_net := net_error ((am_net a)\<lparr>nt_state := Unconnected\<rparr>)\<rparr>)"

lemma sample_refused_reach: "amqp_reach q ([], sample_refused)"
proof -
  have state: "nt_state (am_net (cl_connect (new_client_private True 0))) = Connecting"
    by (simp add: cl_connect_def new_client_private_def new_network_def net_connectTo_def Let_def)
  have "amqp_step q ([], new_client_private True 0) (if nt_state (am_net (client_call q ClOpen (new_client_private True 0))) = Connected
      then [] else [], client_call q ClOpen (new_client_private True 0))"
    by (rule amqp_step.client) (rule refl)
  then have "amqp_reach q ([], cl_connect (new_client_private True 0))"
    by (intro amqp_reach.step [OF amqp_reach.start [of q True 0]]) (simp add: client_call_def)
  moreover have "amqp_step q ([], cl_connect (new_client_private True 0)) ([], sample_refused)"
    using amqp_step.sock_error [of "cl_connect (new_client_private True 0)" q "[]"] state by (simp add: sample_refused_def Let_def)
  ultimately show ?thesis by (rule amqp_reach.step)
qed

theorem amqp_backoff_witness:
  "nt_timers (am_net sample_refused) = [5000] \<and> nt_timeOut (am_net sample_refused) \<in> {0, 1000, 5000, 25000, 125000}"
proof -
  have t: "nt_timers (am_net sample_refused) = [5000]"
    by (simp add: sample_refused_def cl_connect_def new_client_private_def new_network_def net_connectTo_def Let_def
        net_error_def next_timeOut_def)
  then show ?thesis using amqp_backoff [OF sample_refused_reach, of 5000] by simp
qed

text \<open>The signal \<open>connected\<close> as a whole: the opens of the channels are written.\<close>

lemma emit_connected_eq:
  assumes "cn_wired (am_conn a)"
  shows "emit_connected q a = a\<lparr>am_net := (am_net a)\<lparr>nt_out := nt_out (am_net a)
      @ out_bytes q (am_net a) (concat (map (\<lambda>c. sent_frames (chan_open (cn_connected (am_conn a)) c)) (am_chans a)))\<rparr>,
    am_log := am_log a @ [(None, SConnected)]\<rparr>"
proof -
  let ?f = "\<lambda>i a. fold (am_effect q i) (chan_open (cn_connected (am_conn a)) (am_chans a ! i)) a"
  have silent: "emitted (chan_open b c) = []" for b c
    by (cases c) (simp_all add: chan_open_def ch_open_def)
  have "fold ?f is d = d\<lparr>am_net := (am_net d)\<lparr>nt_out := nt_out (am_net d)
      @ out_bytes q (am_net d) (concat (map (\<lambda>i. sent_frames (chan_open (cn_connected (am_conn d)) (am_chans d ! i))) is))\<rparr>\<rparr>" for "is" d
    by (induction "is" arbitrary: d) (simp_all add: am_effects silent out_bytes_def)
  moreover have "map (\<lambda>i. f (am_chans a ! i)) [0..<length (am_chans a)] = map f (am_chans a)" for f :: "chan \<Rightarrow> frame list"
    by (rule nth_equalityI) simp_all
  note this [of "\<lambda>c. sent_frames (chan_open (cn_connected (am_conn a)) c)"]
  ultimately show ?thesis using assms by (simp add: emit_connected_def)
qed

definition server_frame :: "16 word \<Rightarrow> bytes \<Rightarrow> frame" where
  "server_frame i args = method_frame 10 i args"

definition open_frame :: "chan \<Rightarrow> frame" where
  "open_frame c = (case c of CQueue u \<Rightarrow> channel_frame u 20 10 [0] | CExchange x \<Rightarrow> channel_frame x 20 10 [0])"

definition waiting :: "chan \<Rightarrow> bool" where
  "waiting c \<longleftrightarrow> (case c of CQueue u \<Rightarrow> ch_needOpen u \<and> \<not> ch_opened u | CExchange x \<Rightarrow> ch_needOpen x \<and> \<not> ch_opened x)"

lemma waiting_open: "waiting c \<Longrightarrow> sent_frames (chan_open True c) = [open_frame c]"
  by (cases c) (simp_all add: waiting_def chan_open_def ch_open_def open_frame_def)

text \<open>C27: The handshake: with a server that starts, tunes and opens the connection, in reads split anywhere, a
  client with new channels sends the protocol header, its answers, the virtual host, and then one open for
  each channel in the order of their creation; it is connected and its pause before a reconnection is
  reset.\<close>

theorem amqp_handshake:
  assumes "nt_state (am_net a) = Connecting" "cn_wired (am_conn a)" "\<not> cn_closed (am_conn a)" "list_all waiting (am_chans a)"
    and "length sargs < 2 ^ 30" "length oargs < 2 ^ 30"
    and ts: "concat ts = concat (map (toStream q) [server_frame 10 sargs,
      server_frame 30 (put_be (cmax :: 16 word) @ put_be (fmax :: 32 word) @ put_be (hb :: 16 word)), server_frame 41 oargs])"
    and a': "snd (fold (readyRead q) ts ([], a\<lparr>am_net := conectionReady (am_net a)\<rparr>)) = a'"
  shows "nt_out (am_net a') = nt_out (am_net a) @ amqp_header @ toStream q (startOk q a)
       @ toStream q (server_frame 31 (put_be (0 :: 16 word) @ put_be (131072 :: 32 word) @ put_be hb))
       @ toStream q (conn_open q (am_vhost a)) @ concat (map (toStream q \<circ> open_frame) (am_chans a))
    \<and> cn_connected (am_conn a') \<and> cn_interval (am_conn a') = sint hb * 1000 \<and> nt_timeOut (am_net a') = 0"
proof -
  let ?a0 = "a\<lparr>am_net := conectionReady (am_net a)\<rparr>"
  let ?targs = "put_be cmax @ put_be fmax @ put_be hb"
  let ?fs = "[server_frame 10 sargs, server_frame 30 ?targs, server_frame 41 oargs]"
  have "list_all (sendable q) ?fs"
    using assms(5,6) by (simp add: server_frame_def method_frame_def new_method_def fits_def frame_payload_def)
  then have "fold (readyRead q) ts ([], ?a0) = ([], fold (am_frame q) (map (wire q) ?fs) ?a0)"
    using ts by (rule read_frames)
  then have run: "a' = am_frame q (wire q (server_frame 41 oargs)) (am_frame q (wire q (server_frame 30 ?targs))
      (am_frame q (wire q (server_frame 10 sargs)) ?a0))"
    using a' by simp
  have hb: "tune_heartbeat ?targs = hb"
    by (simp add: tune_heartbeat_def run_bind u16be.get_put u32be.get_put u16be.get_put_nil)
  have "list_all waiting cs \<Longrightarrow> concat (map (\<lambda>c. sent_frames (chan_open True c)) cs) = map open_frame cs" for cs
    by (induction cs) (auto simp: waiting_open)
  then have opens: "concat (map (\<lambda>c. sent_frames (chan_open True c)) (am_chans a)) = map open_frame (am_chans a)"
    using assms(4) by blast
  have interval: "word_of_int (sint hb * 1000 div 1000) = hb" by simp
  show ?thesis
    using assms(1-3)
    by (simp add: run server_frame_def method_frame_def new_method_def am_frame_def conn_method_def conn_start_def
        conn_tune_def hb conn_openOk_def emit_connected_eq Let_def am_send_def net_sendFrame_def conectionReady_def
        out_bytes_def opens comp_def startOk_def tuneOk_def interval)
qed

definition sample_dial :: amqp where
  "sample_dial = cl_connect (createQueue plain_env (-1) [] (new_client_private False 0))"

lemma sample_dial_chans: "am_chans sample_dial = [CQueue (new_queue\<lparr>ch_number := 1\<rparr>)]"
  by (simp add: sample_dial_def cl_connect_def sample_created Let_def)
    (simp add: createQueue_def ch_init_def Let_def am_effects new_client_private_def new_network_def)

theorem amqp_handshake_witness:
  "cn_interval (am_conn (snd (fold (readyRead plain_env) [concat (map (toStream plain_env) [server_frame 10 [],
      server_frame 30 (put_be (0 :: 16 word) @ put_be (131072 :: 32 word) @ put_be (60 :: 16 word)), server_frame 41 []])]
     ([], sample_dial\<lparr>am_net := conectionReady (am_net sample_dial)\<rparr>)))) = 60000"
proof -
  have "nt_state (am_net sample_dial) = Connecting" "cn_wired (am_conn sample_dial)" "\<not> cn_closed (am_conn sample_dial)"
    by (simp_all add: sample_dial_def cl_connect_def createQueue_def ch_init_def Let_def am_effects new_client_private_def
        new_network_def net_connectTo_def new_connection_def)
  moreover have "list_all waiting (am_chans sample_dial)" by (simp add: sample_dial_chans waiting_def new_queue_def)
  ultimately show ?thesis
    using amqp_handshake [of sample_dial "[]" "[]" "[concat (map (toStream plain_env) [server_frame 10 [],
        server_frame 30 (put_be (0 :: 16 word) @ put_be (131072 :: 32 word) @ put_be (60 :: 16 word)), server_frame 41 []])]"
        plain_env 0 131072 60] by simp
qed

text \<open>A connection that the network cuts is set up again, but its channels stay as they were: to the
  client they are still open, it opens none of them on the new connection, and what it sends on them
  reaches a server that has no such channel.\<close>

theorem amqp_reconnect_no_reopen:
  assumes "cn_wired (am_conn a)"
    and "\<forall>c \<in> set (am_chans a). \<not> waiting c"
    and a': "a' = conn_openOk q (a\<lparr>am_net := conectionReady (net_connectTo [] 0 (net_error ((am_net a)\<lparr>nt_state := Unconnected\<rparr>)))\<rparr>)"
    and "am_chans a ! i = CQueue u" "ch_opened u"
  shows "am_chans a' = am_chans a \<and> nt_out (am_net a') = nt_out (am_net a) @ amqp_header
    \<and> nt_out (am_net (am_chan q i (CQueue u, qu_get q u) a')) = nt_out (am_net a') @ toStream q
        (channel_frame u 60 70 (put_be (0 :: 16 word) @ write_s q (ch_name u) @ [if qu_noAck u then 1 else 0]))"
proof -
  have none: "sent_frames (chan_open b c) = []" if "c \<in> set (am_chans a)" for b c
    using assms(2) that by (cases c) (auto simp: chan_open_def ch_open_def waiting_def)
  have "nt_out (net_connectTo h p n) = nt_out n" "nt_out (net_error n) = nt_out n" for h p n
    by (simp_all add: net_connectTo_def net_error_def Let_def)
  then have out: "am_chans a' = am_chans a" "nt_out (am_net a') = nt_out (am_net a) @ amqp_header" "nt_state (am_net a') = Connected"
    using assms(1) none by (simp_all add: a' conn_openOk_def emit_connected_eq conectionReady_def out_bytes_def)
  then show ?thesis
    using assms(5) by (simp add: am_chan_def qu_get_def am_effect_def am_send_def net_sendFrame_def)
qed

theorem amqp_reconnect_no_reopen_witness:
  "am_chans (conn_openOk plain_env (sample_client\<lparr>am_net := conectionReady (net_connectTo [] 0
     (net_error ((am_net sample_client)\<lparr>nt_state := Unconnected\<rparr>)))\<rparr>)) = am_chans sample_client"
  using amqp_reconnect_no_reopen [of sample_client _ plain_env 0 sample_queue]
  by (simp add: sample_client_def sample_queue_def new_client_private_def new_connection_def waiting_def)

text \<open>The URL of a server: a client that is constructed with one goes through the network object before it
  is made, and a URL without a port, which QUrl reports as -1, asks the socket for port 4294967295 and not
  for the default.\<close>

theorem amqp_url:
  assumes "is_amqp_url con" "url_port con = -1" "url_host con \<noteq> []"
  shows "new_client_url auto port con = Inl NullDeref
    \<and> nt_calls (am_net (cl_open_url con a)) = nt_calls (am_net a) @ [(url_scheme con = qs ''amqps'', url_host con, 4294967295)]"
  using assms by (simp add: new_client_url_def cl_open_url_def parseCnnString_def client_setters cl_connect_def initSocket_def
      net_connectTo_def Let_def)

theorem amqp_url_witness:
  "nt_calls (am_net (cl_open_url \<lparr>url_scheme = qs ''amqp'', url_user = [], url_password = [], url_host = qs ''mq'',
     url_port = -1, url_path = qs ''/''\<rparr> (new_client_private False 0))) = [(False, qs ''mq'', 4294967295)]"
  using amqp_url [of "\<lparr>url_scheme = qs ''amqp'', url_user = [], url_password = [], url_host = qs ''mq'',
     url_port = -1, url_path = qs ''/''\<rparr>" False 0 "new_client_private False 0"]
  by (simp add: is_amqp_url_def new_client_private_def new_network_def qs_def from_latin1_def byte_of_char_def)

end
