(* ===== verification/Midas_Queue.thy ===== *)
theory Midas_Queue
  imports Amqp_Props Spoolers
begin

text \<open>
  mod/daemon/midasinput on its AMQP client: how it sets up the queue and the exchange (the constructor,
  \<open>mq_declared\<close>, \<open>mq_e_declared\<close>), and the way of a message from the broker to the data file and its
  acknowledgement. The slots run in the frame whose handling emits their signal, before the next frame.
  mod/daemon/vps uses a queue in the same way.
\<close>

section \<open>The daemon and its slots\<close>

text \<open>\<open>md_wired\<close>: how often \<open>declared\<close> of the exchange is connected; \<open>mq_declared\<close> connects it each time.
  The queue is channel object 0, the exchange 1.\<close>

record midas_daemon =
  md_in :: bytes
  md_amqp :: amqp
  md_files :: midas
  md_wired :: nat

definition on_queue :: "qt_env \<Rightarrow> (queue \<Rightarrow> queue \<times> effect list) \<Rightarrow> midas_daemon \<Rightarrow> midas_daemon" where
  "on_queue q g d = (case am_chans (md_amqp d) ! 0 of
     CQueue u \<Rightarrow> d\<lparr>md_amqp := am_chan q 0 (apfst CQueue (g u)) (md_amqp d)\<rparr> | CExchange _ \<Rightarrow> d)"

definition on_exchange :: "qt_env \<Rightarrow> (exchange \<Rightarrow> exchange \<times> effect list) \<Rightarrow> midas_daemon \<Rightarrow> midas_daemon" where
  "on_exchange q g d = (case am_chans (md_amqp d) ! 1 of
     CExchange x \<Rightarrow> d\<lparr>md_amqp := am_chan q 1 (apfst CExchange (g x)) (md_amqp d)\<rparr> | CQueue _ \<Rightarrow> d)"

definition midas_url :: url where
  "midas_url = \<lparr>url_scheme = qs ''qamqp'', url_user = qs ''guest'', url_password = qs ''guest'', url_host = qs ''localhost'',
     url_port = -1, url_path = qs ''/''\<rparr>"

definition mi_setup :: "qt_env \<Rightarrow> bool \<Rightarrow> 32 word \<Rightarrow> string \<Rightarrow> bool \<Rightarrow> bool \<Rightarrow> midas_daemon outcome" where
  "mi_setup q auto port now ok_new ok_check =
     (let a = cl_open_url midas_url (new_client_private auto port);
          a = createQueue q (-1) [] a;
          d = \<lparr>md_in = [], md_amqp = a, md_files = new_midas, md_wired = 0\<rparr>;
          d = on_queue q (qu_declare_as q (qs ''midas1'') 2) d;
          d = d\<lparr>md_amqp := createExchange q (-1) (qs ''midas'') (md_amqp d)\<rparr>
      in map_out (\<lambda>f. d\<lparr>md_files := f\<rparr>) (switchOutput now ok_new ok_check (md_files d)))"

definition mq_declared :: "qt_env \<Rightarrow> midas_daemon \<Rightarrow> midas_daemon" where
  "mq_declared q d =
     (let d = on_queue q (\<lambda>u. (u, ch_setQOS u 0 1)) d;
          d = on_queue q (\<lambda>u. (u, qu_consume q 0 u)) d;
          d = d\<lparr>md_wired := Suc (md_wired d)\<rparr>
      in on_exchange q (ex_declare_as q (qs ''fanout'') 2 []) d)"

definition mq_e_declared :: "qt_env \<Rightarrow> midas_daemon \<Rightarrow> midas_daemon" where
  "mq_e_declared q d = (case am_chans (md_amqp d) ! 1 of
     CExchange x \<Rightarrow> on_queue q (ex_bind q x) d | CQueue _ \<Rightarrow> d)"

definition mq_messageReceived :: "qt_env \<Rightarrow> midas_daemon \<Rightarrow> midas_daemon outcome" where
  "mq_messageReceived q d = (case am_chans (md_amqp d) ! 0 of
       CExchange _ \<Rightarrow> Inr d
     | CQueue u \<Rightarrow> bind_out (qu_getMessage u) (\<lambda>(u', m).
         let d = on_queue q (\<lambda>_. (u', [])) d in
         bind_out (mi_messageReceived (mg_payload m) (md_files d)) (\<lambda>f.
           Inr (on_queue q (\<lambda>u. (u, qu_ack m u)) (d\<lparr>md_files := f\<rparr>)))))"

definition md_slot :: "qt_env \<Rightarrow> nat option \<times> signal \<Rightarrow> midas_daemon \<Rightarrow> midas_daemon outcome" where
  "md_slot q e d =
     (if e = (Some 0, SDeclared) then Inr (mq_declared q d)
      else if e = (Some 1, SDeclared) then Inr ((mq_e_declared q ^^ md_wired d) d)
      else if e = (Some 0, SMessageReceived) then mq_messageReceived q d
      else Inr d)"

text \<open>A packet, and the slots on the signals it emits.\<close>

definition md_packet :: "qt_env \<Rightarrow> bytes \<Rightarrow> midas_daemon \<Rightarrow> midas_daemon outcome" where
  "md_packet q p d =
     (let a = am_packet q p (md_amqp d)
      in fold_out (md_slot q) (drop (length (am_log (md_amqp d))) (am_log a)) (d\<lparr>md_amqp := a\<rparr>))"

section \<open>The daemon as a packet machine\<close>

text \<open>Nothing of this touches the bytes that are not cut yet.\<close>

lemma on_channel_in: "on_queue q g (d\<lparr>md_in := b\<rparr>) = (on_queue q g d)\<lparr>md_in := b\<rparr>"
  "on_exchange q h (d\<lparr>md_in := b\<rparr>) = (on_exchange q h d)\<lparr>md_in := b\<rparr>"
  by (simp_all add: on_queue_def on_exchange_def split: chan.splits)

lemma md_swap:
  "d\<lparr>md_in := b, md_wired := n\<rparr> = d\<lparr>md_wired := n, md_in := b\<rparr>" "d\<lparr>md_in := b, md_files := f\<rparr> = d\<lparr>md_files := f, md_in := b\<rparr>"
  "d\<lparr>md_in := b, md_amqp := a\<rparr> = d\<lparr>md_amqp := a, md_in := b\<rparr>" for d :: midas_daemon
  by simp_all

lemma slots_in:
  "mq_declared q (d\<lparr>md_in := b\<rparr>) = (mq_declared q d)\<lparr>md_in := b\<rparr>"
  "mq_e_declared q (d\<lparr>md_in := b\<rparr>) = (mq_e_declared q d)\<lparr>md_in := b\<rparr>"
proof -
  have "on_exchange q h (d\<lparr>md_in := b, md_wired := n\<rparr>) = (on_exchange q h (d\<lparr>md_wired := n\<rparr>))\<lparr>md_in := b\<rparr>" for h d n
    unfolding md_swap by (rule on_channel_in(2))
  then show "mq_declared q (d\<lparr>md_in := b\<rparr>) = (mq_declared q d)\<lparr>md_in := b\<rparr>"
    by (simp add: mq_declared_def on_channel_in Let_def)
  show "mq_e_declared q (d\<lparr>md_in := b\<rparr>) = (mq_e_declared q d)\<lparr>md_in := b\<rparr>"
    by (simp add: mq_e_declared_def on_channel_in split: chan.splits)
qed

lemma message_in: "mq_messageReceived q (d\<lparr>md_in := b\<rparr>) = map_out (\<lambda>d. d\<lparr>md_in := b\<rparr>) (mq_messageReceived q d)"
proof (cases "am_chans (md_amqp d) ! 0")
  case (CQueue u)
  have files: "on_queue q g (d\<lparr>md_in := b, md_files := f\<rparr>) = (on_queue q g (d\<lparr>md_files := f\<rparr>))\<lparr>md_in := b\<rparr>" for g d f
    unfolding md_swap by (rule on_channel_in(1))
  show ?thesis
  proof (cases "qu_getMessage u")
    case (Inr r)
    obtain u' m where r: "r = (u', m)" by force
    show ?thesis
      using Inr CQueue r
      by (cases "mi_messageReceived (mg_payload m) (md_files (on_queue q (\<lambda>_. (u', [])) d))")
        (simp_all add: mq_messageReceived_def on_channel_in Let_def files)
  qed (simp add: mq_messageReceived_def CQueue)
qed (simp add: mq_messageReceived_def)

lemma slot_in: "md_slot q e (d\<lparr>md_in := b\<rparr>) = map_out (\<lambda>d. d\<lparr>md_in := b\<rparr>) (md_slot q e d)"
proof -
  have "(mq_e_declared q ^^ n) (d\<lparr>md_in := b\<rparr>) = ((mq_e_declared q ^^ n) d)\<lparr>md_in := b\<rparr>" for n
    by (induction n) (simp_all add: slots_in)
  then show ?thesis by (simp add: md_slot_def slots_in message_in)
qed

lemma fold_slot_in: "fold_out (md_slot q) es (d\<lparr>md_in := b\<rparr>) = map_out (\<lambda>d. d\<lparr>md_in := b\<rparr>) (fold_out (md_slot q) es d)"
  by (induction es arbitrary: d) (simp_all add: slot_in bind_map_out map_bind_out)

interpretation md: packet_machine amqp_cut "md_packet q" id md_in "\<lambda>b d. d\<lparr>md_in := b\<rparr>" for q
proof unfold_locales
  show "md_packet q p (d\<lparr>md_in := b\<rparr>) = map_out (\<lambda>d. d\<lparr>md_in := b\<rparr>) (md_packet q p d)" for p b d
    using fold_slot_in [of q _ b "d\<lparr>md_amqp := am_packet q p (md_amqp d)\<rparr>"] by (simp add: md_packet_def Let_def md_swap)
qed simp_all

text \<open>The reads of the socket.\<close>

definition md_readyRead :: "qt_env \<Rightarrow> bytes \<Rightarrow> midas_daemon \<Rightarrow> midas_daemon outcome" where
  "md_readyRead q = md.receive q"

text \<open>Frames in any reads are handled in order.\<close>

definition md_frame :: "qt_env \<Rightarrow> frame \<Rightarrow> midas_daemon \<Rightarrow> midas_daemon outcome" where
  "md_frame q f d =
     (let a = am_frame q f (md_amqp d)
      in fold_out (md_slot q) (drop (length (am_log (md_amqp d))) (am_log a)) (d\<lparr>md_amqp := a\<rparr>))"

lemma md_packets_frames:
  "list_all (sendable q) fs \<Longrightarrow> fold_out (md_packet q) (map (toStream q) fs) d = fold_out (md_frame q) (map (wire q) fs) d"
proof (induction fs arbitrary: d)
  case (Cons f fs)
  then have "md_packet q (toStream q f) d = md_frame q (wire q f) d"
    by (simp add: md_packet_def md_frame_def am_packet_def parse_wire)
  with Cons show ?case by (cases "md_frame q (wire q f) d") simp_all
qed simp

lemma md_read_frames:
  assumes "list_all (sendable q) fs" "concat ts = concat (map (toStream q) fs)" "md_in d = []"
    and "fold_out (md_frame q) (map (wire q) fs) d = Inr d'"
  shows "fold_out (md_readyRead q) ts d = Inr (d'\<lparr>md_in := []\<rparr>)"
proof -
  have "list_all (fits q) fs" using assms(1) by (auto simp: list_all_iff intro: sendable_fits)
  then have c: "cut_all amqp_cut (concat ts) = (map (toStream q) fs, [], False)"
    using assms(2) by (simp add: cut_all_sent_frames)
  have "amqp_cut [] = More" by (simp add: amqp_cut_def)
  then have "fold_out (md.receive q) ts d = md.receive q (concat ts) d"
    using c assms(3) by (intro md.receive_chunks) simp_all
  also have "\<dots> = Inr (d'\<lparr>md_in := []\<rparr>)"
    using c assms(3,4) by (simp add: md.receive_def md_packets_frames [OF assms(1)])
  finally show ?thesis by (simp add: md_readyRead_def)
qed

section \<open>Frames of the queue\<close>

lemma am_log_chan: "am_log (am_chan q i r a) = am_log a @ map (Pair (Some i)) (emitted (snd r))"
  by (simp add: am_chan_def am_effects)

text \<open>Frames that tell the program nothing.\<close>

lemma md_quiet:
  assumes "only_queue 0 c (md_amqp d)" "list_all (on_channel c) fs" "am_chans (md_amqp d) \<noteq> []"
    and "am_chans (md_amqp d) ! 0 = CQueue u" "emitted (snd (queue_run q fs u)) = []"
  shows "fold_out (md_frame q) fs d = Inr (d\<lparr>md_amqp := am_chan q 0 (apfst CQueue (queue_run q fs u)) (md_amqp d)\<rparr>)"
  using assms
proof (induction fs arbitrary: d u)
  case Nil
  have "(am_chans (md_amqp d))[0 := CQueue u] = am_chans (md_amqp d)" using Nil.prems(4) by (metis list_update_id)
  then show ?case by (cases d) (simp add: am_chan_def)
next
  case (Cons f fs)
  obtain u1 e1 where f: "queue_frame q f u = (u1, e1)" by force
  obtain u2 e2 where fs: "queue_run q fs u1 = (u2, e2)" by force
  have e: "emitted e1 = []" "emitted e2 = []" using Cons.prems(5) f fs by simp_all
  let ?a1 = "am_chan q 0 (CQueue u1, e1) (md_amqp d)"
  have a: "am_frame q f (md_amqp d) = ?a1"
    using Cons.prems f am_frame_queue [of 0 c "md_amqp d" f u q] by simp
  then have "md_frame q f d = Inr (d\<lparr>md_amqp := ?a1\<rparr>)"
    by (simp add: md_frame_def am_log_chan e)
  moreover have "am_chans ?a1 \<noteq> []" "am_chans ?a1 ! 0 = CQueue u1" "only_queue 0 c ?a1"
    using Cons.prems(1,3) by (simp_all add: am_chan_keeps flip: length_greater_0_conv)
  then have "fold_out (md_frame q) fs (d\<lparr>md_amqp := ?a1\<rparr>) =
      Inr ((d\<lparr>md_amqp := ?a1\<rparr>)\<lparr>md_amqp := am_chan q 0 (apfst CQueue (queue_run q fs u1)) (md_amqp (d\<lparr>md_amqp := ?a1\<rparr>))\<rparr>)"
    using Cons.prems(2) e fs by (intro Cons.IH) simp_all
  ultimately show ?case using f fs by (simp add: am_chan_twice)
qed

definition ack_frame :: "queue \<Rightarrow> 64 word \<Rightarrow> frame" where
  "ack_frame u dtag = channel_frame u 60 80 (put_be dtag @ [0])"

text \<open>The slot on a whole message.\<close>

lemma received_slot:
  assumes "am_chans (md_amqp d) ! 0 = CQueue (u\<lparr>qu_messages := [m]\<rparr>)" "am_chans (md_amqp d) \<noteq> []" "qu_messages u = []" "ch_opened u"
    and "nt_state (am_net (md_amqp d)) = Connected" "mi_output (md_files d) = Some (n, True)"
  shows "mq_messageReceived q d = Inr (d\<lparr>
      md_amqp := (md_amqp d)\<lparr>am_chans := (am_chans (md_amqp d))[0 := CQueue u],
        am_net := (am_net (md_amqp d))\<lparr>nt_out := nt_out (am_net (md_amqp d)) @ toStream q (ack_frame u (mg_deliveryTag m))\<rparr>\<rparr>,
      md_files := (md_files d)\<lparr>mi_files := file_append n (mg_payload m) (mi_files (md_files d)),
        mi_acked := mi_acked (md_files d) @ [mg_payload m]\<rparr>\<rparr>)"
proof -
  have u: "u\<lparr>qu_messages := []\<rparr> = u" using assms(3) by (cases u) simp
  have "qu_getMessage (u\<lparr>qu_messages := [m]\<rparr>) = Inr (u, m)" using u by (simp add: qu_getMessage_def)
  moreover have "on_queue q (\<lambda>_. (u, [])) d = d\<lparr>md_amqp := (md_amqp d)\<lparr>am_chans := (am_chans (md_amqp d))[0 := CQueue u]\<rparr>\<rparr>"
    using assms(1) by (simp add: on_queue_def am_chan_def)
  moreover have "qu_ack m u = [Send (ack_frame u (mg_deliveryTag m))]"
    using assms(4) by (simp add: qu_ack_def ack_frame_def)
  ultimately show ?thesis
    using assms by (simp add: mq_messageReceived_def mi_messageReceived_def mi_put_open on_queue_def am_chan_def
        am_effect_def am_send_def net_sendFrame_def)
qed

text \<open>A message that is published to the queue of a running daemon is stored and acknowledged.\<close>

lemma md_stores:
  assumes "am_chans (md_amqp d) ! 0 = CQueue u" "am_chans (md_amqp d) \<noteq> []" "only_queue 0 c (md_amqp d)" "ch_number u = sint c"
    and "ch_opened u" "qu_messages u = []" "nt_state (am_net (md_amqp d)) = Connected" "mi_output (md_files d) = Some (n, True)"
    and "short_text (qu_consumerTag u)" "short_text ex" "short_text key" and msg: "msg \<noteq> []" and "length msg < 2 ^ 31"
    and x: "ch_number x = sint c" and h: "h = publish_content x msg mime headers props"
    and "props_fit q (co_props h)" "fits q (FContent h)"
    and fs: "fs = deliver_frame q c (qu_consumerTag u) dtag red ex key # tl (sent_frames (ex_publish q msg key mime headers props x))"
  shows "list_all (sendable q) fs"
    and "fold_out (md_frame q) (map (wire q) fs) d = Inr (d\<lparr>
      md_amqp := (md_amqp d)\<lparr>am_net := (am_net (md_amqp d))\<lparr>nt_out := nt_out (am_net (md_amqp d)) @ toStream q (ack_frame u dtag)\<rparr>,
        am_log := am_log (md_amqp d) @ [(Some 0, SMessageReceived)]\<rparr>,
      md_files := (md_files d)\<lparr>mi_files := file_append n msg (mi_files (md_files d)), mi_acked := mi_acked (md_files d) @ [msg]\<rparr>\<rparr>)"
    (is "_ = Inr ?d'")
proof -
  let ?a = "md_amqp d"
  have hd: "fr_channel h = c" "fr_type h = 2" "co_body h = msg" unfolding h by (rule published_header [OF x])+
  obtain ps p where ps: "body_parts 0 msg = ps @ [p]"
    using concat_body_parts [of 0 msg] msg by (cases "body_parts 0 msg" rule: rev_cases) auto
  have cat: "concat ps @ p = msg" using concat_body_parts [of 0 msg] ps by simp
  have parts: "\<forall>b \<in> set (ps @ [p]). b \<noteq> []" using body_parts_sizes ps by metis
  let ?pre = "deliver_frame q c (qu_consumerTag u) dtag red ex key # FContent h # map (body_frame c) ps"
  let ?m1 = "delivered h ex key dtag (concat ps) (length p)" and ?m = "delivered h ex key dtag msg 0"
  let ?u1 = "u\<lparr>qu_messages := [?m1]\<rparr>"
  let ?a1 = "am_chan q 0 (CQueue ?u1, []) ?a" and ?a2 = "am_chan q 0 (CQueue (u\<lparr>qu_messages := [?m]\<rparr>), [Emit SMessageReceived]) ?a"
  have len: "length (co_body h) = length (concat ps) + length p" using hd(3) cat by (metis length_append)
  have run: "queue_run q (map (wire q) ?pre) u = (?u1, [])"
    using delivery_run [of c u ex key h ps "length p" q dtag red] assms(4,6,9-11,13) hd len parts
    by (auto simp del: wire.simps queue_run.simps list.map)
  have all: "queue_run q (map (wire q) ?pre @ [wire q (body_frame c p)]) u = (u\<lparr>qu_messages := [?m]\<rparr>, [Emit SMessageReceived])"
    using delivery_run [of c u ex key h "ps @ [p]" 0 q dtag red] assms(4,6,9-11,13) hd cat parts
    by (simp del: wire.simps queue_run.simps list.map) (simp del: wire.simps queue_run.simps)
  have append: "queue_run q (fs @ [f]) v = (case queue_run q fs v of (v1, e1) \<Rightarrow> case queue_frame q f v1 of (v2, e2) \<Rightarrow> (v2, e1 @ e2))" for fs f v
    by (induction fs arbitrary: v) (simp_all split: prod.splits)
  have last: "queue_frame q (wire q (body_frame c p)) ?u1 = (u\<lparr>qu_messages := [?m]\<rparr>, [Emit SMessageReceived])"
    using all unfolding append run by (simp split: prod.splits)
  have sendable: "list_all (sendable q) (?pre @ [body_frame c p])"
    using bodies_sendable [of q c 0 msg] assms(9-11,16,17) hd by (simp add: ps deliver_sendable)
  have quiet: "fold_out (md_frame q) (map (wire q) ?pre) d = Inr (d\<lparr>md_amqp := ?a1\<rparr>)"
    using md_quiet [OF assms(3) delivery_on_channel [OF hd(1)] assms(2,1), of q q "qu_consumerTag u" dtag red ex key ps]
    unfolding run by simp
  have on: "on_channel c (wire q (body_frame c p))" by (simp add: on_channel_def body_frame_def)
  have a1: "only_queue 0 c ?a1" "am_chans ?a1 ! 0 = CQueue ?u1" "am_log ?a1 = am_log ?a"
    using assms(2,3) by (simp_all add: am_chan_keeps am_log_chan)
  have "am_frame q (wire q (body_frame c p)) ?a1 = ?a2"
    using am_frame_queue [OF a1(1) on a1(2), of q] unfolding last by (simp add: am_chan_twice)
  then have "md_frame q (wire q (body_frame c p)) (d\<lparr>md_amqp := ?a1\<rparr>) = mq_messageReceived q (d\<lparr>md_amqp := ?a2\<rparr>)"
    by (simp add: md_frame_def am_log_chan md_slot_def)
  also have "\<dots> = Inr ?d'"
  proof -
    have a2: "?a2 = ?a\<lparr>am_chans := (am_chans ?a)[0 := CQueue (u\<lparr>qu_messages := [?m]\<rparr>)], am_log := am_log ?a @ [(Some 0, SMessageReceived)]\<rparr>"
      by (simp add: am_chan_def am_effect_def)
    have id: "(am_chans ?a)[0 := CQueue u] = am_chans ?a" using assms(1) by (metis list_update_id)
    have "mg_payload ?m = msg" "mg_deliveryTag ?m = dtag" by (simp_all add: delivered_def)
    then show ?thesis
      using received_slot [of "d\<lparr>md_amqp := ?a2\<rparr>" ?m u n q] assms(2,5-8) id unfolding a2 by simp
  qed
  finally have "fold_out (md_frame q) (map (wire q) (?pre @ [body_frame c p])) d = Inr ?d'"
    unfolding map_append fold_out_append quiet by simp
  moreover have "fs = ?pre @ [body_frame c p]" by (simp add: fs published_frames [OF x] ps h)
  ultimately show "list_all (sendable q) fs" "fold_out (md_frame q) (map (wire q) fs) d = Inr ?d'"
    using sendable by simp_all
qed

end
