(* ===== verification/Midas_Session.thy ===== *)
theory Midas_Session
  imports Midas_Queue
begin

text \<open>
  The session of mod/daemon/midasinput with its broker, from the constructor to the first message: what the
  daemon sends, and in which order, when the broker accepts everything.
\<close>

section \<open>The daemon before its session\<close>

text \<open>The daemon after its constructor: connecting, a queue on channel 1 whose declaration waits, an exchange
  on channel 3.\<close>

definition midas_queue :: queue where
  "midas_queue = new_queue\<lparr>ch_number := 1, ch_name := qs ''midas1'', qu_options := 2, qu_delayedDeclare := True\<rparr>"

definition midas_exchange :: exchange where
  "midas_exchange = new_exchange\<lparr>ch_number := 3, ch_name := qs ''midas''\<rparr>"

lemma not_amqp_url: "\<not> is_amqp_url midas_url"
  by (simp add: is_amqp_url_def midas_url_def qs_def from_latin1_def lit_def byte_of_char_def)

lemma mi_setup_state:
  assumes "mi_setup q auto port now ok1 ok2 = Inr d"
  shows "am_chans (md_amqp d) = [CQueue midas_queue, CExchange midas_exchange]" "md_in d = []" "md_wired d = 0"
    "am_conn (md_amqp d) = new_connection" "am_vhost (md_amqp d) = qs ''/''" "am_log (md_amqp d) = []"
    "nt_out (am_net (md_amqp d)) = []" "nt_state (am_net (md_amqp d)) = Connecting"
    "nt_methods (am_net (md_amqp d)) = (\<lambda>_. [])(1 := [0], 3 := [1])"
    "nt_contents (am_net (md_amqp d)) = (\<lambda>_. [])(1 := [0])" "nt_bodies (am_net (md_amqp d)) = (\<lambda>_. [])(1 := [0])"
    "Inr (md_files d) = switchOutput now ok1 ok2 new_midas"
    "am_auth (md_amqp d) = \<lparr>au_login = qs ''guest'', au_password = qs ''guest''\<rparr>"
    "nt_calls (am_net (md_amqp d)) = [(False, qs ''localhost'', 5672)]"
  using assms
  by (auto simp: mi_setup_def Let_def cl_open_url_def parseCnnString_def not_amqp_url cl_connect_def new_client_private_def
      new_network_def net_connectTo_def createQueue_def createExchange_def ch_init_def ch_open_def on_queue_def setName_def
      qu_declare_as_def qu_declare_def new_queue_def new_exchange_def am_chan_def add_handler_def
      midas_queue_def midas_exchange_def map_out_def bind_out_Inr_iff new_connection_def qs_def from_latin1_def lit_def)

text \<open>A frame of the client on a channel, and of the server.\<close>

definition method_on :: "16 word \<Rightarrow> 16 word \<Rightarrow> 16 word \<Rightarrow> bytes \<Rightarrow> frame" where
  "method_on n c i args = FMethod ((new_method c i)\<lparr>fr_channel := n, me_args := args\<rparr>)"

lemma channel_frame_on: "channel_frame ch c i args = method_on (word_of_int (ch_number ch)) c i args"
  by (simp add: channel_frame_def method_on_def)

lemma method_frame_on: "method_frame c i args = method_on 0 c i args"
  by (simp add: method_frame_def method_on_def new_method_def)

lemma wire_method_on: "wire q (method_on n c i args) = FMethod ((new_method c i)\<lparr>fr_size := frame_size q (method_on n c i args),
    fr_channel := n, me_args := args\<rparr>)"
  by (simp add: method_on_def)


section \<open>A step of the session\<close>

text \<open>The daemon \<open>d\<close> with another stage of its session.\<close>

definition md_at :: "midas_daemon \<Rightarrow> bytes \<Rightarrow> connection \<Rightarrow> queue \<Rightarrow> exchange \<Rightarrow> (nat option \<times> signal) list \<Rightarrow> nat \<Rightarrow> midas_daemon" where
  "md_at d out cn u x l w = d\<lparr>md_amqp := (md_amqp d)\<lparr>am_net := (am_net (md_amqp d))\<lparr>nt_out := out\<rparr>, am_conn := cn,
     am_chans := [CQueue u, CExchange x], am_log := l\<rparr>, md_wired := w\<rparr>"

lemma md_at_fields [simp]:
  "am_conn (md_amqp (md_at d out cn u x l w)) = cn" "am_chans (md_amqp (md_at d out cn u x l w)) = [CQueue u, CExchange x]"
  "am_log (md_amqp (md_at d out cn u x l w)) = l" "md_wired (md_at d out cn u x l w) = w"
  "nt_out (am_net (md_amqp (md_at d out cn u x l w))) = out" "am_vhost (md_amqp (md_at d out cn u x l w)) = am_vhost (md_amqp d)"
  "nt_state (am_net (md_amqp (md_at d out cn u x l w))) = nt_state (am_net (md_amqp d))"
  "nt_methods (am_net (md_amqp (md_at d out cn u x l w))) = nt_methods (am_net (md_amqp d))"
  "am_auth (md_amqp (md_at d out cn u x l w)) = am_auth (md_amqp d)" "md_files (md_at d out cn u x l w) = md_files d"
  "md_in (md_at d out cn u x l w) = md_in d"
  by (simp_all add: md_at_def)

lemma md_at_wired [simp]: "(md_at d out cn u x l w)\<lparr>md_wired := v\<rparr> = md_at d out cn u x l v"
  by (simp add: md_at_def)

lemma md_at_amqp [simp]: "(md_at d out cn u x l w)\<lparr>md_amqp := md_amqp (md_at d out' cn' u' x' l' w')\<rparr> = md_at d out' cn' u' x' l' w"
  by (simp add: md_at_def)

lemma md_at_chan [simp]:
  assumes "nt_state (am_net (md_amqp d)) = Connected"
  shows "am_chan q 0 (CQueue u', es) (md_amqp (md_at d out cn u x l w)) =
      md_amqp (md_at d (out @ concat (map (toStream q) (sent_frames es))) cn u' x (l @ map (Pair (Some 0)) (emitted es)) w)"
    "am_chan q (Suc 0) (CExchange x', es) (md_amqp (md_at d out cn u x l w)) =
      md_amqp (md_at d (out @ concat (map (toStream q) (sent_frames es))) cn u x' (l @ map (Pair (Some 1)) (emitted es)) w)"
  using assms by (simp_all add: am_chan_def am_effects out_bytes_def md_at_def)

lemma md_at_on [simp]:
  assumes "nt_state (am_net (md_amqp d)) = Connected"
  shows "on_queue q g (md_at d out cn u x l w) = (case g u of (u', es) \<Rightarrow>
      md_at d (out @ concat (map (toStream q) (sent_frames es))) cn u' x (l @ map (Pair (Some 0)) (emitted es)) w)"
    "on_exchange q h (md_at d out cn u x l w) = (case h x of (x', es) \<Rightarrow>
      md_at d (out @ concat (map (toStream q) (sent_frames es))) cn u x' (l @ map (Pair (Some 1)) (emitted es)) w)"
  using assms by (simp_all add: on_queue_def on_exchange_def split: prod.splits)

text \<open>The frames of the connection class.\<close>

lemma md_at_start:
  assumes "nt_state (am_net (md_amqp d)) = Connected" "\<not> cn_closed cn" "cn_custom cn = cn_custom (am_conn (md_amqp d))"
  shows "md_frame q (wire q (server_frame 10 args)) (md_at d out cn u x l w) =
    Inr (md_at d (out @ toStream q (startOk q (md_amqp d))) cn u x l w)"
proof -
  have "startOk q (md_amqp (md_at d out cn u x l w)) = startOk q (md_amqp d)" using assms(3) by (simp add: startOk_def)
  then show ?thesis
    using assms by (simp add: server_frame_def method_frame_def new_method_def md_frame_def am_frame_def conn_method_def
      conn_start_def am_send_def net_sendFrame_def) (simp add: md_at_def)
qed

lemma md_at_tune:
  assumes "nt_state (am_net (md_amqp d)) = Connected" "\<not> cn_closed cn"
  shows "md_frame q (wire q (server_frame 30 (put_be (cmax :: 16 word) @ put_be (fmax :: 32 word) @ put_be (hb :: 16 word))))
      (md_at d out cn u x l w) =
    Inr (md_at d (out @ toStream q (server_frame 31 (put_be (0 :: 16 word) @ put_be (131072 :: 32 word) @ put_be hb))
        @ toStream q (conn_open q (am_vhost (md_amqp d)))) (cn\<lparr>cn_interval := sint hb * 1000, cn_running := sint hb > 0\<rparr>) u x l w)"
proof -
  have hb: "tune_heartbeat (put_be cmax @ put_be fmax @ put_be hb) = hb"
    by (simp add: tune_heartbeat_def run_bind u16be.get_put u32be.get_put u16be.get_put_nil)
  show ?thesis
    using assms by (simp add: server_frame_def method_frame_def new_method_def md_frame_def am_frame_def conn_method_def
      conn_tune_def hb Let_def am_send_def tuneOk_def net_sendFrame_def) (simp add: md_at_def)
qed

lemma md_at_openOk:
  assumes "nt_state (am_net (md_amqp d)) = Connected" "\<not> cn_closed cn" "cn_wired cn" "waiting (CQueue u)" "waiting (CExchange x)"
  shows "md_frame q (wire q (server_frame 41 args)) (md_at d out cn u x l w) =
    Inr (md_at d (out @ toStream q (open_frame (CQueue u)) @ toStream q (open_frame (CExchange x)))
      (cn\<lparr>cn_connected := True\<rparr>) u x (l @ [(None, SConnected)]) w)"
  using assms by (simp add: server_frame_def method_frame_def new_method_def md_frame_def am_frame_def conn_method_def
      conn_openOk_def emit_connected_eq md_slot_def waiting_open out_bytes_def) (simp add: md_at_def)

text \<open>A method for the queue, and for the exchange.\<close>

lemma md_at_method:
  assumes "nt_state (am_net (md_amqp d)) = Connected" "c \<noteq> 10"
    and m: "m = (new_method c k)\<lparr>fr_size := frame_size q (method_on n c k args), fr_channel := n, me_args := args\<rparr>"
  shows "nt_methods (am_net (md_amqp d)) n = [0] \<Longrightarrow> qu_method q m u = (u', es) \<Longrightarrow>
      md_frame q (wire q (method_on n c k args)) (md_at d out cn u x l w) = fold_out (md_slot q) (map (Pair (Some 0)) (emitted es))
        (md_at d (out @ concat (map (toStream q) (sent_frames es))) cn u' x (l @ map (Pair (Some 0)) (emitted es)) w)" (is "PROP ?q")
    and "nt_methods (am_net (md_amqp d)) n = [1] \<Longrightarrow> ex_method q m x = (x', es) \<Longrightarrow>
      md_frame q (wire q (method_on n c k args)) (md_at d out cn u x l w) = fold_out (md_slot q) (map (Pair (Some 1)) (emitted es))
        (md_at d (out @ concat (map (toStream q) (sent_frames es))) cn u x' (l @ map (Pair (Some 1)) (emitted es)) w)" (is "PROP ?x")
proof -
  have am: "am_frame q (wire q (method_on n c k args)) a = to_handlers q (nt_methods (am_net a) n) (chan_method q m) a" for a
    using assms(2) by (simp add: wire_method_on new_method_def am_frame_def m)
  show "PROP ?q" "PROP ?x"
    using assms(1) by (simp_all add: md_frame_def am to_handlers_def chan_method_def)
qed

section \<open>The session\<close>

text \<open>What the broker says: the handshake, then one reply to each synchronous method of the daemon, in the order
  of the methods. These are channel.open-ok on both channels, queue.declare-ok, basic.qos-ok, basic.consume-ok,
  exchange.declare-ok and queue.bind-ok; what AMQP 0-9-1 lets a broker choose (the arguments of connection.start,
  tune and open-ok, the reserved argument of channel.open-ok, the counts and the consumer tag) is arbitrary.\<close>

definition broker_frames :: "qt_env \<Rightarrow> bytes \<Rightarrow> bytes \<Rightarrow> bytes \<Rightarrow> bytes \<Rightarrow> bytes \<Rightarrow> bytes \<Rightarrow> qstring \<Rightarrow> frame list" where
  "broker_frames q sargs targs oargs open1 open3 counts tag =
     [server_frame 10 sargs, server_frame 30 targs, server_frame 41 oargs,
      method_on 1 20 11 open1, method_on 3 20 11 open3, method_on 1 50 11 (write_s q (qs ''midas1'') @ counts),
      method_on 1 60 11 [], method_on 1 60 21 (write_s q tag), method_on 3 40 11 [], method_on 1 50 21 []]"

text \<open>What the daemon says after the handshake.\<close>

definition setup_frames :: "qt_env \<Rightarrow> frame list" where
  "setup_frames q = [method_on 1 20 10 [0], method_on 3 20 10 [0],
     method_on 1 50 10 (put_be (0 :: 16 word) @ write_s q (qs ''midas1'') @ put_be (2 :: 8 word) @ write_F q []),
     method_on 1 60 10 (put_be (0 :: 32 word) @ put_be (1 :: 16 word) @ [0]),
     method_on 1 60 20 (put_be (0 :: 16 word) @ write_s q (qs ''midas1'') @ write_s q [] @ put_be (0 :: 8 word) @ write_F q []),
     method_on 3 40 10 (put_be (0 :: 16 word) @ write_s q (qs ''midas'') @ write_s q (qs ''fanout'') @ put_be (2 :: 8 word) @ write_F q []),
     method_on 1 50 20 (put_be (0 :: 16 word) @ write_s q (qs ''midas1'') @ write_s q (qs ''midas'') @ write_s q (qs ''midas'') @ [0] @ write_F q [])]"

lemmas on_method = qu_method_def ex_method_def ch_method_def ch_openOk_def new_method_def

text \<open>The seven frames after the handshake.\<close>

lemma md_at_accepted:
  fixes d q
  defines "say \<equiv> \<lambda>i j. concat (map (toStream q) (take j (drop i (setup_frames q))))"
  assumes conn: "nt_state (am_net (md_amqp d)) = Connected" "nt_methods (am_net (md_amqp d)) = (\<lambda>_. [])(1 := [0], 3 := [1])"
    and "latin1_text tag" "length tag < 128"
  shows "fold_out (md_frame q) (map (wire q) (drop 3 (broker_frames q sargs targs oargs open1 open3 counts tag)))
      (md_at d out cn midas_queue midas_exchange l 0) =
    Inr (md_at d (out @ say 2 5) cn (midas_queue\<lparr>ch_opened := True, qu_delayedDeclare := False, qu_consumerTag := tag\<rparr>)
      (midas_exchange\<lparr>ch_opened := True, ex_type := qs ''fanout'', ex_options := 2, ex_declared := True\<rparr>)
      (l @ [(Some 0, SOpened), (Some 1, SOpened), (Some 0, SDeclared), (Some 1, SDeclared), (Some 0, SBinded True)]) 1)"
proof -
  let ?u1 = "midas_queue\<lparr>ch_opened := True, qu_delayedDeclare := False\<rparr>"
  let ?u2 = "?u1\<lparr>qu_declared := True\<rparr>" and ?u3 = "?u1\<lparr>qu_consumerTag := tag\<rparr>"
  let ?x1 = "midas_exchange\<lparr>ch_opened := True\<rparr>"
  let ?x2 = "?x1\<lparr>ex_type := qs ''fanout'', ex_options := 2\<rparr>"
  have name: "run_state (read_s q) (write_s q (qs ''midas1'') @ counts) = (qs ''midas1'', counts)"
    by (rule read_s_written) (simp_all add: qs_def from_latin1_def lit_def latin1_text_def byte_of_char_def)
  have tagged: "run_state (read_s q) (write_s q tag) = (tag, [])"
    using read_s_written [of tag q "[]"] assms(4,5) by simp
  have h: "nt_methods (am_net (md_amqp d)) 1 = [0]" "nt_methods (am_net (md_amqp d)) 3 = [1]" using conn(2) by simp_all
  have qs_nonempty: "qs ''midas'' \<noteq> []" by (simp add: qs_def from_latin1_def lit_def)
  have 1: "md_frame q (wire q (method_on 1 20 11 open1)) (md_at d out cn midas_queue midas_exchange l 0) =
      Inr (md_at d (out @ say 2 1) cn ?u1 midas_exchange (l @ [(Some 0, SOpened)]) 0)" for out l
    by (subst md_at_method(1) [OF conn(1) _ refl h(1)])
      (auto simp: on_method qu_onOpen_eq midas_queue_def new_queue_def say_def setup_frames_def declare_frame_def
        channel_frame_on md_slot_def)
  have 2: "md_frame q (wire q (method_on 3 20 11 open3)) (md_at d out cn ?u1 midas_exchange l 0) =
      Inr (md_at d out cn ?u1 ?x1 (l @ [(Some 1, SOpened)]) 0)" for out l
    by (subst md_at_method(2) [OF conn(1) _ refl h(2)])
      (auto simp: on_method ex_onOpen_def midas_exchange_def new_exchange_def md_slot_def)
  have 3: "md_frame q (wire q (method_on 1 50 11 (write_s q (qs ''midas1'') @ counts))) (md_at d out cn ?u1 ?x1 l 0) =
      Inr (md_at d (out @ say 3 3) cn ?u2 ?x2 (l @ [(Some 0, SDeclared)]) 1)" for out l
    using conn(1) by (subst md_at_method(1) [OF conn(1) _ refl h(1)])
      (auto simp: on_method midas_queue_def new_queue_def midas_exchange_def new_exchange_def qu_declareOk_def name md_slot_def
        mq_declared_def ch_setQOS_def qu_consume_def ex_declare_as_def ex_declare_def say_def setup_frames_def channel_frame_on
        Let_def qs_nonempty)
  have qos: "md_frame q (wire q (method_on 1 60 11 [])) (md_at d out cn ?u2 ?x2 l 1) = Inr (md_at d out cn ?u2 ?x2 l 1)" for out l
    by (subst md_at_method(1) [OF conn(1) _ refl h(1)]) (auto simp: on_method midas_queue_def new_queue_def)
  have 4: "md_frame q (wire q (method_on 1 60 21 (write_s q tag))) (md_at d out cn ?u2 ?x2 l 1) =
      Inr (md_at d out cn ?u3 ?x2 l 1)" for out l
    by (subst md_at_method(1) [OF conn(1) _ refl h(1)])
      (auto simp: on_method midas_queue_def new_queue_def qu_consumeOk_def tagged)
  have 5: "md_frame q (wire q (method_on 3 40 11 [])) (md_at d out cn ?u3 ?x2 l 1) =
      Inr (md_at d (out @ say 6 1) cn ?u3 (?x2\<lparr>ex_declared := True\<rparr>) (l @ [(Some 1, SDeclared)]) 1)" for out l
    using conn(1) by (subst md_at_method(2) [OF conn(1) _ refl h(2)])
      (auto simp: on_method midas_queue_def new_queue_def midas_exchange_def new_exchange_def md_slot_def mq_e_declared_def
        ex_bind_def qu_bind_def say_def setup_frames_def channel_frame_on)
  have 6: "md_frame q (wire q (method_on 1 50 21 [])) (md_at d out cn ?u3 (?x2\<lparr>ex_declared := True\<rparr>) l 1) =
      Inr (md_at d out cn ?u3 (?x2\<lparr>ex_declared := True\<rparr>) (l @ [(Some 0, SBinded True)]) 1)" for out l
    by (subst md_at_method(1) [OF conn(1) _ refl h(1)]) (auto simp: on_method midas_queue_def new_queue_def md_slot_def)
  have "say 2 5 = say 2 1 @ say 3 3 @ say 6 1" by (simp add: say_def setup_frames_def)
  then show ?thesis by (simp add: broker_frames_def 1 2 3 qos 4 5 6 del: wire.simps One_nat_def)
qed

text \<open>The socket of the daemon has connected; the session is over.\<close>

definition md_bound :: "qt_env \<Rightarrow> midas_daemon \<Rightarrow> 16 word \<Rightarrow> qstring \<Rightarrow> midas_daemon" where
  "md_bound q d hb tag = md_at (d\<lparr>md_amqp := (md_amqp d)\<lparr>am_net := conectionReady (am_net (md_amqp d))\<rparr>\<rparr>)
     (amqp_header @ concat (map (toStream q) ([startOk q (md_amqp d),
        server_frame 31 (put_be (0 :: 16 word) @ put_be (131072 :: 32 word) @ put_be hb), conn_open q (qs ''/'')] @ setup_frames q)))
     (new_connection\<lparr>cn_interval := sint hb * 1000, cn_running := sint hb > 0, cn_connected := True\<rparr>)
     (midas_queue\<lparr>ch_opened := True, qu_delayedDeclare := False, qu_consumerTag := tag\<rparr>)
     (midas_exchange\<lparr>ch_opened := True, ex_type := qs ''fanout'', ex_options := 2, ex_declared := True\<rparr>)
     [(None, SConnected), (Some 0, SOpened), (Some 1, SOpened), (Some 0, SDeclared), (Some 1, SDeclared), (Some 0, SBinded True)] 1"

definition md_ready :: "midas_daemon \<Rightarrow> midas_daemon" where
  "md_ready d = d\<lparr>md_amqp := (md_amqp d)\<lparr>am_net := conectionReady (am_net (md_amqp d))\<rparr>\<rparr>"

lemma midas_run:
  assumes made: "mi_setup q auto port now ok1 ok2 = Inr d"
    and "\<forall>a \<in> {sargs, oargs, open1, open3, counts}. length a < 2 ^ 30" "short_text tag"
    and fs: "fs = broker_frames q sargs (put_be (cmax :: 16 word) @ put_be (fmax :: 32 word) @ put_be (hb :: 16 word)) oargs open1 open3 counts tag"
  shows "list_all (sendable q) fs"
    and "fold_out (md_frame q) (map (wire q) fs) (md_ready d) = Inr (md_bound q d hb tag)"
proof -
  let ?d0 = "d\<lparr>md_amqp := (md_amqp d)\<lparr>am_net := conectionReady (am_net (md_amqp d))\<rparr>\<rparr>"
  let ?t = "put_be cmax @ put_be fmax @ put_be hb"
  let ?fs = "broker_frames q sargs ?t oargs open1 open3 counts tag"
  note s = mi_setup_state [OF made]
  have len: "length (write_s q s) = Suc (length s)" for s
    by (simp add: write_s_def write_typed.simps v_toString_def write_short_def)
  have tag: "latin1_text tag" "length tag < 128" using assms(3) by (simp_all add: short_text_def)
  have send: "list_all (sendable q) ?fs"
    using assms(2) tag by (simp add: broker_frames_def server_frame_def method_frame_def method_on_def new_method_def fits_def
        frame_payload_def len qs_def from_latin1_def lit_def)
  have d0: "?d0 = md_at ?d0 amqp_header new_connection midas_queue midas_exchange [] 0"
    using s by (simp add: md_at_def conectionReady_def)
  have start: "startOk q (a\<lparr>am_net := n\<rparr>) = startOk q a" for a n by (simp add: startOk_def)
  have c: "nt_state (am_net (md_amqp ?d0)) = Connected" "nt_methods (am_net (md_amqp ?d0)) = (\<lambda>_. [])(1 := [0], 3 := [1])"
    "am_vhost (md_amqp ?d0) = qs ''/''" "cn_custom new_connection = cn_custom (am_conn (md_amqp ?d0))"
    using s by (simp_all add: conectionReady_def)
  have n: "\<not> cn_closed new_connection" "cn_wired new_connection" "waiting (CQueue midas_queue)" "waiting (CExchange midas_exchange)"
    by (simp_all add: new_connection_def waiting_def midas_queue_def midas_exchange_def new_queue_def new_exchange_def)
  have opens: "[open_frame (CQueue midas_queue), open_frame (CExchange midas_exchange)] = take 2 (setup_frames q)"
    by (simp add: open_frame_def setup_frames_def channel_frame_on midas_queue_def midas_exchange_def)
  have split: "map (wire q) ?fs = map (wire q) [server_frame 10 sargs, server_frame 30 ?t, server_frame 41 oargs]
      @ map (wire q) (drop 3 ?fs)"
    by (simp add: broker_frames_def)
  let ?cn = "new_connection\<lparr>cn_interval := sint hb * 1000, cn_running := sint hb > 0\<rparr>"
  have shake: "fold_out (md_frame q) (map (wire q) [server_frame 10 sargs, server_frame 30 ?t, server_frame 41 oargs]) ?d0 =
    Inr (md_at ?d0 (amqp_header @ toStream q (startOk q (md_amqp d)) @ toStream q (server_frame 31 (put_be (0 :: 16 word)
        @ put_be (131072 :: 32 word) @ put_be hb)) @ toStream q (conn_open q (qs ''/''))
        @ concat (map (toStream q) (take 2 (setup_frames q)))) (?cn\<lparr>cn_connected := True\<rparr>) midas_queue midas_exchange [(None, SConnected)] 0)"
    using c n by (subst d0) (simp add: md_at_start [OF c(1)] md_at_tune [OF c(1)] md_at_openOk [OF c(1)] start flip: opens del: wire.simps)
  have "setup_frames q = take 2 (setup_frames q) @ take 5 (drop 2 (setup_frames q))" by (simp add: setup_frames_def)
  then have say: "concat (map (toStream q) (setup_frames q)) =
      concat (map (toStream q) (take 2 (setup_frames q))) @ concat (map (toStream q) (take 5 (drop 2 (setup_frames q))))"
    by (metis concat_append map_append)
  have "fold_out (md_frame q) (map (wire q) ?fs) ?d0 =
      bind_out (fold_out (md_frame q) (map (wire q) [server_frame 10 sargs, server_frame 30 ?t, server_frame 41 oargs]) ?d0)
        (fold_out (md_frame q) (map (wire q) (drop 3 ?fs)))"
    by (subst split) (rule fold_out_append)
  also have "\<dots> = Inr (md_bound q d hb tag)"
    unfolding shake using md_at_accepted [OF c(1,2) tag] by (simp add: md_bound_def say del: One_nat_def)
  finally have "fold_out (md_frame q) (map (wire q) ?fs) ?d0 = Inr (md_bound q d hb tag)" .
  with send show "list_all (sendable q) fs" "fold_out (md_frame q) (map (wire q) fs) (md_ready d) = Inr (md_bound q d hb tag)"
    by (simp_all add: fs md_ready_def)
qed

text \<open>C25: The session of the input daemon, from its constructor: with a broker that accepts
  every request and answers it with the reply AMQP 0-9-1 has for it, in reads split
  anywhere, it answers the handshake, opens both channels, declares its queue, limits it to one message,
  consumes, declares the exchange and binds the queue to it, each of these once and in this order; then the
  queue is open and waits for messages under the tag the broker gave it.\<close>

theorem midas_session:
  assumes "mi_setup q auto port now ok1 ok2 = Inr d"
    and "\<forall>a \<in> {sargs, oargs, open1, open3, counts}. length a < 2 ^ 30" "short_text tag"
    and ts: "concat ts = concat (map (toStream q)
      (broker_frames q sargs (put_be (cmax :: 16 word) @ put_be (fmax :: 32 word) @ put_be (hb :: 16 word)) oargs open1 open3 counts tag))"
  shows "\<exists>d'. fold_out (md_readyRead q) ts (md_ready d) = Inr d'
    \<and> nt_out (am_net (md_amqp d')) = amqp_header @ concat (map (toStream q)
        ([startOk q (md_amqp d), server_frame 31 (put_be (0 :: 16 word) @ put_be (131072 :: 32 word) @ put_be hb),
          conn_open q (qs ''/'')] @ setup_frames q))
    \<and> am_chans (md_amqp d') ! 0 = CQueue (midas_queue\<lparr>ch_opened := True, qu_delayedDeclare := False, qu_consumerTag := tag\<rparr>)"
proof -
  have "md_in (md_ready d) = []" using mi_setup_state [OF assms(1)] by (simp add: md_ready_def)
  with midas_run [OF assms(1-3) refl] md_read_frames [OF _ ts] show ?thesis by (auto simp: md_bound_def)
qed

text \<open>From the constructor to the disk: after that session, a message that some exchange publishes and the broker
  delivers to the queue, still in reads split anywhere, is the content of the data file that the daemon
  opened when it started, and is acknowledged with its own tag.\<close>

theorem midas_records:
  assumes made: "mi_setup q auto port now True True = Inr d"
    and "\<forall>a \<in> {sargs, oargs, open1, open3, counts}. length a < 2 ^ 30" "short_text tag"
    and "short_text ex" "short_text key" "msg \<noteq> []" "length msg < 2 ^ 31" "ch_number x = 1"
    and h: "h = publish_content x msg mime headers props" "props_fit q (co_props h)" "fits q (FContent h)"
    and ts: "concat ts = concat (map (toStream q)
      (broker_frames q sargs (put_be (cmax :: 16 word) @ put_be (fmax :: 32 word) @ put_be (hb :: 16 word)) oargs open1 open3 counts tag
       @ deliver_frame q 1 tag dtag red ex key # tl (sent_frames (ex_publish q msg key mime headers props x))))"
  shows "\<exists>d'. fold_out (md_readyRead q) ts (md_ready d) = Inr d'
    \<and> map_of (mi_files (md_files d')) (data_name now) = Some msg \<and> mi_acked (md_files d') = [msg]
    \<and> (\<exists>out. nt_out (am_net (md_amqp d')) = out @ toStream q (method_on 1 60 80 (put_be dtag @ [0])))"
proof -
  let ?bs = "broker_frames q sargs (put_be cmax @ put_be fmax @ put_be hb) oargs open1 open3 counts tag"
  let ?ds = "deliver_frame q 1 tag dtag red ex key # tl (sent_frames (ex_publish q msg key mime headers props x))"
  let ?u = "midas_queue\<lparr>ch_opened := True, qu_delayedDeclare := False, qu_consumerTag := tag\<rparr>"
  let ?d1 = "md_bound q d hb tag"
  note s = mi_setup_state [OF made]
  obtain f where f: "switchOutput now True True new_midas = Inr f" "qm_wf (mi_files f)" "mi_output f = Some (data_name now, True)"
    "mi_acked f = []" "map_of (mi_files f) (data_name now) = Some []"
    using switch_new [of new_midas "now @ ''x''" now] by (auto simp: new_midas_def)
  then have files: "md_files d = f" using s(12) by simp
  note run = midas_run [OF assms(1-3) refl, where cmax = cmax and fmax = fmax and hb = hb]
  have q: "am_chans (md_amqp ?d1) ! 0 = CQueue ?u" "am_chans (md_amqp ?d1) \<noteq> []" "only_queue 0 1 (md_amqp ?d1)"
    "ch_number ?u = sint (1 :: 16 word)" "ch_opened ?u" "qu_messages ?u = []" "nt_state (am_net (md_amqp ?d1)) = Connected"
    "mi_output (md_files ?d1) = Some (data_name now, True)"
    using s f files
    by (simp_all add: md_bound_def md_at_def only_queue_def conectionReady_def midas_queue_def new_queue_def)
  note stored = md_stores [OF q, of ex key msg x h mime headers props q ?ds dtag red]
  have "list_all (sendable q) (?bs @ ?ds)" "fold_out (md_frame q) (map (wire q) (?bs @ ?ds)) (md_ready d) =
      fold_out (md_frame q) (map (wire q) ?ds) ?d1"
    using run stored(1) assms(3-8) h by (simp_all add: fold_out_append del: wire.simps)
  note run = this
  have "md_files ?d1 = f" using files by (simp add: md_bound_def md_at_def)
  then obtain d2 where d2: "fold_out (md_frame q) (map (wire q) ?ds) ?d1 = Inr d2"
      "nt_out (am_net (md_amqp d2)) = nt_out (am_net (md_amqp ?d1)) @ toStream q (ack_frame ?u dtag)"
      "mi_files (md_files d2) = file_append (data_name now) msg (mi_files f)" "mi_acked (md_files d2) = [msg]"
    using stored(2) assms(3-8) h f(4) by (simp del: wire.simps)
  have "ack_frame ?u dtag = method_on 1 60 80 (put_be dtag @ [0])"
    by (simp add: ack_frame_def channel_frame_on midas_queue_def)
  moreover have "map_of (mi_files (md_files d2)) (data_name now) = Some msg"
    using d2(3) f(2,5) by (simp add: map_of_append)
  moreover have "fold_out (md_readyRead q) ts (md_ready d) = Inr (d2\<lparr>md_in := []\<rparr>)"
    using run d2(1) s(2) by (intro md_read_frames [OF _ ts]) (simp_all add: md_ready_def del: wire.simps)
  ultimately show ?thesis using d2(2,4) by (intro exI [of _ "d2\<lparr>md_in := []\<rparr>"]) auto
qed

section \<open>Witnesses\<close>

lemma mi_setup_ok: "\<exists>d. mi_setup q auto port now True True = Inr d"
proof -
  obtain f where "switchOutput now True True new_midas = Inr f"
    using switch_new [of new_midas "now @ ''x''" now] by (auto simp: new_midas_def)
  then show ?thesis by (simp add: mi_setup_def Let_def on_queue_def split: chan.splits)
qed

text \<open>A broker that gives the tag \<open>t\<close>, and the bytes of frames one by one.\<close>

definition sample_broker :: "frame list" where
  "sample_broker = broker_frames plain_env [] (put_be (0 :: 16 word) @ put_be (0 :: 32 word) @ put_be (60 :: 16 word))
     [0] [0, 0, 0, 0] [0, 0, 0, 0] [0, 0, 0, 0, 0, 0, 0, 0] (qs ''t'')"

definition bytewise :: "frame list \<Rightarrow> bytes list" where
  "bytewise fs = map (\<lambda>b. [b]) (concat (map (toStream plain_env) fs))"

lemma concat_bytewise: "concat (bytewise fs) = concat (map (toStream plain_env) fs)"
  by (simp add: bytewise_def)

theorem midas_session_witness:
  "\<exists>d d'. mi_setup plain_env False 0 ''12'' True True = Inr d
    \<and> fold_out (md_readyRead plain_env) (bytewise sample_broker) (md_ready d) = Inr d'
    \<and> am_chans (md_amqp d') ! 0 = CQueue (midas_queue\<lparr>ch_opened := True, qu_delayedDeclare := False, qu_consumerTag := qs ''t''\<rparr>)"
proof -
  obtain d where d: "mi_setup plain_env False 0 ''12'' True True = Inr d" using mi_setup_ok by blast
  have len: "\<forall>a \<in> {[], [0], [0, 0, 0, 0], [0, 0, 0, 0], [0, 0, 0, 0, 0, 0, 0, 0 :: byte]}. length a < 2 ^ 30" by simp
  show ?thesis
    using midas_session [OF d len sample_short(1) concat_bytewise [of sample_broker, unfolded sample_broker_def]] d
    unfolding sample_broker_def by blast
qed

theorem midas_records_witness:
  "\<exists>d d'. mi_setup plain_env False 0 ''12'' True True = Inr d
    \<and> fold_out (md_readyRead plain_env) (bytewise (sample_broker @ deliver_frame plain_env 1 (qs ''t'') 9 0 (qs ''x'') (qs ''k'')
      # tl (sent_frames (ex_publish plain_env (lit ''hi'') (qs ''k'') (qs ''text'') [] [] (new_exchange\<lparr>ch_number := 1\<rparr>)))))
      (md_ready d) = Inr d'
    \<and> map_of (mi_files (md_files d')) (data_name ''12'') = Some (lit ''hi'')"
proof -
  obtain d where d: "mi_setup plain_env False 0 ''12'' True True = Inr d" using mi_setup_ok by blast
  have args: "\<forall>a \<in> {[], [0], [0, 0, 0, 0], [0, 0, 0, 0], [0, 0, 0, 0, 0, 0, 0, 0 :: byte]}. length a < 2 ^ 30" by simp
  have len: "lit ''hi'' \<noteq> []" "length (lit ''hi'') < 2 ^ 31" "ch_number (new_exchange\<lparr>ch_number := 1\<rparr>) = 1"
    by (simp_all add: lit_def)
  show ?thesis
    using midas_records [OF d args sample_short(1,2,3) len(1,2,3) refl sample_props concat_bytewise [of "sample_broker @ _", unfolded sample_broker_def]] d
    unfolding sample_broker_def by blast
qed

end
