(* ===== verification/Vps.thy ===== *)
theory Vps
  imports Amqp_Props
begin

text \<open>
  mod/daemon/vps: a queue that is consumed and acknowledged. The settings and the parser of URLs are
  arguments; the JSON document made of each message is dropped by the code and not modelled.
\<close>

section \<open>The daemon and its slots\<close>

text \<open>\<open>None\<close> while \<open>mq_client\<close> is null. The queue is channel object 0.\<close>

type_synonym vps = "amqp option"

definition vps_queue :: "qt_env \<Rightarrow> (queue \<Rightarrow> queue \<times> effect list) \<Rightarrow> amqp \<Rightarrow> amqp" where
  "vps_queue q g a = (case am_chans a ! 0 of CQueue u \<Rightarrow> am_chan q 0 (apfst CQueue (g u)) a | CExchange _ \<Rightarrow> a)"

definition vps_reload :: "qt_env \<Rightarrow> (qstring \<Rightarrow> url) \<Rightarrow> bool \<Rightarrow> 32 word \<Rightarrow> (string \<Rightarrow> qstring option) \<Rightarrow> vps \<Rightarrow> vps" where
  "vps_reload q parse auto port conf v =
     (if v \<noteq> None then v
      else case conf ''mq'' of None \<Rightarrow> v
        | Some mq \<Rightarrow>
            let a = cl_open_url (parse mq) (new_client_private auto port);
                a = createQueue q (-1) [] a
            in Some (vps_queue q (qu_declare_as q (case conf ''mq_queue'' of None \<Rightarrow> [] | Some n \<Rightarrow> n) 2) a))"

definition vps_declared :: "qt_env \<Rightarrow> amqp \<Rightarrow> amqp" where
  "vps_declared q a = vps_queue q (\<lambda>u. (u, qu_consume q 0 u)) (vps_queue q (\<lambda>u. (u, ch_setQOS u 0 1)) a)"

definition vps_messageReceived :: "qt_env \<Rightarrow> amqp \<Rightarrow> amqp outcome" where
  "vps_messageReceived q a = (case am_chans a ! 0 of
       CExchange _ \<Rightarrow> Inr a
     | CQueue u \<Rightarrow> bind_out (qu_getMessage u) (\<lambda>(u', m).
         Inr (vps_queue q (\<lambda>u. (u, qu_ack m u)) (vps_queue q (\<lambda>_. (u', [])) a))))"

definition vps_slot :: "qt_env \<Rightarrow> nat option \<times> signal \<Rightarrow> amqp \<Rightarrow> amqp outcome" where
  "vps_slot q e a =
     (if e = (Some 0, SDeclared) then Inr (vps_declared q a)
      else if e = (Some 0, SMessageReceived) then vps_messageReceived q a
      else Inr a)"

section \<open>Lemmas\<close>

text \<open>The first configuration with a broker stays.\<close>

lemma vps_reload_once: "v \<noteq> None \<Longrightarrow> vps_reload q parse auto port conf v = v"
  by (simp add: vps_reload_def)

text \<open>A message is taken from the queue and acknowledged with its own tag; nothing else changes.\<close>

lemma vps_acknowledges:
  assumes "am_chans a ! 0 = CQueue (u\<lparr>qu_messages := m # ms\<rparr>)" "am_chans a \<noteq> []" "ch_opened u" "nt_state (am_net a) = Connected"
  shows "vps_slot q (Some 0, SMessageReceived) a = Inr (a\<lparr>am_chans := (am_chans a)[0 := CQueue (u\<lparr>qu_messages := ms\<rparr>)],
    am_net := (am_net a)\<lparr>nt_out := nt_out (am_net a) @ toStream q (channel_frame u 60 80 (put_be (mg_deliveryTag m) @ [0]))\<rparr>\<rparr>)"
  using assms by (simp add: vps_slot_def vps_messageReceived_def qu_getMessage_def vps_queue_def am_chan_def qu_ack_def
      am_effect_def am_send_def net_sendFrame_def channel_frame_def)

text \<open>A declared queue is limited to one message and consumed.\<close>

lemma vps_declared_sends:
  assumes "am_chans a ! 0 = CQueue u" "am_chans a \<noteq> []" "ch_opened u" "nt_state (am_net a) = Connected"
  shows "vps_slot q (Some 0, SDeclared) a = Inr (a\<lparr>am_net := (am_net a)\<lparr>nt_out := nt_out (am_net a)
      @ toStream q (channel_frame u 60 10 (put_be (0 :: 32 word) @ put_be (1 :: 16 word) @ [0]))
      @ toStream q (channel_frame u 60 20 (put_be (0 :: 16 word) @ write_s q (ch_name u) @ write_s q (qu_consumerTag u)
          @ put_be (0 :: 8 word) @ write_F q []))\<rparr>\<rparr>)"
proof -
  have "(am_chans a)[0 := CQueue u] = am_chans a" using assms(1) by (metis list_update_id)
  then show ?thesis
    using assms by (simp add: vps_slot_def vps_declared_def vps_queue_def am_chan_def ch_setQOS_def qu_consume_def
        am_effect_def am_send_def net_sendFrame_def)
qed

end
