(* ===== verification/Elastic.thy ===== *)
theory Elastic
  imports Bitcoin_Handlers
begin

text \<open>
  mod/ext/elasticsearch: the document store as ModBitcoinConnector uses it, over HTTP. The server (\<open>http\<close>, with
  the state \<open>'s\<close>), the resolution of a path against the prefix (\<open>resolve\<close>) and Qt's JSON reader and printer
  are arguments. Each call waits for its reply in a loop over \<open>processEvents\<close>; what else runs meanwhile is
  left to Bitcoin_Waits.
\<close>

section \<open>Requests, replies, JSON\<close>

datatype net_error = NoError | ContentNotFoundError | OtherError nat

datatype http_method = HttpGet | HttpHead | HttpPost

record es_request =
  rq_method :: http_method
  rq_url :: bytes
  rq_json :: bool
  rq_body :: bytes

record es_reply =
  rp_error :: net_error
  rp_body :: bytes

text \<open>JSON values: the scalars the documents are made of, and what the server wraps around them.\<close>

datatype jval = JNull | JVal json | JObj "(string \<times> jval) list" | JArr "jval list"

definition toObject :: "jval \<Rightarrow> (string \<times> jval) list" where
  "toObject v = (case v of JObj o' \<Rightarrow> o' | _ \<Rightarrow> [])"

definition jvalue :: "string \<Rightarrow> (string \<times> jval) list \<Rightarrow> jval" where
  "jvalue k o' = (case map_of o' k of Some v \<Rightarrow> v | None \<Rightarrow> JNull)"

definition jfirst :: "jval \<Rightarrow> jval" where
  "jfirst v = (case v of JArr (x # _) \<Rightarrow> x | _ \<Rightarrow> JNull)"

text \<open>A document as the connector reads it, field by field with \<open>toString\<close> and \<open>toDouble\<close>: what is no scalar
  reads as an empty text, and as the number 0.\<close>

definition to_doc :: "(string \<times> jval) list \<Rightarrow> doc" where
  "to_doc o' = map (\<lambda>(k, v). (k, case v of JVal j \<Rightarrow> j | _ \<Rightarrow> JStr [])) o'"

definition of_doc :: "doc \<Rightarrow> jval" where
  "of_doc d = JObj (map (\<lambda>(k, j). (k, JVal j)) d)"

record 's es_net =
  http :: "'s \<Rightarrow> es_request \<Rightarrow> 's \<times> es_reply"
  resolve :: "bytes \<Rightarrow> bytes"
  fromJson :: "bytes \<Rightarrow> jval"
  toJson :: "jval \<Rightarrow> bytes"

section \<open>The client\<close>

definition doc_path :: "bytes \<Rightarrow> bytes \<Rightarrow> bytes \<Rightarrow> bytes" where
  "doc_path index type k = lit ''/'' @ index @ lit ''/'' @ type @ lit ''/'' @ k"

definition es_start :: "'s es_net \<Rightarrow> 's \<Rightarrow> 's" where
  "es_start n s = fst (http n s \<lparr>rq_method = HttpGet, rq_url = resolve n (lit ''/''), rq_json = False, rq_body = []\<rparr>)"

definition esc_contains :: "'s es_net \<Rightarrow> bytes \<Rightarrow> bytes \<Rightarrow> bytes \<Rightarrow> 's \<Rightarrow> 's \<times> bool" where
  "esc_contains n k index type s =
     (case http n s \<lparr>rq_method = HttpHead, rq_url = resolve n (doc_path index type k), rq_json = False, rq_body = []\<rparr> of (s', r) \<Rightarrow>
      if rp_error r = ContentNotFoundError then (s', False)
      else if rp_error r \<noteq> NoError then (s', False)
      else (s', True))"

definition esc_get :: "'s es_net \<Rightarrow> bytes \<Rightarrow> bytes \<Rightarrow> bytes \<Rightarrow> 's \<Rightarrow> 's \<times> (string \<times> jval) list" where
  "esc_get n k index type s =
     (case http n s \<lparr>rq_method = HttpGet, rq_url = resolve n (doc_path index type k), rq_json = False, rq_body = []\<rparr> of (s', r) \<Rightarrow>
      if rp_error r = ContentNotFoundError then (s', [])
      else if rp_error r \<noteq> NoError then (s', [])
      else (s', toObject (jvalue ''_source'' (toObject (fromJson n (rp_body r))))))"

text \<open>The id that the server gives to a document is in the reply, which is parsed and dropped.\<close>

definition esc_index :: "'s es_net \<Rightarrow> bytes \<Rightarrow> bytes \<Rightarrow> bytes \<Rightarrow> 's \<Rightarrow> 's \<times> bytes" where
  "esc_index n obj index type s =
     (case http n s \<lparr>rq_method = HttpPost, rq_url = resolve n (doc_path index type []), rq_json = True, rq_body = obj\<rparr> of (s', r) \<Rightarrow>
      if rp_error r \<noteq> NoError then (s', []) else (s', []))"

definition esc_index_object :: "'s es_net \<Rightarrow> jval \<Rightarrow> bytes \<Rightarrow> bytes \<Rightarrow> 's \<Rightarrow> 's \<times> bytes" where
  "esc_index_object n obj index type = esc_index n (toJson n obj) index type"

definition esc_search :: "'s es_net \<Rightarrow> bytes \<Rightarrow> bytes \<Rightarrow> 's \<Rightarrow> 's \<times> (string \<times> jval) list" where
  "esc_search n search index s =
     (case http n s \<lparr>rq_method = HttpGet, rq_url = resolve n (lit ''/'' @ index @ lit ''/_search''), rq_json = True, rq_body = search\<rparr> of (s', r) \<Rightarrow>
      if rp_error r \<noteq> NoError then (s', []) else (s', toObject (fromJson n (rp_body r))))"

definition esc_search_object :: "'s es_net \<Rightarrow> jval \<Rightarrow> bytes \<Rightarrow> 's \<Rightarrow> 's \<times> (string \<times> jval) list" where
  "esc_search_object n obj index = esc_search n (toJson n obj) index"

section \<open>The store of the connector\<close>

text \<open>The two searches of ModBitcoinConnector, and the store that its model takes as an argument.
  A table is written index/type. What a request other than a POST does to the server is dropped.\<close>

definition table_parts :: "string \<Rightarrow> bytes \<times> bytes" where
  "table_parts t = (lit (takeWhile (\<lambda>c. c \<noteq> CHR ''/'') t), lit (tl (dropWhile (\<lambda>c. c \<noteq> CHR ''/'') t)))"

definition max_depth_query :: bytes where
  "max_depth_query = lit (map (\<lambda>c. if c = CHR ''~'' then CHR 0x22 else c)
     ''{~query~:{~match_all~:{}},~facets~:{~stat1~:{~statistical~:{~field~:~block.depth~}}}}'')"

definition search_max_depth :: "'s es_net \<Rightarrow> 's \<Rightarrow> 32 word" where
  "search_max_depth n s =
     (let stat = snd (esc_search n max_depth_query (lit ''bitcoin/block'') s);
          v = jvalue ''max'' (toObject (jvalue ''stat1'' (toObject (jvalue ''facets'' stat))))
      in num_value (case v of JVal j \<Rightarrow> Some j | _ \<Rightarrow> None))"

definition depth_query :: "32 word \<Rightarrow> jval" where
  "depth_query h = JObj [(''query'', JObj [(''term'', JObj [(''depth'', JVal (large h))])])]"

definition search_at_depth :: "'s es_net \<Rightarrow> 's \<Rightarrow> 32 word \<Rightarrow> doc" where
  "search_at_depth n s h =
     (let res = snd (esc_search_object n (depth_query h) (lit ''bitcoin/block'') s);
          hit = toObject (jvalue ''_source'' (toObject (jfirst (jvalue ''hits'' (toObject (jvalue ''hits'' res))))))
      in to_doc hit)"

definition net_store :: "'s es_net \<Rightarrow> 's bc_env \<Rightarrow> 's bc_env" where
  "net_store n env = env\<lparr>
     es_contains := (\<lambda>s k t. case table_parts t of (i, y) \<Rightarrow> snd (esc_contains n k i y s)),
     es_get := (\<lambda>s k t. case table_parts t of (i, y) \<Rightarrow> to_doc (snd (esc_get n k i y s))),
     es_index := (\<lambda>d t s. case table_parts t of (i, y) \<Rightarrow> fst (esc_index_object n (of_doc d) i y s)),
     es_max_depth := search_max_depth n,
     es_at_depth := search_at_depth n\<rparr>"

section \<open>A server without answers\<close>

definition down :: "'s es_net \<Rightarrow> bool" where
  "down n \<longleftrightarrow> (\<forall>s r. rp_error (snd (http n s r)) \<noteq> NoError)"

lemma down_calls:
  assumes "down n"
  shows "\<not> snd (esc_contains n k i y s)" "snd (esc_get n k i y s) = []" "snd (esc_search n b i s) = []"
  using assms by (auto simp: down_def esc_contains_def esc_get_def esc_search_def split: prod.splits) (metis snd_conv)+

lemma down_store:
  assumes "down n"
  shows "\<not> es_contains (net_store n env) s k t" "es_get (net_store n env) s k t = []"
    "es_max_depth (net_store n env) s = 0" "es_at_depth (net_store n env) s h = []"
  by (simp_all add: net_store_def down_calls [OF assms] to_doc_def search_max_depth_def search_at_depth_def esc_search_object_def
      Let_def jvalue_def jfirst_def toObject_def num_value_def split: prod.splits)

text \<open>While the server cannot be reached, or answers each request with an error, the connector acts as if it had
  stored nothing: it knows only what its cache holds, gives its height as 0, serves no transaction that left
  the cache, and starts again from the genesis block.\<close>

theorem es_down_forgets:
  assumes "down n" and E: "E = net_store n env" and "map_of (bd_cache d) (inv_key t hash) = None" "block_todl_list c = []"
  shows "\<not> knows E t hash d \<and> getBlockHeight E d = 0 \<and> fst (getInventory E t hash d) = []
    \<and> bc_sent (snd (sendGetBlocks E (d, c))) = bc_sent c @ (if bc_open c
        then [bc_packet (sha E) (lit ''getdata'') (bc_writeInt 1 @ put_le (2 :: 32 word) @ bc_writeData genesis_hash)] else [])"
  using assms(3,4) unfolding E
  by (simp add: knows_def getBlockHeight_def getInventory_def down_store [OF assms(1)] sendGetBlocks_def getLastBlock_def
      block_of_doc_def invalid_block_def sendPacket_def Let_def)

section \<open>A server that stores documents\<close>

text \<open>What the connector relies on: \<open>docs\<close> are the documents by path; a HEAD or a GET finds what is stored, a GET
  wraps it as \<open>_source\<close>; a POST to a table stores its body below the path of the table under \<open>new_id\<close>: an id the
  server makes up or, where it is set up so, takes from the document.\<close>

definition document_server :: "'s es_net \<Rightarrow> ('s \<Rightarrow> bytes \<Rightarrow> bytes option) \<Rightarrow> ('s \<Rightarrow> bytes \<Rightarrow> bytes \<Rightarrow> bytes) \<Rightarrow> bool" where
  "document_server n docs new_id \<longleftrightarrow>
     (\<forall>s p m. m \<noteq> HttpPost \<longrightarrow> rp_error (snd (http n s \<lparr>rq_method = m, rq_url = resolve n p, rq_json = False, rq_body = []\<rparr>)) =
        (if docs s p = None then ContentNotFoundError else NoError))
   \<and> (\<forall>s p b. docs s p = Some b \<longrightarrow> jvalue ''_source'' (toObject (fromJson n (rp_body (snd (http n s
        \<lparr>rq_method = HttpGet, rq_url = resolve n p, rq_json = False, rq_body = []\<rparr>))))) = fromJson n b)
   \<and> (\<forall>s p b. docs (fst (http n s \<lparr>rq_method = HttpPost, rq_url = resolve n p, rq_json = True, rq_body = b\<rparr>)) =
        (docs s)(p @ new_id s p b \<mapsto> b))"

lemma server_calls:
  assumes "document_server n docs new_id"
  shows "snd (esc_contains n k i y s) \<longleftrightarrow> docs s (doc_path i y k) \<noteq> None"
    "snd (esc_get n k i y s) = (case docs s (doc_path i y k) of None \<Rightarrow> [] | Some b \<Rightarrow> toObject (fromJson n b))"
    "docs (fst (esc_index_object n v i y s)) =
      (docs s)(doc_path i y [] @ new_id s (doc_path i y []) (toJson n v) \<mapsto> toJson n v)"
proof -
  have m: "rp_error (snd (http n s \<lparr>rq_method = m, rq_url = resolve n p, rq_json = False, rq_body = []\<rparr>)) =
      (if docs s p = None then ContentNotFoundError else NoError)" if "m \<noteq> HttpPost" for m p
    using assms that by (simp add: document_server_def)
  have g: "docs s p = Some b \<Longrightarrow> jvalue ''_source'' (toObject (fromJson n (rp_body (snd (http n s
        \<lparr>rq_method = HttpGet, rq_url = resolve n p, rq_json = False, rq_body = []\<rparr>))))) = fromJson n b" for p b
    using assms by (simp add: document_server_def)
  have p: "docs (fst (http n s \<lparr>rq_method = HttpPost, rq_url = resolve n p, rq_json = True, rq_body = b\<rparr>)) =
        (docs s)(p @ new_id s p b \<mapsto> b)" for p b
    using assms by (simp add: document_server_def)
  show "snd (esc_contains n k i y s) \<longleftrightarrow> docs s (doc_path i y k) \<noteq> None"
    using m [of HttpHead "doc_path i y k"] by (auto simp: esc_contains_def split: prod.splits if_splits)
  show "snd (esc_get n k i y s) = (case docs s (doc_path i y k) of None \<Rightarrow> [] | Some b \<Rightarrow> toObject (fromJson n b))"
    using m [of HttpGet "doc_path i y k"] g [of "doc_path i y k"]
    by (auto simp: esc_get_def split: prod.splits if_splits option.splits)
  show "docs (fst (esc_index_object n v i y s)) =
      (docs s)(doc_path i y [] @ new_id s (doc_path i y []) (toJson n v) \<mapsto> toJson n v)"
    using p [of "doc_path i y []" "toJson n v"] by (auto simp: esc_index_object_def esc_index_def split: prod.splits)
qed

text \<open>The path of a transaction; the documents of its inputs and outputs are elsewhere.\<close>

definition tx_path :: "bytes \<Rightarrow> bytes" where
  "tx_path k = doc_path (lit ''bitcoin'') (lit ''tx'') k"

lemma table_path:
  "table_parts ''bitcoin/tx'' = (lit ''bitcoin'', lit ''tx'')"
  "table_parts ''bitcoin/tx_in'' = (lit ''bitcoin'', lit ''tx_in'')" "table_parts ''bitcoin/tx_out'' = (lit ''bitcoin'', lit ''tx_out'')"
  by (simp_all add: table_parts_def)

lemma other_path:
  "doc_path (lit ''bitcoin'') (lit ''tx_in'') [] @ a \<noteq> tx_path k" "doc_path (lit ''bitcoin'') (lit ''tx_out'') [] @ a \<noteq> tx_path k"
  by (simp_all add: doc_path_def tx_path_def lit_def byte_of_char_def)

lemma store_calls:
  assumes "document_server n docs new_id"
  shows "es_contains (net_store n env) s k ''bitcoin/tx'' \<longleftrightarrow> docs s (tx_path k) \<noteq> None"
    "es_get (net_store n env) s k ''bitcoin/tx'' = (case docs s (tx_path k) of None \<Rightarrow> [] | Some b \<Rightarrow> to_doc (toObject (fromJson n b)))"
    "docs (es_index (net_store n env) obj ''bitcoin/tx'' s) =
      (docs s)(tx_path (new_id s (tx_path []) (toJson n (of_doc obj))) \<mapsto> toJson n (of_doc obj))"
    "docs (es_index (net_store n env) obj ''bitcoin/tx_in'' s) (tx_path k) = docs s (tx_path k)"
    "docs (es_index (net_store n env) obj ''bitcoin/tx_out'' s) (tx_path k) = docs s (tx_path k)"
  by (simp_all add: net_store_def table_path server_calls [OF assms] other_path [symmetric] to_doc_def split: option.splits)
    (simp_all add: tx_path_def doc_path_def)

text \<open>Storing a transaction stores one document below the path of transactions, after those of its inputs and
  outputs.\<close>

lemma index_others:
  assumes "document_server n docs new_id" "t = ''bitcoin/tx_in'' \<or> t = ''bitcoin/tx_out''"
  shows "docs (bd_db (fold (\<lambda>(i, x). index_doc (net_store n env) t (f i x)) xs d)) (tx_path k) = docs (bd_db d) (tx_path k)"
  using assms(2) by (induction xs arbitrary: d) (auto simp: index_doc_def store_calls [OF assms(1)])

lemma stored_tx:
  assumes srv: "document_server n docs new_id"
  shows "\<exists>s. docs (bd_db (store_tx (net_store n env) hash dat d)) (tx_path k) =
    (if tx_path k = tx_path (new_id s (tx_path []) (toJson n (of_doc (tx_doc hash dat (tx_of_bytes dat)))))
     then Some (toJson n (of_doc (tx_doc hash dat (tx_of_bytes dat)))) else docs (bd_db d) (tx_path k))"
proof -
  let ?d = "fold (\<lambda>(i, to). index_doc (net_store n env) ''bitcoin/tx_out'' (tx_out_doc hash i to)) (List.enumerate 0 (tx_outs (tx_of_bytes dat)))
    (fold (\<lambda>(i, ti). index_doc (net_store n env) ''bitcoin/tx_in'' (tx_in_doc hash i ti)) (List.enumerate 0 (tx_ins (tx_of_bytes dat))) d)"
  have "docs (bd_db ?d) (tx_path k) = docs (bd_db d) (tx_path k)"
    by (simp add: index_others [OF srv])
  then show ?thesis
    by (intro exI [of _ "bd_db ?d"]) (simp add: store_tx_def Let_def index_doc_def store_calls [OF srv])
qed

lemma tx_path_inj: "tx_path a = tx_path b \<longleftrightarrow> a = b"
  by (simp add: tx_path_def doc_path_def)

lemma added_tx: "addInventory E 1 hash dat b d = Inr d' \<Longrightarrow> \<exists>d1. bd_db d1 = bd_db d \<and> d' = store_tx E hash dat d1"
proof (cases b)
  case True
  then show "addInventory E 1 hash dat b d = Inr d' \<Longrightarrow> ?thesis"
    by (intro exI [of _ "d\<lparr>bd_cache := cache_insert (inv_key 1 hash) dat (bd_cache d), bd_queue := bd_queue d @ [inv_key 1 hash]\<rparr>"])
      (simp add: addInventory_def Let_def)
next
  case False
  then show "addInventory E 1 hash dat b d = Inr d' \<Longrightarrow> ?thesis"
    by (intro exI [of _ "d\<lparr>bd_cache := cache_insert (inv_key 1 hash) dat (bd_cache d)\<rparr>"]) (simp add: addInventory_def Let_def)
qed

text \<open>A transaction is stored by a POST without an id and looked up by its hash. On a server that makes up the ids
  of its documents, and never takes the hash, a stored transaction that has left the cache is as unknown as it
  was before it was stored.\<close>

theorem es_stored_unknown:
  assumes srv: "document_server n docs new_id" and E: "E = net_store n env"
    and own: "\<And>s p b. new_id s p b \<noteq> to_hex hash"
    and add: "addInventory E 1 hash dat b d = Inr d'" and evicted: "map_of c (inv_key 1 hash) = None"
  shows "knows E 1 hash (d'\<lparr>bd_cache := c\<rparr>) \<longleftrightarrow> docs (bd_db d) (tx_path (to_hex hash)) \<noteq> None"
proof -
  obtain d1 where d1: "bd_db d1 = bd_db d" "d' = store_tx E hash dat d1" using added_tx [OF add] by blast
  show ?thesis
    using stored_tx [OF srv, of env hash dat d1 "to_hex hash"] d1 own [symmetric] evicted
    by (simp add: knows_def E store_calls [OF srv] tx_path_inj)
qed

text \<open>A document after a round through JSON: base64 is text there.\<close>

definition as_text :: "(bytes \<Rightarrow> bytes) \<Rightarrow> doc \<Rightarrow> doc" where
  "as_text b64 d = map (\<lambda>(k, j). (k, case j of JB64 b \<Rightarrow> JStr (b64 b) | _ \<Rightarrow> j)) d"

text \<open>C36: On a server that takes the id from the field \<open>hash\<close> of a document, a transaction that was stored and left the
  cache is known, and is served as it was received, through JSON and base64.\<close>

theorem es_stored_served:
  assumes srv: "document_server n docs new_id" and E: "E = net_store n env"
    and ids: "\<And>s. new_id s (tx_path []) (toJson n (of_doc (tx_doc hash dat (tx_of_bytes dat)))) = to_hex hash"
    and json: "fromJson n (toJson n (of_doc (tx_doc hash dat (tx_of_bytes dat)))) = of_doc (as_text b64 (tx_doc hash dat (tx_of_bytes dat)))"
    and b64: "unb64 env (b64 dat) = dat"
    and add: "addInventory E 1 hash dat b d = Inr d'" and evicted: "map_of c (inv_key 1 hash) = None"
  shows "knows E 1 hash (d'\<lparr>bd_cache := c\<rparr>) \<and> fst (getInventory E 1 hash (d'\<lparr>bd_cache := c\<rparr>)) = dat"
proof -
  let ?doc = "tx_doc hash dat (tx_of_bytes dat)"
  obtain d1 where d1: "d' = store_tx E hash dat d1" using added_tx [OF add] by blast
  have "docs (bd_db d') (tx_path (to_hex hash)) = Some (toJson n (of_doc ?doc))"
    using stored_tx [OF srv, of env hash dat d1 "to_hex hash"] ids by (simp add: d1 E)
  moreover have "to_doc (toObject (of_doc v)) = v" for v by (simp add: to_doc_def toObject_def of_doc_def comp_def case_prod_beta)
  moreover have "map_of (as_text b64 ?doc) ''raw_data'' = Some (JStr (b64 dat))" by (simp add: tx_doc_def as_text_def)
  moreover have "unb64 E t = unb64 env t" for t by (simp add: E net_store_def)
  ultimately show ?thesis
    using evicted by (simp add: knows_def getInventory_def E store_calls [OF srv] json base64_value_def Let_def b64)
qed

section \<open>Witnesses\<close>

text \<open>A server that keeps bodies in a list, marks what it sends with a first byte 1, and gives every document the
  id \<open>k\<close>; a JSON reader that sees one document everywhere.\<close>

fun ex_json :: "jval \<Rightarrow> bytes \<Rightarrow> jval" where
  "ex_json v [] = v"
| "ex_json v (b # r) = (if b = 1 then JObj [(''_source'', ex_json v r)] else v)"

definition ex_http :: "bytes \<Rightarrow> (bytes \<times> bytes) list \<Rightarrow> es_request \<Rightarrow> (bytes \<times> bytes) list \<times> es_reply" where
  "ex_http k s r = (if rq_method r = HttpPost then ((rq_url r @ k, rq_body r) # s, \<lparr>rp_error = NoError, rp_body = []\<rparr>)
     else case map_of s (rq_url r) of None \<Rightarrow> (s, \<lparr>rp_error = ContentNotFoundError, rp_body = []\<rparr>)
       | Some b \<Rightarrow> (s, \<lparr>rp_error = NoError, rp_body = 1 # b\<rparr>))"

definition ex_net :: "bytes \<Rightarrow> jval \<Rightarrow> (bytes \<times> bytes) list es_net" where
  "ex_net k v = \<lparr>http = ex_http k, resolve = (\<lambda>p. p), fromJson = ex_json v, toJson = (\<lambda>_. [])\<rparr>"

lemma ex_server: "document_server (ex_net k v) map_of (\<lambda>_ _ _. k)"
  by (auto simp: document_server_def ex_net_def ex_http_def jvalue_def toObject_def split: option.splits)

definition ex_store_env :: "(bytes \<times> bytes) list bc_env" where
  "ex_store_env = \<lparr>sha = (\<lambda>b. b), host_text = (\<lambda>a. ''1.2.3.4''), unb64 = (\<lambda>b. b), es_contains = (\<lambda>_ _ _. False),
     es_get = (\<lambda>_ _ _. []), es_index = (\<lambda>_ _ d. d), es_max_depth = (\<lambda>_. 0), es_at_depth = (\<lambda>_ _. [])\<rparr>"

definition ex_store_daemon :: "(bytes \<times> bytes) list bc_daemon" where
  "ex_store_daemon = \<lparr>bd_peers = [], bd_nonce = {}, bd_open = True, bd_db = [], bd_cache = [], bd_queue = [],
     bd_peer_learn = True, bd_heard = []\<rparr>"

lemma ex_added: "\<exists>d'. addInventory E 1 hash dat True d = Inr d'"
  by (simp add: addInventory_def Let_def)

theorem es_down_forgets_witness:
  "\<not> knows (net_store ((ex_net [] JNull)\<lparr>http := \<lambda>s r. (s, \<lparr>rp_error = OtherError 1, rp_body = []\<rparr>)\<rparr>) ex_store_env) 1 [5] ex_store_daemon"
  using es_down_forgets [OF _ refl, of "(ex_net [] JNull)\<lparr>http := \<lambda>s r. (s, \<lparr>rp_error = OtherError 1, rp_body = []\<rparr>)\<rparr>"
      ex_store_daemon 1 "[5]" "new_bc_client (\<lambda>a. []) (IPv4 1) 1" ex_store_env]
  by (simp add: down_def ex_store_daemon_def new_bc_client_def)

theorem es_stored_unknown_witness:
  "\<exists>d'. addInventory (net_store (ex_net [0] JNull) ex_store_env) 1 [5] [1, 2] True ex_store_daemon = Inr d'
    \<and> \<not> knows (net_store (ex_net [0] JNull) ex_store_env) 1 [5] (d'\<lparr>bd_cache := []\<rparr>)"
proof -
  obtain d' where d': "addInventory (net_store (ex_net [0] JNull) ex_store_env) 1 [5] [1, 2] True ex_store_daemon = Inr d'"
    using ex_added by blast
  have "[0] \<noteq> to_hex [5]" by (simp add: to_hex_def)
  with es_stored_unknown [OF ex_server refl _ d', of "[]"] d' show ?thesis by (simp add: ex_store_daemon_def)
qed

theorem es_stored_served_witness:
  "\<exists>n d'. addInventory (net_store n ex_store_env) 1 [5] [1, 2] True ex_store_daemon = Inr d'
    \<and> knows (net_store n ex_store_env) 1 [5] (d'\<lparr>bd_cache := []\<rparr>)
    \<and> fst (getInventory (net_store n ex_store_env) 1 [5] (d'\<lparr>bd_cache := []\<rparr>)) = [1, 2]"
proof -
  let ?n = "ex_net (to_hex [5]) (of_doc (as_text (\<lambda>b. b) (tx_doc [5] [1, 2] (tx_of_bytes [1, 2]))))"
  obtain d' where d': "addInventory (net_store ?n ex_store_env) 1 [5] [1, 2] True ex_store_daemon = Inr d'"
    using ex_added by blast
  have "fromJson ?n (toJson ?n v) = of_doc (as_text (\<lambda>b. b) (tx_doc [5] [1, 2] (tx_of_bytes [1, 2])))" for v
    by (simp add: ex_net_def)
  with es_stored_served [OF ex_server refl refl _ _ d', of "\<lambda>b. b" "[]"] d' show ?thesis
    by (intro exI [of _ ?n] exI [of _ d']) (simp add: ex_store_env_def)
qed

end
