(* ===== verification/Unix_Socket.thy ===== *)
theory Unix_Socket
  imports Core_Endpoints
begin

text \<open>
  core/QUnixDatagramServer, the socket behind CoreUdg: the system calls of its constructor and destructor. What
  \<open>socket\<close> and \<open>bind\<close> return is an argument; the calls are recorded in order.
\<close>

section \<open>The calls\<close>

datatype sys_call = Unlink bytes | Socket int | Bind bytes int | Chmod bytes nat | Close int | Notifier int

text \<open>A path as a C string ends at its first null byte. \<open>strcpy\<close> into the 108 bytes of \<open>sun_path\<close> writes past
  them when the path with its null byte is longer.\<close>

definition c_string :: "bytes \<Rightarrow> bytes" where
  "c_string p = takeWhile (\<lambda>b. b \<noteq> 0) p"

definition strcpy_path :: "bytes \<Rightarrow> bytes outcome" where
  "strcpy_path p = (if length (c_string p) + 1 > 108 then Inl OutOfRange else Inr (c_string p))"

definition udg_server :: "int \<Rightarrow> int \<Rightarrow> bytes \<Rightarrow> (int \<times> sys_call list) outcome" where
  "udg_server sock bound path =
     (let cs = [Unlink (c_string path), Socket sock] in
      if sock < 0 then Inr (sock, cs)
      else bind_out (strcpy_path path) (\<lambda>sun_path.
        if bound < 0 then Inr (- 1, cs @ [Bind sun_path bound, Close sock])
        else Inr (sock, cs @ [Bind sun_path bound, Chmod (c_string path) 0x1ff, Notifier sock])))"

definition udg_server_destroy :: "int \<Rightarrow> sys_call list" where
  "udg_server_destroy sock = (if sock > 0 then [Close sock] else [])"

section \<open>Lemmas\<close>

text \<open>The descriptors that a list of calls opens and those it closes.\<close>

definition fds_opened :: "sys_call list \<Rightarrow> int list" where
  "fds_opened cs = List.map_filter (\<lambda>c. case c of Socket s \<Rightarrow> if s \<ge> 0 then Some s else None | _ \<Rightarrow> None) cs"

definition fds_closed :: "sys_call list \<Rightarrow> int list" where
  "fds_closed cs = List.map_filter (\<lambda>c. case c of Close s \<Rightarrow> Some s | _ \<Rightarrow> None) cs"

lemmas call_lists = fds_opened_def fds_closed_def List.map_filter_simps

lemma udg_server_Inr:
  "udg_server sock bound path = Inr (s, cs) \<longleftrightarrow>
     (if sock < 0 then s = sock \<and> cs = [Unlink (c_string path), Socket sock]
      else length (c_string path) < 108 \<and>
        (if bound < 0 then s = - 1 \<and> cs = [Unlink (c_string path), Socket sock, Bind (c_string path) bound, Close sock]
         else s = sock \<and> cs = [Unlink (c_string path), Socket sock, Bind (c_string path) bound, Chmod (c_string path) 0x1ff, Notifier sock]))"
  by (auto simp: udg_server_def strcpy_path_def Let_def)

text \<open>A socket server that was made, and destroyed later, has closed the descriptor it opened exactly once, whatever
  the calls returned, unless that descriptor is 0, which counts as invalid and stays open; it is valid only
  if its socket is bound to its path and watched.\<close>

theorem udg_server_closes:
  assumes "udg_server sock bound path = Inr (s, cs)"
  shows "(sock \<noteq> 0 \<longrightarrow> fds_closed (cs @ udg_server_destroy s) = fds_opened cs)
    \<and> (udg_isValid s \<longrightarrow> Bind (c_string path) bound \<in> set cs \<and> bound \<ge> 0 \<and> Notifier s \<in> set cs)"
  using assms by (auto simp: udg_server_Inr udg_server_destroy_def udg_isValid_def call_lists split: if_splits)

theorem udg_server_closes_witness:
  "fds_closed ([Unlink [47], Socket 5, Bind [47] 0, Chmod [47] 0x1ff, Notifier 5] @ udg_server_destroy 5) = [5]"
  using udg_server_closes [of 5 0 "[47]" 5 "[Unlink [47], Socket 5, Bind [47] 0, Chmod [47] 0x1ff, Notifier 5]"]
  by (simp add: udg_server_Inr c_string_def call_lists)

text \<open>A longer path than the address holds is copied past its end, when the socket could be made.\<close>

lemma udg_server_overflow: "udg_server sock bound path = Inl OutOfRange \<longleftrightarrow> sock \<ge> 0 \<and> length (c_string path) \<ge> 108"
  by (auto simp: udg_server_def strcpy_path_def Let_def)

text \<open>A server on the path of another unlinks the file of that one first; so two configured addresses with one
  path leave only the last reachable.\<close>

lemma udg_server_unlinks: "udg_server sock bound path = Inr (s, cs) \<Longrightarrow> hd cs = Unlink (c_string path)"
  by (auto simp: udg_server_Inr split: if_splits)

end
