(* ===== verification/Midas_Stream.thy ===== *)
theory Midas_Stream
  imports Midas_Session
begin

text \<open>
  Any number of messages through mod/daemon/midasinput: each is appended to the data file and acknowledged in
  the order in which the broker delivers them.
\<close>

section \<open>Messages one after the other\<close>

text \<open>A message as some publisher sends it, and the frames of its delivery on a channel.\<close>

record posting =
  po_tag :: "64 word"
  po_red :: byte
  po_exchange :: qstring
  po_key :: qstring
  po_msg :: bytes
  po_from :: exchange
  po_mime :: qstring
  po_headers :: table
  po_props :: "(16 word \<times> variant) list"

definition posting_frames :: "qt_env \<Rightarrow> 16 word \<Rightarrow> qstring \<Rightarrow> posting \<Rightarrow> frame list" where
  "posting_frames q c tag p = deliver_frame q c tag (po_tag p) (po_red p) (po_exchange p) (po_key p)
     # tl (sent_frames (ex_publish q (po_msg p) (po_key p) (po_mime p) (po_headers p) (po_props p) (po_from p)))"

definition posting_ok :: "qt_env \<Rightarrow> 16 word \<Rightarrow> posting \<Rightarrow> bool" where
  "posting_ok q c p \<longleftrightarrow> short_text (po_exchange p) \<and> short_text (po_key p) \<and> po_msg p \<noteq> [] \<and> length (po_msg p) < 2 ^ 31
     \<and> ch_number (po_from p) = sint c
     \<and> (let h = publish_content (po_from p) (po_msg p) (po_mime p) (po_headers p) (po_props p)
        in props_fit q (co_props h) \<and> fits q (FContent h))"

text \<open>What the messages leave behind: appended to the file, acknowledged in order.\<close>

definition recorded :: "qt_env \<Rightarrow> queue \<Rightarrow> string \<Rightarrow> posting list \<Rightarrow> midas_daemon \<Rightarrow> midas_daemon \<Rightarrow> bool" where
  "recorded q u n ps d d' \<longleftrightarrow> md_in d' = md_in d
     \<and> nt_out (am_net (md_amqp d')) = nt_out (am_net (md_amqp d)) @ concat (map (\<lambda>p. toStream q (ack_frame u (po_tag p))) ps)
     \<and> mi_files (md_files d') = fold (\<lambda>p. file_append n (po_msg p)) ps (mi_files (md_files d))
     \<and> mi_acked (md_files d') = mi_acked (md_files d) @ map po_msg ps"

lemma md_stores_all:
  assumes "am_chans (md_amqp d) ! 0 = CQueue u" "am_chans (md_amqp d) \<noteq> []" "only_queue 0 c (md_amqp d)" "ch_number u = sint c"
    and "ch_opened u" "qu_messages u = []" "nt_state (am_net (md_amqp d)) = Connected" "mi_output (md_files d) = Some (n, True)"
    and "short_text (qu_consumerTag u)" "list_all (posting_ok q c) ps"
  shows "list_all (sendable q) (concat (map (posting_frames q c (qu_consumerTag u)) ps)) \<and>
    (\<exists>d'. fold_out (md_frame q) (map (wire q) (concat (map (posting_frames q c (qu_consumerTag u)) ps))) d = Inr d' \<and> recorded q u n ps d d')"
  using assms
proof (induction ps arbitrary: d)
  case (Cons p ps)
  let ?fs = "posting_frames q c (qu_consumerTag u)"
  let ?h = "publish_content (po_from p) (po_msg p) (po_mime p) (po_headers p) (po_props p)"
  have p: "short_text (po_exchange p)" "short_text (po_key p)" "po_msg p \<noteq> []" "length (po_msg p) < 2 ^ 31"
    "ch_number (po_from p) = sint c" "props_fit q (co_props ?h)" "fits q (FContent ?h)"
    using Cons.prems(10) by (simp_all add: posting_ok_def Let_def)
  note one = md_stores [OF Cons.prems(1-9) p(1-5) refl p(6,7), of "?fs p", unfolded posting_frames_def, OF refl, folded posting_frames_def]
  let ?d1 = "d\<lparr>md_amqp := (md_amqp d)\<lparr>am_net := (am_net (md_amqp d))\<lparr>nt_out := nt_out (am_net (md_amqp d)) @ toStream q (ack_frame u (po_tag p))\<rparr>,
      am_log := am_log (md_amqp d) @ [(Some 0, SMessageReceived)]\<rparr>,
    md_files := (md_files d)\<lparr>mi_files := file_append n (po_msg p) (mi_files (md_files d)), mi_acked := mi_acked (md_files d) @ [po_msg p]\<rparr>\<rparr>"
  have "list_all (sendable q) (concat (map ?fs ps)) \<and>
    (\<exists>d'. fold_out (md_frame q) (map (wire q) (concat (map ?fs ps))) ?d1 = Inr d' \<and> recorded q u n ps ?d1 d')"
    using Cons.prems by (intro Cons.IH) (simp_all add: only_queue_def)
  then show ?case using one by (auto simp: fold_out_append recorded_def simp del: wire.simps)
qed (simp add: recorded_def)

lemma file_append_all:
  assumes "qm_wf fs" "map_of fs n = Some b"
  shows "map_of (fold (\<lambda>p. file_append n (po_msg p)) ps fs) n = Some (b @ concat (map po_msg ps))"
  using assms by (induction ps arbitrary: fs b) (simp_all add: map_of_append file_append_wf)

section \<open>Properties\<close>

text \<open>C17: From the constructor to the disk: after its session with a broker that accepts every request and answers it with
  the reply AMQP 0-9-1 has for it, the messages that the broker delivers, published by whomever and in reads split anywhere, are in this order the content of
  the data file that the daemon opened when it started; the last thing it writes to the broker are their
  acknowledgements, each with the tag of its own message, in the same order.\<close>

theorem midas_records_stream:
  assumes made: "mi_setup q auto port now True True = Inr d"
    and "\<forall>a \<in> {sargs, oargs, open1, open3, counts}. length a < 2 ^ 30" "short_text tag" "list_all (posting_ok q 1) ps"
    and ts: "concat ts = concat (map (toStream q)
      (broker_frames q sargs (put_be (cmax :: 16 word) @ put_be (fmax :: 32 word) @ put_be (hb :: 16 word)) oargs open1 open3 counts tag
       @ concat (map (posting_frames q 1 tag) ps)))"
  shows "\<exists>d' out. fold_out (md_readyRead q) ts (md_ready d) = Inr d'
    \<and> map_of (mi_files (md_files d')) (data_name now) = Some (concat (map po_msg ps)) \<and> mi_acked (md_files d') = map po_msg ps
    \<and> nt_out (am_net (md_amqp d')) = out @ concat (map (\<lambda>p. toStream q (method_on 1 60 80 (put_be (po_tag p) @ [0]))) ps)"
proof -
  let ?bs = "broker_frames q sargs (put_be cmax @ put_be fmax @ put_be hb) oargs open1 open3 counts tag"
  let ?ds = "concat (map (posting_frames q 1 tag) ps)"
  let ?u = "midas_queue\<lparr>ch_opened := True, qu_delayedDeclare := False, qu_consumerTag := tag\<rparr>"
  let ?d1 = "md_bound q d hb tag"
  note s = mi_setup_state [OF made]
  obtain f where f: "switchOutput now True True new_midas = Inr f" "qm_wf (mi_files f)" "mi_output f = Some (data_name now, True)"
    "mi_acked f = []" "map_of (mi_files f) (data_name now) = Some []"
    using switch_new [of new_midas "now @ ''x''" now] by (auto simp: new_midas_def)
  then have files: "md_files ?d1 = f" using s(12) by (simp add: md_bound_def md_at_def)
  note run = midas_run [OF assms(1-3) refl, where cmax = cmax and fmax = fmax and hb = hb]
  have u: "am_chans (md_amqp ?d1) ! 0 = CQueue ?u" "am_chans (md_amqp ?d1) \<noteq> []" "only_queue 0 1 (md_amqp ?d1)"
    "ch_number ?u = sint (1 :: 16 word)" "ch_opened ?u" "qu_messages ?u = []" "nt_state (am_net (md_amqp ?d1)) = Connected"
    "mi_output (md_files ?d1) = Some (data_name now, True)" "short_text (qu_consumerTag ?u)"
    using s f files assms(3)
    by (simp_all add: md_bound_def md_at_def only_queue_def conectionReady_def midas_queue_def new_queue_def)
  from md_stores_all [OF u assms(4)] obtain d2 where send: "list_all (sendable q) ?ds"
    and d2: "fold_out (md_frame q) (map (wire q) ?ds) ?d1 = Inr d2" "recorded q ?u (data_name now) ps ?d1 d2"
    by auto
  have "fold_out (md_frame q) (map (wire q) (?bs @ ?ds)) (md_ready d) = Inr d2"
    using run d2(1) by (simp add: fold_out_append del: wire.simps)
  moreover have "list_all (sendable q) (?bs @ ?ds)" using run(1) send by simp
  ultimately have "fold_out (md_readyRead q) ts (md_ready d) = Inr (d2\<lparr>md_in := []\<rparr>)"
    using s(2) by (intro md_read_frames [OF _ ts]) (simp_all add: md_ready_def)
  moreover have "ack_frame ?u t = method_on 1 60 80 (put_be t @ [0])" for t
    by (simp add: ack_frame_def channel_frame_on midas_queue_def)
  ultimately show ?thesis
    using d2(2) f(2,4) file_append_all [OF f(2,5)] files by (auto simp: recorded_def)
qed

definition sample_posting :: "64 word \<Rightarrow> posting" where
  "sample_posting t = \<lparr>po_tag = t, po_red = 0, po_exchange = qs ''x'', po_key = qs ''k'', po_msg = lit ''hi'',
     po_from = new_exchange\<lparr>ch_number := 1\<rparr>, po_mime = qs ''text'', po_headers = [], po_props = []\<rparr>"

theorem midas_records_stream_witness:
  "\<exists>d d'. mi_setup plain_env False 0 ''12'' True True = Inr d
    \<and> fold_out (md_readyRead plain_env) (bytewise (sample_broker
        @ concat (map (posting_frames plain_env 1 (qs ''t'')) [sample_posting 7, sample_posting 9]))) (md_ready d) = Inr d'
    \<and> map_of (mi_files (md_files d')) (data_name ''12'') = Some (lit ''hi'' @ lit ''hi'')"
proof -
  obtain d where d: "mi_setup plain_env False 0 ''12'' True True = Inr d" using mi_setup_ok by blast
  have len: "\<forall>a \<in> {[], [0], [0, 0, 0, 0], [0, 0, 0, 0], [0, 0, 0, 0, 0, 0, 0, 0 :: byte]}. length a < 2 ^ 30" by simp
  have "list_all (posting_ok plain_env 1) [sample_posting 7, sample_posting 9]"
    using sample_short sample_props by (simp add: posting_ok_def sample_posting_def Let_def lit_def)
  from midas_records_stream [OF d len sample_short(1) this concat_bytewise [of "sample_broker @ _", unfolded sample_broker_def]] d
  show ?thesis unfolding sample_broker_def by (auto simp: sample_posting_def)
qed

end
