(* ===== verification/Mod_PS_Refine.thy ===== *)
theory Mod_PS_Refine
  imports Mod_PS_Proofs
begin

text \<open>
  The publish/subscribe relay refines an abstract one. The abstract state gives each client the stream it is sent
  and its set of channels; what reaches it are the packets of the clients and the packets to publish, whatever
  the sockets, the buffers and the reference counts do.
\<close>

section \<open>The abstract relay\<close>

datatype ps_action = Join nat | Leave nat | FromClient nat bytes | Publish bytes

type_synonym pubsub = "nat \<Rightarrow> (bytes \<times> bytes set) option"

text \<open>The first packet of a datagram, when it is one to publish.\<close>

definition data_packet :: "bytes \<Rightarrow> bytes option" where
  "data_packet d = (if 2 \<le> length d \<and> 17 \<le> be16_len d \<and> be16_len d \<le> length d \<and> d ! 2 AND 0x80 = 0
     then Some (take (be16_len d) d) else None)"

definition channel_of :: "bytes \<Rightarrow> bytes" where
  "channel_of p = ba_mid 3 16 p"

definition packet_type :: "bytes \<Rightarrow> byte" where
  "packet_type p = (if length p < 3 then 0 else p ! 2)"

fun spec_action :: "ps_action \<Rightarrow> pubsub \<Rightarrow> pubsub" where
  "spec_action (Join i) S = S(i \<mapsto> ([], {}))"
| "spec_action (Leave i) S = S(i := None)"
| "spec_action (FromClient i p) S = (case S i of None \<Rightarrow> S | Some (out, chans) \<Rightarrow>
     if packet_type p = 0x80 then S(i \<mapsto> (out @ p, chans))
     else if packet_type p = 0x81 then S(i \<mapsto> (out, insert (channel_of p) chans))
     else if packet_type p = 0x82 then S(i \<mapsto> (out, chans - {channel_of p}))
     else S)"
| "spec_action (Publish d) S = (case data_packet d of None \<Rightarrow> S | Some p \<Rightarrow>
     (\<lambda>i. map_option (\<lambda>(out, chans). (if channel_of p \<in> chans then out @ p else out, chans)) (S i)))"

text \<open>The concrete relay agrees: an open client is sent the whole stream (what the socket took, then the write
  buffer) and has these channels; a closed one was sent a prefix.\<close>

definition client_rel :: "bytes \<times> bytes set \<Rightarrow> ps_client \<Rightarrow> bool" where
  "client_rel v c \<longleftrightarrow> stream_inv (fst v) c \<and> (sock_open c \<longrightarrow> snd v = set (channels c))"

text \<open>The two know the same clients and agree on each.\<close>

definition ps_agree :: "pubsub \<Rightarrow> (nat, ps_client) qmap \<Rightarrow> bool" where
  "ps_agree S m \<longleftrightarrow> (\<forall>i c. map_of m i = Some c \<longrightarrow> (\<exists>v. S i = Some v \<and> client_rel v c))"

definition ps_rel :: "pubsub \<Rightarrow> (nat, ps_client) qmap \<Rightarrow> bool" where
  "ps_rel S m \<longleftrightarrow> dom S = dom (map_of m) \<and> ps_agree S m"

section \<open>Events with the actions they stand for\<close>

datatype ps_event = EConnect nat | EData nat bytes | EWritten nat int | EPeerClosed nat | EDestroy nat | EDatagram bytes
  | EMasterUp string | EMasterOther string sock_state | EMasterData "64 word" string bytes | ETimer "64 word"
  | EReload "64 word" "string list option" "string list option"

fun ps_can :: "ps_event \<Rightarrow> mod_ps \<Rightarrow> bool" where
  "ps_can (EConnect i) s \<longleftrightarrow> map_of (ps_clients s) i = None"
| "ps_can (EData i t) s \<longleftrightarrow> (case map_of (ps_clients s) i of None \<Rightarrow> False | Some c \<Rightarrow> sock_open c)"
| "ps_can (EMasterOther k st) s \<longleftrightarrow> st \<noteq> Connected"
| "ps_can _ s \<longleftrightarrow> True"

fun ps_do :: "ps_env \<Rightarrow> ps_event \<Rightarrow> mod_ps \<Rightarrow> mod_ps outcome" where
  "ps_do env (EConnect i) s = Inr (ps_incomingTcp i s)"
| "ps_do env (EData i t) s = ps_handleBuffer env i t s"
| "ps_do env (EWritten i n) s = Inr (on_client i (tcp_bytesWritten n) s)"
| "ps_do env (EPeerClosed i) s = Inr (on_client i (\<lambda>c. (tcp_socketDisconnected c)\<lparr>sock_open := False\<rparr>) s)"
| "ps_do env (EDestroy i) s = ps_client_destroy i s"
| "ps_do env (EDatagram d) s = ps_incomingDatagram env d s"
| "ps_do env (EMasterUp k) s = Inr (masterConnected k (on_master k (\<lambda>m. m\<lparr>m_state := Connected\<rparr>) s))"
| "ps_do env (EMasterOther k st) s = Inr (on_master k (\<lambda>m. m\<lparr>m_state := st\<rparr>) s)"
| "ps_do env (EMasterData now k got) s = readFromMaster env now k got s"
| "ps_do env (ETimer now) s = Inr (checkMasters now s)"
| "ps_do env (EReload now cm cl) s = Inr (ps_reload now cm cl s)"

text \<open>These are the steps of the relay.\<close>

lemma ps_step_event: "ps_step env s r \<longleftrightarrow> (\<exists>e. ps_can e s \<and> r = ps_do env e s)"
proof
  assume "ps_step env s r"
  then show "\<exists>e. ps_can e s \<and> r = ps_do env e s"
  proof cases
    case (connect i) then show ?thesis by (intro exI [of _ "EConnect i"]) simp
  next
    case (data i c t) then show ?thesis by (intro exI [of _ "EData i t"]) simp
  next
    case (written i n) then show ?thesis by (intro exI [of _ "EWritten i n"]) simp
  next
    case (peer_closed i) then show ?thesis by (intro exI [of _ "EPeerClosed i"]) simp
  next
    case (destroy i) then show ?thesis by (intro exI [of _ "EDestroy i"]) simp
  next
    case (datagram d) then show ?thesis by (intro exI [of _ "EDatagram d"]) simp
  next
    case (master_up k) then show ?thesis by (intro exI [of _ "EMasterUp k"]) simp
  next
    case (master_other st k) then show ?thesis by (intro exI [of _ "EMasterOther k st"]) simp
  next
    case (master_data now k got) then show ?thesis by (intro exI [of _ "EMasterData now k got"]) simp
  next
    case (timer now) then show ?thesis by (intro exI [of _ "ETimer now"]) simp
  next
    case (reload now cm cl) then show ?thesis by (intro exI [of _ "EReload now cm cl"]) simp
  qed
next
  assume "\<exists>e. ps_can e s \<and> r = ps_do env e s"
  then obtain e where "ps_can e s" "r = ps_do env e s" by blast
  then show "ps_step env s r"
    by (cases e) (auto intro: ps_step.intros split: option.splits)
qed

fun ps_acts :: "ps_event \<Rightarrow> mod_ps \<Rightarrow> ps_action list" where
  "ps_acts (EConnect i) s = [Join i]"
| "ps_acts (EData i t) s = (case map_of (ps_clients s) i of None \<Rightarrow> [] | Some c \<Rightarrow>
     if length (buf_in c @ t) > 100 * 1024 then [] else map (FromClient i) (fst (cut_all ps_cut (buf_in c @ t))))"
| "ps_acts (EDestroy i) s = [Leave i]"
| "ps_acts (EDatagram d) s = [Publish d]"
| "ps_acts (EMasterData now k got) s = (case map_of (masters s) k of
     Some (Some m) \<Rightarrow> map Publish (fst (cut_all ps_cut (m_in m @ got))) | _ \<Rightarrow> [])"
| "ps_acts _ s = []"

text \<open>A run with what it stands for; the environment of the sockets may change from event to event.\<close>

inductive ps_trace :: "ps_action list \<Rightarrow> mod_ps \<Rightarrow> bool" where
  start: "ps_trace [] new_ps"
| step: "ps_trace as s \<Longrightarrow> ps_can e s \<Longrightarrow> ps_do env e s = Inr s' \<Longrightarrow> ps_trace (as @ ps_acts e s) s'"

lemma ps_trace_reachable: "ps_trace as s \<Longrightarrow> ps_reachable s"
proof (induction rule: ps_trace.induct)
  case (step as s e env s')
  then have "ps_step env s (Inr s')" using ps_step_event by metis
  with step show ?case by (blast intro: ps_reachable.step)
qed (rule ps_reachable.start)

lemma ps_reachable_trace: "ps_reachable s \<Longrightarrow> \<exists>as. ps_trace as s"
proof (induction rule: ps_reachable.induct)
  case (step s env s')
  then obtain as e where "ps_trace as s" "ps_can e s" "Inr s' = ps_do env e s" using ps_step_event by metis
  then show ?case using ps_trace.step [of as s e env s'] by auto
qed (blast intro: ps_trace.start)

section \<open>When an event faults\<close>

text \<open>Client data that completes a packet of length 0, while the input is within its limit; and a datagram too
  short for a length.\<close>

fun ps_faulty :: "ps_event \<Rightarrow> mod_ps \<Rightarrow> bool" where
  "ps_faulty (EData i t) s \<longleftrightarrow> (case map_of (ps_clients s) i of None \<Rightarrow> False
     | Some c \<Rightarrow> length (buf_in c @ t) \<le> 100 * 1024 \<and> [0, 0] \<in> set (fst (cut_all ps_cut (buf_in c @ t))))"
| "ps_faulty (EDatagram d) s \<longleftrightarrow> length d < 2"
| "ps_faulty _ s \<longleftrightarrow> False"

lemma ps_do_ok:
  assumes inv: "ps_inv s" and e: "ps_can e s"
  shows "ps_ok (ps_faulty e s) (ps_do env e s)"
proof -
  have kept: "ps_inv s'" if "ps_do env e s = Inr s'" for s'
    using ps_step_kept [OF _ inv refl, of env s'] ps_step_event [of env s "Inr s'"] e that by metis
  show ?thesis
  proof (cases e)
    case (EData i t)
    with e obtain c where "map_of (ps_clients s) i = Some c" by (auto split: option.splits)
    with EData ps_handleBuffer_ok [OF inv this, of t env] show ?thesis by simp
  next
    case (EDatagram d)
    then show ?thesis using pushPacket_ok [OF inv] by (simp add: ps_incomingDatagram_def)
  next
    case (EDestroy i)
    then show ?thesis using ps_client_destroy_safe [OF inv] by (simp add: ps_ok_def)
  next
    case (EMasterData now k got)
    then show ?thesis using readFromMaster_safe [OF inv] by (simp add: ps_ok_def)
  qed (use kept in \<open>simp_all add: ps_ok_def\<close>)
qed

text \<open>C14: an event that Qt delivers in a reachable state (a connection, client data, bytes written, a peer that
  closes, a destruction, a datagram, an event of a master, the timer, a reload) faults exactly in two cases: a datagram
  of fewer than two bytes, whose length is read out of range, and client bytes that complete, within the input limit, a
  packet that announces length 0, whose type is read out of range. Every other event goes through: no null master is
  dereferenced, the \<open>abort()\<close> of \<open>channelDelRef\<close> is not reached, and the next state is again
  a reachable one.\<close>

theorem ps_faults_exactly:
  assumes "ps_reachable s" "ps_can e s"
  shows "if ps_faulty e s then ps_do env e s = Inl OutOfRange
    else \<exists>s'. ps_do env e s = Inr s' \<and> ps_reachable s'"
proof -
  have "ps_reachable s'" if "ps_do env e s = Inr s'" for s'
    using that assms ps_step_event [of env s "Inr s'"] by (metis ps_reachable.step)
  with ps_do_ok [OF ps_reachable_inv [OF assms(1)] assms(2), of env] show ?thesis
    by (auto simp: ps_ok_def ps_safe_def split: if_splits)
qed

text \<open>A client just connected that sends two zero bytes, a datagram of one byte, and the departure of the client;
  the sockets take five bytes of each write.\<close>

definition ref_env :: ps_env where
  "ref_env = (\<lambda>i taken d. 5)"

theorem ps_faults_exactly_witness:
  "ps_do ref_env (EData 7 [0, 0]) (ps_incomingTcp 7 new_ps) = Inl OutOfRange
   \<and> ps_do ref_env (EDatagram [0]) (ps_incomingTcp 7 new_ps) = Inl OutOfRange
   \<and> (\<exists>s'. ps_do ref_env (EDestroy 7) (ps_incomingTcp 7 new_ps) = Inr s' \<and> ps_reachable s')"
proof -
  let ?s = "ps_incomingTcp 7 new_ps"
  have r: "ps_reachable ?s"
    by (rule ps_reachable.step [OF ps_reachable.start ps_step.connect]) (simp add: new_ps_def)
  have c: "map_of (ps_clients ?s) 7 = Some new_ps_client" "sock_open new_ps_client" "buf_in new_ps_client = []"
    by (simp_all add: ps_incomingTcp_def new_ps_def new_ps_client_def)
  have "fst (cut_all ps_cut [0, 0]) = [[0, 0]]" by code_simp
  with c have "ps_can (EData 7 [0, 0]) ?s" "ps_faulty (EData 7 [0, 0]) ?s" by simp_all
  with ps_faults_exactly [OF r this(1), of ref_env] ps_faults_exactly [OF r, of "EDatagram [0]" ref_env]
    ps_faults_exactly [OF r, of "EDestroy 7" ref_env] show ?thesis by simp
qed

section \<open>Clients\<close>

lemma sock_open_tcp: "sock_open (tcp_write w d c) \<Longrightarrow> sock_open c" "sock_open (tcp_flush w c) \<Longrightarrow> sock_open c"
  by (auto simp: tcp_defs Let_def split: if_splits)

lemma client_rel_write: "client_rel v c \<Longrightarrow> client_rel (fst v @ p, snd v) (env_write env i p c)"
  by (auto simp: client_rel_def env_write_def stream_inv_write dest: sock_open_tcp)

lemma closed_write: "\<not> sock_open c \<Longrightarrow> \<not> sock_open (env_write env i p c) \<and> accepted (env_write env i p c) = accepted c"
  by (simp add: env_write_def tcp_defs Let_def)

lemma client_rel_closed: "\<not> sock_open c \<Longrightarrow> client_rel v c \<longleftrightarrow> (\<exists>rest. fst v = accepted c @ rest)"
  by (simp add: client_rel_def stream_inv_closed)

lemma client_rel_publish:
  assumes "client_rel (out, chans) c"
  shows "client_rel (if ch \<in> chans then out @ p else out, chans) (client_channelPacket env i p ch c)"
proof (cases "sock_open c")
  case True
  then have "chans = set (channels c)" using assms by (simp add: client_rel_def)
  then show ?thesis using assms client_rel_write [OF assms, of p env i] by (simp add: client_channelPacket_def)
next
  case False
  then have "\<exists>rest. (if ch \<in> chans then out @ p else out) = accepted c @ rest"
    using assms by (auto simp: client_rel_closed)
  then show ?thesis using False closed_write [of c env i p]
    by (cases "ch \<in> chans") (simp_all add: client_rel_closed client_channelPacket_def)
qed

lemma client_rel_drop: "client_rel v c \<Longrightarrow> client_rel (fst v, C) (drop_link c)"
  by (auto simp: client_rel_def stream_inv_def drop_link_def)

text \<open>Changes that the abstract relay does not see.\<close>

lemma client_rel_hidden:
  "client_rel v (c\<lparr>buf_in := b\<rparr>) = client_rel v c"
  "client_rel v c \<Longrightarrow> client_rel v ((tcp_socketDisconnected c)\<lparr>sock_open := False\<rparr>)"
  by (auto simp: client_rel_def stream_inv_def tcp_socketDisconnected_def)

lemma client_rel_written: "client_rel v c \<Longrightarrow> client_rel v (tcp_bytesWritten n c)"
  by (auto simp: client_rel_def tcp_bytesWritten_def stream_inv_flush dest: sock_open_tcp)

section \<open>The simulation\<close>

lemma ps_rel_get: "ps_agree S m \<Longrightarrow> map_of m i = Some c \<Longrightarrow> \<exists>v. S i = Some v \<and> client_rel v c"
  by (simp add: ps_agree_def)

text \<open>One client changes, and its abstract value with it.\<close>

lemma ps_rel_update:
  assumes "ps_agree S m" "\<And>c v. map_of m i = Some c \<Longrightarrow> S i = Some v \<Longrightarrow> client_rel v c \<Longrightarrow> client_rel (g v) (f c)"
  shows "ps_agree (case S i of None \<Rightarrow> S | Some v \<Rightarrow> S(i \<mapsto> g v)) (qm_update i f m)"
  unfolding ps_agree_def
proof (intro allI impI)
  fix j c assume j: "map_of (qm_update i f m) j = Some c"
  show "\<exists>v. (case S i of None \<Rightarrow> S | Some v \<Rightarrow> S(i \<mapsto> g v)) j = Some v \<and> client_rel v c"
  proof (cases "j = i")
    case True
    with j obtain c0 where c0: "map_of m i = Some c0" "c = f c0" by (auto simp: map_of_update)
    with ps_rel_get [OF assms(1)] obtain v where "S i = Some v" "client_rel v c0" by blast
    with assms(2) c0 True show ?thesis by auto
  next
    case False
    then have "map_of m j = Some c" using j by (simp add: map_of_update)
    with assms(1) False show ?thesis by (auto simp: ps_agree_def split: option.splits)
  qed
qed

lemma ps_rel_hidden:
  assumes "ps_agree S m" "\<And>c v. client_rel v c \<Longrightarrow> client_rel v (f c)"
  shows "ps_agree S (qm_update i f m)"
proof -
  have "(case S i of None \<Rightarrow> S | Some v \<Rightarrow> S(i \<mapsto> v)) = S" by (auto split: option.splits)
  then show ?thesis using ps_rel_update [OF assms(1), of i "\<lambda>v. v" f] assms(2) by simp
qed

lemma ps_rel_publish:
  assumes "ps_agree S m" "data_packet d = Some p"
  shows "ps_agree (spec_action (Publish d) S) (qm_map (\<lambda>i. client_channelPacket env i p (channel_of p)) m)"
  unfolding ps_agree_def
proof (intro allI impI)
  fix i c assume "map_of (qm_map (\<lambda>i. client_channelPacket env i p (channel_of p)) m) i = Some c"
  then obtain c0 where c0: "map_of m i = Some c0" "c = client_channelPacket env i p (channel_of p) c0"
    by (auto simp: map_of_qm_map)
  then obtain out chans where "S i = Some (out, chans)" "client_rel (out, chans) c0"
    using ps_rel_get [OF assms(1)] by force
  then show "\<exists>v. spec_action (Publish d) S i = Some v \<and> client_rel v c"
    using c0(2) client_rel_publish assms(2) by simp
qed

lemma pushed_length: "pushPacket env d s = Inr s' \<Longrightarrow> 2 \<le> length d"
  using pushPacket_short [of d env s] by (cases "length d < 2") simp_all

lemma pushPacket_eq:
  assumes "ps_inv s" "2 \<le> length d"
  shows "\<exists>s'. pushPacket env d s = Inr s' \<and> (\<forall>i. map_of (ps_clients s') i = (case data_packet d of
      None \<Rightarrow> map_of (ps_clients s) i
    | Some p \<Rightarrow> map_of (qm_map (\<lambda>i. client_channelPacket env i p (channel_of p)) (ps_clients s)) i))"
proof (cases "data_packet d")
  case (Some p)
  then have d: "2 \<le> length d" "17 \<le> be16_len d" "be16_len d \<le> length d" "d ! 2 AND 0x80 = 0" "p = take (be16_len d) d"
    by (auto simp: data_packet_def split: if_splits)
  have p: "17 \<le> length p" "be16_len p = length p" "p ! 2 AND 0x80 = 0"
    using d by (simp_all add: be16_len_def)
  have "pushPacket env d s = pushPacket env p s"
  proof (cases "be16_len d = length d")
    case False
    then show ?thesis using d by (subst pushPacket.simps) (simp add: packet_length_be16 ba_left_def)
  qed (simp add: d(5))
  then show ?thesis
    using emit_no_listener [OF assms(1) _ ps_invD(2) [OF assms(1)], of "channel_of p" env p] Some
    by (auto simp: pushPacket_data [OF p] channel_of_def emit_channelPacket_def)
next
  case None
  have "pushPacket env d s = Inr s"
  proof (cases "2 \<le> length d")
    case True
    then show ?thesis
    proof (cases "be16_len d \<ge> 17 \<and> be16_len d \<le> length d")
      case True
      let ?p = "take (be16_len d) d"
      have t: "d ! 2 AND 0x80 \<noteq> 0" using None \<open>2 \<le> length d\<close> True by (auto simp: data_packet_def)
      have "?p ! 2 = d ! 2" "length ?p = be16_len d" "be16_len ?p = be16_len d" using True by (simp_all add: be16_len_def)
      then have "pushPacket env ?p s = Inr s"
        using True t by (subst pushPacket.simps) (simp add: packet_length_be16 Let_def)
      moreover have "pushPacket env d s = pushPacket env ?p s"
        using True \<open>2 \<le> length d\<close>
        by (cases "be16_len d = length d", simp) (subst pushPacket.simps, simp add: packet_length_be16 ba_left_def)
      ultimately show ?thesis by simp
    next
      case False
      then show ?thesis using \<open>2 \<le> length d\<close> by (subst pushPacket.simps) (auto simp: packet_length_be16)
    qed
  next
    case False
    then show ?thesis using assms(2) by simp
  qed
  then show ?thesis using None by simp
qed

text \<open>What a packet of a client does to its abstract value.\<close>

definition spec_packet :: "bytes \<Rightarrow> bytes \<times> bytes set \<Rightarrow> bytes \<times> bytes set" where
  "spec_packet p v = (case v of (out, chans) \<Rightarrow>
     if packet_type p = 0x80 then (out @ p, chans)
     else if packet_type p = 0x81 then (out, insert (channel_of p) chans)
     else if packet_type p = 0x82 then (out, chans - {channel_of p})
     else v)"

lemma spec_from_client: "spec_action (FromClient i p) S = (case S i of None \<Rightarrow> S | Some v \<Rightarrow> S(i \<mapsto> spec_packet p v))"
  by (auto simp: spec_packet_def split: option.splits)

lemma ps_rel_client:
  assumes "ps_agree S m" "\<And>j. j \<noteq> i \<Longrightarrow> map_of m' j = map_of m j"
    "\<And>c'. map_of m' i = Some c' \<Longrightarrow> \<exists>c. map_of m i = Some c \<and> (\<forall>v. client_rel v c \<longrightarrow> client_rel (g v) c')"
  shows "ps_agree (case S i of None \<Rightarrow> S | Some v \<Rightarrow> S(i \<mapsto> g v)) m'"
  unfolding ps_agree_def
proof (intro allI impI)
  fix j c' assume j: "map_of m' j = Some c'"
  show "\<exists>v. (case S i of None \<Rightarrow> S | Some v \<Rightarrow> S(i \<mapsto> g v)) j = Some v \<and> client_rel v c'"
  proof (cases "j = i")
    case True
    with j assms(3) obtain c where c: "map_of m i = Some c" "\<forall>v. client_rel v c \<longrightarrow> client_rel (g v) c'" by blast
    with ps_rel_get [OF assms(1)] obtain v where "S i = Some v" "client_rel v c" by blast
    with c True show ?thesis by (simp del: split_paired_All)
  next
    case False
    then have "map_of m j = Some c'" using j assms(2) by simp
    with assms(1) False show ?thesis by (auto simp: ps_agree_def split: option.splits)
  qed
qed

text \<open>A packet that leaves the clients as they are.\<close>

lemma ps_rel_same:
  assumes "ps_agree S m" "\<And>c v. map_of m i = Some c \<Longrightarrow> client_rel v c \<Longrightarrow> client_rel (g v) c"
  shows "ps_agree (case S i of None \<Rightarrow> S | Some v \<Rightarrow> S(i \<mapsto> g v)) m"
proof (rule ps_rel_client [OF assms(1)])
  show "\<exists>c. map_of m i = Some c \<and> (\<forall>v. client_rel v c \<longrightarrow> client_rel (g v) c')" if "map_of m i = Some c'" for c'
    using that assms(2) by blast
qed simp

lemma handleSubscribe_rel:
  assumes rel: "ps_agree S (ps_clients s)" and h: "handleSubscribe i ch s = Inr s'"
    and g: "\<And>v. g v = (fst v, insert ch (snd v))"
  shows "ps_agree (case S i of None \<Rightarrow> S | Some v \<Rightarrow> S(i \<mapsto> g v)) (ps_clients s')"
proof (cases "map_of (ps_clients s) i")
  case None
  then show ?thesis using h ps_rel_same [OF rel, of i g] by (simp add: handleSubscribe_def)
next
  case (Some c)
  consider "ch \<in> set (channels c)" "s' = s"
    | "ps_clients s' = qm_update i drop_link (ps_clients s)"
    | "ps_clients s' = qm_update i (\<lambda>c. c\<lparr>channels := channels c @ [ch]\<rparr>) (ps_clients s)"
    using h Some by (auto simp: handleSubscribe_def dest!: clients_of_refs split: if_splits)
  then show ?thesis
  proof cases
    case 1
    then show ?thesis using ps_rel_same [OF rel, of i g] Some by (auto simp: g client_rel_def)
  next
    case 2
    show ?thesis unfolding 2 by (rule ps_rel_update [OF rel]) (simp add: g client_rel_drop)
  next
    case 3
    show ?thesis unfolding 3 by (rule ps_rel_update [OF rel]) (auto simp: g client_rel_def stream_inv_def)
  qed
qed

lemma handleUnsubscribe_rel:
  assumes inv: "ps_inv s" and rel: "ps_agree S (ps_clients s)" and h: "handleUnsubscribe i ch s = Inr s'"
    and g: "\<And>v. g v = (fst v, snd v - {ch})"
  shows "ps_agree (case S i of None \<Rightarrow> S | Some v \<Rightarrow> S(i \<mapsto> g v)) (ps_clients s')"
proof (cases "map_of (ps_clients s) i")
  case None
  then show ?thesis using h ps_rel_same [OF rel, of i g] by (simp add: handleUnsubscribe_def)
next
  case (Some c)
  consider "ch \<notin> set (channels c)" "s' = s"
    | "ps_clients s' = qm_update i (\<lambda>c. c\<lparr>channels := remove1 ch (channels c)\<rparr>) (ps_clients s)"
    using h Some by (auto simp: handleUnsubscribe_def dest!: clients_of_refs split: if_splits)
  then show ?thesis
  proof cases
    case 1
    then show ?thesis using ps_rel_same [OF rel, of i g] Some by (auto simp: g client_rel_def)
  next
    case 2
    show ?thesis unfolding 2
    proof (rule ps_rel_update [OF rel])
      fix c v assume c: "map_of (ps_clients s) i = Some c" and v: "client_rel v c"
      have "distinct (channels c)" by (rule ps_invD(3) [OF inv c])
      then show "client_rel (g v) (c\<lparr>channels := remove1 ch (channels c)\<rparr>)"
        using v by (simp add: g client_rel_def stream_inv_def)
    qed
  qed
qed

lemma handlePacket_rel:
  assumes inv: "ps_inv s" and rel: "ps_agree S (ps_clients s)" and h: "handlePacket env i p s = Inr s'"
  shows "ps_agree (spec_action (FromClient i p) S) (ps_clients s')"
proof -
  let ?t = "packet_type p"
  obtain b where "byte_at p 2 = Inr b" using h by (auto simp: handlePacket_def bind_out_Inr_iff)
  then have "byte_at p 2 = Inr ?t" by (auto simp: packet_type_def byte_at_def split: if_splits)
  with h have h: "(if ?t AND 0x80 = 0 then Inr (on_client i drop_link s)
     else if ?t = 0x80 then Inr (on_client i (env_write env i p) s)
     else if ?t = 0x81 then handleSubscribe i (channel_of p) s
     else if ?t = 0x82 then handleUnsubscribe i (channel_of p) s
     else Inr s) = Inr s'"
    by (simp only: handlePacket_def channel_of_def Let_def bind_out_simps)
  consider (drop) "?t AND 0x80 = 0" | (ping) "?t = 0x80" | (sub) "?t = 0x81" | (unsub) "?t = 0x82"
    | (other) "?t AND 0x80 \<noteq> 0" "?t \<notin> {0x80, 0x81, 0x82}" by auto
  then show ?thesis unfolding spec_from_client
  proof cases
    case drop
    then have n: "?t \<noteq> 0x80" "?t \<noteq> 0x81" "?t \<noteq> 0x82" by auto
    have "ps_clients s' = qm_update i drop_link (ps_clients s)" using h drop by auto
    moreover have "spec_packet p v = v" for v using n by (simp add: spec_packet_def split: prod.splits)
    ultimately show "ps_agree (case S i of None \<Rightarrow> S | Some v \<Rightarrow> S(i \<mapsto> spec_packet p v)) (ps_clients s')"
      using ps_rel_update [OF rel, of i "spec_packet p" drop_link] client_rel_drop [of _ _ "snd _"] by fastforce
  next
    case ping
    then have "ps_clients s' = qm_update i (env_write env i p) (ps_clients s)" using h by auto
    moreover have "spec_packet p v = (fst v @ p, snd v)" for v using ping by (simp add: spec_packet_def split: prod.splits)
    ultimately show "ps_agree (case S i of None \<Rightarrow> S | Some v \<Rightarrow> S(i \<mapsto> spec_packet p v)) (ps_clients s')"
      using ps_rel_update [OF rel, of i "spec_packet p" "env_write env i p"] client_rel_write by simp
  next
    case sub
    then have "handleSubscribe i (channel_of p) s = Inr s'" using h by simp
    then show "ps_agree (case S i of None \<Rightarrow> S | Some v \<Rightarrow> S(i \<mapsto> spec_packet p v)) (ps_clients s')"
      by (rule handleSubscribe_rel [OF rel]) (use sub in \<open>simp add: spec_packet_def split: prod.splits\<close>)
  next
    case unsub
    then have "handleUnsubscribe i (channel_of p) s = Inr s'" using h by simp
    then show "ps_agree (case S i of None \<Rightarrow> S | Some v \<Rightarrow> S(i \<mapsto> spec_packet p v)) (ps_clients s')"
      by (rule handleUnsubscribe_rel [OF inv rel]) (use unsub in \<open>simp add: spec_packet_def split: prod.splits\<close>)
  next
    case other
    then have "s' = s" using h by simp
    moreover have "spec_packet p v = v" for v using other by (simp add: spec_packet_def split: prod.splits)
    ultimately show "ps_agree (case S i of None \<Rightarrow> S | Some v \<Rightarrow> S(i \<mapsto> spec_packet p v)) (ps_clients s')"
      using ps_rel_same [OF rel, of i "spec_packet p"] by simp
  qed
qed

section \<open>Reads\<close>

lemma ps_inv_handlePacket: "ps_inv s \<Longrightarrow> handlePacket env i p s = Inr s' \<Longrightarrow> ps_inv s'"
  using handlePackets_ok [of s "[p]" env i] ps_okD by simp

lemma ps_cut_all_length: "cut_all ps_cut b = (fs, r, x) \<Longrightarrow> p \<in> set fs \<Longrightarrow> 2 \<le> length p"
  using ps_cut_all_whole by blast

lemma handlePackets_rel:
  "ps_inv s \<Longrightarrow> ps_agree S (ps_clients s) \<Longrightarrow>
   fold_out (handlePacket env i) ps s = Inr s' \<Longrightarrow>
   ps_agree (fold spec_action (map (FromClient i) ps) S) (ps_clients s')"
proof (induction ps arbitrary: s S)
  case (Cons p ps)
  from Cons.prems(3) obtain s1 where s1: "handlePacket env i p s = Inr s1"
      "fold_out (handlePacket env i) ps s1 = Inr s'"
    by (auto simp: bind_out_Inr_iff)
  have "ps_inv s1" by (rule ps_inv_handlePacket [OF Cons.prems(1) s1(1)])
  from Cons.IH [OF this handlePacket_rel [OF Cons.prems(1,2) s1(1)] s1(2)] show ?case
    by (simp del: spec_action.simps)
qed simp

lemma ps_handleBuffer_rel:
  assumes inv: "ps_inv s" and rel: "ps_agree S (ps_clients s)" and h: "ps_handleBuffer env i t s = Inr s'"
  shows "ps_agree (fold spec_action (ps_acts (EData i t) s) S) (ps_clients s')"
proof (cases "map_of (ps_clients s) i")
  case None
  then show ?thesis using h rel by (simp add: ps_handleBuffer_def)
next
  case (Some c)
  show ?thesis
  proof (cases "length (buf_in c @ t) > 100 * 1024")
    case True
    then have "s' = on_client i (\<lambda>c. c\<lparr>buf_in := []\<rparr>) (on_client i drop_link s)"
      using h Some by (simp add: ps_handleBuffer_def Let_def ps_loop.simps)
    moreover have "client_rel v ((drop_link c)\<lparr>buf_in := []\<rparr>)" if "client_rel v c" for v c
      using client_rel_drop [OF that, of "snd v"] by (simp add: client_rel_hidden)
    ultimately show ?thesis
      using True Some ps_rel_hidden [OF rel, of "\<lambda>c. (drop_link c)\<lparr>buf_in := []\<rparr>" i]
      by (simp add: on_client_on_client)
  next
    case False
    obtain ps r x where p: "cut_all ps_cut (buf_in c @ t) = (ps, r, x)" by (metis prod_cases3)
    from h ps_handleBuffer_eq [OF Some _ p] False obtain s1
      where s1: "fold_out (handlePacket env i) ps s = Inr s1" "s' = set_buf i r s1"
      by (cases "fold_out (handlePacket env i) ps s") auto
    have "ps_agree (fold spec_action (map (FromClient i) ps) S) (ps_clients s1)"
      by (rule handlePackets_rel [OF inv rel s1(1)])
    then have "ps_agree (fold spec_action (map (FromClient i) ps) S) (ps_clients s')"
      unfolding s1(2) set_buf_def by (simp add: ps_rel_hidden client_rel_hidden)
    then show ?thesis using Some False p by simp
  qed
qed

section \<open>Publications\<close>

lemma pushPacket_rel:
  assumes inv: "ps_inv s" and rel: "ps_agree S (ps_clients s)" and h: "pushPacket env d s = Inr s'"
  shows "ps_agree (spec_action (Publish d) S) (ps_clients s')"
proof (cases "data_packet d")
  case None
  with pushPacket_eq [OF inv pushed_length [OF h], of env] h have "map_of (ps_clients s') i = map_of (ps_clients s) i" for i by simp
  then have "ps_agree S (ps_clients s')" using rel unfolding ps_agree_def by metis
  then show ?thesis using None by simp
next
  case (Some p)
  with pushPacket_eq [OF inv pushed_length [OF h], of env] h
  have "map_of (ps_clients s') i = map_of (qm_map (\<lambda>i. client_channelPacket env i p (channel_of p)) (ps_clients s)) i" for i
    by simp
  with ps_rel_publish [OF rel Some, of env] show ?thesis unfolding ps_agree_def by metis
qed

lemma ps_inv_pushPacket: "ps_inv s \<Longrightarrow> pushPacket env d s = Inr s' \<Longrightarrow> ps_inv s'"
  using pushPacket_ok [of s d env] ps_okD by simp

lemma pushPackets_rel:
  "ps_inv s \<Longrightarrow> ps_agree S (ps_clients s) \<Longrightarrow>
   fold_out (pushPacket env) ps s = Inr s' \<Longrightarrow> ps_agree (fold spec_action (map Publish ps) S) (ps_clients s')"
proof (induction ps arbitrary: s S)
  case (Cons p ps)
  from Cons.prems(3) obtain s1 where s1: "pushPacket env p s = Inr s1" "fold_out (pushPacket env) ps s1 = Inr s'"
    by (auto simp: bind_out_Inr_iff)
  from Cons.IH [OF ps_inv_pushPacket [OF Cons.prems(1) s1(1)] pushPacket_rel [OF Cons.prems(1,2) s1(1)] s1(2)] show ?case
    by (simp del: spec_action.simps)
qed simp

lemma master_loop_cut_all:
  "master_loop env b s = (case cut_all ps_cut b of (ps, r, _) \<Rightarrow>
     map_out (Pair r) (fold_out (pushPacket env) ps s))"
proof (induction env b s rule: master_loop.induct)
  case (1 env b s)
  show ?case
  proof (cases "ps_cut b")
    case (Packet f r)
    then have b: "\<not> length b < 2" "\<not> length b < be16_len b" "f = take (be16_len b) b" "r = drop (be16_len b) b"
      by (auto simp: ps_cut_def split: if_splits)
    then have "master_loop env b s = bind_out (pushPacket env f s) (master_loop env r)"
      by (subst master_loop.simps) (simp add: Let_def)
    also have "\<dots> = bind_out (pushPacket env f s) (\<lambda>s. case cut_all ps_cut r of (ps, r', _) \<Rightarrow>
        map_out (Pair r') (fold_out (pushPacket env) ps s))"
      using 1 b by (cases "pushPacket env f s") simp_all
    also have "\<dots> = (case cut_all ps_cut r of (ps, r', _) \<Rightarrow>
        map_out (Pair r') (bind_out (pushPacket env f s) (fold_out (pushPacket env) ps)))"
      by (cases "pushPacket env f s") (simp_all split: prod.splits)
    finally show ?thesis using Packet by (simp add: ps_framer.cut_all_Packet split: prod.splits)
  next
    case More
    then have "master_loop env b s = Inr (b, s)"
      by (subst master_loop.simps) (auto simp: ps_cut_def Let_def split: if_splits)
    with More show ?thesis by (simp add: ps_framer.cut_all_More)
  next
    case Fatal
    then show ?thesis by (simp add: ps_cut_def split: if_splits)
  qed
qed

section \<open>The other events\<close>

lemma readFromMaster_rel:
  assumes inv: "ps_inv s" and rel: "ps_agree S (ps_clients s)" and h: "readFromMaster env now k got s = Inr s'"
  shows "ps_agree (fold spec_action (ps_acts (EMasterData now k got) s) S) (ps_clients s')"
proof (cases "map_of (masters s) k")
  case (Some v)
  show ?thesis
  proof (cases v)
    case (Some m)
    let ?s = "on_master k (\<lambda>m. m\<lparr>m_stamp := now\<rparr>) s"
    obtain ps r x where p: "cut_all ps_cut (m_in m @ got) = (ps, r, x)" by (metis prod_cases3)
    from h p \<open>map_of (masters s) k = Some v\<close> Some obtain s1
      where s1: "fold_out (pushPacket env) ps ?s = Inr s1" "s' = on_master k (\<lambda>m. m\<lparr>m_in := r\<rparr>) s1"
      by (cases "fold_out (pushPacket env) ps ?s") (auto simp: readFromMaster_def Let_def master_loop_cut_all)
    have "ps_inv ?s" by (rule on_master_safe [OF inv]) (auto simp: master_ok_def)
    moreover have "ps_agree S (ps_clients ?s)" using rel by (simp add: on_master_def)
    ultimately have "ps_agree (fold spec_action (map Publish ps) S) (ps_clients s1)"
      by (rule pushPackets_rel [OF _ _ s1(1)])
    then show ?thesis using Some \<open>map_of (masters s) k = Some v\<close> p s1(2) by (simp add: on_master_def)
  qed (use h rel Some in \<open>simp add: readFromMaster_def\<close>)
qed (use h rel in \<open>simp add: readFromMaster_def\<close>)

lemma delRefs_clients: "fold_out channelDelRef chs s = Inr s' \<Longrightarrow> ps_clients s' = ps_clients s"
  by (induction chs arbitrary: s) (auto simp: bind_out_Inr_iff dest: clients_of_refs)

lemma ps_client_destroy_rel:
  assumes "ps_inv s" "ps_agree S (ps_clients s)" "ps_client_destroy i s = Inr s'"
  shows "ps_agree (spec_action (Leave i) S) (ps_clients s')"
proof (cases "map_of (ps_clients s) i")
  case (Some c)
  then have "ps_clients s' = qm_remove i (ps_clients s)"
    using assms(3) by (auto simp: ps_client_destroy_def bind_out_Inr_iff dest: delRefs_clients)
  then show ?thesis using assms(2) map_of_remove [OF ps_invD(2) [OF assms(1)], of i]
    by (auto simp: ps_agree_def split: if_splits)
qed (use assms in \<open>auto simp: ps_client_destroy_def ps_agree_def\<close>)

lemma ps_incomingTcp_rel:
  assumes "ps_inv s" "ps_agree S (ps_clients s)"
  shows "ps_agree (spec_action (Join i) S) (ps_clients (ps_incomingTcp i s))"
  using assms map_of_insert [OF ps_invD(2) [OF assms(1)], of i new_ps_client]
  by (auto simp: ps_agree_def ps_incomingTcp_def client_rel_def stream_inv_def new_ps_client_def)

lemma ps_masters_only:
  "ps_clients (masterConnected k s) = ps_clients s" "ps_clients (on_master k f s) = ps_clients s"
  "ps_clients (checkMasters now s) = ps_clients s" "ps_clients (ps_reload now cm cl s) = ps_clients s"
  by (simp_all add: masterConnected_def on_master_def checkMasters_def ps_reload_def Let_def split: prod.splits)

lemma ps_do_rel:
  assumes inv: "ps_inv s" and rel: "ps_agree S (ps_clients s)" and e: "ps_can e s" "ps_do env e s = Inr s'"
  shows "ps_agree (fold spec_action (ps_acts e s) S) (ps_clients s')"
proof (cases e)
  case (EConnect i)
  then show ?thesis using e ps_incomingTcp_rel [OF inv rel] by (auto simp del: spec_action.simps)
next
  case (EData i t)
  then show ?thesis using e ps_handleBuffer_rel [OF inv rel] by simp
next
  case (EWritten i n)
  then show ?thesis using e ps_rel_hidden [OF rel client_rel_written] by auto
next
  case (EPeerClosed i)
  then show ?thesis using e ps_rel_hidden [OF rel client_rel_hidden(2)] by auto
next
  case (EDestroy i)
  then show ?thesis using e ps_client_destroy_rel [OF inv rel] by simp
next
  case (EDatagram d)
  then show ?thesis using e pushPacket_rel [OF inv rel] by (simp add: ps_incomingDatagram_def)
next
  case (EMasterData now k got)
  then show ?thesis using e readFromMaster_rel [OF inv rel] by simp
qed (use e rel in \<open>auto simp: ps_masters_only\<close>)

section \<open>The same clients\<close>

lemma dom_spec_action: "dom (spec_action a S) = (case a of Join i \<Rightarrow> insert i (dom S) | Leave i \<Rightarrow> dom S - {i} | _ \<Rightarrow> dom S)"
  by (cases a) (auto split: option.splits if_splits)

lemma dom_spec_data: "dom (fold spec_action (map (FromClient i) ps) S) = dom S" "dom (fold spec_action (map Publish ps) S) = dom S"
  by (induction ps arbitrary: S) (simp_all add: dom_spec_action del: spec_action.simps)

lemma pushPacket_dom: "ps_inv s \<Longrightarrow> pushPacket env d s = Inr s' \<Longrightarrow> dom (map_of (ps_clients s')) = dom (map_of (ps_clients s))"
  using pushPacket_eq [of s d env] pushed_length [of env d s] by (auto simp: dom_def map_of_qm_map split: option.splits)

lemma pushPackets_dom:
  "ps_inv s \<Longrightarrow> fold_out (pushPacket env) ps s = Inr s' \<Longrightarrow>
   dom (map_of (ps_clients s')) = dom (map_of (ps_clients s))"
proof (induction ps arbitrary: s)
  case (Cons p ps)
  from Cons.prems(2) obtain s1 where s1: "pushPacket env p s = Inr s1" "fold_out (pushPacket env) ps s1 = Inr s'"
    by (auto simp: bind_out_Inr_iff)
  from Cons.IH [OF ps_inv_pushPacket [OF Cons.prems(1) s1(1)] s1(2)]
    pushPacket_dom [OF Cons.prems(1) s1(1)] show ?case by simp
qed simp

lemma ps_handleBuffer_dom:
  assumes h: "ps_handleBuffer env i t s = Inr s'"
  shows "dom (map_of (ps_clients s')) = dom (map_of (ps_clients s))"
proof (cases "map_of (ps_clients s) i")
  case (Some c)
  have keys: "ps_loop env i b s0 = Inr (r, s1) \<Longrightarrow> qm_keys (ps_clients s1) = qm_keys (ps_clients s0)" for b s0 r s1
    by (auto simp: ps_loop_cut_all map_out_def bind_out_Inr_iff dest: fold_handlePacket_keeps_client split: prod.splits)
  from h Some have "qm_keys (ps_clients s') = qm_keys (ps_clients s)"
    by (auto simp: ps_handleBuffer_def Let_def bind_out_Inr_iff split: if_splits dest!: keys)
  then show ?thesis by (metis set_qm_keys)
qed (use h in \<open>simp add: ps_handleBuffer_def\<close>)

lemma readFromMaster_dom:
  assumes inv: "ps_inv s" and h: "readFromMaster env now k got s = Inr s'"
  shows "dom (map_of (ps_clients s')) = dom (map_of (ps_clients s))"
proof -
  have "dom (map_of (ps_clients s1)) = dom (map_of (ps_clients s))"
    if l: "master_loop env b (on_master k (\<lambda>m. m\<lparr>m_stamp := now\<rparr>) s) = Inr (r, s1)" for b r s1
  proof -
    obtain ps r' x where p: "cut_all ps_cut b = (ps, r', x)" by (metis prod_cases3)
    have "ps_inv (on_master k (\<lambda>m. m\<lparr>m_stamp := now\<rparr>) s)"
      by (rule on_master_safe [OF inv]) (auto simp: master_ok_def)
    from pushPackets_dom [OF this, of env ps s1] l show ?thesis
      by (auto simp: master_loop_cut_all p map_out_def bind_out_Inr_iff ps_masters_only)
  qed
  note step = this
  show ?thesis
  proof (cases "\<exists>m. map_of (masters s) k = Some (Some m)")
    case True
    with h obtain b r s1 where "master_loop env b (on_master k (\<lambda>m. m\<lparr>m_stamp := now\<rparr>) s) = Inr (r, s1)"
        "ps_clients s' = ps_clients s1"
      by (auto simp: readFromMaster_def Let_def bind_out_Inr_iff ps_masters_only)
    with step show ?thesis by metis
  qed (use h in \<open>auto simp: readFromMaster_def split: option.splits\<close>)
qed

lemma ps_client_destroy_dom:
  assumes "ps_inv s" "ps_client_destroy i s = Inr s'"
  shows "dom (map_of (ps_clients s')) = dom (map_of (ps_clients s)) - {i}"
proof (cases "map_of (ps_clients s) i")
  case (Some c)
  then have "ps_clients s' = qm_remove i (ps_clients s)"
    using assms(2) by (auto simp: ps_client_destroy_def bind_out_Inr_iff dest: delRefs_clients)
  then show ?thesis using map_of_remove [OF ps_invD(2) [OF assms(1)], of i] by simp
qed (use assms in \<open>auto simp: ps_client_destroy_def\<close>)

lemma dom_qm_update: "dom (map_of (qm_update i f m)) = dom (map_of m)"
  by (rule set_eqI) (simp add: map_of_update domIff)

lemma ps_do_dom:
  assumes inv: "ps_inv s" and d: "dom S = dom (map_of (ps_clients s))" and e: "ps_can e s" "ps_do env e s = Inr s'"
  shows "dom (fold spec_action (ps_acts e s) S) = dom (map_of (ps_clients s'))"
proof (cases e)
  case (EConnect i)
  then show ?thesis using e d map_of_insert [OF ps_invD(2) [OF inv]] by (auto simp: ps_incomingTcp_def)
next
  case (EData i t)
  then show ?thesis using e d ps_handleBuffer_dom [of env i t s s'] dom_spec_data(1) [of i]
    by (auto simp del: spec_action.simps split: option.splits)
next
  case (EWritten i n)
  then have "s' = on_client i (tcp_bytesWritten n) s" using e by simp
  then show ?thesis using EWritten d by (simp add: dom_qm_update del: map_of_update)
next
  case (EPeerClosed i)
  then have "s' = on_client i (\<lambda>c. (tcp_socketDisconnected c)\<lparr>sock_open := False\<rparr>) s" using e by simp
  then show ?thesis using EPeerClosed d by (simp add: dom_qm_update del: map_of_update)
next
  case (EDestroy i)
  then show ?thesis using e d ps_client_destroy_dom [OF inv] by simp
next
  case (EDatagram d')
  then show ?thesis using e d pushPacket_dom [OF inv] dom_spec_data(2) [of "[d']"]
    by (simp add: ps_incomingDatagram_def del: spec_action.simps)
next
  case (EMasterData now k got)
  then show ?thesis using e d readFromMaster_dom [OF inv] dom_spec_data(2)
    by (simp del: spec_action.simps split: option.splits)
qed (use e d in \<open>auto simp: ps_masters_only\<close>)

text \<open>C12: the relay refines the abstract publish/subscribe relay. Take any run of it, from the start-up state
  through connections, reads cut anywhere, partial writes, disconnects, destructions, datagrams, masters that come and
  go, timers and reloads, under sockets that take what they like at each step, that goes on as long as no event faults (\<open>ps_faulty\<close> says
  which ones do). Replay on the abstract relay only the
  joins, the departures, the packets found in the clients' bytes and the packets to publish: then both know the same
  clients; what the socket of each took is a prefix of the stream the abstract relay sent it; and if it is open, the
  write buffer holds all the rest, and its channels are the abstract ones.\<close>

theorem ps_refines_pubsub:
  assumes "ps_trace as s"
  shows "ps_rel (fold spec_action as Map.empty) (ps_clients s)"
  using assms
proof (induction rule: ps_trace.induct)
  case start
  then show ?case by (simp add: ps_rel_def ps_agree_def new_ps_def)
next
  case (step as s e env s')
  have "ps_inv s" by (rule ps_reachable_inv [OF ps_trace_reachable [OF step(1)]])
  with ps_do_rel [OF this _ step(2,3)] ps_do_dom [OF this _ step(2,3)] step.IH show ?case
    by (simp add: ps_rel_def)
qed

text \<open>A client that subscribes, and a packet published to its channel.\<close>

text \<open>A short read: the limit on the pending input is not reached.\<close>

definition short_read :: "ps_event \<Rightarrow> mod_ps \<Rightarrow> mod_ps outcome" where
  "short_read e s = (case e of EData i t \<Rightarrow> (case map_of (ps_clients s) i of None \<Rightarrow> Inr s | Some c \<Rightarrow>
       if length (buf_in c @ t) \<le> 50 then (case cut_all ps_cut (buf_in c @ t) of (ps, r, x) \<Rightarrow>
         map_out (set_buf i r) (fold_out (handlePacket ref_env i) ps s)) else Inl Aborted)
     | _ \<Rightarrow> ps_do ref_env e s)"

definition short_acts :: "ps_event \<Rightarrow> mod_ps \<Rightarrow> ps_action list" where
  "short_acts e s = (case e of EData i t \<Rightarrow> (case map_of (ps_clients s) i of None \<Rightarrow> [] | Some c \<Rightarrow>
       map (FromClient i) (fst (cut_all ps_cut (buf_in c @ t)))) | _ \<Rightarrow> ps_acts e s)"

lemma short_read_do: "short_read e s = Inr s' \<Longrightarrow> ps_do ref_env e s = Inr s' \<and> ps_acts e s = short_acts e s"
proof (cases e)
  case (EData i t)
  assume h: "short_read e s = Inr s'"
  show ?thesis
  proof (cases "map_of (ps_clients s) i")
    case (Some c)
    obtain ps r x where p: "cut_all ps_cut (buf_in c @ t) = (ps, r, x)" by (metis prod_cases3)
    with h EData Some have "length (buf_in c @ t) \<le> 100 * 1024" by (auto simp: short_read_def split: if_splits)
    with h EData Some p ps_handleBuffer_eq [OF Some this p, of ref_env] show ?thesis
      by (simp add: short_read_def short_acts_def split: if_splits)
  qed (use h EData in \<open>simp add: short_read_def short_acts_def ps_handleBuffer_def\<close>)
qed (simp_all add: short_read_def short_acts_def)

definition ref_step :: "ps_event \<Rightarrow> ps_action list \<times> mod_ps \<Rightarrow> (ps_action list \<times> mod_ps) outcome" where
  "ref_step e st = (if ps_can e (snd st)
     then map_out (Pair (fst st @ short_acts e (snd st))) (short_read e (snd st)) else Inl Aborted)"

lemma ref_trace_runs:
  "fold_out ref_step es st = Inr st' \<Longrightarrow> ps_trace (fst st) (snd st) \<Longrightarrow> ps_trace (fst st') (snd st')"
proof (induction es arbitrary: st)
  case (Cons e es)
  from Cons.prems(1) obtain st1 where st1: "ref_step e st = Inr st1" "fold_out ref_step es st1 = Inr st'"
    by (auto simp: bind_out_Inr_iff)
  then obtain s1 where "ps_can e (snd st)" "short_read e (snd st) = Inr s1" "st1 = (fst st @ short_acts e (snd st), s1)"
    by (auto simp: ref_step_def map_out_def bind_out_Inr_iff split: if_splits)
  with short_read_do have "ps_trace (fst st1) (snd st1)"
    using ps_trace.step [OF Cons.prems(2), of e ref_env s1] by fastforce
  with Cons.IH [OF st1(2)] show ?case by simp
qed simp

definition ref_chan :: bytes where
  "ref_chan = [1, 2, 3, 4, 5, 6, 7, 8, 9, 10, 11, 12, 13, 14, 15, 16]"

definition ref_events :: "ps_event list" where
  "ref_events = [EConnect 7, EConnect 8, EData 7 ([0, 17, 0x81] @ take 9 ref_chan), EData 7 (drop 9 ref_chan),
     EDatagram ([0, 18, 0] @ ref_chan @ [42]), EWritten 7 5, EDestroy 8]"

definition ref_end :: "ps_action list \<times> mod_ps" where
  "ref_end = (case fold_out ref_step ref_events ([], new_ps) of Inl e \<Rightarrow> ([], new_ps) | Inr st \<Rightarrow> st)"

lemma ref_end_run: "fold_out ref_step ref_events ([], new_ps) = Inr ref_end"
proof -
  have "(case fold_out ref_step ref_events ([], new_ps) of Inl e \<Rightarrow> False | Inr st \<Rightarrow> True)" by code_simp
  then show ?thesis by (auto simp: ref_end_def split: sum.splits)
qed

theorem ps_refines_pubsub_witness:
  "ps_rel (fold spec_action (fst ref_end) Map.empty) (ps_clients (snd ref_end))
   \<and> map_option (\<lambda>c. (accepted c, write_buf c)) (map_of (ps_clients (snd ref_end)) 7)
       = Some (take 10 ([0, 18, 0] @ ref_chan @ [42]), drop 10 ([0, 18, 0] @ ref_chan @ [42]))
   \<and> fold spec_action (fst ref_end) Map.empty 7 = Some ([0, 18, 0] @ ref_chan @ [42], {ref_chan})"
proof -
  have run: "ps_trace (fst ref_end) (snd ref_end)" by (rule ref_trace_runs [OF ref_end_run]) (simp add: ps_trace.start)
  have "fst ref_end = [Join 7, Join 8, FromClient 7 ([0, 17, 0x81] @ ref_chan),
      Publish ([0, 18, 0] @ ref_chan @ [42]), Leave 8]" by code_simp
  moreover have "data_packet ([0, 18, 0] @ ref_chan @ [42]) = Some ([0, 18, 0] @ ref_chan @ [42])"
    "channel_of ([0, 18, 0] @ ref_chan @ [42]) = ref_chan" "channel_of ([0, 17, 0x81] @ ref_chan) = ref_chan" by code_simp+
  ultimately have "fold spec_action (fst ref_end) Map.empty 7 = Some ([0, 18, 0] @ ref_chan @ [42], {ref_chan})"
    by (simp add: packet_type_def)
  moreover have "map_option (\<lambda>c. (accepted c, write_buf c)) (map_of (ps_clients (snd ref_end)) 7)
       = Some (take 10 ([0, 18, 0] @ ref_chan @ [42]), drop 10 ([0, 18, 0] @ ref_chan @ [42]))"
    by code_simp
  ultimately show ?thesis using ps_refines_pubsub [OF run] by blast
qed

end
