(* ===== verification/Startup.thy ===== *)
theory Startup
  imports Core_Config_Props
begin

text \<open>
  base/cli.cpp and mod/core/main.cpp, and the constructor of \<open>Core\<close>: from the launcher to the event loop. What
  QLibrary finds is an argument; the event loop itself is Qt's, and its result is the result of the process.
\<close>

section \<open>The launcher\<close>

datatype load_hint = ResolveAllSymbols | ExportExternalSymbols

record launcher =
  la_load :: "string \<Rightarrow> load_hint list \<Rightarrow> bool"
  la_resolve :: "string \<Rightarrow> string \<Rightarrow> bool"

text \<open>The process has returned from \<open>main\<close>, or is in \<open>app.exec()\<close> with the core.\<close>

datatype process = Exit int | EventLoop core

definition core_hints :: "load_hint list" where
  "core_hints = [ResolveAllSymbols, ExportExternalSymbols]"

text \<open>The constructor reads the symbol table, which may fault, and the configuration, which may not end.\<close>

definition core_construct :: "core_env \<Rightarrow> nat \<Rightarrow> bytes option \<Rightarrow> settings \<Rightarrow> core option outcome" where
  "core_construct env n symbols conf = bind_out (reloadSymbols symbols new_core) (\<lambda>s. Inr (reloadConfig env n conf s))"

definition pinetd_main :: "core_env \<Rightarrow> nat \<Rightarrow> bytes option \<Rightarrow> settings \<Rightarrow> core option outcome" where
  "pinetd_main env n symbols conf = core_construct env n symbols conf"

definition cli_main :: "launcher \<Rightarrow> core_env \<Rightarrow> nat \<Rightarrow> bytes option \<Rightarrow> settings \<Rightarrow> process option outcome" where
  "cli_main L env n symbols conf =
     (if \<not> la_load L ''mod/core'' core_hints then Inr (Some (Exit 1))
      else if \<not> la_resolve L ''mod/core'' ''pinetd_main'' then Inr (Some (Exit 2))
      else map_out (map_option EventLoop) (pinetd_main env n symbols conf))"

section \<open>Loading everything\<close>

text \<open>One module, with fuel that is enough from some amount on.\<close>

lemma probe_all_fuel:
  assumes "resolvable L rk (sym_map s)" "qm_wf (modules s)"
  obtains n t where "\<And>m. n \<le> m \<Longrightarrow> modprobe L m md s = Some (True, t)" "grows L s t" "qm_contains (modules t) md"
proof -
  from modprobe_succeeds [OF assms(1) refl assms(2)] obtain n t where t: "modprobe L n md s = Some (True, t)" by blast
  with that [of n t] fuel_mono(1) [OF _ t] modprobe_grows [OF assms(2) t] show ?thesis by simp
qed

lemma grows_contains: "grows L s t \<Longrightarrow> qm_contains (modules s) md \<Longrightarrow> qm_contains (modules t) md"
  by (auto simp: contains_keys dest: growsD(9))

lemma load_preloads_succeeds:
  assumes "resolvable (e_linker env) rk (sym_map s)" "qm_wf (modules s)"
  shows "\<exists>n t. (\<forall>m\<ge>n. load_preloads env m k s = Some t) \<and> grows (e_linker env) s t
    \<and> (\<forall>(a, md) \<in> set k. qm_contains (modules t) md)"
  using assms
proof (induction k arbitrary: s)
  case Nil
  then show ?case by (intro exI [of _ 0] exI [of _ s]) (simp add: grows_refl)
next
  case (Cons kv k)
  obtain a md where kv: "kv = (a, md)" by (cases kv)
  from Cons.prems obtain n t where t: "\<And>m. n \<le> m \<Longrightarrow> modprobe (e_linker env) m md s = Some (True, t)"
      "grows (e_linker env) s t" "qm_contains (modules t) md"
    using probe_all_fuel by blast
  then have "resolvable (e_linker env) rk (sym_map t)" "qm_wf (modules t)" using Cons.prems(1) by (simp_all add: growsD)
  from Cons.IH [OF this] obtain n' u where u: "\<forall>m\<ge>n'. load_preloads env m k t = Some u" "grows (e_linker env) t u"
      "\<forall>(a, md) \<in> set k. qm_contains (modules u) md" by blast
  have "\<forall>m\<ge>max n n'. load_preloads env m (kv # k) s = Some u" using t(1) u(1) kv by simp
  moreover have "\<forall>(a, md) \<in> set (kv # k). qm_contains (modules u) md"
    using u(3) kv grows_contains [OF u(2) t(3)] by simp
  ultimately show ?case using grows_trans [OF t(2) u(2)] by blast
qed

text \<open>The daemons, none of which runs yet.\<close>

lemma load_daemons_succeeds:
  assumes "resolvable (e_linker env) rk (sym_map s)" "qm_wf (modules s)" "qm_wf (daemons s)" "distinct (map fst k)"
    "set (map fst k) \<inter> dom (map_of (daemons s)) = {}"
  shows "\<exists>n t. (\<forall>m\<ge>n. load_daemons env m k cur s = Some (cur, t)) \<and> set (qm_keys (modules s)) \<subseteq> set (qm_keys (modules t))
    \<and> map_of (daemons s) \<subseteq>\<^sub>m map_of (daemons t)
    \<and> (\<forall>(a, md) \<in> set k. qm_contains (modules t) md \<and> (e_instanciate env md a \<longrightarrow> getDaemon t a \<noteq> None))"
  using assms
proof (induction k arbitrary: s)
  case (Cons kv k)
  obtain a md where kv: "kv = (a, md)" by (cases kv)
  from Cons.prems obtain n t where t: "\<And>m. n \<le> m \<Longrightarrow> modprobe (e_linker env) m md s = Some (True, t)"
      "grows (e_linker env) s t" "qm_contains (modules t) md"
    using probe_all_fuel by blast
  define u where "u = (if e_instanciate env md a then add_daemon a t else t)"
  have u: "sym_map u = sym_map s" "modules u = modules t" "qm_wf (daemons u)"
    "map_of (daemons u) = (if e_instanciate env md a then (map_of (daemons s))(a \<mapsto> next_obj t) else map_of (daemons s))"
    using t(2) Cons.prems(3) by (simp_all add: u_def add_daemon_def growsD qmap_simps)
  have a: "a \<notin> set (map fst k)" "map_of (daemons s) a = None" using Cons.prems(4,5) kv by auto
  then have "set (map fst k) \<inter> dom (map_of (daemons u)) = {}" using Cons.prems(5) u(4) kv by auto
  with Cons.IH [of u] Cons.prems u growsD(3) [OF t(2)] kv
  obtain n' w where w: "\<forall>m\<ge>n'. load_daemons env m k cur u = Some (cur, w)"
      "set (qm_keys (modules u)) \<subseteq> set (qm_keys (modules w))" "map_of (daemons u) \<subseteq>\<^sub>m map_of (daemons w)"
      "\<forall>(a, md) \<in> set k. qm_contains (modules w) md \<and> (e_instanciate env md a \<longrightarrow> getDaemon w a \<noteq> None)"
    by auto
  have "\<forall>m\<ge>max n n'. load_daemons env m (kv # k) cur s = Some (cur, w)"
    using t(1) w(1) kv a(2) by (auto simp: u_def add_daemon_def qm_contains_def)
  moreover have "map_of (daemons s) \<subseteq>\<^sub>m map_of (daemons u)" using u(4) a(2) by (auto simp: map_le_def)
  then have "map_of (daemons s) \<subseteq>\<^sub>m map_of (daemons w)" using w(3) by (rule map_le_trans)
  moreover have "set (qm_keys (modules s)) \<subseteq> set (qm_keys (modules w))" using w(2) u(2) growsD(9) [OF t(2)] by simp
  moreover have "qm_contains (modules w) md" using w(2) u(2) t(3) by (auto simp: contains_keys)
  moreover have "getDaemon w a \<noteq> None" if "e_instanciate env md a"
    using w(3) u(4) that by (auto simp: getDaemon_def map_le_def dom_def split: if_splits)
  ultimately have "(\<forall>m\<ge>max n n'. load_daemons env m (kv # k) cur s = Some (cur, w)) \<and> set (qm_keys (modules s)) \<subseteq> set (qm_keys (modules w))
    \<and> map_of (daemons s) \<subseteq>\<^sub>m map_of (daemons w)
    \<and> (\<forall>(a, md) \<in> set (kv # k). qm_contains (modules w) md \<and> (e_instanciate env md a \<longrightarrow> getDaemon w a \<noteq> None))"
    using w(4) kv by simp
  then show ?case by blast
next
  case Nil
  then show ?case by (intro exI [of _ 0] exI [of _ s]) simp
qed

section \<open>Opening everything\<close>

lemma reload_opens:
  "qm_wf (port_tcp s) \<Longrightarrow> distinct (map fst k) \<Longrightarrow> (a, v) \<in> set k \<Longrightarrow> length (addr_parts a) = 2 \<Longrightarrow>
   e_listen_tcp env (addr_parts a ! 0) (addr_parts a ! 1) \<Longrightarrow> map_of (port_tcp (reload_tcp env k s)) a \<noteq> None"
  "qm_wf (port_udp s) \<Longrightarrow> distinct (map fst k) \<Longrightarrow> (a, v) \<in> set k \<Longrightarrow> length (addr_parts a) = 2 \<Longrightarrow>
   e_bind_udp env (addr_parts a ! 0) (addr_parts a ! 1) \<Longrightarrow> map_of (port_udp (reload_udp env k s)) a \<noteq> None"
  "qm_wf (port_udg s) \<Longrightarrow> distinct (map fst k) \<Longrightarrow> (a, v) \<in> set k \<Longrightarrow>
   e_listen_udg env (udg_parts v ! 0) \<Longrightarrow> map_of (port_udg (reload_udg env k s)) a \<noteq> None"
proof -
  have m: "distinct (map fst k) \<Longrightarrow> (a, v) \<in> set k \<Longrightarrow> map_of k a = Some v" by simp
  show "qm_wf (port_tcp s) \<Longrightarrow> distinct (map fst k) \<Longrightarrow> (a, v) \<in> set k \<Longrightarrow> length (addr_parts a) = 2 \<Longrightarrow>
   e_listen_tcp env (addr_parts a ! 0) (addr_parts a ! 1) \<Longrightarrow> map_of (port_tcp (reload_tcp env k s)) a \<noteq> None"
    using tcp_ports.reload_table [of "port_tcp s" k env "getDaemon s" _ _ a] m
    by (auto simp: reload_tcp_def tcp_ports.new_entry_def tcp_open_def Let_def simp del: One_nat_def split: prod.splits option.splits)
  show "qm_wf (port_udp s) \<Longrightarrow> distinct (map fst k) \<Longrightarrow> (a, v) \<in> set k \<Longrightarrow> length (addr_parts a) = 2 \<Longrightarrow>
   e_bind_udp env (addr_parts a ! 0) (addr_parts a ! 1) \<Longrightarrow> map_of (port_udp (reload_udp env k s)) a \<noteq> None"
    using udp_ports.reload_table [of "port_udp s" k env "getDaemon s" _ _ a] m
    by (auto simp: reload_udp_def udp_ports.new_entry_def udp_open_def Let_def simp del: One_nat_def split: prod.splits option.splits)
  show "qm_wf (port_udg s) \<Longrightarrow> distinct (map fst k) \<Longrightarrow> (a, v) \<in> set k \<Longrightarrow>
   e_listen_udg env (udg_parts v ! 0) \<Longrightarrow> map_of (port_udg (reload_udg env k s)) a \<noteq> None"
    using udg_ports.reload_table [of "port_udg s" k env "getDaemon s" _ _ a] m
    by (auto simp: reload_udg_def udg_ports.new_entry_def udg_open_def Let_def simp del: One_nat_def split: prod.splits option.splits)
qed

lemma reload_other_ports:
  "port_tcp (reload_udg env k s) = port_tcp s" "port_udp (reload_udg env k s) = port_udp s"
  "port_tcp (reload_udp env k s) = port_tcp s" "port_udg (reload_udp env k s) = port_udg s"
  "port_udg (reload_tcp env k s) = port_udg s" "port_udp (reload_tcp env k s) = port_udp s"
  by (simp_all add: reload_tcp_def reload_udp_def reload_udg_def split: prod.splits)

section \<open>From the launcher to the event loop\<close>

text \<open>The symbol table that a file of module-symbol lines gives.\<close>

definition symbols_of :: "(string \<times> string \<times> string) list \<Rightarrow> (string, string) qmap" where
  "symbols_of es = fold (\<lambda>(md, sy, rest). qm_insert sy md) es []"

definition symbol_file :: "(string \<times> string \<times> string) list \<Rightarrow> bytes" where
  "symbol_file es = concat (map (\<lambda>e. sym_line e @ [10]) es)"

definition symbol_lines_ok :: "(string \<times> string \<times> string) list \<Rightarrow> bool" where
  "symbol_lines_ok es \<longleftrightarrow> list_all (\<lambda>(md, sy, rest). plain_word md \<and> plain_word sy \<and> 10 \<notin> set (lit rest)) es"

text \<open>What the configuration asks for is there.\<close>

definition up :: "core_env \<Rightarrow> settings \<Rightarrow> core \<Rightarrow> bool" where
  "up env conf s \<longleftrightarrow>
     (\<forall>(k, md) \<in> set (conf ''preload''). qm_contains (modules s) md)
   \<and> (\<forall>(k, md) \<in> set (conf ''daemons''). qm_contains (modules s) md \<and> (e_instanciate env md k \<longrightarrow> getDaemon s k \<noteq> None))
   \<and> (\<forall>(a, v) \<in> set (conf ''tcp''). length (addr_parts a) = 2 \<longrightarrow> e_listen_tcp env (addr_parts a ! 0) (addr_parts a ! 1) \<longrightarrow>
        (\<exists>e. map_of (port_tcp s) a = Some e \<and> routed_as s (target_parts v ! 0) (target_parts v ! 1) e))
   \<and> (\<forall>(a, v) \<in> set (conf ''udp''). length (addr_parts a) = 2 \<longrightarrow> e_bind_udp env (addr_parts a ! 0) (addr_parts a ! 1) \<longrightarrow>
        (\<exists>e. map_of (port_udp s) a = Some e \<and> routed_as s (target_parts v ! 0) (target_parts v ! 1) e))
   \<and> (\<forall>(a, v) \<in> set (conf ''udg''). e_listen_udg env (udg_parts v ! 0) \<longrightarrow>
        (\<exists>e. map_of (port_udg s) a = Some e \<and> routed_as s (udg_parts v ! 1) (udg_parts v ! 2) e))"

text \<open>A first reload, of a core that has loaded its symbols and nothing else.\<close>

lemma first_reload:
  assumes res: "resolvable (e_linker env) rk sm" and conf: "conf_ok conf"
  shows "\<exists>N s. (\<forall>n\<ge>N. reloadConfig env n conf (new_core\<lparr>sym_map := sm\<rparr>) = Some s) \<and> up env conf s"
proof -
  let ?c = "new_core\<lparr>sym_map := sm\<rparr>"
  have c: "qm_wf (modules ?c)" "daemons ?c = []" "daemons_ok ?c" "tables_ok ?c"
    by (simp_all add: new_core_def daemons_ok_def tables_ok_def)
  obtain n1 p where p: "\<forall>m\<ge>n1. load_preloads env m (conf ''preload'') ?c = Some p" "grows (e_linker env) ?c p"
      "\<forall>(a, md) \<in> set (conf ''preload''). qm_contains (modules p) md"
    using load_preloads_succeeds [of env rk ?c "conf ''preload''"] res c by auto
  have g: "sym_map p = sm" "qm_wf (modules p)" "daemons p = []" using growsD(1-3) [OF p(2)] c by simp_all
  obtain n2 t where t: "\<forall>m\<ge>n2. load_daemons env m (conf ''daemons'') [] p = Some ([], t)"
      "set (qm_keys (modules p)) \<subseteq> set (qm_keys (modules t))"
      "\<forall>(a, md) \<in> set (conf ''daemons''). qm_contains (modules t) md \<and> (e_instanciate env md a \<longrightarrow> getDaemon t a \<noteq> None)"
    using load_daemons_succeeds [of env rk p "conf ''daemons''" "[]"] res g conf by (auto simp: conf_ok_def)
  let ?s = "reload_udg env (conf ''udg'') (reload_udp env (conf ''udp'') (reload_tcp env (conf ''tcp'') t))"
  have run: "reloadConfig env m conf ?c = Some ?s" if "m \<ge> max n1 n2" for m
    using that p(1) t(1) g(3) by (simp add: reloadConfig_def reload_daemons_def qm_keys_def)
  have pp: "daemons_ok p" "tables_ok p"
    using grows_daemons_ok [OF p(2) c(3)] same_ports_tables [OF grows_same_ports [OF p(2)] c(4)] by auto
  have "reload_daemons env (max n1 n2) (conf ''daemons'') p = Some t"
    using t(1) g(3) by (simp add: reload_daemons_def qm_keys_def)
  from reload_daemons_spec [OF this pp(1)] conf have tt: "tables_ok t"
    using same_ports_tables [OF _ pp(2)] by (simp add: conf_ok_def)
  have keep: "tables_routed conf ?s" "daemons ?s = daemons t" "modules ?s = modules t"
    using reload_tables [OF tt conf refl] by blast+
  have d: "distinct (map fst (conf ''tcp''))" "distinct (map fst (conf ''udp''))" "distinct (map fst (conf ''udg''))"
    using conf by (simp_all add: conf_ok_def)
  have wf: "qm_wf (port_tcp t)" "qm_wf (port_udp (reload_tcp env (conf ''tcp'') t))"
    "qm_wf (port_udg (reload_udp env (conf ''udp'') (reload_tcp env (conf ''tcp'') t)))"
    using tables_okD(1-3) [OF tt] by (simp_all add: reload_other_ports)
  note opens = reload_opens(1) [OF wf(1) d(1)] reload_opens(2) [OF wf(2) d(2)] reload_opens(3) [OF wf(3) d(3)]
  have "\<exists>e. map_of (port_tcp ?s) a = Some e \<and> routed_as ?s (target_parts v ! 0) (target_parts v ! 1) e"
    if "(a, v) \<in> set (conf ''tcp'')" "length (addr_parts a) = 2" "e_listen_tcp env (addr_parts a ! 0) (addr_parts a ! 1)" for a v
    using opens(1) [OF that] keep(1) map_of_is_SomeI [OF d(1) that(1)]
    by (simp add: tables_routed_def reload_other_ports del: One_nat_def) fastforce
  moreover have "\<exists>e. map_of (port_udp ?s) a = Some e \<and> routed_as ?s (target_parts v ! 0) (target_parts v ! 1) e"
    if "(a, v) \<in> set (conf ''udp'')" "length (addr_parts a) = 2" "e_bind_udp env (addr_parts a ! 0) (addr_parts a ! 1)" for a v
    using opens(2) [OF that] keep(1) map_of_is_SomeI [OF d(2) that(1)]
    by (simp add: tables_routed_def reload_other_ports del: One_nat_def) fastforce
  moreover have "\<exists>e. map_of (port_udg ?s) a = Some e \<and> routed_as ?s (udg_parts v ! 1) (udg_parts v ! 2) e"
    if "(a, v) \<in> set (conf ''udg'')" "e_listen_udg env (udg_parts v ! 0)" for a v
    using opens(3) [OF that] keep(1) map_of_is_SomeI [OF d(3) that(1)]
    by (simp add: tables_routed_def del: One_nat_def) fastforce
  moreover have "qm_contains (modules ?s) md" if "(k, md) \<in> set (conf ''preload'')" for k md
    using p(3) t(2) that unfolding keep(3) contains_keys by blast
  moreover have "qm_contains (modules ?s) md \<and> (e_instanciate env md k \<longrightarrow> getDaemon ?s k \<noteq> None)"
    if "(k, md) \<in> set (conf ''daemons'')" for k md
    using t(3) that unfolding keep(3) getDaemon_def keep(2) by blast
  ultimately have "up env conf ?s" unfolding up_def by blast
  with run show ?thesis by blast
qed

text \<open>C4: the process starts. When the launcher finds the core, the symbol table is a file of module-symbol lines, every
  symbol a module misses is provided by a module that can be loaded before it, and no group of the configuration has a
  key twice, then the launcher reaches the event loop, and there every configured module is loaded, every daemon whose
  module can make one runs, and every configured address that can be listened on is open and wired to the daemon it
  names.\<close>

theorem process_starts:
  assumes "la_load L ''mod/core'' core_hints" "la_resolve L ''mod/core'' ''pinetd_main''"
    and "symbol_lines_ok es" "resolvable (e_linker env) rk (symbols_of es)" "conf_ok conf"
  shows "\<exists>N s. (\<forall>n\<ge>N. cli_main L env n (Some (symbol_file es)) conf = Inr (Some (EventLoop s))) \<and> up env conf s"
proof -
  have "reloadSymbols (Some (symbol_file es)) new_core = Inr (new_core\<lparr>sym_map := symbols_of es\<rparr>)"
    using symbol_table_read [of es new_core] assms(3) by (simp add: symbol_file_def symbols_of_def symbol_lines_ok_def)
  with first_reload [OF assms(4,5)] assms(1,2) show ?thesis
    by (auto simp: cli_main_def pinetd_main_def core_construct_def map_out_def)
qed

definition ex_launcher :: launcher where
  "ex_launcher = \<lparr>la_load = (\<lambda>n h. n = ''mod/core''), la_resolve = (\<lambda>n sy. sy = ''pinetd_main'')\<rparr>"

theorem process_starts_witness:
  "\<exists>N s. (\<forall>n\<ge>N. cli_main ex_launcher ex_core_env n (Some (symbol_file [(''ext/tcpline'', ''_ZTI13ClientTcpLine'', ''typeinfo'')]))
        ex_conf = Inr (Some (EventLoop s)))
     \<and> getDaemon s ''irc'' \<noteq> None
     \<and> (\<exists>e. map_of (port_tcp s) ''0.0.0.0:7'' = Some e \<and> routed_as s ''irc'' ''main'' e)"
proof -
  let ?es = "[(''ext/tcpline'', ''_ZTI13ClientTcpLine'', ''typeinfo'')]"
  have l: "la_load ex_launcher ''mod/core'' core_hints" "la_resolve ex_launcher ''mod/core'' ''pinetd_main''"
    by (simp_all add: ex_launcher_def)
  have s: "symbol_lines_ok ?es" by code_simp
  have "symbols_of ?es = sym_map ex_core" by code_simp
  then have r: "resolvable (e_linker ex_core_env) ex_rank (symbols_of ?es)"
    using ex_resolvable by (simp add: ex_core_env_def)
  have d: "(''irc'', ''daemon/broadcast'') \<in> set (ex_conf ''daemons'')" "(''0.0.0.0:7'', ''irc'') \<in> set (ex_conf ''tcp'')"
    by (simp_all add: ex_conf_def)
  have a: "length (addr_parts ''0.0.0.0:7'') = 2" "addr_parts ''0.0.0.0:7'' ! 0 = ''0.0.0.0''"
    "target_parts ''irc'' ! 0 = ''irc''" "target_parts ''irc'' ! 1 = ''main''"
    by code_simp+
  have e: "e_instanciate ex_core_env md k" "e_listen_tcp ex_core_env ''0.0.0.0'' p" for md k p
    by (simp_all add: ex_core_env_def)
  obtain N t where t: "\<forall>n\<ge>N. cli_main ex_launcher ex_core_env n (Some (symbol_file ?es)) ex_conf = Inr (Some (EventLoop t))"
      "up ex_core_env ex_conf t"
    using process_starts [OF l s r ex_conf_ok] by blast
  have "getDaemon t ''irc'' \<noteq> None"
    using bspec [OF t(2) [unfolded up_def, THEN conjunct2, THEN conjunct1] d(1)] e by simp
  moreover have "\<exists>e. map_of (port_tcp t) ''0.0.0.0:7'' = Some e \<and> routed_as t ''irc'' ''main'' e"
    using bspec [OF t(2) [unfolded up_def, THEN conjunct2, THEN conjunct2, THEN conjunct1] d(2)] a e
    by (simp del: One_nat_def)
  ultimately show ?thesis using t(1) by blast
qed

end
