(* ===== verification/Amqp_Life.thy ===== *)
theory Amqp_Life
  imports Amqp_Props
begin

text \<open>
  The life of channel objects: what the destructors of \<open>Queue\<close> and \<open>Exchange\<close> do, and what happens afterwards.
  The tables of the network keep the pointer of a destroyed object, so a frame of its channel number goes through
  a dangling pointer; Qt's own connections of signals end with the object.
\<close>

section \<open>Destruction\<close>

text \<open>A client with the channel objects that are no more.\<close>

record amqp_life =
  lf_dead :: "nat list"
  lf_in :: bytes
  lf_amqp :: amqp

text \<open>\<open>~Queue\<close> and \<open>~Exchange\<close>: \<open>remove\<close> with its default arguments. Nothing is connected to the object any more, so
  what is left in its place never opens.\<close>

definition chan_destroy :: "qt_env \<Rightarrow> chan \<Rightarrow> chan \<times> effect list" where
  "chan_destroy q c = (case c of
       CQueue u \<Rightarrow> (CQueue (u\<lparr>ch_needOpen := False\<rparr>), qu_remove q True True True u)
     | CExchange x \<Rightarrow> (CExchange (x\<lparr>ch_needOpen := False\<rparr>), ex_remove q True True x))"

definition lf_destroy :: "qt_env \<Rightarrow> nat \<Rightarrow> amqp_life \<Rightarrow> amqp_life" where
  "lf_destroy q i l = l\<lparr>lf_dead := lf_dead l @ [i],
     lf_amqp := am_chan q i (chan_destroy q (am_chans (lf_amqp l) ! i)) (lf_amqp l)\<rparr>"

section \<open>Frames for objects that may be gone\<close>

text \<open>The counter of channel numbers is only reset by a channel that still hears of the disconnection.\<close>

definition lf_counter :: "nat list \<Rightarrow> amqp \<Rightarrow> amqp \<Rightarrow> amqp" where
  "lf_counter dead a a' = (if list_all (\<lambda>i. i \<in> set dead) [0..<length (am_chans a)] then a'\<lparr>am_counter := am_counter a\<rparr> else a')"

definition lf_handlers :: "qt_env \<Rightarrow> nat list \<Rightarrow> nat list \<Rightarrow> (chan \<Rightarrow> chan \<times> effect list) \<Rightarrow> amqp \<Rightarrow> amqp outcome" where
  "lf_handlers q dead is g a = fold_out (\<lambda>i a. if i \<in> set dead then Inl Dangling else Inr (am_chan q i (g (am_chans a ! i)) a)) is a"

definition lf_frame :: "qt_env \<Rightarrow> nat list \<Rightarrow> frame \<Rightarrow> amqp \<Rightarrow> amqp outcome" where
  "lf_frame q dead f a = (case f of
       FMethod m \<Rightarrow> if me_class m = 10 then Inr (lf_counter dead a (conn_method q m a))
         else lf_handlers q dead (nt_methods (am_net a) (fr_channel m)) (chan_method q m) a
     | FContent c \<Rightarrow> lf_handlers q dead (nt_contents (am_net a) (fr_channel c)) (chan_content c) a
     | FBody b \<Rightarrow> lf_handlers q dead (nt_bodies (am_net a) (fr_channel b)) (chan_body b) a
     | FHeartbeat h \<Rightarrow> Inr a)"

definition lf_packet :: "qt_env \<Rightarrow> nat list \<Rightarrow> bytes \<Rightarrow> amqp \<Rightarrow> amqp outcome" where
  "lf_packet q dead p a = (case parse_packet q p of Some f \<Rightarrow> lf_frame q dead f a | None \<Rightarrow> Inr a)"

definition lf_readyRead :: "qt_env \<Rightarrow> bytes \<Rightarrow> amqp_life \<Rightarrow> amqp_life outcome" where
  "lf_readyRead q t l = (case cut_all amqp_cut (lf_in l @ t) of (ps, r, _) \<Rightarrow>
     map_out (\<lambda>a. l\<lparr>lf_in := r, lf_amqp := a\<rparr>) (fold_out (lf_packet q (lf_dead l)) ps (lf_amqp l)))"

definition lf_client :: "qt_env \<Rightarrow> client_call \<Rightarrow> amqp_life \<Rightarrow> amqp" where
  "lf_client q k l = (case k of
       ClCreateQueue n name \<Rightarrow> client_call q k (lf_amqp l)
     | ClCreateExchange n name \<Rightarrow> client_call q k (lf_amqp l)
     | _ \<Rightarrow> lf_counter (lf_dead l) (lf_amqp l) (client_call q k (lf_amqp l)))"

section \<open>Runs\<close>

inductive lf_step :: "qt_env \<Rightarrow> amqp_life \<Rightarrow> amqp_life outcome \<Rightarrow> bool" for q where
  connected: "nt_state (am_net (lf_amqp l)) = Connecting \<Longrightarrow>
    lf_step q l (Inr (l\<lparr>lf_in := [], lf_amqp := (lf_amqp l)\<lparr>am_net := conectionReady (am_net (lf_amqp l))\<rparr>\<rparr>))"
| read: "nt_state (am_net (lf_amqp l)) = Connected \<Longrightarrow> lf_step q l (lf_readyRead q t l)"
| cut: "nt_state (am_net (lf_amqp l)) \<noteq> Unconnected \<Longrightarrow>
    lf_step q l (Inr (l\<lparr>lf_in := [], lf_amqp := (lf_amqp l)\<lparr>am_net := net_error ((am_net (lf_amqp l))\<lparr>nt_state := Unconnected\<rparr>)\<rparr>\<rparr>))"
| timer: "t \<in> set (nt_timers (am_net (lf_amqp l))) \<Longrightarrow> n = (am_net (lf_amqp l))\<lparr>nt_timers := remove1 t (nt_timers (am_net (lf_amqp l)))\<rparr> \<Longrightarrow>
    lf_step q l (Inr (l\<lparr>lf_amqp := (lf_amqp l)\<lparr>am_net := net_connectTo [] 0 n\<rparr>\<rparr>))"
| heartbeat: "cn_running (am_conn (lf_amqp l)) \<Longrightarrow> lf_step q l (Inr (l\<lparr>lf_amqp := conn_heartbeat q (lf_amqp l)\<rparr>))"
| client: "a' = lf_client q k l \<Longrightarrow>
    lf_step q l (Inr (l\<lparr>lf_in := (if nt_state (am_net a') = Connected then lf_in l else []), lf_amqp := a'\<rparr>))"
| queue: "i < length (am_chans (lf_amqp l)) \<Longrightarrow> i \<notin> set (lf_dead l) \<Longrightarrow> am_chans (lf_amqp l) ! i = CQueue u \<Longrightarrow>
    queue_call q (am_vhost (lf_amqp l)) (cn_connected (am_conn (lf_amqp l))) k u = Inr (u', e) \<Longrightarrow>
    lf_step q l (Inr (l\<lparr>lf_amqp := am_chan q i (CQueue u', e) (lf_amqp l)\<rparr>))"
| exchange: "i < length (am_chans (lf_amqp l)) \<Longrightarrow> i \<notin> set (lf_dead l) \<Longrightarrow> am_chans (lf_amqp l) ! i = CExchange x \<Longrightarrow>
    exchange_call q (am_vhost (lf_amqp l)) (cn_connected (am_conn (lf_amqp l))) k x = (x', e) \<Longrightarrow>
    lf_step q l (Inr (l\<lparr>lf_amqp := am_chan q i (CExchange x', e) (lf_amqp l)\<rparr>))"
| destroy: "i < length (am_chans (lf_amqp l)) \<Longrightarrow> i \<notin> set (lf_dead l) \<Longrightarrow> lf_step q l (Inr (lf_destroy q i l))"

definition new_life :: "bool \<Rightarrow> 32 word \<Rightarrow> amqp_life" where
  "new_life auto port = \<lparr>lf_dead = [], lf_in = [], lf_amqp = new_client_private auto port\<rparr>"

inductive lf_reach :: "qt_env \<Rightarrow> amqp_life \<Rightarrow> bool" for q where
  start: "lf_reach q (new_life auto port)"
| step: "lf_reach q l \<Longrightarrow> lf_step q l (Inr l') \<Longrightarrow> lf_reach q l'"

inductive_cases lf_stepE [consumes 1, case_names connected read cut timer heartbeat client queue exchange destroy]:
  "lf_step q l (Inr l')"

section \<open>The handlers stay those of the channel numbers\<close>

lemma calm_counter: "calm a b \<Longrightarrow> calm a (lf_counter dead a b)"
  by (simp add: lf_counter_def calm_def)

lemma shape_destroy: "shape (fst (chan_destroy q c)) = shape c"
  by (cases c) (simp_all add: chan_destroy_def)

lemma lf_handlers_eq:
  "lf_handlers q dead is g a = (if set is \<inter> set dead = {} then Inr (to_handlers q is g a) else Inl Dangling)"
  by (induction "is" arbitrary: a) (simp_all add: lf_handlers_def to_handlers_def)

text \<open>The frame reaches an object of this kind and number.\<close>

fun reaches :: "frame \<Rightarrow> bool \<times> int \<Rightarrow> bool" where
  "reaches (FMethod m) s = (me_class m \<noteq> 10 \<and> word_of_int (snd s) = fr_channel m)"
| "reaches (FContent c) s = (fst s \<and> word_of_int (snd s) = fr_channel c)"
| "reaches (FBody b) s = (fst s \<and> word_of_int (snd s) = fr_channel b)"
| "reaches (FHeartbeat h) s = False"

definition strikes :: "nat list \<Rightarrow> (bool \<times> int) list \<Rightarrow> frame \<Rightarrow> bool" where
  "strikes dead sh f \<longleftrightarrow> (\<exists>i \<in> set dead. i < length sh \<and> reaches f (sh ! i))"

lemma numbered_dead: "set (numbered P sh c) \<inter> set dead = {} \<longleftrightarrow> \<not> (\<exists>i \<in> set dead. i < length sh \<and> P (sh ! i) \<and> word_of_int (snd (sh ! i)) = c)"
  by (auto simp: numbered_def)

text \<open>A frame faults if it reaches a dead object, and is handled as always if it does not.\<close>

lemma lf_frame_eq:
  assumes "handlers_ok a"
  shows "lf_frame q dead f a = (if strikes dead (map shape (am_chans a)) f then Inl Dangling
    else Inr (if \<exists>m. f = FMethod m \<and> me_class m = 10 then lf_counter dead a (am_frame q f a) else am_frame q f a))"
proof (cases f)
  case (FMethod m)
  then show ?thesis using assms numbered_dead [of "\<lambda>_. True" "map shape (am_chans a)" "fr_channel m" dead]
    by (auto simp: lf_frame_def am_frame_def lf_handlers_eq strikes_def handlers_ok_def Let_def)
next
  case (FContent c)
  then show ?thesis using assms numbered_dead [of fst "map shape (am_chans a)" "fr_channel c" dead]
    by (auto simp: lf_frame_def am_frame_def lf_handlers_eq strikes_def handlers_ok_def Let_def)
next
  case (FBody b)
  then show ?thesis using assms numbered_dead [of fst "map shape (am_chans a)" "fr_channel b" dead]
    by (auto simp: lf_frame_def am_frame_def lf_handlers_eq strikes_def handlers_ok_def Let_def)
qed (simp add: lf_frame_def am_frame_def strikes_def)

lemma calm_frame: "calm a (am_frame q f a)"
  by (auto simp: am_frame_def calm_conn_method calm_to_handlers chan_handlers_shape split: frame.splits)

lemma lf_packet_calm: "handlers_ok a \<Longrightarrow> lf_packet q dead p a = Inr a' \<Longrightarrow> calm a a'"
  using calm_frame calm_counter [OF calm_frame]
  by (auto simp: lf_packet_def lf_frame_eq split: option.splits if_splits)

text \<open>A whole read.\<close>

lemma lf_packets:
  assumes "handlers_ok a"
  shows "((\<exists>e. fold_out (lf_packet q dead) ps a = Inl e)
      \<longleftrightarrow> (\<exists>p \<in> set ps. \<exists>f. parse_packet q p = Some f \<and> strikes dead (map shape (am_chans a)) f))
    \<and> (\<forall>e. fold_out (lf_packet q dead) ps a = Inl e \<longrightarrow> e = Dangling)
    \<and> (\<forall>a'. fold_out (lf_packet q dead) ps a = Inr a' \<longrightarrow> calm a a'
         \<and> ((\<exists>j < length (am_chans a). j \<notin> set dead) \<longrightarrow> a' = fold (am_packet q) ps a))"
  using assms
proof (induction ps arbitrary: a)
  case (Cons p ps)
  show ?case
  proof (cases "parse_packet q p")
    case None
    then show ?thesis using Cons by (simp add: lf_packet_def am_packet_def)
  next
    case (Some f)
    show ?thesis
    proof (cases "strikes dead (map shape (am_chans a)) f")
      case True
      then have "lf_packet q dead p a = Inl Dangling" using Some Cons.prems by (simp add: lf_packet_def lf_frame_eq)
      then show ?thesis using Some True by auto
    next
      case False
      then obtain b where b: "lf_packet q dead p a = Inr b"
        using Some Cons.prems by (simp add: lf_packet_def lf_frame_eq)
      from lf_packet_calm [OF Cons.prems b] have c: "calm a b" .
      then have h: "handlers_ok b" "map shape (am_chans b) = map shape (am_chans a)"
        using Cons.prems calm_handlers [OF c] by (simp_all add: calm_def)
      then have "length (am_chans b) = length (am_chans a)" by (metis length_map)
      moreover have "b = am_packet q p a" if "\<exists>j < length (am_chans a). j \<notin> set dead"
      proof -
        have "\<not> list_all (\<lambda>i. i \<in> set dead) [0..<length (am_chans a)]" using that by (auto simp: list_all_iff)
        then show ?thesis using b Some False Cons.prems by (auto simp: lf_packet_def am_packet_def lf_frame_eq lf_counter_def)
      qed
      ultimately show ?thesis using Cons.IH [OF h(1)] b Some False c h(2) by (auto intro: calm_trans)
    qed
  qed
qed simp

section \<open>Reachable lives\<close>

definition life_ok :: "amqp_life \<Rightarrow> bool" where
  "life_ok l \<longleftrightarrow> amqp_ok (lf_amqp l) \<and> (\<forall>i \<in> set (lf_dead l). i < length (am_chans (lf_amqp l)))"

lemma life_ok_calm: "life_ok l \<Longrightarrow> calm (lf_amqp l) a \<Longrightarrow> life_ok (l\<lparr>lf_in := b, lf_amqp := a\<rparr>)"
proof -
  assume l: "life_ok l" and c: "calm (lf_amqp l) a"
  then have "length (am_chans a) = length (am_chans (lf_amqp l))" by (metis calm_def length_map)
  with l calm_ok [OF c] show ?thesis by (simp add: life_ok_def)
qed

text \<open>Steps that a client without destroyed objects has too.\<close>

lemma life_ok_step: "life_ok l \<Longrightarrow> amqp_step q (b, lf_amqp l) (b', a) \<Longrightarrow> length (am_chans a) = length (am_chans (lf_amqp l)) \<Longrightarrow>
    life_ok (l\<lparr>lf_in := c, lf_amqp := a\<rparr>)"
  using step_keeps by (auto simp: life_ok_def)

lemma lf_client_ok:
  assumes "life_ok l"
  shows "amqp_ok (lf_client q k l) \<and> length (am_chans (lf_amqp l)) \<le> length (am_chans (lf_client q k l))"
proof -
  let ?a = "lf_amqp l"
  have ok: "amqp_ok (client_call q k ?a)" using assms client_call_keeps by (simp add: life_ok_def)
  have len: "length (am_chans ?a) \<le> length (am_chans (client_call q k ?a))"
  proof (cases k)
    case (ClCreateQueue m name)
    then show ?thesis by (simp add: client_call_def createQueue_def Let_def am_effects split: prod.splits)
  next
    case (ClCreateExchange m name)
    then show ?thesis by (simp add: client_call_def createExchange_def Let_def am_effects split: prod.splits)
  qed (simp_all add: client_call_def cl_connect_def cl_open_url_def cl_disconnect_def cl_reopen_def emit_disconnected_def Let_def
      parseCnnString_def client_setters addCustomProperty_def conn_close_def conn_closeOk_def conn_send_closeOk_def
      conn_setQOS_def am_send_def setAuth_def setAutoReconnect_def)
  have "am_counter (lf_amqp l) \<ge> 0" using assms by (simp add: life_ok_def amqp_ok_def)
  then have c: "amqp_ok b \<Longrightarrow> amqp_ok (lf_counter (lf_dead l) ?a b)"
    "length (am_chans (lf_counter (lf_dead l) ?a b)) = length (am_chans b)" for b
    by (simp_all add: lf_counter_def amqp_ok_def handlers_ok_def)
  have "lf_client q k l = client_call q k ?a \<or> lf_client q k l = lf_counter (lf_dead l) ?a (client_call q k ?a)"
    by (cases k) (simp_all add: lf_client_def)
  then show ?thesis using ok len c by auto
qed

lemma lf_reach_ok: "lf_reach q l \<Longrightarrow> life_ok l"
proof (induction rule: lf_reach.induct)
  case (start auto port)
  show ?case using reach_ok [OF amqp_reach.start [of q auto port]] by (simp add: life_ok_def new_life_def)
next
  case (step l l')
  note ok = step.IH
  have same: "life_ok (l\<lparr>lf_amqp := a\<rparr>)" if "amqp_step q (b, lf_amqp l) (b', a)" "length (am_chans a) = length (am_chans (lf_amqp l))" for a b b'
    using step_keeps [OF _ that(1)] that(2) ok by (simp add: life_ok_def)
  from step.hyps(2) show ?case
  proof (cases rule: lf_stepE)
    case connected
    then show ?thesis using life_ok_step [OF ok amqp_step.sock_connected] by simp
  next
    case (read t)
    obtain ps r x where p: "cut_all amqp_cut (lf_in l @ t) = (ps, r, x)" by (metis prod_cases3)
    then obtain a where a: "fold_out (lf_packet q (lf_dead l)) ps (lf_amqp l) = Inr a" "l' = l\<lparr>lf_in := r, lf_amqp := a\<rparr>"
      using read(1) by (cases "fold_out (lf_packet q (lf_dead l)) ps (lf_amqp l)") (auto simp: lf_readyRead_def)
    have "handlers_ok (lf_amqp l)" using ok by (simp add: life_ok_def amqp_ok_def)
    with lf_packets [of "lf_amqp l" q "lf_dead l" ps] a(1) have "calm (lf_amqp l) a" by blast
    from life_ok_calm [OF ok this] a(2) show ?thesis by simp
  next
    case cut
    then show ?thesis using life_ok_step [OF ok amqp_step.sock_error] by simp
  next
    case (timer t)
    then show ?thesis using same [OF amqp_step.timer] by simp
  next
    case heartbeat
    then show ?thesis using same [OF amqp_step.heartbeat] by (simp add: conn_heartbeat_def am_send_def)
  next
    case (client k)
    then show ?thesis using lf_client_ok [OF ok, of q k] ok by (auto simp: life_ok_def)
  next
    case (queue i u k u' e)
    then show ?thesis using same [OF amqp_step.queue [OF queue(2,4,5)]] by (simp add: am_chan_def am_effects)
  next
    case (exchange i x k x' e)
    then show ?thesis using same [OF amqp_step.exchange [OF exchange(2,4,5)]] by (simp add: am_chan_def am_effects)
  next
    case (destroy i)
    let ?r = "chan_destroy q (am_chans (lf_amqp l) ! i)"
    have c: "calm (lf_amqp l) (am_chan q i ?r (lf_amqp l))" by (rule calm_chan) (rule shape_destroy)
    then have "length (am_chans (am_chan q i ?r (lf_amqp l))) = length (am_chans (lf_amqp l))" by (metis calm_def length_map)
    with destroy ok calm_ok [OF c] show ?thesis by (auto simp: life_ok_def lf_destroy_def)
  qed
qed

section \<open>Properties\<close>

text \<open>C34: in every reachable state, with channel objects that were created and destroyed in any order, a read ends in a
  use of a dangling pointer exactly when a frame in it is of the channel number of a destroyed object that was
  registered for frames of its kind, whatever else has that number. When no frame is, and some object lives, the
  client does what it would do if nothing had been destroyed.\<close>

theorem amqp_destroyed_channel:
  assumes "lf_reach q l" and ps: "fst (cut_all amqp_cut (lf_in l @ t)) = ps"
    and struck: "struck = (\<exists>p \<in> set ps. \<exists>f. parse_packet q p = Some f \<and> strikes (lf_dead l) (map shape (am_chans (lf_amqp l))) f)"
  shows "(lf_readyRead q t l = Inl Dangling \<longleftrightarrow> struck)
    \<and> (\<not> struck \<longrightarrow> (\<exists>j < length (am_chans (lf_amqp l)). j \<notin> set (lf_dead l)) \<longrightarrow>
        lf_readyRead q t l = Inr (l\<lparr>lf_in := fst (readyRead q t (lf_in l, lf_amqp l)), lf_amqp := snd (readyRead q t (lf_in l, lf_amqp l))\<rparr>))"
proof -
  obtain r x where p: "cut_all amqp_cut (lf_in l @ t) = (ps, r, x)" using ps by (metis prod.collapse)
  have "handlers_ok (lf_amqp l)" using lf_reach_ok [OF assms(1)] by (simp add: life_ok_def amqp_ok_def)
  note run = lf_packets [OF this, of q "lf_dead l" ps]
  show ?thesis
  proof (cases "fold_out (lf_packet q (lf_dead l)) ps (lf_amqp l)")
    case (Inl e)
    then show ?thesis using run p struck by (auto simp: lf_readyRead_def)
  next
    case (Inr a)
    then show ?thesis using run p struck by (auto simp: lf_readyRead_def readyRead_def)
  qed
qed

text \<open>Two queues, of which the first is destroyed, on a connection that is up.\<close>

definition sample_life :: amqp_life where
  "sample_life = (let l = new_life False 0;
     l = l\<lparr>lf_amqp := cl_connect (lf_amqp l)\<rparr>;
     l = l\<lparr>lf_amqp := (lf_amqp l)\<lparr>am_net := conectionReady (am_net (lf_amqp l))\<rparr>\<rparr>;
     l = l\<lparr>lf_amqp := createQueue plain_env (-1) [] (lf_amqp l)\<rparr>;
     l = l\<lparr>lf_amqp := createQueue plain_env (-1) [] (lf_amqp l)\<rparr>
   in lf_destroy plain_env 0 l)"

lemma sample_life_state: "lf_dead sample_life = [0]" "lf_in sample_life = []"
  "map shape (am_chans (lf_amqp sample_life)) = [(True, 1), (True, 3)]" "nt_state (am_net (lf_amqp sample_life)) = Connected"
  by (simp_all add: sample_life_def new_life_def cl_connect_def new_client_private_def new_network_def net_connectTo_def
      conectionReady_def createQueue_def ch_init_def new_queue_def setName_def lf_destroy_def am_chan_def am_effects
      chan_destroy_def Let_def)

lemma sample_life_reach: "lf_reach plain_env sample_life"
proof -
  let ?c = "\<lambda>k l. l\<lparr>lf_in := (if nt_state (am_net (lf_client plain_env k l)) = Connected then lf_in l else []), lf_amqp := lf_client plain_env k l\<rparr>"
  have step: "lf_reach plain_env l \<Longrightarrow> lf_reach plain_env (?c k l)" for k l
    by (rule lf_reach.step [OF _ lf_step.client [OF refl]])
  define l1 where "l1 = ?c ClOpen (new_life False 0)"
  define l2 where "l2 = l1\<lparr>lf_in := [], lf_amqp := (lf_amqp l1)\<lparr>am_net := conectionReady (am_net (lf_amqp l1))\<rparr>\<rparr>"
  define l3 where "l3 = ?c (ClCreateQueue (-1) []) (?c (ClCreateQueue (-1) []) l2)"
  have 1: "lf_reach plain_env l1" unfolding l1_def by (rule step [OF lf_reach.start])
  have "nt_state (am_net (lf_amqp l1)) = Connecting"
    by (simp add: l1_def new_life_def lf_client_def client_call_def lf_counter_def cl_connect_def new_client_private_def
        new_network_def net_connectTo_def Let_def)
  then have 2: "lf_reach plain_env l2" unfolding l2_def by (rule lf_reach.step [OF 1 lf_step.connected])
  have 3: "lf_reach plain_env l3" unfolding l3_def by (rule step [OF step [OF 2]])
  have "0 < length (am_chans (lf_amqp l3))" "lf_dead l3 = []"
    by (simp_all add: l3_def l2_def l1_def lf_client_def client_call_def createQueue_def am_effects Let_def new_life_def split: prod.splits)
  then have "lf_reach plain_env (lf_destroy plain_env 0 l3)" by (intro lf_reach.step [OF 3 lf_step.destroy]) simp_all
  moreover have "lf_destroy plain_env 0 l3 = sample_life"
    by (simp add: sample_life_def l3_def l2_def l1_def new_life_def lf_client_def client_call_def lf_counter_def cl_connect_def
        new_client_private_def new_network_def net_connectTo_def conectionReady_def createQueue_def ch_init_def am_effects
        new_queue_def setName_def Let_def)
  ultimately show ?thesis by simp
qed

theorem amqp_destroyed_channel_witness:
  "lf_readyRead plain_env [1, 0, 1, 0, 0, 0, 4, 0, 20, 0, 40, 0xCE] sample_life = Inl Dangling
   \<and> lf_readyRead plain_env [1, 0, 3, 0, 0, 0, 4, 0, 20, 0, 40, 0xCE] sample_life \<noteq> Inl Dangling"
proof -
  have c: "fst (cut_all amqp_cut [1, 0, n, 0, 0, 0, 4, 0, 20, 0, 40, 0xCE]) = [[1, 0, n, 0, 0, 0, 4, 0, 20, 0, 40, 0xCE]]"
    if "n \<in> {1, 3}" for n using that by auto code_simp+
  have p: "map_option (\<lambda>f. strikes [0] [(True, 1), (True, 3)] f) (parse_packet plain_env [1, 0, 1, 0, 0, 0, 4, 0, 20, 0, 40, 0xCE]) = Some True"
    "map_option (\<lambda>f. strikes [0] [(True, 1), (True, 3)] f) (parse_packet plain_env [1, 0, 3, 0, 0, 0, 4, 0, 20, 0, 40, 0xCE]) = Some False"
    by code_simp+
  note run = amqp_destroyed_channel [OF sample_life_reach, unfolded sample_life_state append.simps, THEN conjunct1]
  show ?thesis
    using run [OF c refl, of 1] run [OF c refl, of 3] p by auto
qed

end
