(* ===== verification/Kumo_Codes.thy ===== *)
theory Kumo_Codes
  imports Kumo_Irc
begin

text \<open>
  The numeric replies of the IRC server: the enumeration of ModKumoIRCdClient.hpp by name, how a number is written, and
  which of them \<open>rawReply\<close> answers.
\<close>

definition irc_raw :: "(string \<times> nat) list" where
  "irc_raw = [
    (''ERR_NOSUCHNICK'', 401), (''ERR_NOSUCHSERVER'', 402), (''ERR_NOSUCHCHANNEL'', 403),
    (''ERR_CANNOTSENDTOCHAN'', 404), (''ERR_TOOMANYCHANNELS'', 405), (''ERR_WASNOSUCHNICK'', 406),
    (''ERR_TOOMANYTARGETS'', 407), (''ERR_NOORIGIN'', 409), (''ERR_NORECIPIENT'', 411),
    (''ERR_NOTEXTTOSEND'', 412), (''ERR_NOTOPLEVEL'', 413), (''ERR_WILDTOPLEVEL'', 414),
    (''ERR_UNKNOWNCOMMAND'', 421), (''ERR_NOMOTD'', 422), (''ERR_NOADMININFO'', 423), (''ERR_FILEERROR'', 424),
    (''ERR_NONICKNAMEGIVEN'', 431), (''ERR_ERRONEUSNICKNAME'', 432), (''ERR_NICKNAMEINUSE'', 433),
    (''ERR_NICKCOLLISION'', 436), (''ERR_USERNOTINCHANNEL'', 441), (''ERR_NOTONCHANNEL'', 442),
    (''ERR_USERONCHANNEL'', 443), (''ERR_NOLOGIN'', 444), (''ERR_SUMMONDISABLED'', 445),
    (''ERR_USERSDISABLED'', 446), (''ERR_NOTREGISTERED'', 451), (''ERR_NEEDMOREPARAMS'', 461),
    (''ERR_ALREADYREGISTRED'', 462), (''ERR_NOPERMFORHOST'', 463), (''ERR_PASSWDMISMATCH'', 464),
    (''ERR_YOUREBANNEDCREEP'', 465), (''ERR_KEYSET'', 467), (''ERR_CHANNELISFULL'', 471),
    (''ERR_UNKNOWNMODE'', 472), (''ERR_INVITEONLYCHAN'', 473), (''ERR_BANNEDFROMCHAN'', 474),
    (''ERR_BADCHANNELKEY'', 475), (''ERR_NOPRIVILEGES'', 481), (''ERR_CHANOPRIVSNEEDED'', 482),
    (''ERR_CANTKILLSERVER'', 483), (''ERR_NOOPERHOST'', 491), (''ERR_UMODEUNKNOWNFLAG'', 501),
    (''ERR_USERSDONTMATCH'', 502), (''RPL_NONE'', 300), (''RPL_USERHOST'', 302), (''RPL_ISON'', 303),
    (''RPL_AWAY'', 301), (''RPL_UNAWAY'', 305), (''RPL_NOWAWAY'', 306), (''RPL_WHOISUSER'', 311),
    (''RPL_WHOISSERVER'', 312), (''RPL_WHOISOPERATOR'', 313), (''RPL_WHOISIDLE'', 317),
    (''RPL_ENDOFWHOIS'', 318), (''RPL_WHOISCHANNELS'', 319), (''RPL_WHOWASUSER'', 314),
    (''RPL_ENDOFWHOWAS'', 369), (''RPL_LISTSTART'', 321), (''RPL_LIST'', 322), (''RPL_LISTEND'', 323),
    (''RPL_CHANNELMODEIS'', 324), (''RPL_NOTOPIC'', 331), (''RPL_TOPIC'', 332), (''RPL_INVITING'', 341),
    (''RPL_SUMMONING'', 342), (''RPL_VERSION'', 351), (''RPL_WHOREPLY'', 352), (''RPL_ENDOFWHO'', 315),
    (''RPL_NAMREPLY'', 353), (''RPL_ENDOFNAMES'', 366), (''RPL_LINKS'', 364), (''RPL_ENDOFLINKS'', 365),
    (''RPL_BANLIST'', 367), (''RPL_ENDOFBANLIST'', 368), (''RPL_INFO'', 371), (''RPL_ENDOFINFO'', 374),
    (''RPL_MOTDSTART'', 375), (''RPL_MOTD'', 372), (''RPL_ENDOFMOTD'', 376), (''RPL_YOUREOPER'', 381),
    (''RPL_REHASHING'', 382), (''RPL_TIME'', 391), (''RPL_USERSSTART'', 392), (''RPL_USERS'', 393),
    (''RPL_ENDOFUSERS'', 394), (''RPL_NOUSERS'', 395), (''RPL_TRACELINK'', 200),
    (''RPL_TRACECONNECTING'', 201), (''RPL_TRACEHANDSHAKE'', 202), (''RPL_TRACEUNKNOWN'', 203),
    (''RPL_TRACEOPERATOR'', 204), (''RPL_TRACEUSER'', 205), (''RPL_TRACESERVER'', 206),
    (''RPL_TRACENEWTYPE'', 208), (''RPL_TRACELOG'', 261), (''RPL_STATSLINKINFO'', 211),
    (''RPL_STATSCOMMANDS'', 212), (''RPL_STATSCLINE'', 213), (''RPL_STATSNLINE'', 214),
    (''RPL_STATSILINE'', 215), (''RPL_STATSKLINE'', 216), (''RPL_STATSYLINE'', 218), (''RPL_ENDOFSTATS'', 219),
    (''RPL_STATSLLINE'', 241), (''RPL_STATSUPTIME'', 242), (''RPL_STATSOLINE'', 243),
    (''RPL_STATSHLINE'', 244), (''RPL_UMODEIS'', 221), (''RPL_LUSERCLIENT'', 251), (''RPL_LUSEROP'', 252),
    (''RPL_LUSERUNKNOWN'', 253), (''RPL_LUSERCHANNELS'', 254), (''RPL_LUSERME'', 255), (''RPL_ADMINME'', 256),
    (''RPL_ADMINLOC1'', 257), (''RPL_ADMINLOC2'', 258), (''RPL_ADMINEMAIL'', 259), (''RPL_INVALID'', 999)]"

definition irc_code :: "string \<Rightarrow> nat" where
  "irc_code name = (case map_of irc_raw name of Some c \<Rightarrow> c | None \<Rightarrow> 0)"

lemma irc_raw_codes: "list_all (\<lambda>c. 200 \<le> c \<and> c < 1000) (map snd irc_raw)" "distinct (map snd irc_raw)"
  by (simp_all add: irc_raw_def)

lemma raw_text_3:
  assumes "100 \<le> n" "n < 1000"
  shows "raw_text n = map (\<lambda>d. byte_of_char (char_of (48 + d))) [n div 100, n div 10 mod 10, n mod 10]"
proof -
  have d: "\<not> n < 10" "\<not> n div 10 < 10" "n div 10 div 10 = n div 100" "n div 100 < 10" using assms by auto
  have "digits10 n = digits10 (n div 10) @ [char_of (48 + n mod 10)]"
    "digits10 (n div 10) = digits10 (n div 10 div 10) @ [char_of (48 + n div 10 mod 10)]"
    "digits10 (n div 100) = [char_of (48 + n div 100)]"
    by (subst digits10.simps, simp only: d if_True if_False)+
  then have "digits10 n = map (\<lambda>d. char_of (48 + d)) [n div 100, n div 10 mod 10, n mod 10]"
    by (simp add: d(3) del: digits10.simps)
  then show ?thesis by (simp add: raw_text_def lit_def del: digits10.simps)
qed

lemma three_digits: "n = 100 * (n div 100) + 10 * (n div 10 mod 10) + n mod 10" for n :: nat
proof -
  have "n = 10 * (n div 10) + n mod 10" by simp
  also have "n div 10 = 10 * (n div 100) + n div 10 mod 10"
    using mult_div_mod_eq [of 10 "n div 10"] div_mult2_eq [of n 10 10] by simp
  finally show ?thesis by simp
qed

lemma byte_of_digit: "d < 10 \<Longrightarrow> byte_of_char (char_of (48 + d)) = of_nat (48 + d)"
  by (simp add: byte_of_char_def)

text \<open>Each numeric of the enumeration is written as its three digits, no two of them the same; and only three of them are
  ever answered by the overload of \<open>rawReply\<close> that looks up the text: for the others nothing is sent.\<close>

theorem irc_numerics:
  assumes "(name, code) \<in> set irc_raw"
  shows "raw_text code = [of_nat (48 + code div 100), of_nat (48 + code div 10 mod 10), of_nat (48 + code mod 10)]
    \<and> (\<forall>name' code'. (name', code') \<in> set irc_raw \<longrightarrow> raw_text code' = raw_text code \<longrightarrow> code' = code \<and> name' = name)
    \<and> (rawReply code reply c \<noteq> c \<longrightarrow> name \<in> {''ERR_UNKNOWNCOMMAND'', ''ERR_NONICKNAMEGIVEN'', ''ERR_ERRONEUSNICKNAME''})"
proof -
  have range: "200 \<le> c \<and> c < 1000" if "(n, c) \<in> set irc_raw" for n c
    using that irc_raw_codes(1) by (auto simp: list_all_iff)
  have written: "raw_text c = [of_nat (48 + c div 100), of_nat (48 + c div 10 mod 10), of_nat (48 + c mod 10)]"
    if "(n, c) \<in> set irc_raw" for n c
  proof -
    have "c div 100 < 10" using range [OF that] by auto
    then show ?thesis using raw_text_3 [of c] range [OF that] by (simp add: byte_of_digit del: of_nat_add)
  qed
  have same: "n' = n" if "(n, c) \<in> set irc_raw" "(n', c) \<in> set irc_raw" for n n' c
    using that irc_raw_codes(2) by (metis distinct_map inj_on_def prod.inject snd_conv)
  have inj: "c' = c" if "(n, c) \<in> set irc_raw" "(n', c') \<in> set irc_raw" "raw_text c' = raw_text c" for n n' c c'
  proof -
    have b: "unat (of_nat (48 + d) :: byte) = 48 + d" if "d < 10" for d using that by (simp add: unat_of_nat del: of_nat_add)
    have "c' div 100 < 10" "c div 100 < 10" using range [OF that(1)] range [OF that(2)] by auto
    moreover have "map unat (raw_text c') = map unat (raw_text c)" using that(3) by simp
    ultimately have "c' div 100 = c div 100" "c' div 10 mod 10 = c div 10 mod 10" "c' mod 10 = c mod 10"
      by (simp_all add: written [OF that(1)] written [OF that(2)] b del: of_nat_add)
    then show ?thesis using three_digits [of c] three_digits [of c'] by simp
  qed
  have "name \<in> {''ERR_UNKNOWNCOMMAND'', ''ERR_NONICKNAMEGIVEN'', ''ERR_ERRONEUSNICKNAME''}" if "rawReply code reply c \<noteq> c"
  proof -
    have "code = 421 \<or> code = 432 \<or> code = 431" using that by (auto simp: rawReply_def split: if_splits)
    moreover have "(''ERR_UNKNOWNCOMMAND'', 421) \<in> set irc_raw" "(''ERR_ERRONEUSNICKNAME'', 432) \<in> set irc_raw"
      "(''ERR_NONICKNAMEGIVEN'', 431) \<in> set irc_raw" by (simp_all add: irc_raw_def)
    ultimately show ?thesis using same [OF assms] by blast
  qed
  with written [OF assms] inj [OF assms] same [OF assms] show ?thesis by blast
qed

theorem irc_numerics_witness: "raw_text 421 = lit ''421'' \<and> irc_code ''ERR_UNKNOWNCOMMAND'' = 421"
proof -
  have m: "(''ERR_UNKNOWNCOMMAND'', 421) \<in> set irc_raw" by (simp add: irc_raw_def)
  have "irc_code ''ERR_UNKNOWNCOMMAND'' = 421" by (simp add: irc_code_def irc_raw_def)
  with irc_numerics [OF m, THEN conjunct1] show ?thesis by (simp add: lit_def byte_of_char_def)
qed

end
