(* ===== verification/Bitcoin_Chain.thy ===== *)
theory Bitcoin_Chain
  imports Elastic Bitcoin_Props
begin

text \<open>
  A chain of blocks through the whole daemon: announced by a peer, asked for one by one, stored in the document
  store with the heights that follow from their parents, found again there, and queued for announcement.
\<close>

section \<open>Documents of blocks\<close>

definition block_path :: "bytes \<Rightarrow> bytes" where
  "block_path k = doc_path (lit ''bitcoin'') (lit ''block'') k"

lemma block_path_inj: "block_path a = block_path b \<longleftrightarrow> a = b"
  by (simp add: block_path_def doc_path_def)

lemma to_hex_inj: "to_hex a = to_hex b \<longleftrightarrow> a = b"
  by (metis from_hex_to_hex)

lemma block_tables:
  "table_parts ''bitcoin/block'' = (lit ''bitcoin'', lit ''block'')"
  "table_parts ''bitcoin/block_tx'' = (lit ''bitcoin'', lit ''block_tx'')"
  by (simp_all add: table_parts_def)

lemma not_block_path:
  "doc_path (lit ''bitcoin'') (lit ''tx_in'') [] @ a \<noteq> block_path k" "doc_path (lit ''bitcoin'') (lit ''tx_out'') [] @ a \<noteq> block_path k"
  "doc_path (lit ''bitcoin'') (lit ''tx'') [] @ a \<noteq> block_path k" "doc_path (lit ''bitcoin'') (lit ''block_tx'') [] @ a \<noteq> block_path k"
  by (simp_all add: doc_path_def block_path_def lit_def byte_of_char_def)

lemma block_calls:
  assumes "document_server n docs new_id"
  shows "es_contains (net_store n env) s k ''bitcoin/block'' \<longleftrightarrow> docs s (block_path k) \<noteq> None"
    "es_get (net_store n env) s k ''bitcoin/block'' =
      (case docs s (block_path k) of None \<Rightarrow> [] | Some b \<Rightarrow> to_doc (toObject (fromJson n b)))"
    "docs (es_index (net_store n env) obj ''bitcoin/block'' s) =
      (docs s)(block_path (new_id s (block_path []) (toJson n (of_doc obj))) \<mapsto> toJson n (of_doc obj))"
  by (simp_all add: net_store_def block_tables server_calls [OF assms] to_doc_def split: option.splits)
    (simp_all add: block_path_def doc_path_def)

lemma other_tables:
  assumes "document_server n docs new_id" "t \<in> {''bitcoin/tx_in'', ''bitcoin/tx_out'', ''bitcoin/tx'', ''bitcoin/block_tx''}"
  shows "docs (es_index (net_store n env) obj t s) (block_path k) = docs s (block_path k)"
  using assms(2)
  by (auto simp del: fun_upd_apply
      simp: net_store_def table_path block_tables server_calls [OF assms(1)] fun_upd_other not_block_path [symmetric])

section \<open>What transactions leave alone\<close>

text \<open>Two states of the daemon with the same documents of blocks, the same queue, and no new block in the cache.\<close>

definition same_blocks :: "('s \<Rightarrow> bytes \<Rightarrow> bytes option) \<Rightarrow> 's bc_daemon \<Rightarrow> 's bc_daemon \<Rightarrow> bool" where
  "same_blocks docs d d' \<longleftrightarrow> (\<forall>k. docs (bd_db d') (block_path k) = docs (bd_db d) (block_path k))
     \<and> (\<forall>h. map_of (bd_cache d) (inv_key 2 h) = None \<longrightarrow> map_of (bd_cache d') (inv_key 2 h) = None)
     \<and> bd_queue d' = bd_queue d"

lemma same_blocks_refl [simp]: "same_blocks docs d d"
  by (simp add: same_blocks_def)

lemma same_blocks_trans: "same_blocks docs a b \<Longrightarrow> same_blocks docs b c \<Longrightarrow> same_blocks docs a c"
  by (simp add: same_blocks_def)

lemma cache_insert_absent:
  assumes "map_of c k = None" "k \<noteq> k'"
  shows "map_of (cache_insert k' v c) k = None"
proof -
  have "k \<notin> fst ` set c" using assms(1) by (simp add: map_of_eq_None_iff)
  then have "k \<notin> fst ` set (cache_insert k' v c)"
    using assms(2) set_take_subset [of 100 "(k', v) # filter (\<lambda>e. fst e \<noteq> k') c"] by (auto simp: cache_insert_def)
  then show ?thesis by (simp add: map_of_eq_None_iff)
qed

lemma inv_key_inj: "inv_key t h = inv_key t' h' \<longleftrightarrow> t = t' \<and> h = h'"
proof -
  have "t = t'" if "put_le t = put_le t'" using u32le.get_put [of t "[]"] u32le.get_put [of t' "[]"] that by simp
  then have "put_le t = put_le t' \<longleftrightarrow> t = t'" by blast
  then show ?thesis by (simp add: inv_key_def)
qed

lemma index_same_blocks:
  assumes "document_server n docs new_id" "t \<in> {''bitcoin/tx_in'', ''bitcoin/tx_out'', ''bitcoin/tx'', ''bitcoin/block_tx''}"
  shows "same_blocks docs d (index_doc (net_store n env) t obj d)"
  by (simp add: same_blocks_def index_doc_def other_tables [OF assms])

lemma fold_same_blocks:
  assumes "\<And>x d. same_blocks docs d (f x d)"
  shows "same_blocks docs d (fold f xs d)"
  by (induction xs arbitrary: d) (auto intro: same_blocks_trans assms)

lemma store_tx_same_blocks:
  assumes "document_server n docs new_id"
  shows "same_blocks docs d (store_tx (net_store n env) hash dat d)"
proof -
  let ?E = "net_store n env" and ?t = "tx_of_bytes dat"
  let ?i = "fold (\<lambda>(i, ti). index_doc ?E ''bitcoin/tx_in'' (tx_in_doc hash i ti)) (List.enumerate 0 (tx_ins ?t)) d"
  let ?o = "fold (\<lambda>(i, to). index_doc ?E ''bitcoin/tx_out'' (tx_out_doc hash i to)) (List.enumerate 0 (tx_outs ?t)) ?i"
  have "same_blocks docs d ?i" "same_blocks docs ?i ?o"
    by (auto intro!: fold_same_blocks index_same_blocks [OF assms] split: prod.splits)
  moreover have "same_blocks docs ?o (store_tx ?E hash dat d)"
    by (simp add: store_tx_def Let_def index_same_blocks [OF assms])
  ultimately show ?thesis using same_blocks_trans by blast
qed

lemma addInventory_same_blocks:
  assumes "document_server n docs new_id" "addInventory (net_store n env) 1 hash dat False d = Inr d'"
  shows "same_blocks docs d d'"
proof -
  let ?d = "d\<lparr>bd_cache := cache_insert (inv_key 1 hash) dat (bd_cache d)\<rparr>"
  have "same_blocks docs d ?d" by (simp add: same_blocks_def cache_insert_absent inv_key_inj)
  moreover have "d' = store_tx (net_store n env) hash dat ?d" using assms(2) by (simp add: addInventory_def Let_def)
  ultimately show ?thesis using same_blocks_trans store_tx_same_blocks [OF assms(1)] by blast
qed

lemma block_txs_same_blocks:
  assumes "document_server n docs new_id"
  shows "fold_out (add_block_tx (net_store n env) h) its d = Inr d' \<Longrightarrow> same_blocks docs d d'"
proof (induction its arbitrary: d)
  case (Cons it its)
  obtain i t where it: "it = (i, t)" by (cases it)
  obtain d1 where d1: "add_block_tx (net_store n env) h it d = Inr d1" "fold_out (add_block_tx (net_store n env) h) its d1 = Inr d'"
    using Cons.prems by (auto simp: bind_out_Inr_iff)
  let ?th = "tx_hash (sha (net_store n env)) t"
  obtain d2 where d2: "(if \<not> knows (net_store n env) 1 ?th d
        then addInventory (net_store n env) 1 ?th (fst (tx_generate t)) False d else Inr d) = Inr d2"
      "d1 = index_doc (net_store n env) ''bitcoin/block_tx'' (block_tx_doc h ?th i) d2"
    using d1(1) by (auto simp: it add_block_tx_def Let_def bind_out_Inr_iff)
  have "same_blocks docs d d2"
    using d2(1) addInventory_same_blocks [OF assms, of env ?th "fst (tx_generate t)" d d2] by (auto split: if_splits)
  moreover have "same_blocks docs d2 d1" unfolding d2(2) by (rule index_same_blocks [OF assms]) simp
  ultimately have "same_blocks docs d d1" by (rule same_blocks_trans)
  then show ?case using Cons.IH [OF d1(2)] same_blocks_trans by blast
qed simp

section \<open>One block\<close>

lemma block_of_data_height: "(block_of_data f dat h)\<lparr>bl_height := h'\<rparr> = block_of_data f dat h'"
  by (simp add: block_of_data_def split: prod.splits)

lemma block_of_data_fields:
  "bl_valid (block_of_data f dat h)" "bl_hash (block_of_data f dat h) = f (ba_left 80 dat)"
  "bl_raw (block_of_data f dat h) = ba_left 80 dat" "bl_height (block_of_data f dat h) = h"
  by (simp_all add: block_of_data_def split: prod.splits)

lemma block_of_data_parent:
  assumes "80 \<le> length dat"
  shows "bl_parent (block_of_data f dat h) = ba_mid 4 32 dat"
proof -
  have "length (ba_left 80 dat) = 80" "ba_mid 4 32 (ba_left 80 dat) = ba_mid 4 32 dat"
    using assms by (simp_all add: ba_left_def ba_mid_def drop_take)
  then show ?thesis
    by (simp add: block_of_data_def run_get_le bc_readData_def ba_mid_def split: prod.splits)
qed

lemma small_double: "num_value (Some (large (h :: 32 word))) = h"
proof -
  have "unat h < 2 ^ LENGTH(32)" by (rule unsigned_less)
  then have "unat h < 2 ^ 53" by simp
  then have "double_shift (unat h) = 0" by (subst double_shift.simps) simp
  then show ?thesis by (simp add: num_value_def large_def as_double_def)
qed

text \<open>What the server is relied on for, for one block: the id of its document is the field \<open>hash\<close>, and the document
  comes back through JSON.\<close>

definition keeps_block :: "'s es_net \<Rightarrow> ('s \<Rightarrow> bytes \<Rightarrow> bytes \<Rightarrow> bytes) \<Rightarrow> (bytes \<Rightarrow> bytes) \<Rightarrow> bc_block \<Rightarrow> bool" where
  "keeps_block n new_id b64 B \<longleftrightarrow>
     (\<forall>s. new_id s (block_path []) (toJson n (of_doc (block_doc B))) = to_hex (bl_hash B))
   \<and> fromJson n (toJson n (of_doc (block_doc B))) = of_doc (as_text b64 (block_doc B))"

lemma addBlock_stored:
  assumes srv: "document_server n docs new_id" and keeps: "keeps_block n new_id b64 B"
    and add: "addBlock (net_store n env) B d = Inr d'" and valid: "bl_valid B"
  shows "docs (bd_db d') (block_path (to_hex g)) =
      (if g = bl_hash B then Some (toJson n (of_doc (block_doc B))) else docs (bd_db d) (block_path (to_hex g)))"
    "bd_queue d' = bd_queue d @ [inv_key 2 (bl_hash B)]"
    "g \<noteq> bl_hash B \<Longrightarrow> map_of (bd_cache d) (inv_key 2 g) = None \<Longrightarrow> map_of (bd_cache d') (inv_key 2 g) = None"
proof -
  obtain d1 where d1: "fold_out (add_block_tx (net_store n env) (bl_hash B)) (List.enumerate 0 (getTransactions B)) d = Inr d1"
    and d': "d' = index_doc (net_store n env) ''bitcoin/block'' (block_doc B)
      (d1\<lparr>bd_cache := cache_insert (inv_key 2 (bl_hash B)) (bl_raw B) (bd_cache d1), bd_queue := bd_queue d1 @ [inv_key 2 (bl_hash B)]\<rparr>)"
    using add valid by (auto simp: addBlock_def Let_def bind_out_Inr_iff)
  have same: "same_blocks docs d d1" by (rule block_txs_same_blocks [OF srv d1])
  have id: "new_id s (block_path []) (toJson n (of_doc (block_doc B))) = to_hex (bl_hash B)" for s
    using keeps by (simp add: keeps_block_def)
  show "docs (bd_db d') (block_path (to_hex g)) =
      (if g = bl_hash B then Some (toJson n (of_doc (block_doc B))) else docs (bd_db d) (block_path (to_hex g)))"
    using same by (auto simp: d' index_doc_def block_calls(3) [OF srv] id block_path_inj to_hex_inj same_blocks_def)
  show "bd_queue d' = bd_queue d @ [inv_key 2 (bl_hash B)]"
    using same by (simp add: d' index_doc_def same_blocks_def)
  show "map_of (bd_cache d') (inv_key 2 g) = None" if "g \<noteq> bl_hash B" "map_of (bd_cache d) (inv_key 2 g) = None"
    using same that by (simp add: d' index_doc_def same_blocks_def cache_insert_absent inv_key_inj)
qed

lemma getBlock_docs:
  assumes "document_server n docs new_id"
  shows "getBlock (net_store n env) g d = (case docs (bd_db d) (block_path (to_hex g)) of None \<Rightarrow> invalid_block
    | Some b \<Rightarrow> block_of_doc (net_store n env) (to_doc (toObject (fromJson n b))))"
  by (simp add: getBlock_def block_calls(2) [OF assms] block_of_doc_def split: option.splits)

lemma knows_docs:
  assumes "document_server n docs new_id"
  shows "knows (net_store n env) 2 g d \<longleftrightarrow> map_of (bd_cache d) (inv_key 2 g) \<noteq> None \<or> docs (bd_db d) (block_path (to_hex g)) \<noteq> None"
  by (simp add: knows_def block_calls(1) [OF assms])

text \<open>A block that comes back from the store: its header and its height, without its transactions.\<close>

lemma block_read_back:
  assumes "keeps_block n new_id b64 (block_of_data (sha env) p h)" "unb64 env (b64 (ba_left 80 p)) = ba_left 80 p"
  shows "block_of_doc (net_store n env) (to_doc (toObject (fromJson n (toJson n (of_doc (block_doc (block_of_data (sha env) p h)))))))
    = block_of_data (sha env) (ba_left 80 p) h"
proof -
  have t: "to_doc (toObject (of_doc v)) = v" for v by (simp add: to_doc_def toObject_def of_doc_def comp_def case_prod_beta)
  have e: "unb64 (net_store n env) = unb64 env" "sha (net_store n env) = sha env" by (simp_all add: net_store_def)
  have m: "map_of (as_text b64 (block_doc B)) ''raw_header'' = Some (JStr (b64 (bl_raw B)))"
      "map_of (as_text b64 (block_doc B)) ''depth'' = Some (large (bl_height B))" for B
    by (simp_all add: as_text_def block_doc_def large_def)
  have "fromJson n (toJson n (of_doc (block_doc (block_of_data (sha env) p h)))) = of_doc (as_text b64 (block_doc (block_of_data (sha env) p h)))"
    using assms(1) by (simp add: keeps_block_def)
  then show ?thesis
    using assms(2) by (simp add: t block_of_doc_def m base64_value_def e block_of_data_fields small_double)
qed

section \<open>A chain\<close>

text \<open>Block packets that follow each other, the first a child of \<open>h\<close>, and the blocks they hold when the first is at
  height \<open>ht\<close>.\<close>

fun linked :: "(bytes \<Rightarrow> bytes) \<Rightarrow> bytes \<Rightarrow> bytes list \<Rightarrow> bool" where
  "linked f h [] \<longleftrightarrow> True"
| "linked f h (p # ps) \<longleftrightarrow> 80 \<le> length p \<and> ba_mid 4 32 p = h \<and> linked f (f (ba_left 80 p)) ps"

fun chain_blocks :: "(bytes \<Rightarrow> bytes) \<Rightarrow> 32 word \<Rightarrow> bytes list \<Rightarrow> bc_block list" where
  "chain_blocks f ht [] = []"
| "chain_blocks f ht (p # ps) = block_of_data f p ht # chain_blocks f (ht + 1) ps"

definition block_ids :: "(bytes \<Rightarrow> bytes) \<Rightarrow> bytes list \<Rightarrow> bytes list" where
  "block_ids f ps = map (\<lambda>p. f (ba_left 80 p)) ps"

lemma block_ids_simps [simp]: "block_ids f [] = []" "block_ids f (p # ps) = f (ba_left 80 p) # block_ids f ps"
  by (simp_all add: block_ids_def)

text \<open>The height a child of \<open>h\<close> gets, if the daemon accepts it.\<close>

definition child_height :: "'d bc_env \<Rightarrow> 'd bc_daemon \<Rightarrow> bytes \<Rightarrow> 32 word option" where
  "child_height E d h = (let p = getBlock E h d in
     if bl_valid p then Some (bl_height p + 1) else if h = zero_hash then Some 0 else None)"

lemma store_block_child:
  assumes "80 \<le> length p" "child_height E d (ba_mid 4 32 p) = Some ht" "\<not> knows E 2 (sha E (ba_left 80 p)) d"
  shows "store_block E p d = addBlock E (block_of_data (sha E) p ht) d"
  using assms by (auto simp: store_block_def Let_def child_height_def block_of_data_parent block_of_data_height
      block_of_data_fields split: if_splits)

lemma child_height_docs:
  assumes "document_server n docs new_id" "keeps_block n new_id b64 (block_of_data (sha env) p h)"
    "unb64 env (b64 (ba_left 80 p)) = ba_left 80 p"
    "docs (bd_db d) (block_path (to_hex g)) = Some (toJson n (of_doc (block_doc (block_of_data (sha env) p h))))"
  shows "child_height (net_store n env) d g = Some (h + 1)"
  by (simp add: child_height_def Let_def getBlock_docs [OF assms(1)] assms(4) block_read_back [OF assms(2,3)] block_of_data_fields)

definition ask_block :: "'d bc_env \<Rightarrow> bytes \<Rightarrow> bytes" where
  "ask_block E h = bc_packet (sha E) (lit ''getdata'') (bc_writeInt 1 @ put_le (2 :: 32 word) @ bc_writeData h)"

text \<open>The next request after a block that was asked for has been stored: it may still be the first of the list.\<close>

lemma request_after:
  assumes "knows E 2 h d" "list = h # rest \<or> list = rest" "\<forall>g\<in>set rest. \<not> knows E 2 g d" "bc_open c"
  shows "request_next E list (d, c) = (d, case rest of
      [] \<Rightarrow> c\<lparr>block_todl_list := [], timer := 1000\<rparr>
    | g # gs \<Rightarrow> c\<lparr>block_todl_list := gs, bc_sent := bc_sent c @ [ask_block E g]\<rparr>)"
  using assms by (auto simp: sendPacket_def ask_block_def split: list.splits)

definition chain_stored :: "'s es_net \<Rightarrow> ('s \<Rightarrow> bytes \<Rightarrow> bytes option) \<Rightarrow> bc_block list \<Rightarrow> 's bc_daemon \<Rightarrow> bool" where
  "chain_stored n docs Bs d \<longleftrightarrow>
     (\<forall>B\<in>set Bs. docs (bd_db d) (block_path (to_hex (bl_hash B))) = Some (toJson n (of_doc (block_doc B))))"

lemma chain_ids: "map bl_hash (chain_blocks f ht ps) = block_ids f ps"
  by (induction ps arbitrary: ht) (simp_all add: block_of_data_fields)

text \<open>The packets of a chain, one after the other: every block is stored, and each but the last is followed by the
  request for the next.\<close>

lemma chain_downloaded:
  assumes srv: "document_server n docs new_id" and E: "E = net_store n env" and f: "f = sha env"
    and b64: "\<forall>p\<in>set ps. unb64 env (b64 (ba_left 80 p)) = ba_left 80 p"
  shows "linked f h ps \<Longrightarrow> child_height E d h = Some ht \<Longrightarrow> distinct (block_ids f ps)
    \<Longrightarrow> \<forall>g\<in>set (block_ids f ps). \<not> knows E 2 g d \<Longrightarrow> \<forall>B\<in>set (chain_blocks f ht ps). keeps_block n new_id b64 B
    \<Longrightarrow> bc_open c \<Longrightarrow> block_todl_list c \<in> {block_ids f ps, tl (block_ids f ps)} \<Longrightarrow> ps \<noteq> []
    \<Longrightarrow> \<exists>d' c'. fold_out (bitcoin_packet_block E) ps (d, c) = Inr (d', c')
      \<and> bc_sent c' = bc_sent c @ map (ask_block E) (tl (block_ids f ps)) \<and> block_todl_list c' = [] \<and> timer c' = 1000
      \<and> bd_queue d' = bd_queue d @ map (inv_key 2) (block_ids f ps) \<and> chain_stored n docs (chain_blocks f ht ps) d'
      \<and> (\<forall>g. g \<notin> set (block_ids f ps) \<longrightarrow> docs (bd_db d') (block_path (to_hex g)) = docs (bd_db d) (block_path (to_hex g)))"
  using b64
proof (induction ps arbitrary: h ht d c)
  case (Cons p ps)
  let ?B = "block_of_data f p ht" and ?g = "f (ba_left 80 p)"
  have fE: "sha E = f" by (simp add: E f net_store_def)
  have keeps: "keeps_block n new_id b64 ?B" using Cons.prems(5) by simp
  have store: "store_block E p d = addBlock E ?B d"
    using store_block_child [of p E d ht] Cons.prems(1,2,4) by (simp add: fE)
  obtain d1 where d1: "addBlock E ?B d = Inr d1" using addBlock_Inr by blast
  note new = addBlock_stored [OF srv keeps d1 [unfolded E] block_of_data_fields(1)]
  have docs1: "docs (bd_db d1) (block_path (to_hex g)) =
      (if g = ?g then Some (toJson n (of_doc (block_doc ?B))) else docs (bd_db d) (block_path (to_hex g)))" for g
    using new(1) by (simp add: block_of_data_fields)
  have known: "knows E 2 ?g d1" by (simp add: E knows_docs [OF srv] docs1)
  have fresh: "\<forall>g\<in>set (block_ids f ps). \<not> knows E 2 g d1"
    using Cons.prems(3,4) new(3) by (auto simp: E knows_docs [OF srv] docs1 block_of_data_fields)
  let ?c = "case block_ids f ps of [] \<Rightarrow> c\<lparr>block_todl_list := [], timer := 1000\<rparr>
    | g # gs \<Rightarrow> c\<lparr>block_todl_list := gs, bc_sent := bc_sent c @ [ask_block E g]\<rparr>"
  have "request_next E (block_todl_list c) (d1, c) = (d1, ?c)"
    by (rule request_after [OF known _ fresh Cons.prems(6)]) (use Cons.prems(7) in auto)
  with store d1 have step: "bitcoin_packet_block E p (d, c) = Inr (d1, ?c)" by (simp add: bitcoin_packet_block_def)
  have queue: "bd_queue d1 = bd_queue d @ [inv_key 2 ?g]" using new(2) by (simp add: block_of_data_fields)
  show ?case
  proof (cases ps)
    case Nil
    with step queue docs1 show ?thesis by (simp add: chain_stored_def block_of_data_fields)
  next
    case (Cons q qs)
    then have c: "?c = c\<lparr>block_todl_list := tl (block_ids f ps), bc_sent := bc_sent c @ [ask_block E (hd (block_ids f ps))]\<rparr>" by simp
    have "child_height E d1 ?g = Some (ht + 1)"
      unfolding E by (rule child_height_docs [OF srv keeps [unfolded f]]) (use Cons.prems(9) docs1 in \<open>simp_all add: f\<close>)
    then obtain d' c' where r: "fold_out (bitcoin_packet_block E) ps (d1, ?c) = Inr (d', c')"
        "bc_sent c' = bc_sent ?c @ map (ask_block E) (tl (block_ids f ps))" "block_todl_list c' = []" "timer c' = 1000"
        "bd_queue d' = bd_queue d1 @ map (inv_key 2) (block_ids f ps)" "chain_stored n docs (chain_blocks f (ht + 1) ps) d'"
        "\<forall>g. g \<notin> set (block_ids f ps) \<longrightarrow> docs (bd_db d') (block_path (to_hex g)) = docs (bd_db d1) (block_path (to_hex g))"
      using Cons.IH [of ?g d1 "ht + 1" ?c] Cons.prems(1,3,5,6,9) fresh c Cons by auto
    have "bc_sent c' = bc_sent c @ map (ask_block E) (block_ids f ps)" using r(2) c Cons by simp
    moreover have "chain_stored n docs (chain_blocks f ht (p # ps)) d'"
      using r(6,7) docs1 Cons.prems(3) by (simp add: chain_stored_def block_of_data_fields)
    ultimately show ?thesis using step r queue docs1 by (simp add: E)
  qed
qed simp

lemma chain_read_back:
  assumes "document_server n docs new_id" "\<forall>p\<in>set ps. unb64 env (b64 (ba_left 80 p)) = ba_left 80 p"
  shows "\<forall>B\<in>set (chain_blocks (sha env) ht ps). keeps_block n new_id b64 B \<Longrightarrow> chain_stored n docs (chain_blocks (sha env) ht ps) d
    \<Longrightarrow> map (\<lambda>g. getBlock (net_store n env) g d) (block_ids (sha env) ps) = chain_blocks (sha env) ht (map (ba_left 80) ps)"
  using assms(2)
proof (induction ps arbitrary: ht)
  case (Cons p ps)
  have "chain_stored n docs (chain_blocks (sha env) (ht + 1) ps) d"
    and p: "docs (bd_db d) (block_path (to_hex (sha env (ba_left 80 p)))) = Some (toJson n (of_doc (block_doc (block_of_data (sha env) p ht))))"
    using Cons.prems(2) by (simp_all add: chain_stored_def block_of_data_fields)
  with Cons.IH [of "ht + 1"] Cons.prems block_read_back [of n new_id b64 env p ht] show ?case
    by (simp add: getBlock_docs [OF assms(1)])
qed simp

lemma blocks_dispatched:
  "fold_out (\<lambda>(t, p). bc_dispatch E now uuid t p) (map (Pair (lit ''block'')) ps) st = fold_out (bitcoin_packet_block E) ps st"
proof (induction ps arbitrary: st)
  case (Cons p ps)
  have "bc_dispatch E now uuid (lit ''block'') p s = bitcoin_packet_block E p s" for s
    by (simp add: bc_dispatch_def lit_def)
  moreover have "fold_out (\<lambda>(t, p). bc_dispatch E now uuid t p) (map (Pair (lit ''block'')) ps) = fold_out (bitcoin_packet_block E) ps"
    using Cons by (simp add: fun_eq_iff)
  ultimately show ?case by simp
qed simp

text \<open>The answer to the announcement of blocks none of which is known: the first is asked for, all are remembered.\<close>

lemma blocks_announced:
  assumes "list_all (\<lambda>h. length h = 32) (g # gs)" "short (g # gs)" "\<forall>h\<in>set (g # gs). \<not> knows E 2 h d" "bc_open c"
    "block_todl_list c = []"
  shows "bitcoin_packet_inv E (inv_bytes (map (Pair 2) (g # gs))) (d, c)
    = (d, c\<lparr>block_todl_list := g # gs, bc_sent := bc_sent c @ [ask_block E g]\<rparr>)"
proof -
  let ?items = "map (Pair 2) (g # gs) :: (32 word \<times> bytes) list"
  have u: "unknown E d ?items = ?items" using assms(3) by (simp add: comp_def)
  have b: "blocks ?items = ?items" "others ?items = []" by (simp_all add: comp_def)
  have "list_all hash_ok ?items" "short ?items"
    using assms(1,2) by (simp_all add: hash_ok_def short_def list.pred_map comp_def)
  note spec = packet_inv_spec [OF this, of E d c, unfolded u b]
  from spec obtain asked where a: "bitcoin_packet_inv E (inv_bytes ?items) (d, c)
      = (d, (if asked = [] then id else sendPacket E ''getdata'' (inv_bytes asked)) (c\<lparr>block_todl_list := g # gs\<rparr>))"
      "others asked = []" "blocks asked = [(2, g)]"
    using assms(5) by (auto simp: comp_def)
  have "\<forall>it\<in>set asked. fst it = 2" using a(2) by (simp add: filter_empty_conv)
  then have "asked = [(2, g)]" using a(3) by simp
  then show ?thesis
    using a(1) assms(4) by (simp add: sendPacket_def ask_block_def inv_bytes_def inv_entry_def)
qed

text \<open>Packets in a stream of fewer than 2^31 bytes.\<close>

lemma packets_short:
  assumes "short (concat (map (\<lambda>(t, dat). bc_packet f t dat) ps))" "list_all (\<lambda>(t, dat). type_ok t) ps"
  shows "list_all (\<lambda>(t, dat). type_ok t \<and> length dat < 2 ^ 31) ps"
  using assms
proof (induction ps)
  case (Cons p ps)
  obtain t dat where p: "p = (t, dat)" by (cases p)
  have "length dat \<le> length (bc_packet f t dat)" using Cons.prems(2) by (simp add: p bc_packet_eq type_ok_def)
  then show ?case using Cons by (simp add: p short_def)
qed simp

lemma inv_short:
  assumes "list_all (\<lambda>h. length h = 32) ids" "length (inv_bytes (map (Pair 2) ids)) < 2 ^ 31"
  shows "short ids"
proof -
  have "list_all hash_ok (map (Pair 2) ids)" using assms(1) by (simp add: hash_ok_def list.pred_map comp_def)
  from inv_entries_length [OF this] assms(2) show ?thesis by (simp add: short_def inv_bytes_def)
qed

section \<open>The property\<close>

text \<open>C19: a chain of unknown blocks on top of a known one, or from the first block on, announced and then sent by a
  peer in any pieces, on a server that keeps documents under their hash: each block is asked for exactly once and in
  order, all of them are stored and queued for announcement, and the store gives back the chain of their headers, with
  heights counted from the parent.\<close>

theorem bc_chain_download:
  assumes srv: "document_server n docs new_id" and E: "E = net_store n env"
    and keeps: "\<forall>B\<in>set (chain_blocks (sha env) ht ps). keeps_block n new_id b64 B"
    and b64: "\<forall>p\<in>set ps. unb64 env (b64 (ba_left 80 p)) = ba_left 80 p"
    and hash: "\<And>x. length (sha env x) = 32"
    and chain: "linked (sha env) h ps" "child_height E d h = Some ht" "ps \<noteq> []"
    and new: "distinct (block_ids (sha env) ps)" "\<forall>g\<in>set (block_ids (sha env) ps). \<not> knows E 2 g d"
    and peer: "bc_open c" "block_todl_list c = []" "in_buf c = []"
    and wire: "concat ts = bc_packet (sha env) (lit ''inv'') (inv_bytes (map (Pair 2) (block_ids (sha env) ps)))
        @ concat (map (bc_packet (sha env) (lit ''block'')) ps)" "short (concat ts)" "Suc (length ps) < fuel"
  shows "\<exists>d' c'. bc_read_all fuel E now uuid ts (d, c) = Some (Inr (d', c'))
    \<and> bc_sent c' = bc_sent c @ map (ask_block E) (block_ids (sha env) ps) \<and> block_todl_list c' = [] \<and> timer c' = 1000
    \<and> bd_queue d' = bd_queue d @ map (inv_key 2) (block_ids (sha env) ps)
    \<and> map (\<lambda>g. getBlock E g d') (block_ids (sha env) ps) = chain_blocks (sha env) ht (map (ba_left 80) ps)"
proof -
  let ?ids = "block_ids (sha env) ps" and ?inv = "inv_bytes (map (Pair 2) (block_ids (sha env) ps))"
  let ?ps = "(lit ''inv'', ?inv) # map (Pair (lit ''block'')) ps"
  have fE: "sha E = sha env" by (simp add: E net_store_def)
  obtain g gs where ids: "?ids = g # gs" using chain(3) by (cases ps) simp_all
  have lens: "list_all (\<lambda>h. length h = 32) ?ids" by (simp add: block_ids_def list_all_iff hash)
  have all: "concat ts = concat (map (\<lambda>(t, dat). bc_packet (sha E) t dat) ?ps)" by (simp add: wire(1) fE comp_def)
  have sizes: "list_all (\<lambda>(t, dat). type_ok t \<and> length dat < 2 ^ 31) ?ps"
    by (rule packets_short [of "sha E"]) (use wire(2) type_names all in \<open>simp_all add: list.pred_map comp_def list.pred_True\<close>)
  have "short ?ids" using inv_short [OF lens] sizes by simp
  then have inv: "bitcoin_packet_inv E ?inv (d, c) = (d, c\<lparr>block_todl_list := ?ids, bc_sent := bc_sent c @ [ask_block E g]\<rparr>)"
    using blocks_announced [of g gs E d c] lens new(2) peer(1,2) by (simp add: ids)
  let ?c = "c\<lparr>block_todl_list := ?ids, bc_sent := bc_sent c @ [ask_block E g]\<rparr>"
  obtain d' c' where r: "fold_out (bitcoin_packet_block E) ps (d, ?c) = Inr (d', c')"
      "bc_sent c' = bc_sent ?c @ map (ask_block E) (tl ?ids)" "block_todl_list c' = []" "timer c' = 1000"
      "bd_queue d' = bd_queue d @ map (inv_key 2) ?ids" "chain_stored n docs (chain_blocks (sha env) ht ps) d'"
    using chain_downloaded [OF srv E refl b64 chain(1,2) new keeps, of ?c] peer(1) chain(3) by auto
  have "bc_dispatch E now uuid (lit ''inv'') ?inv (d, c) = Inr (d, ?c)" by (simp add: bc_dispatch_def lit_def inv)
  with r(1) have "fold_out (\<lambda>(t, p). bc_dispatch E now uuid t p) ?ps (d, c) = Inr (d', c')" by (simp add: blocks_dispatched)
  moreover have "bc_read_all fuel E now uuid ts (d, c) = Some (fold_out (\<lambda>(t, p). bc_dispatch E now uuid t p) ?ps (d, c))"
    by (rule stream_dispatched [OF sizes _ all wire(2)]) (use hash peer(3) wire(3) in \<open>simp_all add: fE\<close>)
  ultimately show ?thesis
    using r chain_read_back [OF srv b64 keeps r(6)] by (simp add: E [symmetric] ids)
qed

text \<open>Two blocks from the first on, and a server that writes the one as 2 and the other as 3.\<close>

definition ex_hash :: "bytes \<Rightarrow> bytes" where
  "ex_hash b = take 32 (b @ replicate 32 0)"

definition ex_p1 :: bytes where
  "ex_p1 = header_bytes 1 zero_hash zero_hash 5 6 7 @ [0]"

definition ex_p2 :: bytes where
  "ex_p2 = header_bytes 2 (ex_hash (ba_left 80 ex_p1)) zero_hash 8 9 10 @ [0]"

definition ex_b1 :: bc_block where
  "ex_b1 = block_of_data ex_hash ex_p1 0"

definition ex_b2 :: bc_block where
  "ex_b2 = block_of_data ex_hash ex_p2 1"

definition ex_id :: "bytes \<Rightarrow> bytes" where
  "ex_id b = to_hex (bl_hash (if b = [2] then ex_b1 else ex_b2))"

fun ex_parse :: "bytes \<Rightarrow> jval" where
  "ex_parse [] = JNull"
| "ex_parse (b # r) = (if b = 1 then JObj [(''_source'', ex_parse r)]
     else of_doc (as_text (\<lambda>x. x) (block_doc (if b = 2 then ex_b1 else ex_b2))))"

definition ex_chain_net :: "(bytes \<times> bytes) list es_net" where
  "ex_chain_net = \<lparr>http = (\<lambda>s r. ex_http (ex_id (rq_body r)) s r), resolve = (\<lambda>p. p), fromJson = ex_parse,
     toJson = (\<lambda>v. if v = of_doc (block_doc ex_b1) then [2] else [3])\<rparr>"

definition ex_chain_env :: "(bytes \<times> bytes) list bc_env" where
  "ex_chain_env = ex_store_env\<lparr>sha := ex_hash\<rparr>"

definition ex_chain_peer :: bc_client where
  "ex_chain_peer = new_bc_client (\<lambda>a. []) (IPv4 1) 8333"

lemma ex_chain_server: "document_server ex_chain_net map_of (\<lambda>_ _ b. ex_id b)"
  by (auto simp: document_server_def ex_chain_net_def ex_http_def jvalue_def toObject_def split: option.splits)

lemma ex_hash_length: "length (ex_hash x) = 32"
  by (simp add: ex_hash_def)

lemma zero_hash_length: "length zero_hash = 32"
  by (simp add: zero_hash_def)

lemma ex_chain_lengths: "length ex_p1 = 81" "length ex_p2 = 81"
  by (simp_all add: ex_p1_def ex_p2_def length_header ex_hash_length zero_hash_length)

lemma header_left: "length p = 32 \<Longrightarrow> length m = 32 \<Longrightarrow> ba_left 80 (header_bytes v p m t b n @ r) = header_bytes v p m t b n"
  using length_header [of p m v t b n] by (simp add: ba_left_def)

lemma ex_hashes_differ: "ex_hash (ba_left 80 ex_p1) \<noteq> ex_hash (ba_left 80 ex_p2)"
proof -
  have h: "take 4 (ex_hash (header_bytes v p m t b n)) = put_le v" for v p m t b n
    by (simp add: ex_hash_def header_bytes_def)
  have "take 4 (ex_hash (ba_left 80 ex_p1)) = put_le (1 :: 32 word)" "take 4 (ex_hash (ba_left 80 ex_p2)) = put_le (2 :: 32 word)"
    by (simp_all add: ex_p1_def ex_p2_def header_left ex_hash_length zero_hash_length h)
  moreover have "put_le (1 :: 32 word) \<noteq> put_le (2 :: 32 word)" by code_simp
  ultimately show ?thesis by metis
qed

lemma ex_chain_linked: "linked ex_hash zero_hash [ex_p1, ex_p2]"
proof -
  have "ba_mid 4 32 (header_bytes v p m t b n @ r) = p" if "length p = 32" for v p m t b n r
    using that by (simp add: header_bytes_def ba_mid_def)
  then show ?thesis by (simp add: ex_chain_lengths) (simp add: ex_p1_def ex_p2_def ex_hash_length zero_hash_length)
qed

lemma ex_docs_differ: "of_doc (block_doc ex_b1) \<noteq> of_doc (block_doc ex_b2)"
  using ex_hashes_differ by (simp add: of_doc_def block_doc_def ex_b1_def ex_b2_def block_of_data_fields to_hex_inj)

lemma ex_chain_kept:
  "keeps_block ex_chain_net (\<lambda>_ _ b. ex_id b) (\<lambda>x. x) ex_b1" "keeps_block ex_chain_net (\<lambda>_ _ b. ex_id b) (\<lambda>x. x) ex_b2"
  using ex_docs_differ by (simp_all add: keeps_block_def ex_chain_net_def ex_id_def)

theorem bc_chain_download_witness:
  "\<exists>ts d' c'. length ts = 3 \<and> bc_read_all 4 (net_store ex_chain_net ex_chain_env) 9 [] ts (ex_store_daemon, ex_chain_peer) = Some (Inr (d', c'))
    \<and> length (bc_sent c') = 2 \<and> length (bd_queue d') = 2
    \<and> map bl_height (map (\<lambda>g. getBlock (net_store ex_chain_net ex_chain_env) g d') [bl_hash ex_b1, bl_hash ex_b2]) = [0, 1]"
proof -
  let ?E = "net_store ex_chain_net ex_chain_env" and ?ps = "[ex_p1, ex_p2]"
  have sha: "sha ex_chain_env = ex_hash" by (simp add: ex_chain_env_def)
  have bs: "chain_blocks ex_hash 0 ?ps = [ex_b1, ex_b2]" by (simp add: ex_b1_def ex_b2_def)
  let ?s = "bc_packet ex_hash (lit ''inv'') (inv_bytes (map (Pair 2) (block_ids ex_hash ?ps))) @ concat (map (bc_packet ex_hash (lit ''block'')) ?ps)"
  let ?ts = "[take 5 ?s, take 20 (drop 5 ?s), drop 25 ?s]"
  have c: "concat ?ts = ?s" by (rule three_pieces)
  have sh: "short ?s"
    by (simp add: short_def bc_packet_eq lit_def ba_left_def ex_chain_lengths inv_bytes_def inv_entry_def bc_writeData_def bc_writeInt_def ex_hash_length)
  have kn: "\<forall>g\<in>set (block_ids ex_hash ?ps). \<not> knows ?E 2 g ex_store_daemon"
    by (simp add: knows_docs [OF ex_chain_server] ex_store_daemon_def)
  have ch: "child_height ?E ex_store_daemon zero_hash = Some 0"
    by (simp add: child_height_def getBlock_docs [OF ex_chain_server] ex_store_daemon_def invalid_block_def Let_def)
  have pe: "bc_open ex_chain_peer" "block_todl_list ex_chain_peer = []" "in_buf ex_chain_peer = []" "bc_sent ex_chain_peer = []"
    by (simp_all add: ex_chain_peer_def new_bc_client_def)
  have ub: "\<forall>p\<in>set ?ps. unb64 ex_chain_env (ba_left 80 p) = ba_left 80 p" by (simp add: ex_chain_env_def ex_store_env_def)
  obtain d' c' where "bc_read_all 4 ?E 9 [] ?ts (ex_store_daemon, ex_chain_peer) = Some (Inr (d', c'))"
      "bc_sent c' = map (ask_block ?E) (block_ids ex_hash ?ps)" "bd_queue d' = map (inv_key 2) (block_ids ex_hash ?ps)"
      "map (\<lambda>g. getBlock ?E g d') (block_ids ex_hash ?ps) = chain_blocks ex_hash 0 (map (ba_left 80) ?ps)"
    using bc_chain_download [OF ex_chain_server refl, of ex_chain_env 0 ?ps "\<lambda>x. x" zero_hash ex_store_daemon ex_chain_peer ?ts 4 9 "[]", unfolded sha]
      ex_chain_kept bs ub ex_hash_length ex_chain_linked ch ex_hashes_differ kn pe c sh by (auto simp: ex_store_daemon_def)
  then show ?thesis by (intro exI [of _ ?ts] exI [of _ d'] exI [of _ c']) (simp add: ex_b1_def ex_b2_def block_of_data_fields)
qed

end
