(* ===== verification/Bitcoin_Waits.thy ===== *)
theory Bitcoin_Waits
  imports Bitcoin_Props
begin

text \<open>
  The handlers of transactions and blocks when the event loop runs inside them: each call of the store that goes over
  HTTP ends in a loop over \<open>processEvents\<close>, and there other sockets and timers get their turn. A state carries what
  runs in the waits to come, one step for each; when none is left the waits change nothing. The answer of a call is
  the one of the state at its start: what the server sees before it answers is in the wait before.
\<close>

section \<open>Waiting\<close>

type_synonym 'd bc_wait = "('d bc_st \<Rightarrow> 'd bc_st) list \<times> 'd bc_st"

fun wait_reply :: "'d bc_wait \<Rightarrow> 'd bc_wait" where
  "wait_reply ([], st) = ([], st)"
| "wait_reply (i # ev, st) = (ev, i st)"

definition w_daemon :: "'d bc_wait \<Rightarrow> 'd bc_daemon" where
  "w_daemon w = fst (snd w)"

definition w_client :: "'d bc_wait \<Rightarrow> bc_client" where
  "w_client w = snd (snd w)"

definition w_update :: "('d bc_daemon \<Rightarrow> 'd bc_daemon) \<Rightarrow> 'd bc_wait \<Rightarrow> 'd bc_wait" where
  "w_update f = apsnd (apfst f)"

section \<open>The calls of the store\<close>

definition w_knows :: "'d bc_env \<Rightarrow> 32 word \<Rightarrow> bytes \<Rightarrow> 'd bc_wait \<Rightarrow> bool \<times> 'd bc_wait" where
  "w_knows env type hash w =
     (if map_of (bd_cache (w_daemon w)) (inv_key type hash) \<noteq> None then (True, w)
      else if type = 1 then (es_contains env (bd_db (w_daemon w)) (to_hex hash) ''bitcoin/tx'', wait_reply w)
      else if type = 2 then (es_contains env (bd_db (w_daemon w)) (to_hex hash) ''bitcoin/block'', wait_reply w)
      else (False, w))"

definition w_getBlock :: "'d bc_env \<Rightarrow> bytes \<Rightarrow> 'd bc_wait \<Rightarrow> bc_block \<times> 'd bc_wait" where
  "w_getBlock env hash w = (getBlock env hash (w_daemon w), wait_reply w)"

definition w_index :: "'d bc_env \<Rightarrow> string \<Rightarrow> doc \<Rightarrow> 'd bc_wait \<Rightarrow> 'd bc_wait" where
  "w_index env table obj w = wait_reply (w_update (index_doc env table obj) w)"

section \<open>The handlers\<close>

text \<open>\<open>addInventory\<close> for a transaction: cache and queue change before the first document is sent.\<close>

definition w_store_tx :: "'d bc_env \<Rightarrow> bytes \<Rightarrow> bytes \<Rightarrow> 'd bc_wait \<Rightarrow> 'd bc_wait" where
  "w_store_tx env hash dat w =
     (let t = tx_of_bytes dat;
          w = fold (\<lambda>(i, ti). w_index env ''bitcoin/tx_in'' (tx_in_doc hash i ti)) (List.enumerate 0 (tx_ins t)) w;
          w = fold (\<lambda>(i, to). w_index env ''bitcoin/tx_out'' (tx_out_doc hash i to)) (List.enumerate 0 (tx_outs t)) w
      in w_index env ''bitcoin/tx'' (tx_doc hash dat t) w)"

definition w_add_tx :: "'d bc_env \<Rightarrow> bytes \<Rightarrow> bytes \<Rightarrow> bool \<Rightarrow> 'd bc_wait \<Rightarrow> 'd bc_wait" where
  "w_add_tx env hash dat send_inv w =
     (let key = inv_key 1 hash;
          w = w_update (\<lambda>d. d\<lparr>bd_cache := cache_insert key dat (bd_cache d)\<rparr>) w;
          w = (if send_inv then w_update (\<lambda>d. d\<lparr>bd_queue := bd_queue d @ [key]\<rparr>) w else w)
      in w_store_tx env hash dat w)"

definition w_packet_tx :: "'d bc_env \<Rightarrow> bytes \<Rightarrow> 'd bc_wait \<Rightarrow> 'd bc_wait" where
  "w_packet_tx env t w =
     (let hash = sha env t in
      case w_knows env 1 hash w of (known, w) \<Rightarrow> if known then w else w_add_tx env hash t True w)"

definition w_add_block_tx :: "'d bc_env \<Rightarrow> bytes \<Rightarrow> nat \<times> bc_tx \<Rightarrow> 'd bc_wait \<Rightarrow> 'd bc_wait" where
  "w_add_block_tx env hash it w =
     (case it of (i, t) \<Rightarrow>
      let th = tx_hash (sha env) t in
      case w_knows env 1 th w of (known, w) \<Rightarrow>
        let w = (if \<not> known then w_add_tx env th (fst (tx_generate t)) False w else w)
        in w_index env ''bitcoin/block_tx'' (block_tx_doc hash th i) w)"

definition w_addBlock :: "'d bc_env \<Rightarrow> bc_block \<Rightarrow> 'd bc_wait \<Rightarrow> 'd bc_wait" where
  "w_addBlock env block w =
     (if \<not> bl_valid block then w
      else
        let key = inv_key 2 (bl_hash block);
            w = fold (w_add_block_tx env (bl_hash block)) (List.enumerate 0 (getTransactions block)) w;
            w = w_update (\<lambda>d. d\<lparr>bd_cache := cache_insert key (bl_raw block) (bd_cache d), bd_queue := bd_queue d @ [key]\<rparr>) w
        in w_index env ''bitcoin/block'' (block_doc block) w)"

definition w_store_block :: "'d bc_env \<Rightarrow> bytes \<Rightarrow> 'd bc_wait \<Rightarrow> 'd bc_wait" where
  "w_store_block env block w =
     (let bl = block_of_data (sha env) block 0 in
      case w_getBlock env (bl_parent bl) w of (pbl, w) \<Rightarrow>
        if \<not> bl_valid pbl \<and> bl_parent bl \<noteq> zero_hash then w
        else
          let bl = (if bl_valid pbl then bl\<lparr>bl_height := bl_height pbl + 1\<rparr> else bl) in
          case w_knows env 2 (bl_hash bl) w of (known, w) \<Rightarrow> if known then w else w_addBlock env bl w)"

lemma w_knows_shrinks:
  "(k, ev', st') = w_knows env 2 h (ev, st) \<Longrightarrow> length ev' < length ev \<or> ev' = ev \<and> st' = st"
  by (cases ev) (auto simp: w_knows_def split: if_splits)

text \<open>The list of pending blocks is a member: what runs in a wait may make it longer.\<close>

function w_request_next :: "'d bc_env \<Rightarrow> 'd bc_wait \<Rightarrow> 'd bc_wait" where
  "w_request_next env (ev, d, c) =
     (case block_todl_list c of
        [] \<Rightarrow> (ev, d, c\<lparr>timer := 1000\<rparr>)
      | blid # todl \<Rightarrow>
          (case w_knows env 2 blid (ev, d, c\<lparr>block_todl_list := todl\<rparr>) of (known, ev, d, c) \<Rightarrow>
             if known then w_request_next env (ev, d, c)
             else (ev, d, sendPacket env ''getdata'' (bc_writeInt 1 @ put_le (2 :: 32 word) @ bc_writeData blid) c)))"
  by pat_completeness auto
termination
  by (relation "measures [\<lambda>(env, ev, d, c). length ev, \<lambda>(env, ev, d, c). length (block_todl_list c)]")
    (auto dest!: w_knows_shrinks)

declare w_request_next.simps [simp del]

definition w_packet_block :: "'d bc_env \<Rightarrow> bytes \<Rightarrow> 'd bc_wait \<Rightarrow> 'd bc_wait" where
  "w_packet_block env block w = w_request_next env (w_store_block env block w)"

section \<open>Waits in which nothing happens\<close>

lemma w_fields [simp]: "w_daemon (ev, d, c) = d" "w_client (ev, d, c) = c" "w_update f (ev, d, c) = (ev, f d, c)"
  by (simp_all add: w_daemon_def w_client_def w_update_def)

lemma w_calls_quiet [simp]:
  "w_knows env type hash ([], d, c) = (knows env type hash d, [], d, c)"
  "w_getBlock env hash ([], d, c) = (getBlock env hash d, [], d, c)"
  "w_index env table obj ([], d, c) = ([], index_doc env table obj d, c)"
  by (simp_all add: w_knows_def knows_def w_getBlock_def w_index_def)

lemma w_index_all_quiet:
  "fold (\<lambda>(i, x). w_index env table (f i x)) xs ([], d, c) = ([], fold (\<lambda>(i, x). index_doc env table (f i x)) xs d, c)"
  by (induction xs arbitrary: d) auto

lemma w_store_tx_quiet [simp]: "w_store_tx env hash dat ([], d, c) = ([], store_tx env hash dat d, c)"
  by (simp add: w_store_tx_def store_tx_def Let_def w_index_all_quiet)

lemma w_add_tx_waits: "addInventory env 1 hash dat q d = Inr d' \<Longrightarrow> w_add_tx env hash dat q ([], d, c) = ([], d', c)"
  by (auto simp: w_add_tx_def addInventory_def Let_def)

lemma w_add_block_tx_quiet: "add_block_tx env h it d = Inr d' \<Longrightarrow> w_add_block_tx env h it ([], d, c) = ([], d', c)"
  by (cases it) (auto simp: w_add_block_tx_def add_block_tx_def Let_def bind_out_Inr_iff w_add_tx_waits split: if_splits)

lemma w_add_block_txs_quiet:
  "fold_out (add_block_tx env h) its d = Inr d' \<Longrightarrow> fold (w_add_block_tx env h) its ([], d, c) = ([], d', c)"
  by (induction its arbitrary: d) (auto simp: bind_out_Inr_iff w_add_block_tx_quiet)

lemma w_addBlock_quiet: "addBlock env B d = Inr d' \<Longrightarrow> w_addBlock env B ([], d, c) = ([], d', c)"
  by (auto simp: w_addBlock_def addBlock_def Let_def bind_out_Inr_iff w_add_block_txs_quiet split: if_splits)

lemma w_store_block_quiet: "store_block env p d = Inr d' \<Longrightarrow> w_store_block env p ([], d, c) = ([], d', c)"
  by (auto simp: w_store_block_def store_block_def Let_def w_addBlock_quiet split: if_splits)

lemma w_request_next_quiet: "w_request_next env ([], d, c\<lparr>block_todl_list := l\<rparr>) = ([], request_next env l (d, c))"
proof (induction l arbitrary: c)
  case Nil
  show ?case by (subst w_request_next.simps) simp
next
  case (Cons h l)
  show ?case
    using Cons [of c] by (subst w_request_next.simps) (simp add: sendPacket_def)
qed

section \<open>Waits in which another peer sends the same\<close>

text \<open>The packet of another peer, whose client is \<open>other\<close>, handled in a wait.\<close>

definition other_peer :: "('d bc_st \<Rightarrow> 'd bc_st outcome) \<Rightarrow> bc_client \<Rightarrow> 'd bc_st \<Rightarrow> 'd bc_st" where
  "other_peer f other st = (case st of (d, c) \<Rightarrow> case f (d, other) of Inl e \<Rightarrow> (d, c) | Inr (d', other') \<Rightarrow> (d', c))"

lemma index_all_fields:
  "bd_queue (fold (\<lambda>(i, x). index_doc env table (f i x)) xs d) = bd_queue d"
  "bd_cache (fold (\<lambda>(i, x). index_doc env table (f i x)) xs d) = bd_cache d"
  by (induction xs arbitrary: d) (auto simp: index_doc_def)

lemma store_tx_fields [simp]: "bd_queue (store_tx env hash dat d) = bd_queue d" "bd_cache (store_tx env hash dat d) = bd_cache d"
  by (simp_all add: store_tx_def Let_def index_all_fields) (simp_all add: index_doc_def index_all_fields)

lemma cache_insert_known: "map_of (cache_insert k v c) k = Some v"
  by (simp add: cache_insert_def)

lemma add_block_txs_queue: "fold_out (add_block_tx env h) its d = Inr d' \<Longrightarrow> bd_queue d' = bd_queue d"
proof (induction its arbitrary: d)
  case (Cons it its)
  obtain d1 where d1: "add_block_tx env h it d = Inr d1" "fold_out (add_block_tx env h) its d1 = Inr d'"
    using Cons.prems by (auto simp: bind_out_Inr_iff)
  have "bd_queue d1 = bd_queue d"
    using d1(1) by (cases it) (auto simp: add_block_tx_def addInventory_def Let_def index_doc_def split: if_splits)
  with Cons.IH [OF d1(2)] show ?case by simp
qed simp

lemma addBlock_queue:
  assumes "addBlock env B d = Inr d'" "bl_valid B"
  shows "bd_queue d' = bd_queue d @ [inv_key 2 (bl_hash B)]" "knows env 2 (bl_hash B) d'"
  using assms by (auto simp: addBlock_def Let_def bind_out_Inr_iff index_doc_def add_block_txs_queue knows_def cache_insert_known)

lemma store_known: "knows env 2 (bl_hash (block_of_data (sha env) p 0)) d \<Longrightarrow> store_block env p d = Inr d"
  by (simp add: store_block_def Let_def)

lemma store_block_total: "\<exists>d'. store_block env p d = Inr d'"
  by (simp add: store_block_def Let_def addBlock_Inr)

lemma request_next_daemon: "fst (request_next env l (d, c)) = d"
  by (induction l) simp_all

lemma packet_block_daemon: "map_out fst (bitcoin_packet_block env p (d, c)) = store_block env p d"
  by (cases "store_block env p d") (simp_all add: bitcoin_packet_block_def request_next_daemon)

text \<open>The documents of a transaction, in the order in which they are sent to the store.\<close>

definition tx_docs :: "bytes \<Rightarrow> bytes \<Rightarrow> (string \<times> doc) list" where
  "tx_docs hash dat =
     (let t = tx_of_bytes dat in
      map (\<lambda>(i, ti). (''bitcoin/tx_in'', tx_in_doc hash i ti)) (List.enumerate 0 (tx_ins t))
      @ map (\<lambda>(i, to). (''bitcoin/tx_out'', tx_out_doc hash i to)) (List.enumerate 0 (tx_outs t))
      @ [(''bitcoin/tx'', tx_doc hash dat t)])"

definition es_index_all :: "'d bc_env \<Rightarrow> (string \<times> doc) list \<Rightarrow> 'd \<Rightarrow> 'd" where
  "es_index_all env docs db = fold (\<lambda>(table, obj). es_index env obj table) docs db"

lemma index_all_db:
  "bd_db (fold (\<lambda>(i, x). index_doc env table (f i x)) xs d) = es_index_all env (map (\<lambda>(i, x). (table, f i x)) xs) (bd_db d)"
  by (induction xs arbitrary: d) (auto simp: index_doc_def es_index_all_def)

lemma store_tx_db: "bd_db (store_tx env hash dat d) = es_index_all env (tx_docs hash dat) (bd_db d)"
  by (simp add: store_tx_def tx_docs_def Let_def) (simp add: index_doc_def index_all_db es_index_all_def)

lemma addInventory_db: "addInventory env 1 hash dat q d = Inr d' \<Longrightarrow> bd_db d' = es_index_all env (tx_docs hash dat) (bd_db d)"
  by (auto simp: addInventory_def Let_def store_tx_db)

lemma packet_tx_new:
  assumes "\<not> knows env 1 (sha env t) d"
  shows "\<exists>d1. bitcoin_packet_tx env t (d, c) = Inr (d1, c) \<and> addInventory env 1 (sha env t) t True d = Inr d1
    \<and> bd_queue d1 = bd_queue d @ [inv_key 1 (sha env t)]
    \<and> bd_db d1 = es_index_all env (tx_docs (sha env t) t) (bd_db d)"
proof -
  obtain d1 where a: "addInventory env 1 (sha env t) t True d = Inr d1" using addInventory_tx by blast
  then have "bd_queue d1 = bd_queue d @ [inv_key 1 (sha env t)]" by (auto simp: addInventory_def Let_def)
  with a assms addInventory_db [OF a] show ?thesis by (simp add: bitcoin_packet_tx_def Let_def)
qed

lemma race_tx:
  assumes "\<not> knows env 1 (sha env t) d"
  shows "\<exists>d2. w_packet_tx env t ([other_peer (bitcoin_packet_tx env t) other], d, c) = ([], d2, c)
    \<and> bd_queue d2 = bd_queue d @ [inv_key 1 (sha env t), inv_key 1 (sha env t)]
    \<and> bd_db d2 = es_index_all env (tx_docs (sha env t) t @ tx_docs (sha env t) t) (bd_db d)"
proof -
  let ?o = "other_peer (bitcoin_packet_tx env t) other"
  obtain d1 where d1: "bitcoin_packet_tx env t (d, other) = Inr (d1, other)" "bd_queue d1 = bd_queue d @ [inv_key 1 (sha env t)]"
      "bd_db d1 = es_index_all env (tx_docs (sha env t) t) (bd_db d)"
    using packet_tx_new [OF assms, of other] by blast
  obtain d2 where d2: "addInventory env 1 (sha env t) t True d1 = Inr d2" using addInventory_tx by blast
  have "w_knows env 1 (sha env t) ([?o], d, c) = (False, [], d1, c)"
    using assms d1(1) by (auto simp: w_knows_def knows_def other_peer_def split: if_splits)
  then have "w_packet_tx env t ([?o], d, c) = ([], d2, c)" by (simp add: w_packet_tx_def Let_def w_add_tx_waits [OF d2])
  moreover have "bd_queue d2 = bd_queue d1 @ [inv_key 1 (sha env t)]" using d2 by (auto simp: addInventory_def Let_def)
  moreover have "bd_db d2 = es_index_all env (tx_docs (sha env t) t @ tx_docs (sha env t) t) (bd_db d)"
    using addInventory_db [OF d2] d1(3) by (simp add: es_index_all_def)
  ultimately show ?thesis using d1(2) by simp
qed

lemma store_block_new:
  assumes "B = block_of_data (sha env) p 0" "\<not> knows env 2 (bl_hash B) d" "bl_valid (getBlock env (bl_parent B) d) \<or> bl_parent B = zero_hash"
  shows "\<exists>B' d1. B' = (if bl_valid (getBlock env (bl_parent B) d) then B\<lparr>bl_height := bl_height (getBlock env (bl_parent B) d) + 1\<rparr> else B)
    \<and> bl_hash B' = bl_hash B \<and> bl_valid B' \<and> store_block env p d = addBlock env B' d \<and> addBlock env B' d = Inr d1"
proof -
  have "bl_valid B" by (simp add: assms(1) block_of_data_def split: prod.splits)
  then show ?thesis using assms addBlock_Inr by (auto simp: store_block_def Let_def)
qed

lemma race_block:
  assumes B: "B = block_of_data (sha env) p 0" "\<not> knows env 2 (bl_hash B) d" "bl_valid (getBlock env (bl_parent B) d) \<or> bl_parent B = zero_hash"
    and B': "B' = (if bl_valid (getBlock env (bl_parent B) d) then B\<lparr>bl_height := bl_height (getBlock env (bl_parent B) d) + 1\<rparr> else B)"
  shows "\<exists>d1 d2 c2. w_packet_block env p ([id, other_peer (bitcoin_packet_block env p) other], d, c) = ([], d2, c2)
    \<and> addBlock env B' d = Inr d1 \<and> addBlock env B' d1 = Inr d2
    \<and> bd_queue d2 = bd_queue d @ [inv_key 2 (bl_hash B), inv_key 2 (bl_hash B)]"
proof -
  let ?o = "other_peer (bitcoin_packet_block env p) other"
  obtain d1 where B': "B' = (if bl_valid (getBlock env (bl_parent B) d) then B\<lparr>bl_height := bl_height (getBlock env (bl_parent B) d) + 1\<rparr> else B)"
      "bl_hash B' = bl_hash B" "bl_valid B'" "store_block env p d = Inr d1" "addBlock env B' d = Inr d1"
    using store_block_new [OF B] B' by metis
  obtain d2 where d2: "addBlock env B' d1 = Inr d2" using addBlock_Inr by blast
  have o: "?o (d, c) = (d1, c)"
    using packet_block_daemon [of env p d other] by (cases "bitcoin_packet_block env p (d, other)") (auto simp: other_peer_def B'(4))
  have "w_knows env 2 (bl_hash B') ([?o], d, c) = (False, [], d1, c)"
    using B(2) by (auto simp: w_knows_def knows_def o B'(2) split: if_splits)
  then have "w_store_block env p ([id, ?o], d, c) = ([], d2, c)"
    using B(3) by (auto simp: w_store_block_def Let_def w_getBlock_def B(1) [symmetric] B'(1) [symmetric] w_addBlock_quiet [OF d2])
  then have "w_packet_block env p ([id, ?o], d, c) = ([], request_next env (block_todl_list c) (d2, c))"
    using w_request_next_quiet [of env d2 "block_todl_list c" c] by (simp add: w_packet_block_def)
  then have "w_packet_block env p ([id, ?o], d, c) = ([], d2, snd (request_next env (block_todl_list c) (d2, c)))"
    using request_next_daemon [where l = "block_todl_list c" and d = d2 and c = c and env = env] by (metis prod.collapse)
  moreover have "bd_queue d2 = bd_queue d @ [inv_key 2 (bl_hash B), inv_key 2 (bl_hash B)]"
    using addBlock_queue(1) [OF B'(5,3)] addBlock_queue(1) [OF d2 B'(3)] by (simp add: B'(2))
  ultimately show ?thesis using B'(5) d2 by blast
qed

text \<open>One packet after the other: the second finds the first in the cache.\<close>

lemma in_turn_tx:
  assumes "\<not> knows env 1 (sha env t) d"
  shows "\<exists>d1. fold_out (\<lambda>c d. map_out fst (bitcoin_packet_tx env t (d, c))) [other, c] d = Inr d1
    \<and> bd_queue d1 = bd_queue d @ [inv_key 1 (sha env t)] \<and> bd_db d1 = es_index_all env (tx_docs (sha env t) t) (bd_db d)"
proof -
  obtain d1 where d1: "bitcoin_packet_tx env t (d, other) = Inr (d1, other)" "addInventory env 1 (sha env t) t True d = Inr d1"
      "bd_queue d1 = bd_queue d @ [inv_key 1 (sha env t)]" "bd_db d1 = es_index_all env (tx_docs (sha env t) t) (bd_db d)" using packet_tx_new [OF assms, of other] by blast
  have "bd_cache (store_tx env h dat e) = bd_cache e" for h dat e by simp
  then have "knows env 1 (sha env t) d1" using d1(2) by (auto simp: addInventory_def Let_def knows_def cache_insert_known)
  then show ?thesis using d1 by (simp add: bitcoin_packet_tx_def Let_def)
qed

lemma in_turn_block:
  assumes B: "B = block_of_data (sha env) p 0" "\<not> knows env 2 (bl_hash B) d" "bl_valid (getBlock env (bl_parent B) d) \<or> bl_parent B = zero_hash"
    and B': "B' = (if bl_valid (getBlock env (bl_parent B) d) then B\<lparr>bl_height := bl_height (getBlock env (bl_parent B) d) + 1\<rparr> else B)"
  shows "\<exists>d1. fold_out (\<lambda>c d. map_out fst (bitcoin_packet_block env p (d, c))) [other, c] d = Inr d1
    \<and> addBlock env B' d = Inr d1 \<and> bd_queue d1 = bd_queue d @ [inv_key 2 (bl_hash B)]"
proof -
  obtain d1 where d1: "bl_hash B' = bl_hash B" "bl_valid B'" "store_block env p d = Inr d1" "addBlock env B' d = Inr d1"
    using store_block_new [OF B] B' by metis
  have "store_block env p d1 = Inr d1" using addBlock_queue(2) [OF d1(4,2)] d1(1) B(1) by (intro store_known) simp
  then show ?thesis using addBlock_queue(1) [OF d1(4,2)] d1(1,3,4) by (simp add: packet_block_daemon)
qed

section \<open>The properties\<close>

text \<open>When nothing happens in the waits, the handlers with waits do what the handlers of the peer do, in which a call
  of the store is one step.\<close>

theorem bc_waits_quiet:
  "bitcoin_packet_tx env t (d, c) = Inr (snd (w_packet_tx env t ([], d, c)))
   \<and> bitcoin_packet_block env p (d, c) = Inr (snd (w_packet_block env p ([], d, c)))"
proof -
  obtain d1 where "addInventory env 1 (sha env t) t True d = Inr d1" using addInventory_tx by blast
  then have "bitcoin_packet_tx env t (d, c) = Inr (snd (w_packet_tx env t ([], d, c)))"
    by (simp add: bitcoin_packet_tx_def w_packet_tx_def Let_def w_add_tx_waits)
  moreover obtain d2 where d2: "store_block env p d = Inr d2" using store_block_total by blast
  have "bitcoin_packet_block env p (d, c) = Inr (snd (w_packet_block env p ([], d, c)))"
    using w_request_next_quiet [of env d2 "block_todl_list c" c]
    by (simp add: bitcoin_packet_block_def w_packet_block_def d2 w_store_block_quiet)
  ultimately show ?thesis by blast
qed

text \<open>C32: the answer that something is unknown is old when it arrives. A transaction that a second peer sends
  while the first one's handler waits for that answer is stored by both, each of its documents being sent to the store
  twice, and queued twice for announcement; a block, with the height its parent gives it, goes twice through all of
  \<open>addBlock\<close>, the second time on the daemon the first left, and is queued twice. Handled one after the other, the
  same two packets store and queue it once.\<close>

theorem bc_race_twice:
  assumes "\<not> knows env 1 (sha env t) d" and B: "B = block_of_data (sha env) p 0" "\<not> knows env 2 (bl_hash B) d"
    "bl_valid (getBlock env (bl_parent B) d) \<or> bl_parent B = zero_hash"
    and B': "B' = (if bl_valid (getBlock env (bl_parent B) d) then B\<lparr>bl_height := bl_height (getBlock env (bl_parent B) d) + 1\<rparr> else B)"
  shows "(\<exists>d1 d2. fold_out (\<lambda>c d. map_out fst (bitcoin_packet_tx env t (d, c))) [other, c] d = Inr d1
      \<and> w_packet_tx env t ([other_peer (bitcoin_packet_tx env t) other], d, c) = ([], d2, c)
      \<and> bd_db d1 = es_index_all env (tx_docs (sha env t) t) (bd_db d)
      \<and> bd_db d2 = es_index_all env (tx_docs (sha env t) t @ tx_docs (sha env t) t) (bd_db d)
      \<and> bd_queue d1 = bd_queue d @ [inv_key 1 (sha env t)]
      \<and> bd_queue d2 = bd_queue d @ [inv_key 1 (sha env t), inv_key 1 (sha env t)])
    \<and> (\<exists>d1 d2 c2. fold_out (\<lambda>c d. map_out fst (bitcoin_packet_block env p (d, c))) [other, c] d = Inr d1
      \<and> w_packet_block env p ([id, other_peer (bitcoin_packet_block env p) other], d, c) = ([], d2, c2)
      \<and> addBlock env B' d = Inr d1 \<and> addBlock env B' d1 = Inr d2
      \<and> bd_queue d1 = bd_queue d @ [inv_key 2 (bl_hash B)]
      \<and> bd_queue d2 = bd_queue d @ [inv_key 2 (bl_hash B), inv_key 2 (bl_hash B)])"
proof -
  from in_turn_block [OF B B', of other c] obtain d1 where d1:
    "fold_out (\<lambda>c d. map_out fst (bitcoin_packet_block env p (d, c))) [other, c] d = Inr d1" "addBlock env B' d = Inr d1"
    "bd_queue d1 = bd_queue d @ [inv_key 2 (bl_hash B)]" by blast
  from race_block [OF B B', of other c] d1(2) obtain d2 c2 where d2:
    "w_packet_block env p ([id, other_peer (bitcoin_packet_block env p) other], d, c) = ([], d2, c2)" "addBlock env B' d1 = Inr d2"
    "bd_queue d2 = bd_queue d @ [inv_key 2 (bl_hash B), inv_key 2 (bl_hash B)]" by auto
  from d1 d2 in_turn_tx [OF assms(1), of other c] race_tx [OF assms(1), of other c] show ?thesis by blast
qed

text \<open>A transaction and a first block that an empty daemon gets from two peers at once.\<close>

theorem bc_race_twice_witness:
  "\<exists>d1 d2 p h. w_packet_tx ex_bc_env [1] ([other_peer (bitcoin_packet_tx ex_bc_env [1]) ex_bc_client], ex_bc_daemon, ex_bc_client)
      = ([], d1, ex_bc_client)
    \<and> bd_queue d1 = [inv_key 1 [1, 1, 7, 9], inv_key 1 [1, 1, 7, 9]]
    \<and> fst (snd (w_packet_block ex_bc_env p ([id, other_peer (bitcoin_packet_block ex_bc_env p) ex_bc_client], ex_bc_daemon, ex_bc_client))) = d2
    \<and> bd_queue d2 = [inv_key 2 h, inv_key 2 h]"
proof -
  let ?p = "header_bytes 1 zero_hash zero_hash 5 6 7 @ []"
  have z: "length zero_hash = 32" by (simp add: zero_hash_def)
  have unknown: "\<not> knows ex_bc_env type h ex_bc_daemon" for type h by (simp add: knows_def ex_bc_env_def ex_bc_daemon_def)
  have h: "sha ex_bc_env [1] = [1, 1, 7, 9]" by (simp add: ex_bc_env_def ex_sha_def)
  let ?B = "block_of_data (sha ex_bc_env) ?p 0"
  have par: "bl_parent ?B = zero_hash" unfolding block_of_header [OF z z] by simp
  have q: "bd_queue ex_bc_daemon = []" by (simp add: ex_bc_daemon_def)
  note race = bc_race_twice [OF unknown [of 1 "sha ex_bc_env [1]"] refl unknown [of 2] _ refl, of ?p ex_bc_client ex_bc_client]
  obtain d1 where "w_packet_tx ex_bc_env [1] ([other_peer (bitcoin_packet_tx ex_bc_env [1]) ex_bc_client], ex_bc_daemon, ex_bc_client)
      = ([], d1, ex_bc_client)" "bd_queue d1 = [inv_key 1 [1, 1, 7, 9], inv_key 1 [1, 1, 7, 9]]"
    using race par unfolding h q by auto
  moreover obtain d2 c2 where "w_packet_block ex_bc_env ?p ([id, other_peer (bitcoin_packet_block ex_bc_env ?p) ex_bc_client],
      ex_bc_daemon, ex_bc_client) = ([], d2, c2)" "bd_queue d2 = [inv_key 2 (bl_hash ?B), inv_key 2 (bl_hash ?B)]"
    using race par unfolding q by auto
  ultimately show ?thesis by (intro exI [of _ d1] exI [of _ d2] exI [of _ ?p] exI [of _ "bl_hash ?B"]) simp
qed

end
