(* ===== verification/Mod_PS_Relays.thy ===== *)
theory Mod_PS_Relays
  imports Mod_PS_Refine Mod_PS_Props
begin

text \<open>
  Two relays: one is a client of the other, which it has as a master. What the lower one writes to its master, the
  upper one reads as the packets of a client; what is published at the upper one comes back to the lower one and
  reaches its clients.
\<close>

section \<open>The packets between them\<close>

text \<open>A network that takes all that is written.\<close>

definition roomy :: "ps_env \<Rightarrow> bool" where
  "roomy env \<longleftrightarrow> (\<forall>i a d. env i a d = int (length d))"

text \<open>A whole packet from a relay to its master: a ping, or a channel of 16 bytes taken or given up.\<close>

definition relay_packet :: "bytes \<Rightarrow> bool" where
  "relay_packet p \<longleftrightarrow> p = ping_packet \<or> length p = 19 \<and> take 3 p \<in> {[0, 17, 0x81], [0, 17, 0x82]}"

lemma relay_packet_cases [consumes 1, case_names ping subscribe unsubscribe]:
  assumes "relay_packet p"
  obtains "p = ping_packet"
    | ch where "length ch = 16" "p = [0, 17, 0x81] @ ch"
    | ch where "length ch = 16" "p = [0, 17, 0x82] @ ch"
proof (cases "p = ping_packet")
  case False
  then have p: "length (drop 3 p) = 16" "p = take 3 p @ drop 3 p" "take 3 p = [0, 17, 0x81] \<or> take 3 p = [0, 17, 0x82]"
    using assms by (auto simp: relay_packet_def)
  from p(3) show thesis
  proof
    assume "take 3 p = [0, 17, 0x81]"
    then show thesis using that(2) [of "drop 3 p"] p(1,2) by metis
  next
    assume "take 3 p = [0, 17, 0x82]"
    then show thesis using that(3) [of "drop 3 p"] p(1,2) by metis
  qed
qed (rule that(1))

lemma ping_length: "length ping_packet = 27" "be16_len ping_packet = 27"
  by (simp_all add: ping_packet_def be16_len_def)

lemma cut_whole:
  assumes "2 \<le> length p" "be16_len p = length p"
  shows "ps_cut (p @ r) = Packet p r"
  using assms by (simp add: ps_cut_def be16_len_append)

lemma relay_whole:
  assumes "relay_packet p"
  shows "2 \<le> length p \<and> be16_len p = length p"
  using assms
proof (cases rule: relay_packet_cases)
  case ping
  then show ?thesis by (simp add: ping_length)
qed (simp_all add: be16_len_def)

lemma cut_all_whole:
  "\<forall>p\<in>set ps. 2 \<le> length p \<and> be16_len p = length p \<Longrightarrow> cut_all ps_cut (concat ps) = (ps, [], False)"
proof (induction ps)
  case Nil
  have "ps_cut [] = More" by (simp add: ps_cut_def)
  then show ?case by (simp add: ps_framer.cut_all_More)
next
  case (Cons p ps)
  then show ?case by (simp add: ps_framer.cut_all_Packet [OF cut_whole])
qed

section \<open>What a master reads\<close>

text \<open>A master takes the bytes written to it apart as any relay does with the bytes of a client: the channels it holds
  for the connection at the end, and the bytes that wait for the rest of their packet.\<close>

definition master_view :: "bytes \<Rightarrow> bytes set \<times> bytes" where
  "master_view b = (case cut_all ps_cut b of (ps, r, x) \<Rightarrow> (snd (fold spec_packet ps ([], {})), r))"

lemma spec_relay_packet: "relay_packet p \<Longrightarrow> snd (spec_packet p v) = view_step p (snd v)"
  by (cases v, cases rule: relay_packet_cases)
    (auto simp: spec_packet_def packet_type_def channel_of_def view_step_def ping_packet_def ba_mid_def take_3)

lemma spec_relay_packets: "list_all relay_packet ps \<Longrightarrow> snd (fold spec_packet ps v) = fold view_step ps (snd v)"
  by (induction ps arbitrary: v) (simp_all add: spec_relay_packet)

lemma master_view_whole:
  assumes "list_all relay_packet ps"
  shows "master_view (concat ps) = (written_view ps, [])"
proof -
  have "cut_all ps_cut (concat ps) = (ps, [], False)"
    by (rule cut_all_whole) (use assms relay_whole in \<open>auto simp: list_all_iff\<close>)
  with assms show ?thesis by (simp add: master_view_def spec_relay_packets written_view_def)
qed

text \<open>Every channel in use has 16 bytes, and every packet written to a master is whole.\<close>

definition all_whole :: "mod_ps \<Rightarrow> bool" where
  "all_whole s \<longleftrightarrow> (\<forall>ch. qm_contains (channel_refcount s) ch \<longrightarrow> length ch = 16)
     \<and> (\<forall>k m. map_of (masters s) k = Some (Some m) \<longrightarrow> list_all relay_packet (m_out m))"

lemma relay_packets [simp]:
  "relay_packet ping_packet"
  "length ch = 16 \<Longrightarrow> relay_packet (subscribe_packet ch)" "length ch = 16 \<Longrightarrow> relay_packet (unsubscribe_packet ch)"
  by (simp_all add: relay_packet_def subscribe_packet_eq unsubscribe_packet_eq take_3)

lemma all_whole_frame:
  "channel_refcount s' = channel_refcount s \<Longrightarrow> masters s' = masters s \<Longrightarrow> all_whole s' = all_whole s"
  by (simp add: all_whole_def)

lemma all_whole_tell: "all_whole s \<Longrightarrow> relay_packet p \<Longrightarrow> all_whole (tell_masters p s)"
  by (auto simp: all_whole_def tell_masters_def map_of_qm_map)

lemma all_whole_addRef:
  assumes "ps_good s" "all_whole s" "length ch = 16" "channelAddRef ch s = Inr s'"
  shows "all_whole s'"
proof -
  have k: "all_whole (s\<lparr>channel_refcount := qm_insert ch n (channel_refcount s)\<rparr>)" for n
    using assms(1-3) by (auto simp: all_whole_def ps_good_def qm_contains_dom qmap_simps split: if_splits)
  show ?thesis
    using assms(3,4) k all_whole_tell [OF k] ps_good_masters_nonnull [OF assms(1)]
    by (auto simp: channelAddRef_def doSubscribe_ok split: if_splits)
qed

lemma all_whole_delRef:
  assumes "ps_good s" "all_whole s" "channelDelRef ch s = Inr s'"
  shows "ps_good s' \<and> all_whole s'"
proof -
  have c: "qm_contains (channel_refcount s) ch" using assms(3) by (auto simp: channelDelRef_def split: if_splits)
  then have "0 < ref_value s ch" using ref_value_pos [OF assms(1)] by simp
  with delRef_ok [OF assms(1)] assms(3) have "ps_good s'" by force
  moreover have i: "all_whole (s\<lparr>channel_refcount := qm_insert ch n (channel_refcount s)\<rparr>)" for n
    using assms(1,2) c by (auto simp: all_whole_def ps_good_def qm_contains_dom qmap_simps split: if_splits)
  moreover have r: "all_whole (s\<lparr>channel_refcount := qm_remove ch (channel_refcount s)\<rparr>)"
    using assms(1,2) by (auto simp: all_whole_def ps_good_def qm_contains_dom qmap_simps split: if_splits)
  moreover have "length ch = 16" using assms(2) c by (simp add: all_whole_def)
  ultimately show ?thesis
    using assms(3) c all_whole_tell [OF r] ps_good_masters_nonnull [OF assms(1)]
    by (auto simp: channelDelRef_def doUnsubscribe_ok split: if_splits)
qed

lemma all_whole_delRefs:
  "ps_good s \<Longrightarrow> all_whole s \<Longrightarrow> fold_out channelDelRef chs s = Inr s' \<Longrightarrow> all_whole s'"
proof (induction chs arbitrary: s)
  case (Cons ch chs)
  from Cons.prems(3) obtain s1 where "channelDelRef ch s = Inr s1" "fold_out channelDelRef chs s1 = Inr s'"
    by (auto simp: bind_out_Inr_iff)
  with Cons.IH all_whole_delRef [OF Cons.prems(1,2)] show ?case by blast
qed simp

lemma all_whole_on_client [simp]: "all_whole (on_client i f s) = all_whole s"
  by (rule all_whole_frame) simp_all

lemma all_whole_clients [simp]: "all_whole (s\<lparr>ps_clients := cs\<rparr>) = all_whole s"
  by (rule all_whole_frame) simp_all

lemma all_whole_handlePacket:
  assumes inv: "ps_inv s" and w: "all_whole s" and p: "packet_type p = 0x81 \<longrightarrow> 19 \<le> length p"
    and h: "handlePacket env i p s = Inr s'"
  shows "all_whole s'"
proof -
  have good: "ps_good (on_client i f s)" for f using ps_invD(1) [OF inv] by simp
  have sub: "all_whole t" if "length ch = 16" "handleSubscribe i ch s = Inr t" for ch t
    using that w all_whole_addRef [OF good, where ch = ch and s' = t] by (auto simp: handleSubscribe_def split: option.splits if_splits)
  have unsub: "all_whole t" if "handleUnsubscribe i ch s = Inr t" for ch t
    using that w all_whole_delRef [OF good, where ch = ch and s' = t] by (auto simp: handleUnsubscribe_def split: option.splits if_splits)
  have l: "3 \<le> length p" using h handlePacket_short [of p env i s] by (cases "length p < 3") simp_all
  then have "packet_type p = p ! 2" by (simp add: packet_type_def)
  with p have "length (ba_mid 3 16 p) = 16" if "p ! 2 = 0x81" using that by (simp add: length_ba_mid)
  with h l w sub unsub show ?thesis by (auto simp: handlePacket_def Let_def split: if_splits)
qed

lemma all_whole_handlePackets:
  "ps_inv s \<Longrightarrow> all_whole s \<Longrightarrow> \<forall>p\<in>set ps. packet_type p = 0x81 \<longrightarrow> 19 \<le> length p \<Longrightarrow>
   fold_out (handlePacket env i) ps s = Inr s' \<Longrightarrow> all_whole s'"
proof (induction ps arbitrary: s)
  case (Cons p ps)
  from Cons.prems(4) obtain s1 where s1: "handlePacket env i p s = Inr s1" "fold_out (handlePacket env i) ps s1 = Inr s'"
    by (auto simp: bind_out_Inr_iff)
  have "all_whole s1" by (rule all_whole_handlePacket [OF Cons.prems(1,2) _ s1(1)]) (use Cons.prems(3) in simp)
  with Cons.IH [OF ps_inv_handlePacket [OF Cons.prems(1) s1(1)]] Cons.prems(3) s1(2) show ?case by simp
qed simp

lemma all_whole_handleBuffer:
  assumes inv: "ps_inv s" and w: "all_whole s" and c: "map_of (ps_clients s) i = Some c"
    and p: "length (buf_in c @ t) \<le> 100 * 1024 \<longrightarrow>
      (\<forall>p\<in>set (fst (cut_all ps_cut (buf_in c @ t))). packet_type p = 0x81 \<longrightarrow> 19 \<le> length p)"
    and h: "ps_handleBuffer env i t s = Inr s'"
  shows "all_whole s'"
proof (cases "length (buf_in c @ t) \<le> 100 * 1024")
  case True
  obtain ps r x where cut: "cut_all ps_cut (buf_in c @ t) = (ps, r, x)" by (metis prod_cases3)
  from h ps_handleBuffer_eq [OF c True cut] obtain s1
    where s1: "fold_out (handlePacket env i) ps s = Inr s1" "s' = set_buf i r s1"
    by (cases "fold_out (handlePacket env i) ps s") auto
  have "all_whole s1" by (rule all_whole_handlePackets [OF inv w _ s1(1)]) (use p True cut in simp)
  with s1(2) show ?thesis by (simp add: set_buf_def)
next
  case False
  with h c w show ?thesis by (auto simp: ps_handleBuffer_def Let_def ps_loop.simps)
qed

text \<open>Publishing does not touch the masters nor the channels in use.\<close>

lemma pushPacket_frame: "pushPacket env d s = Inr s' \<Longrightarrow> masters s' = masters s \<and> channel_refcount s' = channel_refcount s"
proof (induction env d s rule: pushPacket.induct)
  case (1 env d s)
  from 1(2) have "2 \<le> length d" by (rule pushed_length)
  note len = packet_length_be16 [OF this]
  show ?case
  proof (cases "17 \<le> be16_len d \<and> be16_len d < length d")
    case True
    then have "pushPacket env (ba_left (be16_len d) d) s = Inr s'"
      using 1(2) by (subst (asm) pushPacket.simps) (simp add: len)
    with 1(1) [of "be16_len d"] True show ?thesis by auto
  next
    case False
    with 1(2) show ?thesis
      by (subst (asm) pushPacket.simps)
        (auto simp: len emit_channelPacket_def Let_def bind_out_Inr_iff split: if_splits)
  qed
qed

lemma pushPackets_frame: "fold_out (pushPacket env) ps s = Inr s' \<Longrightarrow>
    masters s' = masters s \<and> channel_refcount s' = channel_refcount s"
  by (induction ps arbitrary: s) (auto simp: bind_out_Inr_iff dest!: pushPacket_frame)

lemma all_whole_on_master:
  assumes "all_whole s" "\<And>m. list_all relay_packet (m_out m) \<Longrightarrow> list_all relay_packet (m_out (f m))"
  shows "all_whole (on_master k f s)"
  using assms by (auto simp: all_whole_def on_master_def map_of_update split: if_splits)

lemma all_whole_readFromMaster:
  assumes w: "all_whole s" and h: "readFromMaster env now k got s = Inr s'"
  shows "all_whole s'"
proof (cases "\<exists>m. map_of (masters s) k = Some (Some m)")
  case True
  then obtain m where m: "map_of (masters s) k = Some (Some m)" by blast
  let ?s = "on_master k (\<lambda>m. m\<lparr>m_stamp := now\<rparr>) s"
  obtain ps r x where p: "cut_all ps_cut (m_in m @ got) = (ps, r, x)" by (metis prod_cases3)
  from h m p obtain s1 where s1: "fold_out (pushPacket env) ps ?s = Inr s1" "s' = on_master k (\<lambda>m. m\<lparr>m_in := r\<rparr>) s1"
    by (cases "fold_out (pushPacket env) ps ?s") (auto simp: readFromMaster_def Let_def master_loop_cut_all)
  have "all_whole ?s" by (rule all_whole_on_master [OF w]) simp
  then have "all_whole s1" using pushPackets_frame [OF s1(1)] all_whole_frame [of s1 ?s] by simp
  then show ?thesis unfolding s1(2) by (rule all_whole_on_master) simp
next
  case False
  with h w show ?thesis by (auto simp: readFromMaster_def split: option.splits)
qed

lemma all_whole_up:
  assumes "all_whole s"
  shows "all_whole (masterConnected k s)"
proof -
  have "relay_packet p" if "p \<in> subscribe_packet ` set (qm_keys (channel_refcount s))" for p
    using that assms by (auto simp: all_whole_def qm_contains_dom set_qm_keys)
  with assms show ?thesis
    by (auto simp: all_whole_def masterConnected_def map_of_update list_all_iff split: if_splits)
qed

lemma all_whole_check: "all_whole s \<Longrightarrow> all_whole (checkMasters now s)"
proof -
  have "list_all relay_packet (m_out m)"
    if "check_master now k v = Some m" "\<And>m. v = Some m \<Longrightarrow> list_all relay_packet (m_out m)" for k v m
    using that by (cases v) (auto simp: check_master_def new_master_def connect_master_def Let_def
        split: sock_state.splits if_splits)
  then show "all_whole s \<Longrightarrow> all_whole (checkMasters now s)"
    by (auto simp: all_whole_def checkMasters_def map_of_qm_map) blast
qed

lemma all_whole_reload:
  assumes inv: "ps_inv s" and w: "all_whole s"
  shows "all_whole (ps_reload now cm cl s)"
proof -
  let ?confs = "case cm of None \<Rightarrow> [] | Some l \<Rightarrow> l"
  obtain ms cur where am: "add_masters ?confs (masters s) (qm_keys (masters s)) = (ms, cur)" by (metis surj_pair)
  have wf: "qm_wf (masters s)" using inv by (simp add: ps_inv_split [of s])
  have "all_whole (s\<lparr>subscribe_limit := l, masters := fold qm_remove cur ms\<rparr>)" for l
    using w reload_masters(3) [OF wf am] unfolding all_whole_def by fastforce
  with am show ?thesis by (auto simp: ps_reload_def Let_def intro!: all_whole_check)
qed

section \<open>What a master was told\<close>

text \<open>A client that subscribes as protocol.md says sends at least the 16 bytes of a channel.\<close>

definition whole_subscription :: "ps_action \<Rightarrow> bool" where
  "whole_subscription a = (case a of FromClient i p \<Rightarrow> packet_type p = 0x81 \<longrightarrow> 2 + 17 \<le> length p | _ \<Rightarrow> True)"

lemma all_whole_do:
  assumes inv: "ps_inv s" and w: "all_whole s" and a: "list_all whole_subscription (ps_acts e s)"
    and e: "ps_can e s" "ps_do env e s = Inr s'"
  shows "all_whole s'"
proof (cases e)
  case (EData i t)
  with e obtain c where c: "map_of (ps_clients s) i = Some c" by (auto split: option.splits)
  show ?thesis
    by (rule all_whole_handleBuffer [OF inv w c, of t env])
      (use a e EData c in \<open>auto simp: list_all_iff whole_subscription_def\<close>)
next
  case (EDestroy i)
  with e w all_whole_delRefs [OF ps_invD(1) [OF inv] w] show ?thesis
    by (auto simp: ps_client_destroy_def bind_out_Inr_iff split: option.splits)
next
  case (EDatagram d)
  with e have "pushPacket env d s = Inr s'" by (simp add: ps_incomingDatagram_def)
  from pushPacket_frame [OF this] w show ?thesis using all_whole_frame [of s' s] by simp
next
  case (EMasterData now k got)
  with e all_whole_readFromMaster [OF w] show ?thesis by simp
next
  case (EConnect i)
  with e w show ?thesis by (auto simp: ps_incomingTcp_def)
next
  case (EMasterUp k)
  have "all_whole (on_master k (\<lambda>m. m\<lparr>m_state := Connected\<rparr>) s)" by (rule all_whole_on_master [OF w]) simp
  with EMasterUp e all_whole_up show ?thesis by auto
next
  case (EMasterOther k st)
  have "all_whole (on_master k (\<lambda>m. m\<lparr>m_state := st\<rparr>) s)" by (rule all_whole_on_master [OF w]) simp
  with EMasterOther e show ?thesis by auto
next
  case (ETimer now)
  with e all_whole_check [OF w] show ?thesis by auto
next
  case (EReload now cm cl)
  with e all_whole_reload [OF inv w] show ?thesis by auto
qed (use e w in auto)

lemma all_whole_trace: "ps_trace as s \<Longrightarrow> list_all whole_subscription as \<Longrightarrow> all_whole s"
proof (induction rule: ps_trace.induct)
  case start
  show ?case by (simp add: all_whole_def new_ps_def qm_contains_def)
next
  case (step as s e env s')
  then show ?case using all_whole_do [OF ps_reachable_inv [OF ps_trace_reachable [OF step(1)]] _ _ step(2,3)] by simp
qed

text \<open>C21: what a connected master has been told, read off the wire. In every run in which the subscriptions of the
  clients carry the 16 bytes of channel that protocol.md asks for, the bytes written to a connected master since its
  connection was made fall apart, by their length fields, into whole packets, and these make a master hold exactly
  the channels that some connected client of this relay is subscribed to. (A shorter subscription is taken as it is
  and leaves the master with a packet that swallows the bytes of the next: \<open>ps_short_subscription\<close>.)\<close>

theorem ps_master_subscriptions:
  assumes "ps_trace as s" "list_all whole_subscription as"
    "map_of (masters s) k = Some (Some m)" "m_state m = Connected"
  shows "master_view (concat (m_out m)) = ({ch. ref_total s ch \<noteq> 0}, [])"
proof -
  have "list_all relay_packet (m_out m)"
    using all_whole_trace [OF assms(1,2)] assms(3) by (simp add: all_whole_def)
  with written_view_subscribed [OF ps_trace_reachable [OF assms(1)] assms(3,4)] show ?thesis
    by (simp add: master_view_whole)
qed

text \<open>A master that comes up, a client that subscribes to two channels and gives up the first, in reads cut within packets.\<close>

definition told_events :: "ps_event list" where
  "told_events = [EReload 100 (Some [''m:1'']) None, EMasterUp ''m:1'', EConnect 7,
     EData 7 ([0, 17, 0x81] @ take 9 ref_chan), EData 7 (drop 9 ref_chan @ [0, 17]), EData 7 (0x81 # rev ref_chan),
     EData 7 ([0, 17, 0x82] @ ref_chan)]"

definition told_end :: "ps_action list \<times> mod_ps" where
  "told_end = (case fold_out ref_step told_events ([], new_ps) of Inl e \<Rightarrow> ([], new_ps) | Inr st \<Rightarrow> st)"

lemma told_end_run: "fold_out ref_step told_events ([], new_ps) = Inr told_end"
proof -
  have "(case fold_out ref_step told_events ([], new_ps) of Inl e \<Rightarrow> False | Inr st \<Rightarrow> True)" by code_simp
  then show ?thesis by (auto simp: told_end_def split: sum.splits)
qed

theorem ps_master_subscriptions_witness:
  "\<exists>m. map_of (masters (snd told_end)) ''m:1'' = Some (Some m)
     \<and> m_out m = [subscribe_packet ref_chan, subscribe_packet (rev ref_chan), unsubscribe_packet ref_chan]
     \<and> master_view (concat (m_out m)) = ({ch. ref_total (snd told_end) ch \<noteq> 0}, [])
     \<and> ref_total (snd told_end) (rev ref_chan) = 1"
proof -
  have run: "ps_trace (fst told_end) (snd told_end)" by (rule ref_trace_runs [OF told_end_run]) (simp add: ps_trace.start)
  have "fst told_end = [Join 7, FromClient 7 ([0, 17, 0x81] @ ref_chan), FromClient 7 ([0, 17, 0x81] @ rev ref_chan),
      FromClient 7 ([0, 17, 0x82] @ ref_chan)]" by code_simp
  then have w: "list_all whole_subscription (fst told_end)" by (simp add: whole_subscription_def ref_chan_def)
  have "map_option (\<lambda>v. map_option (\<lambda>m. (m_state m, m_out m)) v) (map_of (masters (snd told_end)) ''m:1'')
      = Some (Some (Connected, [subscribe_packet ref_chan, subscribe_packet (rev ref_chan), unsubscribe_packet ref_chan]))"
    by code_simp
  then obtain m where m: "map_of (masters (snd told_end)) ''m:1'' = Some (Some m)" "m_state m = Connected"
      "m_out m = [subscribe_packet ref_chan, subscribe_packet (rev ref_chan), unsubscribe_packet ref_chan]"
    by (auto split: option.splits)
  have "ref_total (snd told_end) (rev ref_chan) = 1" by code_simp
  with ps_master_subscriptions [OF run w m(1,2)] m show ?thesis by blast
qed

section \<open>The upper relay\<close>

text \<open>Client \<open>j\<close> is connected, nothing waits in its buffers, its socket took \<open>out\<close> and its channels are \<open>V\<close>.\<close>

definition at_client :: "nat \<Rightarrow> bytes \<Rightarrow> bytes set \<Rightarrow> mod_ps \<Rightarrow> bool" where
  "at_client j out V s \<longleftrightarrow> ps_inv s \<and> subscribe_limit s = {} \<and> (case map_of (ps_clients s) j of None \<Rightarrow> False
     | Some c \<Rightarrow> sock_open c \<and> write_buf c = [] \<and> accepted c = out \<and> set (channels c) = V)"

lemma roomy_write:
  assumes "roomy env" "sock_open c" "write_buf c = []"
  shows "sock_open (env_write env i d c)" "write_buf (env_write env i d c) = []" "accepted (env_write env i d c) = accepted c @ d"
  using assms by (simp_all add: env_write_def roomy_def tcp_defs Let_def)

lemma at_client_ping:
  assumes "at_client j out V s" "roomy env"
  shows "\<exists>s'. handlePacket env j ping_packet s = Inr s' \<and> at_client j (out @ ping_packet) V s'"
proof -
  obtain c where c: "map_of (ps_clients s) j = Some c" "sock_open c" "write_buf c = []" "accepted c = out" "set (channels c) = V"
    using assms(1) by (auto simp: at_client_def split: option.splits)
  have "handlePacket env j ping_packet s = Inr (on_client j (env_write env j ping_packet) s)"
    by (simp add: handlePacket_def byte_at_def ping_packet_def)
  moreover have "at_client j (out @ ping_packet) V (on_client j (env_write env j ping_packet) s)"
    using assms(1) c roomy_write [OF assms(2) c(2,3)] by (simp add: at_client_def ps_inv_on_client map_of_update)
  ultimately show ?thesis by blast
qed

lemma at_client_subscribe:
  assumes "at_client j out V s" "length ch = 16"
  shows "\<exists>s'. handlePacket env j ([0, 17, 0x81] @ ch) s = Inr s' \<and> at_client j out (insert ch V) s'"
proof -
  obtain c where c: "map_of (ps_clients s) j = Some c" "sock_open c" "write_buf c = []" "accepted c = out" "set (channels c) = V"
    using assms(1) by (auto simp: at_client_def split: option.splits)
  have inv: "ps_inv s" "subscribe_limit s = {}" using assms(1) by (simp_all add: at_client_def)
  have h: "handlePacket env j ([0, 17, 0x81] @ ch) s = handleSubscribe j ch s"
    using assms(2) by (simp add: handlePacket_def byte_at_def ba_mid_def take_3)
  obtain s' where s': "handleSubscribe j ch s = Inr s'" "ps_inv s'" using handleSubscribe_safe [OF inv(1)] by (auto simp: ps_safe_def)
  have "at_client j out (insert ch V) s'"
  proof (cases "ch \<in> set (channels c)")
    case True
    then have "s' = s" using s'(1) c(1) by (simp add: handleSubscribe_def)
    with True c assms(1) show ?thesis by (simp add: at_client_def insert_absorb)
  next
    case False
    let ?t = "on_client j (\<lambda>c. c\<lparr>channels := channels c @ [ch]\<rparr>) s"
    have r: "channelAddRef ch ?t = Inr s'" using s'(1) c(1) False inv(2) by (simp add: handleSubscribe_def canSubscribe_def)
    then have "ps_clients s' = ps_clients ?t" "subscribe_limit s' = subscribe_limit ?t"
      using clients_of_refs(1) addRef_ok [of ?t ch] ps_invD(1) [OF inv(1)] by auto
    with c inv s'(2) show ?thesis by (simp add: at_client_def map_of_update)
  qed
  with h s' show ?thesis by simp
qed

lemma at_client_unsubscribe:
  assumes "at_client j out V s" "length ch = 16"
  shows "\<exists>s'. handlePacket env j ([0, 17, 0x82] @ ch) s = Inr s' \<and> at_client j out (V - {ch}) s'"
proof -
  obtain c where c: "map_of (ps_clients s) j = Some c" "sock_open c" "write_buf c = []" "accepted c = out" "set (channels c) = V"
    using assms(1) by (auto simp: at_client_def split: option.splits)
  have inv: "ps_inv s" "subscribe_limit s = {}" using assms(1) by (simp_all add: at_client_def)
  have h: "handlePacket env j ([0, 17, 0x82] @ ch) s = handleUnsubscribe j ch s"
    using assms(2) by (simp add: handlePacket_def byte_at_def ba_mid_def take_3)
  obtain s' where s': "handleUnsubscribe j ch s = Inr s'" "ps_inv s'" using handleUnsubscribe_safe [OF inv(1)] by (auto simp: ps_safe_def)
  have "at_client j out (V - {ch}) s'"
  proof (cases "ch \<in> set (channels c)")
    case False
    then have "s' = s" using s'(1) c(1) by (simp add: handleUnsubscribe_def)
    with False c assms(1) show ?thesis by (simp add: at_client_def)
  next
    case True
    let ?t = "on_client j (\<lambda>c. c\<lparr>channels := remove1 ch (channels c)\<rparr>) s"
    have r: "channelDelRef ch ?t = Inr s'" using s'(1) c(1) True by (simp add: handleUnsubscribe_def)
    have "0 < ref_value ?t ch" using subscribers_pos [OF c(1) True] ps_invD(4) [OF inv(1)] by simp
    then have "ps_clients s' = ps_clients ?t" "subscribe_limit s' = subscribe_limit ?t"
      using r clients_of_refs(2) delRef_ok [of ?t ch] ps_invD(1) [OF inv(1)] by auto
    moreover have "distinct (channels c)" by (rule ps_invD(3) [OF inv(1) c(1)])
    ultimately show ?thesis using c inv s'(2) by (simp add: at_client_def map_of_update)
  qed
  with h s' show ?thesis by simp
qed

lemma upper_packet:
  assumes "at_client j out V s" "roomy env" "relay_packet p"
  shows "\<exists>s1. handlePacket env j p s = Inr s1 \<and> at_client j (out @ (if p = ping_packet then p else [])) (view_step p V) s1"
  using assms(3)
proof (cases rule: relay_packet_cases)
  case ping
  have "view_step ping_packet V = V" by (simp add: view_step_def ping_packet_def take_3)
  then show ?thesis using at_client_ping [OF assms(1,2)] ping by simp
next
  case (subscribe ch)
  then have "p \<noteq> ping_packet" "view_step p V = insert ch V" by (auto simp: ping_packet_def view_step_def take_3)
  then show ?thesis using at_client_subscribe [OF assms(1) subscribe(1), of env] subscribe(2) by simp
next
  case (unsubscribe ch)
  then have "p \<noteq> ping_packet" "view_step p V = V - {ch}" by (auto simp: ping_packet_def view_step_def take_3)
  then show ?thesis using at_client_unsubscribe [OF assms(1) unsubscribe(1), of env] unsubscribe(2) by simp
qed

lemma upper_reads:
  "at_client j out V s \<Longrightarrow> roomy env \<Longrightarrow> list_all relay_packet ps \<Longrightarrow>
   \<exists>s'. fold_out (handlePacket env j) ps s = Inr s'
     \<and> at_client j (out @ concat (filter (\<lambda>p. p = ping_packet) ps)) (fold view_step ps V) s'"
proof (induction ps arbitrary: s out V)
  case (Cons p ps)
  obtain s1 where s1: "handlePacket env j p s = Inr s1" "at_client j (out @ (if p = ping_packet then p else [])) (view_step p V) s1"
    using upper_packet [OF Cons.prems(1,2)] Cons.prems(3) by auto
  from Cons.IH [OF s1(2) Cons.prems(2)] Cons.prems(3) s1(1) show ?case by (auto split: if_splits)
qed simp

section \<open>The lower relay\<close>

lemma ping_ignored: "pushPacket env ping_packet s = Inr s"
proof -
  have "packet_length ping_packet = Inr 27" "byte_at ping_packet 2 = Inr 0x80"
    using packet_length_be16 [of ping_packet] by (simp_all add: ping_length byte_at_def) (simp add: ping_packet_def)
  then show ?thesis by (subst pushPacket.simps) (simp add: ping_length)
qed

lemma pings_ignored: "\<forall>p\<in>set ps. p = ping_packet \<Longrightarrow> fold_out (pushPacket env) ps s = Inr s"
  by (induction ps) (simp_all add: ping_ignored)

text \<open>What the lower relay does with pings that come back and then, perhaps, a published packet.\<close>

lemma lower_reads:
  assumes "ps_inv s" "map_of (masters s) k = Some (Some m)" "m_in m = []" "\<forall>p\<in>set ps. p = ping_packet"
    "17 \<le> length p" "be16_len p = length p" "p ! 2 AND 0x80 = 0"
  shows "\<exists>s'. readFromMaster env now k (concat ps @ (if sent then p else [])) s = Inr s'
    \<and> (\<forall>i. map_of (ps_clients s') i = map_option (\<lambda>c.
        if sent \<and> channel_of p \<in> set (channels c) then env_write env i p c else c) (map_of (ps_clients s) i))"
proof -
  let ?s = "on_master k (\<lambda>m. m\<lparr>m_stamp := now\<rparr>) s" and ?ps = "ps @ (if sent then [p] else [])"
  have inv: "ps_inv ?s" by (rule on_master_safe [OF assms(1)]) (simp add: master_ok_def)
  have "\<forall>p\<in>set ?ps. 2 \<le> length p \<and> be16_len p = length p" using assms(4-6) by (auto simp: ping_length)
  then have "cut_all ps_cut (concat ?ps) = (?ps, [], False)" by (rule cut_all_whole)
  then have c: "cut_all ps_cut (concat ps @ (if sent then p else [])) = (?ps, [], False)" by (cases sent) simp_all
  obtain s1 where s1: "fold_out (pushPacket env) ?ps ?s = Inr s1"
      "\<forall>i. map_of (ps_clients s1) i = map_option (\<lambda>c.
        if sent \<and> channel_of p \<in> set (channels c) then env_write env i p c else c) (map_of (ps_clients ?s) i)"
    using delivery [OF inv assms(5-7), of env]
    by (cases sent) (auto simp: fold_out_append pings_ignored [OF assms(4)] channel_of_def option.map_ident)
  then show ?thesis
    using assms(2,3) by (simp add: readFromMaster_def Let_def master_loop_cut_all c) (simp add: on_master_def)
qed

section \<open>Both levels\<close>

lemma at_client_set_buf: "at_client j out V (set_buf j b s) \<longleftrightarrow> at_client j out V s" if "ps_inv s"
  using that by (auto simp: at_client_def set_buf_def map_of_update ps_inv_on_client split: option.splits)

lemma published_at_client:
  assumes "at_client j out V s" "roomy env" "17 \<le> length p" "be16_len p = length p" "p ! 2 AND 0x80 = 0"
  shows "\<exists>s' c. pushPacket env p s = Inr s' \<and> map_of (ps_clients s') j = Some c \<and> set (channels c) = V
    \<and> accepted c = out @ (if channel_of p \<in> V then p else [])"
proof -
  obtain c where c: "map_of (ps_clients s) j = Some c" "sock_open c" "write_buf c = []" "accepted c = out" "set (channels c) = V"
    using assms(1) by (auto simp: at_client_def split: option.splits)
  have "ps_inv s" using assms(1) by (simp add: at_client_def)
  from delivery [OF this assms(3-5), of env] obtain s' where "pushPacket env p s = Inr s'"
      "map_of (ps_clients s') j = Some (if channel_of p \<in> V then env_write env j p c else c)"
    using c by (auto simp: channel_of_def)
  then show ?thesis using c roomy_write(3) [OF assms(2) c(2,3)] by auto
qed

text \<open>C13: relays in two levels. A relay that has written only whole packets to a connected master, and a master without
  limits that reads them as a new client: the master then holds for that client exactly the channels somebody is
  subscribed to at the lower relay, and a packet published at the master, read back by the lower relay together with
  the pings the master returned, is written to each client there that is subscribed to its channel and to no other.\<close>

theorem ps_two_relays:
  assumes D: "ps_reachable D" "map_of (masters D) k = Some (Some m)" "m_state m = Connected" "m_in m = []"
    and told: "list_all relay_packet (m_out m)" "length (concat (m_out m)) \<le> 100 * 1024"
    and U: "ps_reachable U" "map_of (ps_clients U) j = Some new_ps_client" "subscribe_limit U = {}" "roomy env"
    and p: "17 \<le> length p" "be16_len p = length p" "p ! 2 AND 0x80 = 0"
  shows "\<exists>U1 U2 c D1. ps_handleBuffer env j (concat (m_out m)) U = Inr U1 \<and> pushPacket env p U1 = Inr U2
    \<and> map_of (ps_clients U2) j = Some c \<and> set (channels c) = {ch. ref_total D ch \<noteq> 0}
    \<and> readFromMaster env' now k (accepted c) D = Inr D1
    \<and> (\<forall>i. map_of (ps_clients D1) i = map_option (\<lambda>c.
        if channel_of p \<in> set (channels c) then env_write env' i p c else c) (map_of (ps_clients D) i))"
proof -
  note invD = ps_reachable_inv [OF D(1)]
  let ?V = "{ch. ref_total D ch \<noteq> 0}" and ?pings = "filter (\<lambda>p. p = ping_packet) (m_out m)"
  have V: "fold view_step (m_out m) {} = ?V"
    using written_view_subscribed [OF D(1-3)] by (simp add: written_view_def)
  have "at_client j [] {} U"
    using ps_reachable_inv [OF U(1)] U(2,3) by (simp add: at_client_def new_ps_client_def)
  from upper_reads [OF this U(4) told(1)] obtain U0 where U0: "fold_out (handlePacket env j) (m_out m) U = Inr U0"
      "at_client j (concat ?pings) ?V U0" by (auto simp: V)
  have "cut_all ps_cut (concat (m_out m)) = (m_out m, [], False)"
    by (rule cut_all_whole) (use told(1) relay_whole in \<open>auto simp: list_all_iff\<close>)
  then have "ps_handleBuffer env j (concat (m_out m)) U = Inr (set_buf j [] U0)"
    using ps_handleBuffer_eq [OF U(2), of "concat (m_out m)" "m_out m" "[]" False env] told(2) U0(1)
    by (simp add: new_ps_client_def)
  moreover have "at_client j (concat ?pings) ?V (set_buf j [] U0)"
    using U0(2) at_client_set_buf [of U0] by (simp add: at_client_def)
  from published_at_client [OF this U(4) p] obtain U2 c where U2: "pushPacket env p (set_buf j [] U0) = Inr U2"
      "map_of (ps_clients U2) j = Some c" "set (channels c) = ?V"
      "accepted c = concat ?pings @ (if channel_of p \<in> ?V then p else [])" by blast
  obtain D1 where D1: "readFromMaster env' now k (accepted c) D = Inr D1"
      "\<forall>i. map_of (ps_clients D1) i = map_option (\<lambda>c.
        if channel_of p \<in> ?V \<and> channel_of p \<in> set (channels c) then env_write env' i p c else c) (map_of (ps_clients D) i)"
    using lower_reads [OF invD D(2,4) _ p, of ?pings env' now "channel_of p \<in> ?V"] U2(4) by auto
  have "channel_of p \<in> ?V" if "map_of (ps_clients D) i = Some c" "channel_of p \<in> set (channels c)" for i c
    using subscribers_pos [OF that] by (simp add: ref_total_eq)
  then have "\<forall>i. map_of (ps_clients D1) i = map_option (\<lambda>c.
        if channel_of p \<in> set (channels c) then env_write env' i p c else c) (map_of (ps_clients D) i)"
    unfolding spec [OF D1(2)] by (intro allI option.map_cong) auto
  with U2 D1 calculation show ?thesis by blast
qed

text \<open>The lower relay is the one with a subscribed client and one master; the upper one has just accepted a client.\<close>

definition ex_top :: mod_ps where
  "ex_top = ps_incomingTcp 3 new_ps"

theorem ps_two_relays_witness:
  "\<exists>U1 U2 c D1. ps_handleBuffer ex_env 3 (subscribe_packet ex_chan) ex_top = Inr U1
    \<and> pushPacket ex_env ([0, 18, 0] @ ex_chan @ [42]) U1 = Inr U2
    \<and> map_of (ps_clients U2) 3 = Some c \<and> ex_chan \<in> set (channels c)
    \<and> readFromMaster ex_env 7 ''m:1'' (accepted c) ex_sub = Inr D1
    \<and> map_option accepted (map_of (ps_clients D1) 7) = Some ([0, 18, 0] @ ex_chan @ [42])"
proof -
  let ?d = "[0, 18, 0] @ ex_chan @ [42] :: bytes"
  obtain m where m: "map_of (masters ex_sub) ''m:1'' = Some (Some m)" "m_state m = Connected" "m_out m = [subscribe_packet ex_chan]"
    using ex_sub_master by (auto split: option.splits)
  have "map_option (\<lambda>v. map_option m_in v) (map_of (masters ex_sub) ''m:1'') = Some (Some [])" by code_simp
  then have m_in: "m_in m = []" using m(1) by simp
  have told: "list_all relay_packet (m_out m)" "length (concat (m_out m)) \<le> 100 * 1024"
    by (simp_all add: m(3) relay_packet_def subscribe_packet_eq ex_chan_def)
  have top: "ps_reachable ex_top" "map_of (ps_clients ex_top) 3 = Some new_ps_client" "subscribe_limit ex_top = {}"
    unfolding ex_top_def by (rule ps_reachable.step [OF ps_reachable.start ps_step.connect]) (simp_all add: new_ps_def ps_incomingTcp_def)
  have d: "17 \<le> length ?d" "be16_len ?d = length ?d" "?d ! 2 AND 0x80 = 0" "channel_of ?d = ex_chan" by code_simp+
  have r: "roomy ex_env" by (simp add: roomy_def ex_env_def)
  have c7: "map_option (\<lambda>c. (sock_open c, write_buf c, accepted c, ex_chan \<in> set (channels c))) (map_of (ps_clients ex_sub) 7) = Some (True, [], [], True)"
    by code_simp
  then obtain c where c: "map_of (ps_clients ex_sub) 7 = Some c" "sock_open c" "write_buf c = []" "accepted c = []" "ex_chan \<in> set (channels c)"
    by auto
  have "ref_total ex_sub ex_chan \<noteq> 0" using subscribers_pos [OF c(1,5)] by (simp add: ref_total_eq)
  then show ?thesis
    using ps_two_relays [OF ex_sub_reachable m(1,2) m_in told top r d(1-3), of ex_env 7] c roomy_write(3) [OF r c(2,3), of 7 ?d]
    unfolding d(4) m(3) by (force simp: concat_map_singleton)
qed

end
