(* ===== verification/Core_Settings.thy ===== *)
theory Core_Settings
  imports Core_Config_Props
begin

text \<open>
  core/Core: the one \<open>QSettings\<close> object that all threads share. Its current group is part of
  its state, so the calls \<open>beginGroup\<close>, \<open>allKeys\<close>, \<open>value\<close> and \<open>endGroup\<close> of two
  threads must not mix: \<open>reloadConfig\<close>, in the thread of the core, and \<open>getConfig\<close>, called by
  a daemon in its own thread, both hold \<open>settings_lock\<close> around them. Here the two functions
  are the calls they make, and threads interleave after every single call.
\<close>

section \<open>The calls on the settings object\<close>

text \<open>\<open>ReadValues sk\<close> is the loop over \<open>k\<close>: one \<open>value\<close> call per turn, except for the
  keys \<open>sk\<close>, whose turn ends before it (daemons that run already).\<close>

datatype instr = Lock | BeginGroup string | AllKeys | ReadValues "string list" | EndGroup | Unlock

text \<open>A thread: the calls it has still to make, the rest of its \<open>k\<close>, what its loop has read
  so far, and what its finished loops have read. \<open>None\<close> marks a value that was not asked for.\<close>

type_synonym key_reads = "(string \<times> string option) list"

record thread =
  th_code :: "instr list"
  th_keys :: "string list"
  th_read :: key_reads
  th_got :: "key_reads list"

record shared =
  st_owner :: "nat option"
  st_group :: "string list"
  st_threads :: "thread list"

text \<open>The path of the current group, nested groups separated by a slash; \<open>value\<close> of a key
  that is not there is the empty string.\<close>

fun group_path :: "string list \<Rightarrow> string" where
  "group_path [] = []"
| "group_path [g] = g"
| "group_path (g # h # gs) = g @ ''/'' @ group_path (h # gs)"

definition settings_value :: "settings \<Rightarrow> string list \<Rightarrow> string \<Rightarrow> string" where
  "settings_value conf g k = (case map_of (conf (group_path g)) k of None \<Rightarrow> [] | Some v \<Rightarrow> v)"

definition key_read :: "settings \<Rightarrow> string list \<Rightarrow> string list \<Rightarrow> string \<Rightarrow> string \<times> string option" where
  "key_read conf g sk k = (k, if k \<in> set sk then None else Some (settings_value conf g k))"

text \<open>Thread \<open>i\<close> makes its next call; \<open>None\<close> when it waits for the mutex or has finished.\<close>

definition set_thread :: "nat \<Rightarrow> thread \<Rightarrow> shared \<Rightarrow> shared" where
  "set_thread i t w = w\<lparr>st_threads := (st_threads w)[i := t]\<rparr>"

fun settings_call :: "settings \<Rightarrow> nat \<Rightarrow> instr list \<Rightarrow> thread \<Rightarrow> shared \<Rightarrow> shared option" where
  "settings_call conf i [] t w = None"
| "settings_call conf i (Lock # c) t w =
     (if st_owner w = None then Some (set_thread i (t\<lparr>th_code := c\<rparr>) (w\<lparr>st_owner := Some i\<rparr>)) else None)"
| "settings_call conf i (BeginGroup g # c) t w =
     Some (set_thread i (t\<lparr>th_code := c\<rparr>) (w\<lparr>st_group := st_group w @ [g]\<rparr>))"
| "settings_call conf i (AllKeys # c) t w =
     Some (set_thread i (t\<lparr>th_code := c, th_keys := map fst (conf (group_path (st_group w)))\<rparr>) w)"
| "settings_call conf i (ReadValues sk # c) t w =
     (case th_keys t of
        [] \<Rightarrow> Some (set_thread i (t\<lparr>th_code := c\<rparr>) w)
      | k # ks \<Rightarrow> Some (set_thread i
          (t\<lparr>th_keys := ks, th_read := th_read t @ [key_read conf (st_group w) sk k]\<rparr>) w))"
| "settings_call conf i (EndGroup # c) t w =
     Some (set_thread i (t\<lparr>th_code := c, th_got := th_got t @ [th_read t], th_read := []\<rparr>)
       (w\<lparr>st_group := butlast (st_group w)\<rparr>))"
| "settings_call conf i (Unlock # c) t w =
     Some (set_thread i (t\<lparr>th_code := c\<rparr>) (w\<lparr>st_owner := None\<rparr>))"

definition settings_step :: "settings \<Rightarrow> nat \<Rightarrow> shared \<Rightarrow> shared option" where
  "settings_step conf i w =
     (if length (st_threads w) \<le> i then None
      else settings_call conf i (th_code (st_threads w ! i)) (st_threads w ! i) w)"

text \<open>A schedule names the thread that makes each call.\<close>

fun run_schedule :: "settings \<Rightarrow> nat list \<Rightarrow> shared \<Rightarrow> shared option" where
  "run_schedule conf [] w = Some w"
| "run_schedule conf (i # sched) w =
     (case settings_step conf i w of None \<Rightarrow> None | Some w \<Rightarrow> run_schedule conf sched w)"

section \<open>The two functions\<close>

datatype job = Reload "string list" | GetConfig string

definition group_code :: "string \<Rightarrow> string list \<Rightarrow> instr list" where
  "group_code g sk = [BeginGroup g, AllKeys, ReadValues sk, EndGroup]"

definition reload_groups :: "string list \<Rightarrow> (string \<times> string list) list" where
  "reload_groups running = [(''preload'', []), (''daemons'', running), (''tcp'', []), (''udp'', []), (''udg'', [])]"

definition reloadConfig_code :: "string list \<Rightarrow> instr list" where
  "reloadConfig_code running = Lock # concat (map (\<lambda>(g, sk). group_code g sk) (reload_groups running)) @ [Unlock]"

definition getConfig_code :: "string \<Rightarrow> instr list" where
  "getConfig_code daemon = Lock # group_code (''conf-'' @ daemon) [] @ [Unlock]"

fun job_code :: "job \<Rightarrow> instr list" where
  "job_code (Reload running) = reloadConfig_code running"
| "job_code (GetConfig daemon) = getConfig_code daemon"

definition start_threads :: "job list list \<Rightarrow> shared" where
  "start_threads jobs = \<lparr>st_owner = None, st_group = [],
     st_threads = map (\<lambda>js. \<lparr>th_code = concat (map job_code js), th_keys = [], th_read = [], th_got = []\<rparr>) jobs\<rparr>"

text \<open>What the loops of a job are to read: the groups of the file, each as it is.\<close>

definition group_reads :: "settings \<Rightarrow> string \<times> string list \<Rightarrow> key_reads" where
  "group_reads conf gs = map (\<lambda>(k, v). (k, if k \<in> set (snd gs) then None else Some v)) (conf (fst gs))"

fun job_reads :: "settings \<Rightarrow> job \<Rightarrow> key_reads list" where
  "job_reads conf (Reload running) = map (group_reads conf) (reload_groups running)"
| "job_reads conf (GetConfig daemon) = [group_reads conf (''conf-'' @ daemon, [])]"

text \<open>The map \<open>getConfig\<close> returns, and the settings a reload has read.\<close>

definition config_of :: "key_reads \<Rightarrow> (string, string) qmap" where
  "config_of r = fold (\<lambda>(k, v) res. qm_insert k (case v of None \<Rightarrow> [] | Some v \<Rightarrow> v) res) r []"

definition settings_of :: "key_reads list \<Rightarrow> settings" where
  "settings_of rs g = (case map_of (zip (map fst (reload_groups [])) rs) g of None \<Rightarrow> []
     | Some r \<Rightarrow> map (\<lambda>(k, v). (k, case v of None \<Rightarrow> [] | Some v \<Rightarrow> v)) r)"

section \<open>What a thread will have read\<close>

text \<open>Seen from one thread that nobody disturbs: what its loops will have read at the end, how
  many calls it makes until then, and that it uses the object only under the mutex and leaves it as
  it found it. \<open>g\<close>, \<open>k\<close> and \<open>r\<close> are the current group and the thread's own
  variables.\<close>

fun will_read :: "settings \<Rightarrow> string list \<Rightarrow> string list \<Rightarrow> key_reads \<Rightarrow> instr list \<Rightarrow> key_reads list" where
  "will_read conf g k r [] = []"
| "will_read conf g k r (Lock # c) = will_read conf [] k r c"
| "will_read conf g k r (BeginGroup h # c) = will_read conf (g @ [h]) k r c"
| "will_read conf g k r (AllKeys # c) = will_read conf g (map fst (conf (group_path g))) r c"
| "will_read conf g k r (ReadValues sk # c) = will_read conf g [] (r @ map (key_read conf g sk) k) c"
| "will_read conf g k r (EndGroup # c) = r # will_read conf (butlast g) k [] c"
| "will_read conf g k r (Unlock # c) = will_read conf [] k r c"

fun calls_left :: "settings \<Rightarrow> string list \<Rightarrow> string list \<Rightarrow> instr list \<Rightarrow> nat" where
  "calls_left conf g k [] = 0"
| "calls_left conf g k (Lock # c) = Suc (calls_left conf [] k c)"
| "calls_left conf g k (BeginGroup h # c) = Suc (calls_left conf (g @ [h]) k c)"
| "calls_left conf g k (AllKeys # c) = Suc (calls_left conf g (map fst (conf (group_path g))) c)"
| "calls_left conf g k (ReadValues sk # c) = Suc (length k + calls_left conf g [] c)"
| "calls_left conf g k (EndGroup # c) = Suc (calls_left conf (butlast g) k c)"
| "calls_left conf g k (Unlock # c) = Suc (calls_left conf [] k c)"

fun locked_use :: "bool \<Rightarrow> nat \<Rightarrow> instr list \<Rightarrow> bool" where
  "locked_use h n [] \<longleftrightarrow> \<not> h \<and> n = 0"
| "locked_use h n (Lock # c) \<longleftrightarrow> \<not> h \<and> n = 0 \<and> locked_use True 0 c"
| "locked_use h n (BeginGroup g # c) \<longleftrightarrow> h \<and> locked_use h (Suc n) c"
| "locked_use h n (AllKeys # c) \<longleftrightarrow> h \<and> locked_use h n c"
| "locked_use h n (ReadValues sk # c) \<longleftrightarrow> h \<and> locked_use h n c"
| "locked_use h n (EndGroup # c) \<longleftrightarrow> h \<and> 0 < n \<and> locked_use h (n - 1) c"
| "locked_use h n (Unlock # c) \<longleftrightarrow> h \<and> n = 0 \<and> locked_use False 0 c"

text \<open>A thread outside its critical section does not depend on the current group.\<close>

lemma locked_use_outside:
  assumes "locked_use False n c"
  shows "will_read conf g k r c = will_read conf g' k r c" "calls_left conf g k c = calls_left conf g' k c"
  using assms by (cases c; cases "hd c"; simp)+

text \<open>The code of a job keeps to that, and reads the groups as they are in the file.\<close>

lemma will_read_group:
  assumes "\<And>g. distinct (map fst (conf g))"
  shows "will_read conf [] k [] (group_code g sk @ c) = group_reads conf (g, sk) # will_read conf [] [] [] c"
proof -
  have "map (key_read conf [g] sk) (map fst (conf g)) = group_reads conf (g, sk)"
    using assms [of g] by (auto simp: group_reads_def key_read_def settings_value_def)
  then show ?thesis by (simp add: group_code_def del: map_map)
qed

lemma will_read_job:
  assumes "\<And>g. distinct (map fst (conf g))"
  shows "will_read conf g [] [] (job_code j @ c) = job_reads conf j @ will_read conf [] [] [] c"
  by (cases j) (simp_all add: reloadConfig_code_def getConfig_code_def reload_groups_def
      will_read_group [OF assms])

lemma locked_use_job: "locked_use False 0 c \<Longrightarrow> locked_use False 0 (job_code j @ c)"
  by (cases j) (simp_all add: reloadConfig_code_def getConfig_code_def reload_groups_def group_code_def)

lemma jobs_code:
  assumes "\<And>g. distinct (map fst (conf g))"
  shows "will_read conf g [] [] (concat (map job_code js)) = concat (map (job_reads conf) js)
    \<and> locked_use False 0 (concat (map job_code js))"
  by (induction js arbitrary: g) (simp_all add: will_read_job [OF assms] locked_use_job)

section \<open>The invariant\<close>

definition holds_lock :: "shared \<Rightarrow> nat \<Rightarrow> bool" where
  "holds_lock w i \<longleftrightarrow> st_owner w = Some i"

definition thread_ok :: "settings \<Rightarrow> shared \<Rightarrow> key_reads list \<Rightarrow> nat \<Rightarrow> thread \<Rightarrow> bool" where
  "thread_ok conf w tot i t \<longleftrightarrow>
     locked_use (holds_lock w i) (if holds_lock w i then length (st_group w) else 0) (th_code t)
     \<and> th_got t @ will_read conf (st_group w) (th_keys t) (th_read t) (th_code t) = tot"

definition shared_ok :: "settings \<Rightarrow> key_reads list list \<Rightarrow> shared \<Rightarrow> bool" where
  "shared_ok conf totals w \<longleftrightarrow> length (st_threads w) = length totals
     \<and> (st_owner w = None \<longrightarrow> st_group w = []) \<and> (\<forall>i. st_owner w = Some i \<longrightarrow> i < length totals)
     \<and> (\<forall>i < length totals. thread_ok conf w (totals ! i) i (st_threads w ! i))"

definition total_calls :: "settings \<Rightarrow> shared \<Rightarrow> nat" where
  "total_calls conf w = sum_list (map (\<lambda>t. calls_left conf (st_group w) (th_keys t) (th_code t)) (st_threads w))"

lemma holds_set_thread [simp]: "holds_lock (set_thread i t w) j = holds_lock w j"
  by (simp add: holds_lock_def set_thread_def)

text \<open>What a call of a thread does to its own view: it makes one of the calls it had left, will
  read what it would have read, and no other thread holds the mutex before or after.\<close>

lemma settings_call_self:
  assumes "settings_call conf i (th_code t) t w = Some w'" "thread_ok conf w tot i t"
    "st_owner w = None \<longrightarrow> st_group w = []"
  shows "\<exists>t'. st_threads w' = (st_threads w)[i := t'] \<and> thread_ok conf w' tot i t'
    \<and> (st_owner w' = None \<longrightarrow> st_group w' = []) \<and> (\<forall>j. j \<noteq> i \<longrightarrow> \<not> holds_lock w j \<and> \<not> holds_lock w' j)
    \<and> calls_left conf (st_group w) (th_keys t) (th_code t) = Suc (calls_left conf (st_group w') (th_keys t') (th_code t'))"
proof (cases "holds_lock w i")
  case False
  with assms(1,2) obtain c where c: "th_code t = Lock # c" "st_owner w = None"
    by (cases "th_code t"; cases "hd (th_code t)") (auto simp: thread_ok_def split: if_splits)
  with assms show ?thesis by (auto simp: thread_ok_def set_thread_def holds_lock_def)
next
  case True
  then have o: "st_owner w = Some i" by (simp add: holds_lock_def)
  from assms(1) obtain x c where "th_code t = x # c" by (cases "th_code t") auto
  with assms o show ?thesis
    by (cases x) (auto simp: thread_ok_def set_thread_def holds_lock_def split: list.splits)
qed

lemma thread_ok_other:
  assumes "thread_ok conf w tot j t" "\<not> holds_lock w j" "\<not> holds_lock w' j"
  shows "thread_ok conf w' tot j t
    \<and> calls_left conf (st_group w') (th_keys t) (th_code t) = calls_left conf (st_group w) (th_keys t) (th_code t)"
  using assms locked_use_outside(1) [of 0 "th_code t" conf "st_group w'" "th_keys t" "th_read t" "st_group w"]
    locked_use_outside(2) [of 0 "th_code t" conf "st_group w'" "th_keys t" "st_group w"]
  by (simp add: thread_ok_def)

lemma settings_step_ok:
  assumes "settings_step conf i w = Some w'" "shared_ok conf tots w"
  shows "shared_ok conf tots w' \<and> total_calls conf w = Suc (total_calls conf w')"
proof -
  from assms have i: "i < length tots" "length (st_threads w) = length tots"
    and c: "settings_call conf i (th_code (st_threads w ! i)) (st_threads w ! i) w = Some w'"
    and ok: "\<And>j. j < length tots \<Longrightarrow> thread_ok conf w (tots ! j) j (st_threads w ! j)"
    by (auto simp: settings_step_def shared_ok_def split: if_splits)
  from settings_call_self [OF c ok [OF i(1)]] assms(2) obtain t' where
    t': "st_threads w' = (st_threads w)[i := t']" "thread_ok conf w' (tots ! i) i t'"
      "st_owner w' = None \<longrightarrow> st_group w' = []"
    and o: "\<And>j. j \<noteq> i \<Longrightarrow> \<not> holds_lock w j \<and> \<not> holds_lock w' j"
    and n: "calls_left conf (st_group w) (th_keys (st_threads w ! i)) (th_code (st_threads w ! i))
      = Suc (calls_left conf (st_group w') (th_keys t') (th_code t'))"
    by (auto simp: shared_ok_def)
  have other: "thread_ok conf w' (tots ! j) j (st_threads w' ! j)
      \<and> calls_left conf (st_group w') (th_keys (st_threads w' ! j)) (th_code (st_threads w' ! j))
        = calls_left conf (st_group w) (th_keys (st_threads w ! j)) (th_code (st_threads w ! j))"
    if "j < length tots" "j \<noteq> i" for j
  proof -
    have "st_threads w' ! j = st_threads w ! j" using that(2) t'(1) by simp
    moreover from thread_ok_other [OF ok [OF that(1)]] o [OF that(2)]
    have "thread_ok conf w' (tots ! j) j (st_threads w ! j)
      \<and> calls_left conf (st_group w') (th_keys (st_threads w ! j)) (th_code (st_threads w ! j))
        = calls_left conf (st_group w) (th_keys (st_threads w ! j)) (th_code (st_threads w ! j))" by blast
    ultimately show ?thesis by (simp only: )
  qed
  have l: "length (st_threads w') = length tots" using t'(1) i by simp
  have "thread_ok conf w' (tots ! j) j (st_threads w' ! j)" if "j < length tots" for j
    using other [OF that] t'(1,2) i by (cases "j = i") simp_all
  moreover have "j < length tots" if "st_owner w' = Some j" for j
    using o [of j] i that by (cases "j = i") (auto simp: holds_lock_def)
  ultimately have "shared_ok conf tots w'" using l t'(3) by (simp add: shared_ok_def)
  moreover have "total_calls conf w = Suc (total_calls conf w')"
  proof -
    let ?f = "\<lambda>w j. calls_left conf (st_group w) (th_keys (st_threads w ! j)) (th_code (st_threads w ! j))"
    have tc: "total_calls conf v = (\<Sum>j<length tots. ?f v j)" if "length (st_threads v) = length tots" for v
      using that by (simp add: total_calls_def sum_list_sum_nth atLeast0LessThan)
    have "(\<Sum>j<length tots. ?f w j) = ?f w i + (\<Sum>j\<in>{..<length tots} - {i}. ?f w j)"
      using i by (intro sum.remove) auto
    moreover have "(\<Sum>j<length tots. ?f w' j) = ?f w' i + (\<Sum>j\<in>{..<length tots} - {i}. ?f w' j)"
      using i by (intro sum.remove) auto
    moreover have "(\<Sum>j\<in>{..<length tots} - {i}. ?f w' j) = (\<Sum>j\<in>{..<length tots} - {i}. ?f w j)"
      using other by (intro sum.cong) auto
    moreover have "?f w i = Suc (?f w' i)" using n t'(1) i by simp
    ultimately show ?thesis using tc [OF i(2)] tc [OF l] by simp
  qed
  ultimately show ?thesis ..
qed

lemma run_schedule_ok:
  "run_schedule conf sched w = Some w' \<Longrightarrow> shared_ok conf tots w \<Longrightarrow>
     shared_ok conf tots w' \<and> total_calls conf w = length sched + total_calls conf w'"
proof (induction sched arbitrary: w)
  case (Cons i sched)
  then obtain v where v: "settings_step conf i w = Some v" "run_schedule conf sched v = Some w'"
    by (auto split: option.splits)
  from settings_step_ok [OF v(1) Cons.prems(2)] Cons.IH [OF v(2)] show ?case by simp
qed simp

lemma start_threads_ok:
  assumes "\<And>g. distinct (map fst (conf g))"
  shows "shared_ok conf (map (\<lambda>js. concat (map (job_reads conf) js)) jobs) (start_threads jobs)"
  by (simp add: shared_ok_def start_threads_def thread_ok_def holds_lock_def jobs_code [OF assms])

text \<open>While calls are left, some thread can make one: the holder of the mutex, or anyone when
  it is free.\<close>

lemma calls_left_pos: "th_code t \<noteq> [] \<longleftrightarrow> calls_left conf g k (th_code t) \<noteq> 0"
  by (cases "th_code t"; cases "hd (th_code t)") simp_all

lemma settings_progress:
  assumes "shared_ok conf tots w" "total_calls conf w \<noteq> 0"
  shows "\<exists>i w'. settings_step conf i w = Some w'"
proof -
  have "\<exists>i<length tots. th_code (st_threads w ! i) \<noteq> [] \<and> (st_owner w = None \<or> st_owner w = Some i)"
  proof (cases "st_owner w")
    case None
    from assms obtain i where "i < length tots"
        "calls_left conf (st_group w) (th_keys (st_threads w ! i)) (th_code (st_threads w ! i)) \<noteq> 0"
      by (auto simp: total_calls_def in_set_conv_nth shared_ok_def)
    with None show ?thesis using calls_left_pos by blast
  next
    case (Some i)
    then have "i < length tots" "thread_ok conf w (tots ! i) i (st_threads w ! i)"
      using assms(1) by (auto simp: shared_ok_def)
    with Some show ?thesis by (auto simp: thread_ok_def holds_lock_def)
  qed
  then obtain i where i: "i < length tots" "th_code (st_threads w ! i) \<noteq> []" "st_owner w = None \<or> st_owner w = Some i"
    by blast
  then have "thread_ok conf w (tots ! i) i (st_threads w ! i)" "length (st_threads w) = length tots"
    using assms(1) by (auto simp: shared_ok_def)
  with i have "settings_step conf i w \<noteq> None"
    by (cases "th_code (st_threads w ! i)"; cases "hd (th_code (st_threads w ! i))")
       (auto simp: settings_step_def thread_ok_def holds_lock_def split: list.splits)
  then show ?thesis by auto
qed

lemma settings_finish:
  "shared_ok conf tots w \<Longrightarrow>
     \<exists>sched w'. run_schedule conf sched w = Some w' \<and> length sched = total_calls conf w \<and> total_calls conf w' = 0"
proof (induction "total_calls conf w" arbitrary: w)
  case 0
  then have "run_schedule conf [] w = Some w \<and> length ([] :: nat list) = total_calls conf w \<and> total_calls conf w = 0"
    by simp
  then show ?case by blast
next
  case (Suc n)
  from settings_progress [OF Suc.prems] Suc.hyps(2) obtain i v where v: "settings_step conf i w = Some v" by auto
  from settings_step_ok [OF v Suc.prems] Suc.hyps(2) have "shared_ok conf tots v" "n = total_calls conf v" by simp_all
  from Suc.hyps(1) [OF this(2,1)] obtain sched w' where
    "run_schedule conf sched v = Some w'" "length sched = n" "total_calls conf w' = 0"
    using \<open>n = total_calls conf v\<close> by auto
  with v Suc.hyps(2) have "run_schedule conf (i # sched) w = Some w' \<and> length (i # sched) = total_calls conf w
      \<and> total_calls conf w' = 0"
    by simp
  then show ?case by blast
qed

lemma schedule_from_start:
  assumes "\<And>g. distinct (map fst (conf g))" "run_schedule conf sched (start_threads jobs) = Some w"
  shows "shared_ok conf (map (\<lambda>js. concat (map (job_reads conf) js)) jobs) w
    \<and> total_calls conf (start_threads jobs) = length sched + total_calls conf w"
  using run_schedule_ok [OF assms(2) start_threads_ok [OF assms(1)]] .

lemma schedule_reads:
  assumes "\<And>g. distinct (map fst (conf g))" "run_schedule conf sched (start_threads jobs) = Some w" "i < length jobs"
  shows "\<exists>rest. th_got (st_threads w ! i) @ rest = concat (map (job_reads conf) (jobs ! i))
    \<and> (th_code (st_threads w ! i) = [] \<longrightarrow> rest = [])"
proof -
  from schedule_from_start [OF assms(1,2)] assms(3)
  have "thread_ok conf w (concat (map (job_reads conf) (jobs ! i))) i (st_threads w ! i)"
    by (simp add: shared_ok_def)
  then show ?thesis by (auto simp: thread_ok_def)
qed

lemma config_of_group: "config_of (group_reads conf (''conf-'' @ daemon, [])) = getConfig conf daemon"
  by (simp add: config_of_def group_reads_def getConfig_def fold_map comp_def case_prod_unfold)

section \<open>A reload works on what it has read\<close>

definition unasked :: "string list \<Rightarrow> string \<times> string \<Rightarrow> string \<times> string" where
  "unasked running kv = (fst kv, if fst kv \<in> set running then [] else snd kv)"

lemma filled_in: "map (\<lambda>(k, v). (k, case v of None \<Rightarrow> [] | Some v \<Rightarrow> v)) (group_reads conf (g, running))
    = map (unasked running) (conf g)"
  by (induction "conf g") (auto simp: group_reads_def unasked_def)

lemma unasked_Nil: "map (unasked []) k = k"
  by (induction k) (simp_all add: unasked_def)

lemma settings_of_reads:
  "settings_of (job_reads conf (Reload running)) ''daemons'' = map (unasked running) (conf ''daemons'')"
  "settings_of (job_reads conf (Reload running)) ''preload'' = conf ''preload''"
  "settings_of (job_reads conf (Reload running)) ''tcp'' = conf ''tcp''"
  "settings_of (job_reads conf (Reload running)) ''udp'' = conf ''udp''"
  "settings_of (job_reads conf (Reload running)) ''udg'' = conf ''udg''"
  unfolding settings_of_def by (simp_all add: reload_groups_def filled_in unasked_Nil del: map_map)

lemma load_daemons_unasked:
  "qm_wf (modules s) \<Longrightarrow> set running \<subseteq> set (qm_keys (daemons s)) \<Longrightarrow>
     load_daemons env n (map (unasked running) k) cur s = load_daemons env n k cur s"
proof (induction k arbitrary: cur s)
  case (Cons kv k)
  obtain a md where kv: "kv = (a, md)" by (cases kv)
  show ?case
  proof (cases "qm_contains (daemons s) a")
    case True
    with Cons kv show ?thesis by (simp add: unasked_def)
  next
    case False
    then have "a \<notin> set running" using Cons.prems(2) by (auto simp: contains_keys)
    then have u: "unasked running kv = (a, md)" by (simp add: unasked_def kv)
    show ?thesis
    proof (cases "modprobe (e_linker env) n md s")
      case None
      with False u kv show ?thesis by simp
    next
      case (Some r)
      then obtain ok t where t: "modprobe (e_linker env) n md s = Some (ok, t)" by (cases r) auto
      from modprobe_grows [OF Cons.prems(1) t] have g: "grows (e_linker env) s t" by blast
      have "set running \<subseteq> set (qm_keys (daemons t))" using growsD(2) [OF g] Cons.prems(2) by simp
      with Cons.IH [OF growsD(3) [OF g]] Cons.IH [of "add_daemon a t"] growsD(3) [OF g] False t u kv show ?thesis
        by (auto simp: add_daemon_def qm_keys_insert)
    qed
  qed
qed simp

lemma reload_of_reads:
  assumes "daemons_ok s"
  shows "reloadConfig env n (settings_of (job_reads conf (Reload (qm_keys (daemons s))))) s = reloadConfig env n conf s"
proof -
  have "load_daemons env n (map (unasked (qm_keys (daemons s))) k) cur p = load_daemons env n k cur p"
    if "load_preloads env n (conf ''preload'') s = Some p" for p k cur
    using load_daemons_unasked load_preloads_grows [OF that] assms growsD(2,3) by (simp add: daemons_ok_def)
  then show ?thesis
    unfolding reloadConfig_def reload_daemons_def settings_of_reads by (simp split: option.split)
qed

section \<open>Properties\<close>

text \<open>C6: however the calls of the threads interleave, every group that a reload or a
  \<open>getConfig\<close> has read is the group of the file, in the order its code asks for them, and a
  thread that has made all its calls has read them all; so \<open>getConfig\<close> returns the daemon's own
  section.\<close>

theorem settings_reads_isolated:
  assumes "\<And>g. distinct (map fst (conf g))" "run_schedule conf sched (start_threads jobs) = Some w" "i < length jobs"
  shows "(\<exists>rest. th_got (st_threads w ! i) @ rest = concat (map (job_reads conf) (jobs ! i))
      \<and> (th_code (st_threads w ! i) = [] \<longrightarrow> rest = []))
    \<and> (\<forall>daemon. map config_of (job_reads conf (GetConfig daemon)) = [getConfig conf daemon])"
  using schedule_reads [OF assms] config_of_group [of conf] by simp

definition ex_settings :: settings where
  "ex_settings g = (if g = ''preload'' then [(''a'', ''ext/x'')] else if g = ''conf-irc'' then [(''name'', ''n1'')] else [])"

definition ex_jobs :: "job list list" where
  "ex_jobs = [[Reload []], [GetConfig ''irc'']]"

text \<open>The daemon locks first, so the core makes its calls after the daemon's last one.\<close>

definition ex_schedule :: "nat list" where
  "ex_schedule = replicate 7 1 @ replicate 23 0"

lemma ex_settings_distinct: "distinct (map fst (ex_settings g))"
  by (simp add: ex_settings_def)


lemma ex_schedule_runs:
  "\<exists>w. run_schedule ex_settings ex_schedule (start_threads ex_jobs) = Some w
     \<and> th_code (st_threads w ! 1) = [] \<and> th_code (st_threads w ! 0) = []"
proof -
  have "map_option (\<lambda>w. (th_code (st_threads w ! 1), th_code (st_threads w ! 0)))
      (run_schedule ex_settings ex_schedule (start_threads ex_jobs)) = Some ([], [])" by code_simp
  then show ?thesis by auto
qed

theorem settings_reads_isolated_witness:
  "\<exists>w. run_schedule ex_settings ex_schedule (start_threads ex_jobs) = Some w
     \<and> th_got (st_threads w ! 1) = [[(''name'', Some ''n1'')]]
     \<and> th_got (st_threads w ! 0) = [[(''a'', Some ''ext/x'')], [], [], [], []]"
proof -
  from ex_schedule_runs obtain w where w: "run_schedule ex_settings ex_schedule (start_threads ex_jobs) = Some w"
      "th_code (st_threads w ! 1) = []" "th_code (st_threads w ! 0) = []" by blast
  have l: "1 < length ex_jobs" "0 < length ex_jobs" by (simp_all add: ex_jobs_def)
  note r = settings_reads_isolated [OF ex_settings_distinct w(1)]
  from r [OF l(1)] w(2) have "th_got (st_threads w ! 1) = concat (map (job_reads ex_settings) (ex_jobs ! 1))" by auto
  also have "\<dots> = [[(''name'', Some ''n1'')]]" by code_simp
  finally have one: "th_got (st_threads w ! 1) = [[(''name'', Some ''n1'')]]" .
  from r [OF l(2)] w(3) have "th_got (st_threads w ! 0) = concat (map (job_reads ex_settings) (ex_jobs ! 0))" by auto
  also have "\<dots> = [[(''a'', Some ''ext/x'')], [], [], [], []]" by code_simp
  finally show ?thesis using w(1) one by blast
qed

text \<open>C11: the mutex never leaves the threads waiting for each other: whatever calls were made
  so far, the remaining ones can be made, and every schedule that cannot be continued has made
  all of them; their number is fixed by the file and the jobs.\<close>

theorem settings_no_deadlock:
  assumes "\<And>g. distinct (map fst (conf g))" "run_schedule conf sched (start_threads jobs) = Some w"
  shows "(\<exists>sched' w'. run_schedule conf sched' w = Some w' \<and> (\<forall>t \<in> set (st_threads w'). th_code t = [])
      \<and> length sched + length sched' = total_calls conf (start_threads jobs))
    \<and> ((\<forall>i. settings_step conf i w = None) \<longrightarrow> length sched = total_calls conf (start_threads jobs))"
proof -
  note s = schedule_from_start [OF assms]
  from settings_finish [OF conjunct1 [OF s]] obtain sched' w' where
    f: "run_schedule conf sched' w = Some w'" "length sched' = total_calls conf w" "total_calls conf w' = 0" by blast
  have "th_code t = []" if "t \<in> set (st_threads w')" for t
    using f(3) that calls_left_pos [of t conf "st_group w'" "th_keys t"] by (auto simp: total_calls_def)
  with f s show ?thesis using settings_progress [OF conjunct1 [OF s]] by fastforce
qed

theorem settings_no_deadlock_witness:
  "\<exists>w. run_schedule ex_settings [1, 1, 1] (start_threads ex_jobs) = Some w \<and> settings_step ex_settings 0 w = None
     \<and> (\<exists>sched' w'. run_schedule ex_settings sched' w = Some w' \<and> (\<forall>t \<in> set (st_threads w'). th_code t = [])
        \<and> length sched' = 27)"
proof -
  have "map_option (\<lambda>w. settings_step ex_settings 0 w = None) (run_schedule ex_settings [1, 1, 1] (start_threads ex_jobs)) = Some True"
    by code_simp
  then obtain w where w: "run_schedule ex_settings [1, 1, 1] (start_threads ex_jobs) = Some w"
      "settings_step ex_settings 0 w = None" by auto
  have "total_calls ex_settings (start_threads ex_jobs) = 30" by code_simp
  with settings_no_deadlock [OF ex_settings_distinct w(1)] w show ?thesis by fastforce
qed

text \<open>C7: a reload whose calls are mixed with those of any other threads does what it would do
  on the file itself, although it does not ask for the modules of the daemons that run.\<close>

theorem reload_sees_file:
  assumes "\<And>g. distinct (map fst (conf g))" "run_schedule conf sched (start_threads jobs) = Some w"
    "i < length jobs" "jobs ! i = [Reload (qm_keys (daemons s))]" "th_code (st_threads w ! i) = []" "core_reachable s"
  shows "reloadConfig env n (settings_of (th_got (st_threads w ! i))) s = reloadConfig env n conf s"
proof -
  have "th_got (st_threads w ! i) = job_reads conf (Reload (qm_keys (daemons s)))"
    using schedule_reads [OF assms(1-3)] assms(4,5) by auto
  with reload_of_reads core_reachable_inv [OF assms(6)] show ?thesis by metis
qed

theorem reload_sees_file_witness:
  "\<exists>w. run_schedule ex_settings ex_schedule (start_threads ex_jobs) = Some w
     \<and> reloadConfig ex_core_env 9 (settings_of (th_got (st_threads w ! 0))) ex_core = reloadConfig ex_core_env 9 ex_settings ex_core
     \<and> reloadConfig ex_core_env 9 ex_settings ex_core \<noteq> None"
proof -
  from ex_schedule_runs obtain w where w: "run_schedule ex_settings ex_schedule (start_threads ex_jobs) = Some w"
      "th_code (st_threads w ! 0) = []" by blast
  have "0 < length ex_jobs" "ex_jobs ! 0 = [Reload (qm_keys (daemons ex_core))]"
    by (simp_all add: ex_jobs_def ex_core_def new_core_def)
  from reload_sees_file [OF ex_settings_distinct w(1) this w(2) ex_core_reachable]
  have "reloadConfig ex_core_env 9 (settings_of (th_got (st_threads w ! 0))) ex_core = reloadConfig ex_core_env 9 ex_settings ex_core" .
  moreover have "reloadConfig ex_core_env 9 ex_settings ex_core \<noteq> None" by code_simp
  ultimately show ?thesis using w(1) by blast
qed

end
