(* ===== verification/Core_Threads.thy ===== *)
theory Core_Threads
  imports Core_Config_Props
begin

text \<open>
  core/Core: the threads. Every daemon gets a \<open>QThread\<close> of its own, a child object of the
  daemon, and lives in it; so what the core signals to a daemon (\<open>reloadDaemons\<close>,
  \<open>outgoingTcp\<close>, \<open>outgoingDatagram\<close>) and its \<open>deleteLater()\<close> become events
  in the queue of that thread, which the thread handles one by one whenever it runs. A thread that
  handles the deletion destroys its own, running, \<open>QThread\<close> with the daemon, which Qt
  answers by ending the process. Daemons are the object numbers of Core_Config.
\<close>

section \<open>State\<close>

datatype daemon_event = EvReload | EvTcp string nat | EvDatagram bytes | EvDelete

text \<open>\<open>pr_posted\<close> are the queues, \<open>pr_done\<close> the events handled so far, and
  \<open>pr_sockets\<close> counts the connections that the listening sockets accepted.\<close>

record qt_process =
  pr_core :: core
  pr_posted :: "nat \<Rightarrow> daemon_event list"
  pr_done :: "nat \<Rightarrow> daemon_event list"
  pr_sockets :: nat

definition new_process :: qt_process where
  "new_process = \<lparr>pr_core = new_core, pr_posted = \<lambda>_. [], pr_done = \<lambda>_. [], pr_sockets = 0\<rparr>"

definition post :: "nat \<times> daemon_event \<Rightarrow> (nat \<Rightarrow> daemon_event list) \<Rightarrow> nat \<Rightarrow> daemon_event list" where
  "post de q = q(fst de := q (fst de) @ [snd de])"

definition post_all :: "(nat \<times> daemon_event) list \<Rightarrow> qt_process \<Rightarrow> qt_process" where
  "post_all des p = p\<lparr>pr_posted := fold post des (pr_posted p)\<rparr>"

section \<open>Steps\<close>

text \<open>A reload: the daemons it drops are told to delete themselves while it runs; the signal
  \<open>reloadDaemons\<close> at its end goes to every daemon object there is, the dropped ones included.\<close>

definition process_reload :: "core_env \<Rightarrow> nat \<Rightarrow> settings \<Rightarrow> qt_process \<Rightarrow> qt_process option" where
  "process_reload env n conf p =
     (case reloadConfig env n conf (pr_core p) of None \<Rightarrow> None
      | Some c \<Rightarrow> Some (post_all
          (map (\<lambda>d. (d, EvDelete)) (drop (length (doomed (pr_core p))) (doomed c))
            @ map (\<lambda>d. (d, EvReload)) [0..<next_obj c])
          (p\<lparr>pr_core := c\<rparr>)))"

text \<open>A connection to a listening address, and datagrams; nothing happens where nobody listens.\<close>

definition process_connect :: "string \<Rightarrow> qt_process \<Rightarrow> qt_process" where
  "process_connect addr p =
     (case map_of (port_tcp (pr_core p)) addr of None \<Rightarrow> p
      | Some e \<Rightarrow>
          (let s = pr_sockets p; p = p\<lparr>pr_sockets := s + 1\<rparr> in
           case tcp_incomingConnection e of ConnClosed \<Rightarrow> p
           | ConnPassed r calls \<Rightarrow> post_all (map (\<lambda>(t, en). (t, EvTcp en s)) calls) p))"

definition process_udp :: "string \<Rightarrow> (nat \<times> bytes) list \<Rightarrow> qt_process \<Rightarrow> qt_process" where
  "process_udp addr pend p =
     (case map_of (port_udp (pr_core p)) addr of None \<Rightarrow> p
      | Some e \<Rightarrow> post_all (map (\<lambda>(t, dat). (t, EvDatagram dat)) (udp_receiveDatagram pend e)) p)"

definition process_udg :: "string \<Rightarrow> bytes \<Rightarrow> qt_process \<Rightarrow> qt_process" where
  "process_udg addr msg p =
     (case map_of (port_udg (pr_core p)) addr of None \<Rightarrow> p
      | Some e \<Rightarrow> post_all (map (\<lambda>(t, dat). (t, EvDatagram dat)) (udg_message msg e)) p)"

text \<open>The thread of a daemon handles its first event. \<open>None\<close>: the process is aborted.\<close>

definition process_run :: "nat \<Rightarrow> qt_process \<Rightarrow> qt_process option" where
  "process_run d p =
     (case pr_posted p d of [] \<Rightarrow> Some p
      | ev # evs \<Rightarrow>
          if ev = EvDelete then None
          else Some (p\<lparr>pr_posted := (pr_posted p)(d := evs), pr_done := (pr_done p)(d := pr_done p d @ [ev])\<rparr>))"

fun run_daemon :: "nat \<Rightarrow> nat \<Rightarrow> qt_process \<Rightarrow> qt_process option" where
  "run_daemon d 0 p = Some p"
| "run_daemon d (Suc n) p = (case process_run d p of None \<Rightarrow> None | Some p \<Rightarrow> run_daemon d n p)"

text \<open>Everything that was ever posted to a daemon, in the order it was posted.\<close>

definition events :: "qt_process \<Rightarrow> nat \<Rightarrow> daemon_event list" where
  "events p d = pr_done p d @ pr_posted p d"

text \<open>The states of a process that has not been aborted.\<close>

inductive process_reachable :: "qt_process \<Rightarrow> bool" where
  start: "process_reachable new_process"
| symbols: "process_reachable p \<Longrightarrow> reloadSymbols f (pr_core p) = Inr c \<Longrightarrow> process_reachable (p\<lparr>pr_core := c\<rparr>)"
| probe: "process_reachable p \<Longrightarrow> modprobe L n name (pr_core p) = Some (ok, c) \<Longrightarrow> process_reachable (p\<lparr>pr_core := c\<rparr>)"
| reload: "process_reachable p \<Longrightarrow> conf_ok conf \<Longrightarrow> process_reload env n conf p = Some q \<Longrightarrow> process_reachable q"
| connect: "process_reachable p \<Longrightarrow> process_reachable (process_connect addr p)"
| udp: "process_reachable p \<Longrightarrow> process_reachable (process_udp addr pend p)"
| udg: "process_reachable p \<Longrightarrow> process_reachable (process_udg addr msg p)"
| run: "process_reachable p \<Longrightarrow> process_run d p = Some q \<Longrightarrow> process_reachable q"

section \<open>The queues\<close>

definition events_for :: "nat \<Rightarrow> (nat \<times> 'e) list \<Rightarrow> 'e list" where
  "events_for d des = map snd (filter (\<lambda>de. fst de = d) des)"

lemma events_for_simps [simp]: "events_for d [] = []" "events_for d (xs @ ys) = events_for d xs @ events_for d ys"
  "events_for d (de # xs) = (if fst de = d then snd de # events_for d xs else events_for d xs)"
  by (simp_all add: events_for_def)

lemma fold_post: "fold post des q d = q d @ events_for d des"
  by (induction des arbitrary: q) (simp_all add: post_def)

lemma post_all_simps [simp]: "pr_core (post_all des p) = pr_core p" "pr_done (post_all des p) = pr_done p"
  "pr_sockets (post_all des p) = pr_sockets p" "pr_posted (post_all des p) d = pr_posted p d @ events_for d des"
  "events (post_all des p) d = events p d @ events_for d des"
  by (simp_all add: post_all_def fold_post events_def)

lemma events_simps [simp]: "events (p\<lparr>pr_core := c\<rparr>) d = events p d" "events (p\<lparr>pr_sockets := n\<rparr>) d = events p d"
  by (simp_all add: events_def)

lemma events_for_same: "events_for d (map (\<lambda>x. (x, ev)) xs) = replicate (count_list xs d) ev"
  by (induction xs) auto

lemma process_run_effect:
  "process_run d p = Some q \<Longrightarrow> pr_core q = pr_core p \<and> pr_sockets q = pr_sockets p \<and> events q = events p
     \<and> (\<exists>evs. pr_done q d = pr_done p d @ evs \<and> EvDelete \<notin> set evs \<and> (\<forall>c. c \<noteq> d \<longrightarrow> pr_done q c = pr_done p c))"
  by (auto simp: process_run_def events_def fun_eq_iff split: list.splits if_splits)

lemma run_daemon_reachable: "run_daemon d n p = Some q \<Longrightarrow> process_reachable p \<Longrightarrow> process_reachable q"
  by (induction n arbitrary: p) (auto split: option.splits intro: process_reachable.run)

lemma run_daemon_through:
  "EvDelete \<notin> set (pr_posted p d) \<Longrightarrow> run_daemon d (length (pr_posted p d)) p
     = Some (p\<lparr>pr_posted := (pr_posted p)(d := []), pr_done := (pr_done p)(d := events p d)\<rparr>)"
proof (induction "pr_posted p d" arbitrary: p)
  case Nil
  then have "(pr_posted p)(d := []) = pr_posted p" "(pr_done p)(d := events p d) = pr_done p"
    by (auto simp: events_def)
  with Nil show ?case by (cases p) simp
next
  case (Cons ev evs)
  let ?q = "p\<lparr>pr_posted := (pr_posted p)(d := evs), pr_done := (pr_done p)(d := pr_done p d @ [ev])\<rparr>"
  have r: "process_run d p = Some ?q" using Cons by (simp add: process_run_def flip: Cons.hyps(2)) auto
  have e: "events ?q d = events p d" using Cons.hyps(2) by (simp add: events_def)
  from Cons.hyps(1) [of ?q] Cons.prems have "run_daemon d (length evs) ?q
      = Some (?q\<lparr>pr_posted := (pr_posted ?q)(d := []), pr_done := (pr_done ?q)(d := events ?q d)\<rparr>)"
    by (simp flip: Cons.hyps(2))
  with r e show ?case by (simp flip: Cons.hyps(2))
qed

lemma run_daemon_aborts:
  "EvDelete \<in> set (pr_posted p d) \<Longrightarrow> run_daemon d (length (pr_posted p d)) p = None"
proof (induction "pr_posted p d" arbitrary: p)
  case (Cons ev evs)
  show ?case
  proof (cases "ev = EvDelete")
    case True
    then have "process_run d p = None" by (simp add: process_run_def flip: Cons.hyps(2))
    then show ?thesis by (simp flip: Cons.hyps(2))
  next
    case False
    let ?q = "p\<lparr>pr_posted := (pr_posted p)(d := evs), pr_done := (pr_done p)(d := pr_done p d @ [ev])\<rparr>"
    have r: "process_run d p = Some ?q" using False by (simp add: process_run_def flip: Cons.hyps(2))
    have "run_daemon d (length evs) ?q = None"
      using Cons.hyps(1) [of ?q] Cons.prems False by (auto simp flip: Cons.hyps(2))
    with r show ?thesis by (simp flip: Cons.hyps(2))
  qed
qed simp

section \<open>What a reload does to the daemons\<close>

lemma load_daemons_fresh:
  "load_daemons env n k cur s = Some (cur', s') \<Longrightarrow> daemons_ok s \<Longrightarrow> next_obj s \<le> next_obj s'
     \<and> (\<forall>a d. map_of (daemons s') a = Some d \<longrightarrow> map_of (daemons s) a = Some d \<or> next_obj s \<le> d)"
proof (induction k arbitrary: cur s)
  case (Cons kv k)
  obtain a md where kv: "kv = (a, md)" by (cases kv)
  show ?case
  proof (cases "qm_contains (daemons s) a")
    case True
    with Cons kv show ?thesis by simp
  next
    case False
    then obtain ok t where t: "modprobe (e_linker env) n md s = Some (ok, t)"
      using Cons.prems(1) kv by (auto split: option.splits)
    with modprobe_grows Cons.prems(2) have g: "grows (e_linker env) s t" by (auto simp: daemons_ok_def)
    note t_ok = grows_daemons_ok [OF g Cons.prems(2)]
    have tn: "map_of (daemons t) a = None" using False growsD(2) [OF g] by (simp add: qm_contains_def)
    define u where "u = (if ok \<and> e_instanciate env md a then add_daemon a t else t)"
    have "load_daemons env n k cur u = Some (cur', s')"
      using Cons.prems(1) kv False t by (simp add: u_def add_daemon_def split: if_splits)
    moreover have u: "daemons_ok u" "next_obj s \<le> next_obj u"
      "\<And>b d. map_of (daemons u) b = Some d \<Longrightarrow> map_of (daemons s) b = Some d \<or> next_obj s \<le> d"
      using add_daemon_ok [OF t_ok tn] t_ok growsD(2,4) [OF g]
      by (auto simp: u_def add_daemon_def split: if_splits)
    ultimately show ?thesis using Cons.IH [of cur u] by (meson le_trans)
  qed
qed simp

lemma drop_daemons_doomed:
  "qm_wf (daemons s) \<Longrightarrow> \<exists>new. doomed (fold drop_daemon cur s) = doomed s @ new
     \<and> set new = {d. \<exists>k \<in> set cur. map_of (daemons s) k = Some d}"
proof (induction cur arbitrary: s)
  case (Cons a cur)
  have "qm_wf (daemons (drop_daemon a s))" and m: "map_of (daemons (drop_daemon a s)) = (map_of (daemons s))(a := None)"
    using Cons.prems by (simp_all add: qmap_simps)
  from Cons.IH [OF this(1)] obtain new where
    "doomed (fold drop_daemon cur (drop_daemon a s)) = doomed (drop_daemon a s) @ new"
    "set new = {d. \<exists>k \<in> set cur. k \<noteq> a \<and> map_of (daemons s) k = Some d}"
    unfolding m by (auto split: if_splits)
  moreover obtain one where "doomed (drop_daemon a s) = doomed s @ one" "set one = {d. map_of (daemons s) a = Some d}"
    by (cases "map_of (daemons s) a") (simp_all add: drop_daemon_def)
  ultimately have "doomed (fold drop_daemon (a # cur) s) = doomed s @ (one @ new)"
    "set (one @ new) = {d. \<exists>k \<in> set (a # cur). map_of (daemons s) k = Some d}" by auto
  then show ?case by blast
qed simp

text \<open>The daemon phase on its own, then the whole reload.\<close>

definition dropped :: "settings \<Rightarrow> core \<Rightarrow> nat set" where
  "dropped conf c = {d. \<exists>k. map_of (daemons c) k = Some d \<and> k \<notin> set (map fst (conf ''daemons''))}"

lemma reload_daemons_effect:
  assumes "reload_daemons env n k s = Some s'" "daemons_ok s" "distinct (map fst k)"
  shows "next_obj s \<le> next_obj s'
    \<and> (\<exists>new. doomed s' = doomed s @ new \<and> set new = {d. \<exists>a. map_of (daemons s) a = Some d \<and> a \<notin> set (map fst k)})
    \<and> (\<forall>a d. map_of (daemons s') a = Some d \<longrightarrow>
         map_of (daemons s) a = Some d \<and> a \<in> set (map fst k) \<or> next_obj s \<le> d)"
proof -
  from assms(1) obtain cur t where t: "load_daemons env n k (qm_keys (daemons s)) s = Some (cur, t)"
      and s': "s' = fold drop_daemon cur t"
    by (auto simp: reload_daemons_def)
  note l = load_daemons_spec [OF t assms(2,3)]
  note f = load_daemons_fresh [OF t assms(2)]
  have cur: "set cur = dom (map_of (daemons s)) - set (map fst k)" using l by (auto simp: set_qm_keys)
  have ok: "daemons_ok t" using l by blast
  then have wf: "qm_wf (daemons t)" by (simp add: daemons_ok_def)
  have same: "map_of (daemons t) a = map_of (daemons s) a" if "a \<in> set cur" for a
    using that cur l by (auto simp: map_le_def)
  from drop_daemons_doomed [OF wf, of cur] obtain new where new: "doomed s' = doomed t @ new"
      "set new = {d. \<exists>k \<in> set cur. map_of (daemons t) k = Some d}" unfolding s' by blast
  have "set new = {d. \<exists>a. map_of (daemons s) a = Some d \<and> a \<notin> set (map fst k)}"
    unfolding new(2) using same cur by auto
  moreover have "map_of (daemons s) a = Some d \<and> a \<in> set (map fst k) \<or> next_obj s \<le> d"
    if "map_of (daemons s') a = Some d" for a d
  proof -
    have a: "map_of (daemons t) a = Some d" "a \<notin> set cur"
      using that drop_daemons [OF ok, of cur] unfolding s' by (auto simp: restrict_map_def split: if_splits)
    with f have "map_of (daemons s) a = Some d \<or> next_obj s \<le> d" by blast
    with a(2) cur show ?thesis by (auto simp del: set_map)
  qed
  moreover have "next_obj (fold drop_daemon c u) = next_obj u" for c u by (induction c arbitrary: u) simp_all
  ultimately show ?thesis using f l new(1) unfolding s' by auto
qed

lemma reload_effect:
  assumes "reloadConfig env n conf c = Some c'" "conf_ok conf" "daemons_ok c" "tables_ok c"
  shows "daemons_ok c' \<and> tables_ok c' \<and> tables_routed conf c' \<and> next_obj c \<le> next_obj c'
    \<and> (\<exists>new. doomed c' = doomed c @ new \<and> set new = dropped conf c)
    \<and> (\<forall>k d. map_of (daemons c') k = Some d \<longrightarrow>
         map_of (daemons c) k = Some d \<and> k \<in> set (map fst (conf ''daemons'')) \<or> next_obj c \<le> d)"
proof -
  obtain p d where pd: "grows (e_linker env) c p" "reload_daemons env n (conf ''daemons'') p = Some d"
      "c' = reload_udg env (conf ''udg'') (reload_udp env (conf ''udp'') (reload_tcp env (conf ''tcp'') d))"
    using reloadConfig_phases [OF assms(1,3)] by blast
  have p: "daemons_ok p" "tables_ok p"
    using grows_daemons_ok [OF pd(1) assms(3)] same_ports_tables [OF grows_same_ports [OF pd(1)] assms(4)] by auto
  have k: "distinct (map fst (conf ''daemons''))" using assms(2) by (simp add: conf_ok_def)
  note s = reload_daemons_spec [OF pd(2) p(1) k]
  have t: "tables_ok d" using s same_ports_tables [OF _ p(2)] by blast
  note r = reload_tables [OF t assms(2) pd(3)]
  then have e: "daemons c' = daemons d" "next_obj c' = next_obj d" "doomed c' = doomed d"
    and t': "tables_ok c'" "tables_routed conf c'" by blast+
  have "daemons_ok d" "modules c' = modules d" using s r by blast+
  with e have ok: "daemons_ok c'" by (simp add: daemons_ok_def)
  have x: "next_obj c \<le> next_obj c' \<and> (\<exists>new. doomed c' = doomed c @ new \<and> set new = dropped conf c)
    \<and> (\<forall>k d. map_of (daemons c') k = Some d \<longrightarrow>
         map_of (daemons c) k = Some d \<and> k \<in> set (map fst (conf ''daemons'')) \<or> next_obj c \<le> d)"
    using reload_daemons_effect [OF pd(2) p(1) k] unfolding dropped_def e growsD(2,4,8) [OF pd(1)] .
  show ?thesis by (rule conjI [OF ok conjI [OF t'(1) conjI [OF t'(2) x]]])
qed

section \<open>The invariant\<close>

definition sockets_of :: "daemon_event list \<Rightarrow> nat list" where
  "sockets_of evs = concat (map (\<lambda>ev. case ev of EvTcp en s \<Rightarrow> [s] | _ \<Rightarrow> []) evs)"

lemma sockets_of_simps [simp]: "sockets_of [] = []" "sockets_of (xs @ ys) = sockets_of xs @ sockets_of ys"
  "sockets_of (EvTcp en s # xs) = s # sockets_of xs" "sockets_of (EvReload # xs) = sockets_of xs"
  "sockets_of (EvDelete # xs) = sockets_of xs" "sockets_of (EvDatagram b # xs) = sockets_of xs"
  by (simp_all add: sockets_of_def)

text \<open>Only running daemons are wired.\<close>

definition wired_live :: "core \<Rightarrow> bool" where
  "wired_live c \<longleftrightarrow> (\<forall>tab \<in> {port_tcp c, port_udp c, port_udg c}. \<forall>k e. map_of tab k = Some e \<longrightarrow>
     set (wired e) \<subseteq> ran (map_of (daemons c)))"

text \<open>A daemon hears first of a reload; it is told to delete itself when it is dropped, and not
  before; what does not exist yet hears nothing.\<close>

definition queue_ok :: "core \<Rightarrow> nat \<Rightarrow> daemon_event list \<Rightarrow> bool" where
  "queue_ok c d evs \<longleftrightarrow> (if d < next_obj c then \<exists>rest. evs = EvReload # rest else evs = [])
     \<and> (EvDelete \<in> set evs \<longleftrightarrow> d \<in> set (doomed c))"

definition core_ok :: "core \<Rightarrow> bool" where
  "core_ok c \<longleftrightarrow> daemons_ok c \<and> tables_ok c \<and> wired_live c \<and> (\<forall>d \<in> set (doomed c). d < next_obj c)
     \<and> set (doomed c) \<inter> ran (map_of (daemons c)) = {}"

definition sockets_ok :: "qt_process \<Rightarrow> bool" where
  "sockets_ok p \<longleftrightarrow> (\<forall>d. distinct (sockets_of (events p d)) \<and> set (sockets_of (events p d)) \<subseteq> {..<pr_sockets p})
     \<and> (\<forall>d d'. d \<noteq> d' \<longrightarrow> set (sockets_of (events p d)) \<inter> set (sockets_of (events p d')) = {})"

definition process_ok :: "qt_process \<Rightarrow> bool" where
  "process_ok p \<longleftrightarrow> core_ok (pr_core p) \<and> (\<forall>d. queue_ok (pr_core p) d (events p d)) \<and> sockets_ok p
     \<and> (\<forall>d. EvDelete \<notin> set (pr_done p d))"

lemma process_okD:
  assumes "process_ok p"
  shows "core_ok (pr_core p)" "queue_ok (pr_core p) d (events p d)" "sockets_ok p" "EvDelete \<notin> set (pr_done p d)"
    "daemons_ok (pr_core p)" "tables_ok (pr_core p)"
  using assms by (simp_all add: process_ok_def core_ok_def)

lemma core_ok_frame:
  assumes "core_ok c" "daemons_ok c'" "daemons c' = daemons c" "next_obj c' = next_obj c" "doomed c' = doomed c"
    "port_tcp c' = port_tcp c" "port_udp c' = port_udp c" "port_udg c' = port_udg c"
  shows "core_ok c'"
  using assms by (simp add: core_ok_def wired_live_def tables_ok_def)

lemma core_ok_reload:
  assumes "reloadConfig env n conf c = Some c'" "conf_ok conf" "core_ok c"
  shows "core_ok c'"
proof -
  from assms(3) have c: "daemons_ok c" "tables_ok c" by (simp_all add: core_ok_def)
  note r = reload_effect [OF assms(1,2) c]
  then obtain new where new: "doomed c' = doomed c @ new" "set new = dropped conf c" by blast
  have w: "set (wired e) \<subseteq> ran (map_of (daemons c'))" if "routed_as c' a b e" for a b e
    using that by (auto simp: routed_as_def getDaemon_def ran_def split: option.splits)
  have "\<exists>a b. routed_as c' a b e"
    if "tab \<in> {port_tcp c', port_udp c', port_udg c'}" "map_of tab k = Some e" for tab k e
    using r that unfolding tables_routed_def by blast
  with w have "wired_live c'" unfolding wired_live_def by blast
  moreover have "d < next_obj c" if "d \<in> set (doomed c')" for d
    using that new assms(3) by (auto simp: core_ok_def daemons_ok_def dropped_def)
  moreover have False if d: "d \<in> set (doomed c')" and m: "map_of (daemons c') k = Some d" for d k
  proof -
    have "d < next_obj c" using calculation(2) d .
    then have k: "map_of (daemons c) k = Some d" "k \<in> set (map fst (conf ''daemons''))" using r m by fastforce+
    then have "d \<notin> set (doomed c)" using assms(3) by (auto simp: core_ok_def ran_def)
    moreover have "d \<notin> dropped conf c" using k c(1) unfolding dropped_def daemons_ok_def by blast
    ultimately show False using d new by simp
  qed
  ultimately show ?thesis using r by (fastforce simp: core_ok_def ran_def)
qed

lemma ep_inv_wired: "ep_inv e \<Longrightarrow> wired e = [] \<or> (\<exists>r. wired e = [r] \<and> receiver e = Some r)"
  by (cases "receiver e") (simp_all add: ep_inv_def)

text \<open>A connection is one event for the daemon the endpoint is wired to, or none.\<close>

lemma process_connect_effect:
  assumes "tables_ok (pr_core p)" "process_connect addr p = q"
  shows "pr_core q = pr_core p \<and> pr_done q = pr_done p
    \<and> (pr_posted q = pr_posted p \<and> (pr_sockets q = pr_sockets p \<or> pr_sockets q = pr_sockets p + 1)
       \<or> (\<exists>e r en. map_of (port_tcp (pr_core p)) addr = Some e \<and> wired e = [r] \<and> pr_sockets q = pr_sockets p + 1
            \<and> pr_posted q = post (r, EvTcp en (pr_sockets p)) (pr_posted p)))"
proof (cases "map_of (port_tcp (pr_core p)) addr")
  case (Some e)
  then have "ep_inv e" using tables_okD(4) [OF assms(1)] by blast
  with Some assms(2) ep_inv_wired [of e] show ?thesis
    by (auto simp: process_connect_def tcp_incomingConnection_def post_all_def ep_inv_def Let_def split: option.splits)
qed (use assms in \<open>simp add: process_connect_def\<close>)

lemma queue_ok_append: "queue_ok c d evs \<Longrightarrow> d < next_obj c \<Longrightarrow> EvDelete \<notin> set new \<Longrightarrow> queue_ok c d (evs @ new)"
  by (auto simp: queue_ok_def)

text \<open>A signal to wired daemons keeps the queues in order.\<close>

lemma queues_post:
  assumes "\<And>d. queue_ok c d (events p d)" "\<And>t ev. (t, ev) \<in> set des \<Longrightarrow> t < next_obj c \<and> ev \<noteq> EvDelete"
  shows "queue_ok c d (events (post_all des p) d)"
proof (cases "events_for d des = []")
  case False
  then obtain ev where "(d, ev) \<in> set des" by (force simp: events_for_def filter_empty_conv)
  then have "d < next_obj c" using assms(2) by blast
  moreover have "EvDelete \<notin> set (events_for d des)" using assms(2) by (force simp: events_for_def)
  ultimately show ?thesis using queue_ok_append assms(1) by simp
qed (use assms in simp)

lemma core_ok_wired:
  assumes "core_ok c" "tab \<in> {port_tcp c, port_udp c, port_udg c}" "map_of tab k = Some e" "t \<in> set (wired e)"
  shows "t < next_obj c"
proof -
  from assms have "t \<in> ran (map_of (daemons c))" unfolding core_ok_def wired_live_def by blast
  with assms(1) show ?thesis by (auto simp: core_ok_def daemons_ok_def ran_def)
qed

lemma sockets_ok_same:
  assumes "sockets_ok p" "pr_sockets p \<le> pr_sockets q" "\<And>d. sockets_of (events q d) = sockets_of (events p d)"
  shows "sockets_ok q"
  using assms by (fastforce simp: sockets_ok_def)

lemma sockets_ok_new:
  assumes "sockets_ok p" "pr_sockets q = pr_sockets p + 1"
    "\<And>d. events q d = (if d = r then events p d @ [EvTcp en (pr_sockets p)] else events p d)"
  shows "sockets_ok q"
  using assms unfolding sockets_ok_def by (auto simp: subset_iff disjoint_iff less_Suc_eq)

lemma process_connect_ok:
  assumes "process_ok p"
  shows "process_ok (process_connect addr p)"
proof -
  have c: "core_ok (pr_core p)" and t: "tables_ok (pr_core p)" and so: "sockets_ok p"
    using assms by (simp_all add: process_ok_def core_ok_def)
  let ?q = "process_connect addr p"
  from process_connect_effect [OF t refl, of addr] consider
      (none) "pr_core ?q = pr_core p" "pr_done ?q = pr_done p" "pr_posted ?q = pr_posted p" "pr_sockets p \<le> pr_sockets ?q"
    | (one) e r en where "pr_core ?q = pr_core p" "pr_done ?q = pr_done p" "map_of (port_tcp (pr_core p)) addr = Some e"
        "wired e = [r]" "pr_sockets ?q = pr_sockets p + 1" "pr_posted ?q = post (r, EvTcp en (pr_sockets p)) (pr_posted p)"
    by fastforce
  then show ?thesis
  proof cases
    case none
    have "sockets_ok ?q" by (rule sockets_ok_same [OF so none(4)]) (simp add: events_def none)
    with assms none show ?thesis by (simp add: process_ok_def events_def)
  next
    case one
    have e: "events ?q d = (if d = r then events p d @ [EvTcp en (pr_sockets p)] else events p d)" for d
      using one by (simp add: events_def post_def)
    have "r < next_obj (pr_core p)" using core_ok_wired [OF c _ one(3), of r] one(4) by simp
    then have "queue_ok (pr_core p) d (events ?q d)" for d
      using assms by (cases "d = r") (auto simp: process_ok_def e intro: queue_ok_append)
    with sockets_ok_new [OF so one(5) e] assms one show ?thesis by (simp add: process_ok_def)
  qed
qed

lemma process_datagrams_ok:
  assumes "process_ok p" "tab \<in> {port_udp (pr_core p), port_udg (pr_core p)}" "map_of tab k = Some e"
    "\<And>t dat. (t, dat) \<in> set ds \<Longrightarrow> t \<in> set (wired e)"
  shows "process_ok (post_all (map (\<lambda>(t, dat). (t, EvDatagram dat)) ds) p)"
proof -
  have "core_ok (pr_core p)" using assms(1) by (simp add: process_ok_def)
  from core_ok_wired [OF this _ assms(3)] assms(2,4) have "t < next_obj (pr_core p)" if "(t, dat) \<in> set ds" for t dat
    using that by blast
  then have "queue_ok (pr_core p) d (events (post_all (map (\<lambda>(t, dat). (t, EvDatagram dat)) ds) p) d)" for d
    using assms(1) by (intro queues_post) (auto simp: process_ok_def)
  moreover have "sockets_of (events_for d (map (\<lambda>(t, dat). (t, EvDatagram dat)) ds)) = []" for d
    by (induction ds) auto
  then have "sockets_ok (post_all (map (\<lambda>(t, dat). (t, EvDatagram dat)) ds) p)"
    by (intro sockets_ok_same [OF process_okD(3) [OF assms(1)]]) simp_all
  ultimately show ?thesis using assms(1) by (simp add: process_ok_def)
qed

lemma udp_receive_wired: "(t, dat) \<in> set (udp_receiveDatagram pend e) \<Longrightarrow> t \<in> set (wired e)"
  by (induction pend e rule: udp_receiveDatagram.induct) (auto simp: Let_def)

lemma udg_message_wired: "(t, dat) \<in> set (udg_message msg e) \<Longrightarrow> t \<in> set (wired e)"
  by (auto simp: udg_message_def)

lemma process_reload_ok:
  assumes "process_ok p" "conf_ok conf" "process_reload env n conf p = Some q"
  shows "process_ok q"
proof -
  from assms(3) obtain c where c: "reloadConfig env n conf (pr_core p) = Some c"
    "q = post_all (map (\<lambda>d. (d, EvDelete)) (drop (length (doomed (pr_core p))) (doomed c))
            @ map (\<lambda>d. (d, EvReload)) [0..<next_obj c]) (p\<lparr>pr_core := c\<rparr>)"
    by (auto simp: process_reload_def split: option.splits)
  have k: "core_ok (pr_core p)" using assms(1) by (simp add: process_ok_def)
  then have "daemons_ok (pr_core p)" "tables_ok (pr_core p)" by (simp_all add: core_ok_def)
  note r = reload_effect [OF c(1) assms(2) this]
  then obtain new where new: "doomed c = doomed (pr_core p) @ new" "next_obj (pr_core p) \<le> next_obj c" by blast
  note kc = core_ok_reload [OF c(1) assms(2) k]
  have e: "events q d = events p d @ replicate (count_list new d) EvDelete @ (if d < next_obj c then [EvReload] else [])" for d
  proof -
    have "count_list [0..<m] d = (if d < m then 1 else 0)" for m by (induction m) auto
    then show ?thesis by (simp add: c(2) new(1) events_for_same)
  qed
  have q: "queue_ok c d (events q d)" for d
  proof -
    have o: "queue_ok (pr_core p) d (events p d)" using assms(1) by (simp add: process_ok_def)
    have old: "d < next_obj (pr_core p)" if "d \<in> set new"
    proof -
      have "d \<in> dropped conf (pr_core p)" using that r new(1) by auto
      with k show ?thesis by (auto simp: dropped_def core_ok_def daemons_ok_def)
    qed
    have z: "count_list new d = 0" if "\<not> d < next_obj (pr_core p)" using old that by (auto simp: count_list_0_iff)
    show ?thesis
    proof (cases "d < next_obj (pr_core p)")
      case True
      with o new(2) show ?thesis by (auto simp: queue_ok_def e new(1) count_list_0_iff)
    next
      case False
      with old have n: "d \<notin> set new" by blast
      from False z o have "events q d = (if d < next_obj c then [EvReload] else [])"
        by (simp add: e queue_ok_def)
      with False o n show ?thesis by (auto simp: queue_ok_def new(1))
    qed
  qed
  have "sockets_of (replicate m EvDelete) = []" for m by (induction m) simp_all
  then have "sockets_of (events q d) = sockets_of (events p d)" for d by (simp add: e)
  then have "sockets_ok q" by (intro sockets_ok_same [OF process_okD(3) [OF assms(1)]]) (simp_all add: c(2))
  moreover have "pr_core q = c" "pr_done q = pr_done p" by (simp_all add: c(2))
  ultimately show ?thesis using kc q assms(1) by (simp add: process_ok_def)
qed

lemma process_core_ok:
  assumes "process_ok p" "core_ok c" "next_obj c = next_obj (pr_core p)" "doomed c = doomed (pr_core p)"
  shows "process_ok (p\<lparr>pr_core := c\<rparr>)"
  using assms by (auto simp: process_ok_def queue_ok_def sockets_ok_def)

lemma process_run_ok:
  assumes "process_ok p" "process_run d p = Some q"
  shows "process_ok q"
proof -
  note e = process_run_effect [OF assms(2)]
  then obtain evs where evs: "pr_done q d = pr_done p d @ evs" "EvDelete \<notin> set evs"
      "\<And>c. c \<noteq> d \<Longrightarrow> pr_done q c = pr_done p c" by blast
  have "EvDelete \<notin> set (pr_done q c)" for c
    using evs process_okD(4) [OF assms(1)] by (cases "c = d") simp_all
  moreover have "sockets_ok q" using e process_okD(3) [OF assms(1)] by (simp add: sockets_ok_def)
  ultimately show ?thesis using assms(1) e by (simp add: process_ok_def)
qed

lemma process_reachable_ok: "process_reachable p \<Longrightarrow> process_ok p"
proof (induction rule: process_reachable.induct)
  case start
  show ?case
    by (simp add: new_process_def process_ok_def core_ok_def wired_live_def queue_ok_def sockets_ok_def events_def
        new_core_def daemons_ok_def tables_ok_def)
next
  case (symbols p f c)
  then obtain m where c: "c = (pr_core p)\<lparr>sym_map := m\<rparr>" using reloadSymbols_frame by blast
  have "core_ok c"
    by (rule core_ok_frame [OF process_okD(1) [OF symbols.IH]])
       (use process_okD(5) [OF symbols.IH] in \<open>simp_all add: c daemons_ok_def\<close>)
  with symbols.IH show ?case by (rule process_core_ok) (simp_all add: c)
next
  case (probe p L n name ok c)
  then have g: "grows L (pr_core p) c" using modprobe_grows process_okD(5) by (auto simp: daemons_ok_def)
  have "core_ok c"
    by (rule core_ok_frame [OF process_okD(1) [OF probe.IH] grows_daemons_ok [OF g process_okD(5) [OF probe.IH]]])
       (simp_all add: growsD [OF g])
  with probe.IH show ?case by (rule process_core_ok) (simp_all add: growsD [OF g])
next
  case (reload p conf env n q)
  then show ?case using process_reload_ok by blast
next
  case (connect p addr)
  then show ?case by (simp add: process_connect_ok)
next
  case (udp p addr pend)
  then show ?case
    using process_datagrams_ok [OF udp.IH, of "port_udp (pr_core p)" addr] udp_receive_wired
    by (fastforce simp: process_udp_def split: option.split)
next
  case (udg p addr msg)
  then show ?case
    using process_datagrams_ok [OF udg.IH, of "port_udg (pr_core p)" addr] udg_message_wired
    by (fastforce simp: process_udg_def split: option.split)
next
  case (run p d q)
  then show ?case using process_run_ok by blast
qed

section \<open>What a daemon class may rely on\<close>

text \<open>The slots of a daemon, as its thread calls them for the events of its queue. A class that is
  \<open>ready\<close> after every reload, and stays so, handles no connection and no datagram before.\<close>

fun handle_event :: "('s \<Rightarrow> 's) \<Rightarrow> (string \<Rightarrow> nat \<Rightarrow> 's \<Rightarrow> 's) \<Rightarrow> (bytes \<Rightarrow> 's \<Rightarrow> 's) \<Rightarrow> daemon_event \<Rightarrow> 's \<Rightarrow> 's" where
  "handle_event reload tcp dgram EvReload s = reload s"
| "handle_event reload tcp dgram (EvTcp en n) s = tcp en n s"
| "handle_event reload tcp dgram (EvDatagram dat) s = dgram dat s"
| "handle_event reload tcp dgram EvDelete s = s"

locale daemon_class =
  fixes reload :: "'s \<Rightarrow> 's"
    and tcp :: "string \<Rightarrow> nat \<Rightarrow> 's \<Rightarrow> 's"
    and dgram :: "bytes \<Rightarrow> 's \<Rightarrow> 's"
    and ready :: "'s \<Rightarrow> bool"
  assumes ready_reload: "ready (reload s)"
    and ready_tcp: "ready s \<Longrightarrow> ready (tcp en n s)"
    and ready_dgram: "ready s \<Longrightarrow> ready (dgram dat s)"
begin

lemma ready_event: "ready s \<Longrightarrow> ready (handle_event reload tcp dgram ev s)"
  by (cases ev) (simp_all add: ready_reload ready_tcp ready_dgram)

lemma ready_events: "ready s \<Longrightarrow> ready (fold (handle_event reload tcp dgram) evs s)"
  by (induction evs arbitrary: s) (simp_all add: ready_event)

lemma ready_after_reload: "ready (fold (handle_event reload tcp dgram) (EvReload # evs) s)"
  by (simp add: ready_events ready_reload)

lemma ready_when_handled:
  assumes "process_reachable p" "pr_done p d = before @ ev # later" "ev \<noteq> EvReload"
  shows "ready (fold (handle_event reload tcp dgram) before s)"
proof -
  note ok = process_okD(2) [OF process_reachable_ok [OF assms(1)], of d]
  have "events p d \<noteq> []" using assms(2) by (simp add: events_def)
  with ok obtain rest where "before @ ev # later @ pr_posted p d = EvReload # rest"
    using assms(2) by (auto simp: queue_ok_def events_def split: if_splits)
  with assms(3) obtain evs where "before = EvReload # evs" by (cases before) auto
  then show ?thesis using ready_after_reload by simp
qed

end

section \<open>Properties\<close>

text \<open>A run for the examples: the daemon "irc" is created as object 0, a client connects to port 7,
  and the thread of the daemon handles both events; then a reload drops the daemon.\<close>

definition ex_started :: qt_process where
  "ex_started = (case process_reload ex_core_env 9 ex_conf (new_process\<lparr>pr_core := ex_core\<rparr>) of
     None \<Rightarrow> new_process | Some p \<Rightarrow> p)"

lemma ex_started_reload: "process_reload ex_core_env 9 ex_conf (new_process\<lparr>pr_core := ex_core\<rparr>) = Some ex_started"
proof -
  have "process_reload ex_core_env 9 ex_conf (new_process\<lparr>pr_core := ex_core\<rparr>) \<noteq> None"
    using ex_reload by (simp add: process_reload_def)
  then show ?thesis by (auto simp: ex_started_def)
qed

lemma ex_fresh_reachable: "process_reachable (new_process\<lparr>pr_core := ex_core\<rparr>)"
proof -
  have "reloadSymbols (Some (lit ''ext/tcpline _ZTI13ClientTcpLine typeinfo'' @ [10])) (pr_core new_process) = Inr ex_core"
    by code_simp
  then show ?thesis by (rule process_reachable.symbols [OF process_reachable.start])
qed

lemma ex_started_reachable: "process_reachable ex_started"
  by (rule process_reachable.reload [OF ex_fresh_reachable ex_conf_ok ex_started_reload])

lemma ex_started_core: "pr_core ex_started = ex_loaded" "pr_sockets ex_started = 0"
    "pr_done ex_started = (\<lambda>_. [])" "pr_posted ex_started 0 = [EvReload]"
proof -
  have "doomed ex_loaded = []" "next_obj ex_loaded = 1" by code_simp+
  then have e: "ex_started = post_all [(0, EvReload)] (new_process\<lparr>pr_core := ex_loaded\<rparr>)"
    using ex_started_reload ex_reload by (simp add: process_reload_def)
  show "pr_core ex_started = ex_loaded" "pr_sockets ex_started = 0"
    "pr_done ex_started = (\<lambda>_. [])" "pr_posted ex_started 0 = [EvReload]"
    unfolding e by (simp_all add: new_process_def)
qed

text \<open>Whatever else happens, the first event a daemon handles is the reload that follows its
  creation; so no daemon sees a connection or a datagram before it has read its configuration.\<close>

theorem daemon_reload_first:
  assumes "process_reachable p" "d < next_obj (pr_core p)"
  shows "\<exists>rest. pr_done p d @ pr_posted p d = EvReload # rest"
  using process_okD(2) [OF process_reachable_ok [OF assms(1)], of d] assms(2)
  by (simp add: queue_ok_def events_def)

theorem daemon_reload_first_witness: "\<exists>rest. pr_done ex_started 0 @ pr_posted ex_started 0 = EvReload # rest"
proof -
  have "next_obj ex_loaded = 1" by code_simp
  with daemon_reload_first [OF ex_started_reachable, of 0] show ?thesis by (simp add: ex_started_core)
qed

text \<open>No accepted connection is ever handed out twice: its socket occurs in at most one place
  of all the queues and histories of all the threads.\<close>

theorem connections_unique:
  assumes "process_reachable p"
  shows "distinct (sockets_of (pr_done p d @ pr_posted p d))
    \<and> (d \<noteq> d' \<longrightarrow> set (sockets_of (pr_done p d @ pr_posted p d)) \<inter> set (sockets_of (pr_done p d' @ pr_posted p d')) = {})"
  using process_okD(3) [OF process_reachable_ok [OF assms]] unfolding sockets_ok_def events_def by blast

theorem connections_unique_witness:
  "pr_posted (process_connect ''0.0.0.0:7'' ex_started) 0 = [EvReload, EvTcp ''main'' 0]
   \<and> distinct (sockets_of (pr_posted (process_connect ''0.0.0.0:7'' ex_started) 0))"
proof -
  have "map_option tcp_incomingConnection (map_of (port_tcp ex_loaded) ''0.0.0.0:7'')
      = Some (ConnPassed 0 [(0, ''main'')])" by code_simp
  then obtain e where e: "map_of (port_tcp ex_loaded) ''0.0.0.0:7'' = Some e"
      "tcp_incomingConnection e = ConnPassed 0 [(0, ''main'')]" by auto
  have "pr_posted (process_connect ''0.0.0.0:7'' ex_started) 0 = [EvReload, EvTcp ''main'' 0]"
    by (simp add: process_connect_def ex_started_core e Let_def)
  moreover have "distinct (sockets_of (pr_posted (process_connect ''0.0.0.0:7'' ex_started) 0))"
    using connections_unique [OF process_reachable.connect [OF ex_started_reachable], of "''0.0.0.0:7''" 0] by simp
  ultimately show ?thesis ..
qed

text \<open>C3: after a reload, a connection to a listening address whose value names a running daemon
  is handled by this daemon, with the configured entry and after everything it was told before,
  once its thread has run; no other thread hears of it.\<close>

theorem connection_reaches_daemon:
  assumes "process_reachable p" "conf_ok conf" "process_reload env n conf p = Some q"
    "(addr, v) \<in> set (conf ''tcp'')" "map_of (port_tcp (pr_core q)) addr \<noteq> None"
    "getDaemon (pr_core q) (target_parts v ! 0) = Some d"
  shows "\<exists>r. run_daemon d (length (pr_posted q d) + 1) (process_connect addr q) = Some r
    \<and> pr_posted r d = [] \<and> pr_done r d = pr_done q d @ pr_posted q d @ [EvTcp (target_parts v ! 1) (pr_sockets q)]
    \<and> (\<forall>c. c \<noteq> d \<longrightarrow> pr_posted r c = pr_posted q c \<and> pr_done r c = pr_done q c)"
proof -
  note ok = process_reachable_ok [OF assms(1)]
  note okq = process_reload_ok [OF ok assms(2,3)]
  from assms(3) have "reloadConfig env n conf (pr_core p) = Some (pr_core q)"
    by (auto simp: process_reload_def split: option.splits)
  from reload_effect [OF this assms(2) process_okD(5,6) [OF ok]] have "tables_routed conf (pr_core q)" by blast
  moreover have "map_of (conf ''tcp'') addr = Some v" using assms(2,4) by (simp add: conf_ok_def)
  moreover obtain e where e: "map_of (port_tcp (pr_core q)) addr = Some e" using assms(5) by auto
  ultimately have "routed_as (pr_core q) (target_parts v ! 0) (target_parts v ! 1) e"
    unfolding tables_routed_def by fastforce
  with assms(6) have w: "receiver e = Some d" "wired e = [d]" "entry e = target_parts v ! 1"
    by (simp_all add: routed_as_def)
  let ?c = "process_connect addr q" and ?ev = "EvTcp (target_parts v ! 1) (pr_sockets q)"
  have c: "pr_posted ?c = post (d, ?ev) (pr_posted q)" "pr_done ?c = pr_done q"
    by (simp_all add: process_connect_def e tcp_incomingConnection_def w post_all_def Let_def)
  have "d \<notin> set (doomed (pr_core q))"
    using process_okD(1) [OF okq] assms(6) by (auto simp: core_ok_def getDaemon_def ran_def)
  then have "EvDelete \<notin> set (events q d)" using process_okD(2) [OF okq, of d] by (simp add: queue_ok_def)
  then have "EvDelete \<notin> set (pr_posted ?c d)" by (simp add: c post_def events_def)
  from run_daemon_through [OF this] show ?thesis
    by (simp add: c post_def events_def)
qed

theorem connection_reaches_daemon_witness:
  "\<exists>r. run_daemon 0 2 (process_connect ''0.0.0.0:7'' ex_started) = Some r
     \<and> pr_done r 0 = [EvReload, EvTcp ''main'' 0] \<and> pr_posted r 0 = []"
proof -
  have c: "(''0.0.0.0:7'', ''irc'') \<in> set (ex_conf ''tcp'')" by (simp add: ex_conf_def)
  have m: "map_of (port_tcp (pr_core ex_started)) ''0.0.0.0:7'' \<noteq> None"
    unfolding ex_started_core by code_simp
  have g: "getDaemon (pr_core ex_started) (target_parts ''irc'' ! 0) = Some 0"
    unfolding ex_started_core by code_simp
  have t: "target_parts ''irc'' ! 1 = ''main''" by code_simp
  from connection_reaches_daemon [OF ex_fresh_reachable ex_conf_ok ex_started_reload c m g] show ?thesis
    unfolding ex_started_core t by (auto simp: numeral_2_eq_2)
qed

text \<open>C9: the process is aborted exactly when the thread of a dropped daemon runs: after a
  reload, going through a daemon's queue fails if and only if the daemon was running and is no
  longer configured, or had been dropped by an earlier reload.\<close>

theorem dropped_daemon_aborts:
  assumes "process_reachable p" "conf_ok conf" "process_reload env n conf p = Some q"
  shows "run_daemon d (length (pr_posted q d)) q = None
    \<longleftrightarrow> d \<in> set (doomed (pr_core p))
      \<or> (\<exists>k. map_of (daemons (pr_core p)) k = Some d \<and> k \<notin> set (map fst (conf ''daemons'')))"
proof -
  note ok = process_reachable_ok [OF assms(1)]
  note okq = process_reload_ok [OF ok assms(2,3)]
  from assms(3) have "reloadConfig env n conf (pr_core p) = Some (pr_core q)"
    by (auto simp: process_reload_def split: option.splits)
  from reload_effect [OF this assms(2) process_okD(5,6) [OF ok]] obtain new where
    new: "doomed (pr_core q) = doomed (pr_core p) @ new" "set new = dropped conf (pr_core p)" by blast
  have "EvDelete \<in> set (pr_posted q d) \<longleftrightarrow> d \<in> set (doomed (pr_core q))"
    using process_okD(2,4) [OF okq, of d] by (auto simp: queue_ok_def events_def)
  moreover have "run_daemon d (length (pr_posted q d)) q = None \<longleftrightarrow> EvDelete \<in> set (pr_posted q d)"
    using run_daemon_aborts [of q d] run_daemon_through [of q d] by (cases "EvDelete \<in> set (pr_posted q d)") simp_all
  ultimately show ?thesis using new by (simp add: dropped_def)
qed

theorem dropped_daemon_aborts_witness:
  "\<exists>q. process_reload ex_core_env 9 (\<lambda>_. []) ex_started = Some q \<and> run_daemon 0 (length (pr_posted q 0)) q = None"
proof -
  have "reloadConfig ex_core_env 9 (\<lambda>_. []) ex_loaded \<noteq> None" by code_simp
  then obtain q where q: "process_reload ex_core_env 9 (\<lambda>_. []) ex_started = Some q"
    by (auto simp: process_reload_def ex_started_core)
  have "conf_ok (\<lambda>_. [])" by (simp add: conf_ok_def)
  from dropped_daemon_aborts [OF ex_started_reachable this q, of 0] have
    "(\<exists>k. map_of (daemons ex_loaded) k = Some 0) \<longrightarrow> run_daemon 0 (length (pr_posted q 0)) q = None"
    by (simp add: ex_started_core)
  moreover have "map_of (daemons ex_loaded) ''irc'' = Some 0" by code_simp
  ultimately show ?thesis using q by blast
qed

end
