(* ===== verification/Bitcoin_Life.thy ===== *)
theory Bitcoin_Life
  imports Core_Threads Bitcoin_Props
begin

text \<open>
  mod/daemon/bitcoinconnector in its thread: the constructor leaves the document store unopened, and
  several handlers use it without asking. The first reload opens it, and the queue of the thread
  puts that before any connection.
\<close>

text \<open>The constructor. It sets neither the pointer to the store nor \<open>peer_learn\<close>: the
  arguments stand for what is found there.\<close>

definition new_bc_daemon :: "'d \<Rightarrow> bool \<Rightarrow> 'd bc_daemon" where
  "new_bc_daemon db learn = \<lparr>bd_peers = [], bd_nonce = {}, bd_open = False, bd_db = db, bd_cache = [], bd_queue = [],
     bd_peer_learn = learn, bd_heard = []\<rparr>"

text \<open>The slots. The settings are what \<open>getConfig\<close> gives; \<open>peer\<close> is the address and port of the
  other end of a socket. The class has no slot for datagrams.\<close>

definition bc_slot_reload :: "bool option \<Rightarrow> string list option \<Rightarrow> 'd bc_system \<Rightarrow> 'd bc_system" where
  "bc_slot_reload learn seed sys = (case sys of (d, cs) \<Rightarrow> (snd (bc_reload learn seed d), cs))"

definition bc_slot_tcp :: "'d bc_env \<Rightarrow> (nat \<Rightarrow> host_addr \<times> 16 word) \<Rightarrow> string \<Rightarrow> nat \<Rightarrow> 'd bc_system \<Rightarrow> 'd bc_system" where
  "bc_slot_tcp env peer en i = bc_incomingTcp env i (fst (peer i)) (snd (peer i))"

definition bc_events :: "'d bc_env \<Rightarrow> (nat \<Rightarrow> host_addr \<times> 16 word) \<Rightarrow> bool option \<Rightarrow> string list option
    \<Rightarrow> daemon_event list \<Rightarrow> 'd bc_system \<Rightarrow> 'd bc_system" where
  "bc_events env peer learn seed =
     fold (handle_event (bc_slot_reload learn seed) (bc_slot_tcp env peer) (\<lambda>_ sys. sys))"

interpretation bc_class: daemon_class "bc_slot_reload learn seed" "bc_slot_tcp env peer" "\<lambda>_ sys. sys" "\<lambda>sys. bd_open (fst sys)"
  for learn seed env peer
  by unfold_locales
    (auto simp: bc_slot_reload_def bc_reload_def bc_slot_tcp_def bc_incomingTcp_def bc_clientInit_def Let_def
      split: prod.splits)

text \<open>A run of the thread handles the connection it was told of.\<close>

text \<open>C18: the store is closed when a bitcoinconnector is constructed, and open whenever its thread
  comes to handle a connection, whatever the process has done before.\<close>

theorem bc_store_open_first:
  assumes "process_reachable p" "pr_done p d = before @ EvTcp en i # later"
  shows "\<not> bd_open (new_bc_daemon db l) \<and> bd_open (fst (bc_events env peer learn seed before (new_bc_daemon db l, [])))"
  using bc_class.ready_when_handled [OF assms] by (simp add: bc_events_def new_bc_daemon_def)

theorem bc_store_open_first_witness:
  "\<exists>r. run_daemon 0 2 (process_connect ''0.0.0.0:7'' ex_started) = Some r \<and> pr_done r 0 = [EvReload, EvTcp ''main'' 0]
     \<and> bd_open (fst (bc_events ex_bc_env (\<lambda>_. (IPv4 1, 8333)) None None [EvReload] (new_bc_daemon () True, [])))"
proof -
  have "map_option tcp_incomingConnection (map_of (port_tcp ex_loaded) ''0.0.0.0:7'')
      = Some (ConnPassed 0 [(0, ''main'')])" by code_simp
  then obtain e where e: "map_of (port_tcp ex_loaded) ''0.0.0.0:7'' = Some e"
      "tcp_incomingConnection e = ConnPassed 0 [(0, ''main'')]" by auto
  have two: "pr_posted (process_connect ''0.0.0.0:7'' ex_started) 0 = [EvReload, EvTcp ''main'' 0]"
      "pr_done (process_connect ''0.0.0.0:7'' ex_started) 0 = []"
    by (simp_all add: process_connect_def ex_started_core e Let_def)
  then obtain r where r: "run_daemon 0 2 (process_connect ''0.0.0.0:7'' ex_started) = Some r"
      "pr_done r 0 = [EvReload, EvTcp ''main'' 0]"
    using run_daemon_through [of "process_connect ''0.0.0.0:7'' ex_started" 0] by (simp add: events_def numeral_2_eq_2)
  have reach: "process_reachable r"
    using run_daemon_reachable [OF r(1) process_reachable.connect [OF ex_started_reachable]] .
  have "pr_done r 0 = [EvReload] @ EvTcp ''main'' 0 # []" using r(2) by simp
  from bc_store_open_first [OF reach this, of "()" True ex_bc_env "\<lambda>_. (IPv4 1, 8333)" None None] r show ?thesis
    by (intro exI [of _ r]) simp
qed

end
