(* ===== verification/Broadcast_System.thy ===== *)
theory Broadcast_System
  imports Startup Core_Threads Core_Props Broadcast
begin

text \<open>
  The whole process around a broadcast daemon: the launcher, the core with its listening sockets and
  its reloads, the threads with their queues, and the clients of the daemon, whose sockets live in its
  thread. Clients are numbered by the connections that the listening sockets accept.
\<close>

section \<open>The process with a broadcast daemon\<close>

record bcast_system =
  bs_process :: qt_process
  bs_clients :: bcast

text \<open>The slots of the daemon: the inherited \<open>reload\<close>, and \<open>incomingTcp\<close>.\<close>

definition bcast_slot :: "daemon_event \<Rightarrow> bcast \<Rightarrow> bcast" where
  "bcast_slot = handle_event (\<lambda>b. b) (\<lambda>en i. bcast_incomingTcp i) (\<lambda>dat b. b)"

datatype sys_event = SysReload core_env nat settings | SysConnect string | SysUdp string "(nat \<times> bytes) list"
  | SysUdg string bytes | SysThread nat | SysReceive nat bytes | SysLost nat

text \<open>One event, for the daemon object \<open>d\<close>. \<open>None\<close>: the process is aborted, or the reload
  has not finished with this fuel.\<close>

fun sys_step :: "nat \<Rightarrow> sys_event \<Rightarrow> bcast_system \<Rightarrow> bcast_system option" where
  "sys_step d (SysReload env n conf) S = map_option (\<lambda>p. S\<lparr>bs_process := p\<rparr>) (process_reload env n conf (bs_process S))"
| "sys_step d (SysConnect addr) S = Some (S\<lparr>bs_process := process_connect addr (bs_process S)\<rparr>)"
| "sys_step d (SysUdp addr pend) S = Some (S\<lparr>bs_process := process_udp addr pend (bs_process S)\<rparr>)"
| "sys_step d (SysUdg addr msg) S = Some (S\<lparr>bs_process := process_udg addr msg (bs_process S)\<rparr>)"
| "sys_step d (SysThread c) S = map_option (\<lambda>p. S\<lparr>bs_process := p,
       bs_clients := (if c = d then fold bcast_slot (take 1 (pr_posted (bs_process S) d)) (bs_clients S) else bs_clients S)\<rparr>)
     (process_run c (bs_process S))"
| "sys_step d (SysReceive i buf) S = Some (S\<lparr>bs_clients := bcast_handleBuffer i buf (bs_clients S)\<rparr>)"
| "sys_step d (SysLost i) S = Some (S\<lparr>bs_clients := qm_remove i (bs_clients S)\<rparr>)"

fun sys_run :: "nat \<Rightarrow> sys_event list \<Rightarrow> bcast_system \<Rightarrow> bcast_system option" where
  "sys_run d [] S = Some S"
| "sys_run d (e # es) S = (case sys_step d e S of None \<Rightarrow> None | Some S \<Rightarrow> sys_run d es S)"

text \<open>What an event is for the clients, and the lines they complete in a run.\<close>

definition client_events :: "nat \<Rightarrow> sys_event \<Rightarrow> bcast_system \<Rightarrow> bcast_event list" where
  "client_events d e S = (case e of
       SysThread c \<Rightarrow> if c = d then (case pr_posted (bs_process S) d of EvTcp en s # _ \<Rightarrow> [Connect s] | _ \<Rightarrow> []) else []
     | SysReceive i buf \<Rightarrow> [Receive i buf]
     | SysLost i \<Rightarrow> [Lost i]
     | _ \<Rightarrow> [])"

fun sys_lines :: "nat \<Rightarrow> sys_event list \<Rightarrow> bcast_system \<Rightarrow> bytes list" where
  "sys_lines d [] S = []"
| "sys_lines d (e # es) S = bcast_lines (client_events d e S) (bs_clients S)
     @ (case sys_step d e S of None \<Rightarrow> [] | Some S \<Rightarrow> sys_lines d es S)"

definition reloads_ok :: "sys_event list \<Rightarrow> bool" where
  "reloads_ok es \<longleftrightarrow> (\<forall>env n conf. SysReload env n conf \<in> set es \<longrightarrow> conf_ok conf)"

section \<open>Clients and connections\<close>

text \<open>Every client came with a connection that the daemon's thread has handled.\<close>

definition sys_ok :: "nat \<Rightarrow> bcast_system \<Rightarrow> bool" where
  "sys_ok d S \<longleftrightarrow> process_reachable (bs_process S) \<and> qm_wf (bs_clients S)
     \<and> set (qm_keys (bs_clients S)) \<subseteq> set (sockets_of (pr_done (bs_process S) d))"

lemma sys_step_clients:
  "sys_step d e S = Some S' \<Longrightarrow> bs_clients S' = fold bcast_step (client_events d e S) (bs_clients S)"
  by (cases e) (auto simp: client_events_def bcast_slot_def split: list.splits daemon_event.splits)

lemma sys_step_reachable:
  assumes "sys_step d e S = Some S'" "process_reachable (bs_process S)" "reloads_ok [e]"
  shows "process_reachable (bs_process S')"
  using assms by (cases e) (auto simp: reloads_ok_def intro: process_reachable.intros)

lemma process_connect_done: "pr_done (process_connect addr p) = pr_done p"
  by (auto simp: process_connect_def Let_def split: option.splits conn_result.splits)

lemma process_datagram_done: "pr_done (process_udp addr pend p) = pr_done p" "pr_done (process_udg addr msg p) = pr_done p"
  by (auto simp: process_udp_def process_udg_def split: option.splits)

text \<open>The history of the thread after an event.\<close>

lemma sys_step_done:
  assumes "sys_step d e S = Some S'"
  shows "sockets_of (pr_done (bs_process S') d) = sockets_of (pr_done (bs_process S) d)
    @ concat (map (\<lambda>ev. case ev of Connect s \<Rightarrow> [s] | _ \<Rightarrow> []) (client_events d e S))"
proof (cases e)
  case (SysThread c)
  with assms obtain p where p: "process_run c (bs_process S) = Some p" "bs_process S' = p" by auto
  show ?thesis
  proof (cases "c = d")
    case False
    have "pr_done p d = pr_done (bs_process S) d" using process_run_effect [OF p(1)] False by metis
    with p(2) SysThread False show ?thesis by (simp add: client_events_def)
  next
    case True
    with p SysThread show ?thesis
      by (cases "pr_posted (bs_process S) d"; cases "hd (pr_posted (bs_process S) d)")
         (auto simp: process_run_def client_events_def)
  qed
qed (use assms in \<open>auto simp: client_events_def process_connect_done process_datagram_done process_reload_def
      split: option.splits\<close>)

lemma bcast_step_keys: "qm_wf s \<Longrightarrow> map_of s i = None \<Longrightarrow> e \<noteq> Connect i \<Longrightarrow> map_of (bcast_step e s) i = None"
  by (cases e) (auto simp: bcast_incomingTcp_def bcast_handleBuffer_def map_of_insert map_of_remove map_of_update
      bcast_fold_lines split: option.splits prod.splits)

lemma client_events_short: "client_events d e S = [] \<or> (\<exists>ev. client_events d e S = [ev])"
  by (cases e) (auto simp: client_events_def split: list.splits daemon_event.splits)

lemma sys_step_ok:
  assumes "sys_step d e S = Some S'" "sys_ok d S" "reloads_ok [e]"
  shows "sys_ok d S'"
proof -
  have wf: "qm_wf (bs_clients S)" using assms(2) by (simp add: sys_ok_def)
  note c = sys_step_clients [OF assms(1)] and dn = sys_step_done [OF assms(1)]
  from client_events_short [of d e S] consider (none) "client_events d e S = []"
    | (one) ev where "client_events d e S = [ev]" by blast
  then have "qm_wf (bs_clients S') \<and> set (qm_keys (bs_clients S')) \<subseteq> set (sockets_of (pr_done (bs_process S') d))"
  proof cases
    case none
    with assms(2) c dn show ?thesis by (simp add: sys_ok_def)
  next
    case one
    have "i \<in> set (sockets_of (pr_done (bs_process S') d))" if i: "i \<in> set (qm_keys (bs_clients S'))" for i
    proof (cases "ev = Connect i")
      case False
      have "map_of (bs_clients S) i \<noteq> None"
      proof
        assume "map_of (bs_clients S) i = None"
        from bcast_step_keys [OF wf this False] i c one show False by (auto simp: set_qm_keys)
      qed
      then have "i \<in> set (qm_keys (bs_clients S))" by (auto simp: set_qm_keys)
      with assms(2) dn show ?thesis by (auto simp: sys_ok_def)
    qed (simp add: dn one)
    moreover have "qm_wf (bs_clients S')" using bcast_wf_step [OF wf] c one by simp
    ultimately show ?thesis by blast
  qed
  with sys_step_reachable [OF assms(1) _ assms(3)] assms(2) show ?thesis by (simp add: sys_ok_def)
qed

text \<open>A socket that the thread has handled is never handed to it again.\<close>

lemma connect_posted: "Connect i \<in> set (client_events d e S) \<Longrightarrow> \<exists>en evs. pr_posted (bs_process S) d = EvTcp en i # evs"
proof (cases e)
  case (SysThread c)
  then show "Connect i \<in> set (client_events d e S) \<Longrightarrow> \<exists>en evs. pr_posted (bs_process S) d = EvTcp en i # evs"
    by (cases "pr_posted (bs_process S) d"; cases "hd (pr_posted (bs_process S) d)"; cases "c = d")
       (simp_all add: client_events_def)
qed (simp_all add: client_events_def)

lemma handled_once:
  assumes "sys_ok d S" "i \<in> set (sockets_of (pr_done (bs_process S) d))"
  shows "Connect i \<notin> set (client_events d e S)"
proof
  assume "Connect i \<in> set (client_events d e S)"
  then obtain en evs where "pr_posted (bs_process S) d = EvTcp en i # evs" using connect_posted by blast
  moreover have "distinct (sockets_of (events (bs_process S) d))"
    using process_okD(3) [OF process_reachable_ok] assms(1) by (auto simp: sys_ok_def sockets_ok_def)
  ultimately show False using assms(2) by (simp add: events_def)
qed

lemma gone_stays_gone:
  assumes "sys_run d es S = Some S'" "sys_ok d S" "reloads_ok es"
    "i \<in> set (sockets_of (pr_done (bs_process S) d))" "map_of (bs_clients S) i = None"
  shows "map_of (bs_clients S') i = None"
  using assms
proof (induction es arbitrary: S)
  case (Cons e es)
  then obtain T where T: "sys_step d e S = Some T" "sys_run d es T = Some S'" by (auto split: option.splits)
  have r: "reloads_ok [e]" "reloads_ok es" using Cons.prems(3) by (auto simp: reloads_ok_def)
  have wf: "qm_wf (bs_clients S)" using Cons.prems(2) by (simp add: sys_ok_def)
  note n = handled_once [OF Cons.prems(2,4), of e]
  have "map_of (bs_clients T) i = None"
    using client_events_short [of d e S] sys_step_clients [OF T(1)] Cons.prems(5) bcast_step_keys [OF wf Cons.prems(5)] n
    by auto
  moreover have "i \<in> set (sockets_of (pr_done (bs_process T) d))" using sys_step_done [OF T(1)] Cons.prems(4) by simp
  ultimately show ?case using Cons.IH [OF T(2) sys_step_ok [OF T(1) Cons.prems(2) r(1)] r(2)] by blast
qed simp

text \<open>One event, for a client that is there before and after.\<close>

lemma client_step:
  assumes "sys_step d e S = Some T" "sys_ok d S" "map_of (bs_clients S) i = Some c" "map_of (bs_clients T) i = Some b"
  shows "(\<not> sock_open c \<longrightarrow> \<not> sock_open b) \<and> (sock_open c \<longrightarrow>
    bcast_out b = bcast_out c @ map (\<lambda>l. l @ [13, 10]) (bcast_lines (client_events d e S) (bs_clients S)))"
proof -
  have wf: "qm_wf (bs_clients S)" and h: "i \<in> set (sockets_of (pr_done (bs_process S) d))"
    using assms(2,3) by (auto simp: sys_ok_def set_qm_keys)
  note n = handled_once [OF assms(2) h, of e] and c = sys_step_clients [OF assms(1)]
  from client_events_short [of d e S] consider (none) "client_events d e S = []"
    | (one) ev where "client_events d e S = [ev]" by blast
  then show ?thesis
  proof cases
    case none
    with c assms(3,4) show ?thesis by simp
  next
    case one
    have "ev \<noteq> Lost i" using c one assms(4) wf by (auto simp: map_of_remove)
    then have "stays i ev" using n one by (auto simp: stays_def)
    from bcast_step_client [OF wf this assms(3)] c one assms(4) show ?thesis by auto
  qed
qed

text \<open>A client that is there at the end of a run was there all the time.\<close>

lemma run_split:
  assumes "sys_run d (e # es) S = Some S'" "sys_ok d S" "reloads_ok (e # es)"
    "map_of (bs_clients S) i = Some c" "map_of (bs_clients S') i \<noteq> None"
  obtains T b where "sys_step d e S = Some T" "sys_run d es T = Some S'" "sys_ok d T" "reloads_ok es"
    "map_of (bs_clients T) i = Some b"
proof -
  from assms(1) obtain T where T: "sys_step d e S = Some T" "sys_run d es T = Some S'" by (auto split: option.splits)
  have r: "reloads_ok [e]" "reloads_ok es" using assms(3) by (auto simp: reloads_ok_def)
  note Tok = sys_step_ok [OF T(1) assms(2) r(1)]
  have "i \<in> set (sockets_of (pr_done (bs_process S) d))" using assms(2,4) by (auto simp: sys_ok_def set_qm_keys)
  then have "i \<in> set (sockets_of (pr_done (bs_process T) d))" using sys_step_done [OF T(1)] by simp
  from gone_stays_gone [OF T(2) Tok r(2) this] assms(5) have "map_of (bs_clients T) i \<noteq> None" by blast
  with that [OF T Tok r(2)] show ?thesis by auto
qed

lemma closed_stays_closed:
  assumes "sys_run d es S = Some S'" "sys_ok d S" "reloads_ok es"
    "map_of (bs_clients S) i = Some c" "map_of (bs_clients S') i = Some c'" "\<not> sock_open c"
  shows "\<not> sock_open c'"
  using assms
proof (induction es arbitrary: S c)
  case (Cons e es)
  from run_split [OF Cons.prems(1-4)] Cons.prems(5) obtain T b where
    T: "sys_step d e S = Some T" "sys_run d es T = Some S'" "sys_ok d T" "reloads_ok es" "map_of (bs_clients T) i = Some b"
    by auto
  from client_step [OF T(1) Cons.prems(2,4) T(5)] Cons.prems(6) have "\<not> sock_open b" by blast
  from Cons.IH [OF T(2-5) Cons.prems(5) this] show ?case .
qed simp

lemma client_served:
  assumes "sys_run d es S = Some S'" "sys_ok d S" "reloads_ok es"
    "map_of (bs_clients S) i = Some c" "map_of (bs_clients S') i = Some c'" "sock_open c'"
  shows "bcast_out c' = bcast_out c @ map (\<lambda>l. l @ [13, 10]) (sys_lines d es S)"
  using assms
proof (induction es arbitrary: S c)
  case (Cons e es)
  have o: "sock_open c" using closed_stays_closed [OF Cons.prems(1-5)] Cons.prems(6) by blast
  from run_split [OF Cons.prems(1-4)] Cons.prems(5) obtain T b where
    T: "sys_step d e S = Some T" "sys_run d es T = Some S'" "sys_ok d T" "reloads_ok es" "map_of (bs_clients T) i = Some b"
    by auto
  from client_step [OF T(1) Cons.prems(2,4) T(5)] o
  have "bcast_out b = bcast_out c @ map (\<lambda>l. l @ [13, 10]) (bcast_lines (client_events d e S) (bs_clients S))" by blast
  with Cons.IH [OF T(2-5) Cons.prems(5,6)] T(1) show ?case by simp
qed simp

section \<open>From the launcher to a client\<close>

text \<open>The process when the constructor of \<open>Core\<close> has read the symbol table.\<close>

definition sys_start :: "core \<Rightarrow> bcast_system" where
  "sys_start c = \<lparr>bs_process = new_process\<lparr>pr_core := c\<rparr>, bs_clients = []\<rparr>"

lemma sys_start_ok: "reloadSymbols f new_core = Inr c \<Longrightarrow> sys_ok d (sys_start c)"
  using process_reachable.symbols [OF process_reachable.start, of f c]
  by (simp add: sys_ok_def sys_start_def new_process_def)

lemma sys_run_ok: "sys_run d es S = Some S' \<Longrightarrow> sys_ok d S \<Longrightarrow> reloads_ok es \<Longrightarrow> sys_ok d S'"
proof (induction es arbitrary: S)
  case (Cons e es)
  then obtain T where T: "sys_step d e S = Some T" "sys_run d es T = Some S'" by (auto split: option.splits)
  have r: "reloads_ok [e]" "reloads_ok es" using Cons.prems(3) by (auto simp: reloads_ok_def)
  from Cons.IH [OF T(2) sys_step_ok [OF T(1) Cons.prems(2) r(1)] r(2)] show ?case .
qed simp

lemma sys_run_append: "sys_run d (xs @ ys) S = (case sys_run d xs S of None \<Rightarrow> None | Some T \<Rightarrow> sys_run d ys T)"
  by (induction xs arbitrary: S) (simp_all split: option.split)

text \<open>Connections to a wired address queue up.\<close>

lemma connects_queue_up:
  assumes "map_of (port_tcp (pr_core (bs_process S))) addr = Some e" "receiver e = Some d" "wired e = [d]"
  shows "\<exists>T. sys_run d (replicate k (SysConnect addr)) S = Some T \<and> pr_core (bs_process T) = pr_core (bs_process S)
    \<and> pr_posted (bs_process T) d = pr_posted (bs_process S) d
        @ map (\<lambda>i. EvTcp (entry e) i) [pr_sockets (bs_process S)..<pr_sockets (bs_process S) + k]
    \<and> bs_clients T = bs_clients S"
  using assms
proof (induction k arbitrary: S)
  case (Suc k)
  let ?p = "bs_process S"
  define S1 where "S1 = S\<lparr>bs_process := process_connect addr ?p\<rparr>"
  have p: "pr_core (process_connect addr ?p) = pr_core ?p" "pr_sockets (process_connect addr ?p) = pr_sockets ?p + 1"
    "pr_posted (process_connect addr ?p) d = pr_posted ?p d @ [EvTcp (entry e) (pr_sockets ?p)]"
    using Suc.prems by (simp_all add: process_connect_def tcp_incomingConnection_def Let_def)
  from Suc.IH [of S1] Suc.prems p obtain T where
    T: "sys_run d (replicate k (SysConnect addr)) S1 = Some T" "pr_core (bs_process T) = pr_core ?p"
      "pr_posted (bs_process T) d = pr_posted (bs_process S1) d
        @ map (\<lambda>i. EvTcp (entry e) i) [pr_sockets ?p + 1..<pr_sockets ?p + 1 + k]"
      "bs_clients T = bs_clients S"
    by (auto simp: S1_def)
  have "[pr_sockets ?p..<pr_sockets ?p + Suc k] = pr_sockets ?p # [pr_sockets ?p + 1..<pr_sockets ?p + 1 + k]"
    by (simp add: upt_conv_Cons)
  with T p have "sys_run d (replicate (Suc k) (SysConnect addr)) S = Some T \<and> pr_core (bs_process T) = pr_core ?p
    \<and> pr_posted (bs_process T) d = pr_posted ?p d @ map (\<lambda>i. EvTcp (entry e) i) [pr_sockets ?p..<pr_sockets ?p + Suc k]
    \<and> bs_clients T = bs_clients S"
    by (simp add: S1_def)
  then show ?case by blast
qed simp

text \<open>The thread of the daemon handles its queue.\<close>

lemma thread_catches_up:
  "EvDelete \<notin> set (pr_posted (bs_process S) d) \<Longrightarrow>
   \<exists>T. sys_run d (replicate (length (pr_posted (bs_process S) d)) (SysThread d)) S = Some T
     \<and> pr_core (bs_process T) = pr_core (bs_process S) \<and> bs_clients T = fold bcast_slot (pr_posted (bs_process S) d) (bs_clients S)"
proof (induction "pr_posted (bs_process S) d" arbitrary: S)
  case (Cons ev evs)
  let ?p = "bs_process S"
  let ?q = "?p\<lparr>pr_posted := (pr_posted ?p)(d := evs), pr_done := (pr_done ?p)(d := pr_done ?p d @ [ev])\<rparr>"
  define S1 where "S1 = S\<lparr>bs_process := ?q, bs_clients := bcast_slot ev (bs_clients S)\<rparr>"
  have "process_run d ?p = Some ?q" using Cons by (simp add: process_run_def flip: Cons.hyps(2)) auto
  then have s: "sys_step d (SysThread d) S = Some S1" by (simp add: S1_def flip: Cons.hyps(2))
  have "EvDelete \<notin> set evs" using Cons.prems by (simp flip: Cons.hyps(2))
  with Cons.hyps(1) [of S1] obtain T where "sys_run d (replicate (length evs) (SysThread d)) S1 = Some T"
      "pr_core (bs_process T) = pr_core ?p" "bs_clients T = fold bcast_slot evs (bcast_slot ev (bs_clients S))"
    by (auto simp: S1_def)
  with s show ?case by (simp flip: Cons.hyps(2) del: sys_step.simps)
qed simp

lemma bcast_slot_tcp: "bcast_slot (EvTcp en i) b = qm_insert i new_bcast_client b"
  by (simp add: bcast_slot_def bcast_incomingTcp_def)

lemma clients_made:
  "qm_wf b \<Longrightarrow> qm_wf (fold bcast_slot (map (EvTcp en) [m..<m + k]) b)
    \<and> map_of (fold bcast_slot (map (EvTcp en) [m..<m + k]) b)
      = (\<lambda>i. if m \<le> i \<and> i < m + k then Some new_bcast_client else map_of b i)"
proof (induction k)
  case (Suc k)
  then show ?case by (auto simp: bcast_slot_tcp qm_wf_insert map_of_insert)
qed (auto simp: fun_eq_iff)

text \<open>The launcher leaves the daemons with one event, the first reload.\<close>

lemma launched:
  assumes "reloadConfig env n conf (new_core\<lparr>sym_map := sm\<rparr>) = Some s" "conf_ok conf" "getDaemon s name = Some d"
  shows "\<exists>S. sys_run d [SysReload env n conf] (sys_start (new_core\<lparr>sym_map := sm\<rparr>)) = Some S
    \<and> pr_core (bs_process S) = s \<and> pr_posted (bs_process S) d = [EvReload] \<and> pr_sockets (bs_process S) = 0
    \<and> bs_clients S = []"
proof -
  let ?c = "new_core\<lparr>sym_map := sm\<rparr>"
  have c: "daemons_ok ?c" "tables_ok ?c" "doomed ?c = []" "daemons ?c = []"
    by (simp_all add: new_core_def daemons_ok_def tables_ok_def)
  note r = reload_effect [OF assms(1,2) c(1,2)]
  have "doomed s = []" using r c(3,4) by (auto simp: dropped_def)
  moreover have "d < next_obj s" using r assms(3) by (auto simp: daemons_ok_def getDaemon_def)
  moreover have "count_list [0..<m] d = (if d < m then 1 else 0)" for m by (induction m) auto
  ultimately show ?thesis
    using assms(1) by (simp add: sys_start_def process_reload_def new_process_def events_for_same)
qed

lemma one_line:
  assumes "10 \<notin> set l" "length l \<le> 4096" "qm_wf b" "map_of b j = Some new_bcast_client"
    "\<And>i c. map_of b i = Some c \<Longrightarrow> c = new_bcast_client"
  shows "map_option bcast_out (map_of (bcast_handleBuffer j (l @ [10]) b) i)
    = map_option (\<lambda>_. [trimmed l @ [13, 10]]) (map_of b i)"
proof -
  have "line_loop (l @ [10]) = ([trimmed l], [], False)"
    using cut_all_lines [of "[l]" "[]"] assms(1,2) by (simp add: line_loop_cut_all)
  then have "bcast_handleBuffer j (l @ [10]) b
      = qm_update j (\<lambda>c. c\<lparr>read_buffer := [], sock_open := sock_open c\<rparr>) (bcast_handleLine (trimmed l) b)"
    using assms(4) by (simp add: bcast_handleBuffer_def new_bcast_client_def)
  moreover have "map_of (bcast_handleLine (trimmed l) b) i = map_option (bcast_send (trimmed l)) (map_of b i)"
    using bcast_fold_lines [of "[trimmed l]" b i] by (simp add: comp_def)
  ultimately show ?thesis
    using assms(5) [of i] by (cases "map_of b i"; cases "i = j") (simp_all add: map_of_update bcast_send_def new_bcast_client_def)
qed

text \<open>A configuration that routes an address to the daemon, then \<open>k\<close> connections, then the
  thread; then a line.\<close>

lemma connected_run:
  assumes "reloadConfig env n conf (new_core\<lparr>sym_map := sm\<rparr>) = Some s" "conf_ok conf" "getDaemon s name = Some d"
    and "map_of (port_tcp s) addr = Some e" "receiver e = Some d" "wired e = [d]"
  shows "\<exists>S. sys_run d (SysReload env n conf # replicate k (SysConnect addr) @ replicate (k + 1) (SysThread d))
      (sys_start (new_core\<lparr>sym_map := sm\<rparr>)) = Some S \<and> pr_core (bs_process S) = s
    \<and> bs_clients S = fold bcast_slot (map (EvTcp (entry e)) [0..<k]) []"
proof -
  from launched [OF assms(1-3)] obtain S1 where
    S1: "sys_run d [SysReload env n conf] (sys_start (new_core\<lparr>sym_map := sm\<rparr>)) = Some S1" "pr_core (bs_process S1) = s"
      "pr_posted (bs_process S1) d = [EvReload]" "pr_sockets (bs_process S1) = 0" "bs_clients S1 = []" by blast
  from connects_queue_up [of S1 addr e d k] assms(4-6) S1 obtain S2 where
    S2: "sys_run d (replicate k (SysConnect addr)) S1 = Some S2" "pr_core (bs_process S2) = s"
      "pr_posted (bs_process S2) d = EvReload # map (EvTcp (entry e)) [0..<k]" "bs_clients S2 = []" by auto
  have "EvDelete \<notin> set (pr_posted (bs_process S2) d)" using S2(3) by auto
  from thread_catches_up [OF this] S2 obtain S3 where
    S3: "sys_run d (replicate (k + 1) (SysThread d)) S2 = Some S3" "pr_core (bs_process S3) = s"
      "bs_clients S3 = fold bcast_slot (EvReload # map (EvTcp (entry e)) [0..<k]) []" by auto
  have "sys_run d ([SysReload env n conf] @ replicate k (SysConnect addr) @ replicate (k + 1) (SysThread d))
      (sys_start (new_core\<lparr>sym_map := sm\<rparr>)) = Some S3"
    unfolding sys_run_append S1(1) S2(1) S3(1) option.case ..
  moreover have "bs_clients S3 = fold bcast_slot (map (EvTcp (entry e)) [0..<k]) []"
    by (simp add: S3(3)) (simp add: bcast_slot_def)
  ultimately show ?thesis using S3(2) by (intro exI [of _ S3]) (simp only: append_Cons append_Nil)
qed

lemma served_run:
  assumes "reloadConfig env n conf (new_core\<lparr>sym_map := sm\<rparr>) = Some s" "conf_ok conf" "getDaemon s name = Some d"
    and "map_of (port_tcp s) addr = Some e" "receiver e = Some d" "wired e = [d]" "j < k" "10 \<notin> set l" "length l \<le> 4096"
  shows "\<exists>S. sys_run d (SysReload env n conf # replicate k (SysConnect addr) @ replicate (k + 1) (SysThread d)
      @ [SysReceive j (l @ [10])]) (sys_start (new_core\<lparr>sym_map := sm\<rparr>)) = Some S \<and> pr_core (bs_process S) = s
    \<and> (\<forall>i. map_option bcast_out (map_of (bs_clients S) i) = (if i < k then Some [trimmed l @ [13, 10]] else None))"
proof -
  let ?before = "SysReload env n conf # replicate k (SysConnect addr) @ replicate (k + 1) (SysThread d)"
  from connected_run [OF assms(1-6), of k] obtain T where
    T: "sys_run d ?before (sys_start (new_core\<lparr>sym_map := sm\<rparr>)) = Some T" "pr_core (bs_process T) = s"
      "bs_clients T = fold bcast_slot (map (EvTcp (entry e)) [0..<k]) []" by blast
  with clients_made [of "[]" "entry e" 0 k] have
    b: "qm_wf (bs_clients T)" "\<And>i. map_of (bs_clients T) i = (if i < k then Some new_bcast_client else None)"
    by simp_all
  then have j: "map_of (bs_clients T) j = Some new_bcast_client"
    and new: "\<And>i c. map_of (bs_clients T) i = Some c \<Longrightarrow> c = new_bcast_client"
    using assms(7) by (simp_all split: if_splits)
  let ?S = "T\<lparr>bs_clients := bcast_handleBuffer j (l @ [10]) (bs_clients T)\<rparr>"
  have "map_option bcast_out (map_of (bs_clients ?S) i) = (if i < k then Some [trimmed l @ [13, 10]] else None)" for i
    using one_line [where i = i, OF assms(8,9) b(1) j new] b(2) [of i] by simp
  moreover have "sys_run d (?before @ [SysReceive j (l @ [10])]) (sys_start (new_core\<lparr>sym_map := sm\<rparr>)) = Some ?S"
    unfolding sys_run_append T(1) option.case by simp
  ultimately show ?thesis using T(2) by (intro exI [of _ ?S]) (simp only: append_Cons append_assoc, simp)
qed

section \<open>Properties\<close>

text \<open>C16: in the running process, whatever connects, sends, leaves, is reloaded or is scheduled in
  between: a client of the broadcast daemon that is open at the end of a run has been sent, since the
  run began, exactly the lines that all clients completed in it, in their order.\<close>

theorem broadcast_in_process:
  assumes "reloadSymbols f new_core = Inr c0" "sys_run d before (sys_start c0) = Some S" "reloads_ok before"
    and "sys_run d es S = Some S'" "reloads_ok es"
    and "map_of (bs_clients S) i = Some c" "map_of (bs_clients S') i = Some c'" "sock_open c'"
  shows "bcast_out c' = bcast_out c @ map (\<lambda>l. l @ [13, 10]) (sys_lines d es S)"
proof -
  have "sys_ok d S" using sys_run_ok [OF assms(2) sys_start_ok [OF assms(1)] assms(3)] .
  from client_served [OF assms(4) this assms(5-8)] show ?thesis .
qed

text \<open>Two clients connect; then they send two lines, and a third in two pieces, while one more connects.\<close>

definition ex_before :: "sys_event list" where
  "ex_before = SysReload ex_core_env 9 ex_conf # replicate 2 (SysConnect ''0.0.0.0:7'') @ replicate (2 + 1) (SysThread 0)"

definition ex_talk :: "sys_event list" where
  "ex_talk = [SysReceive 0 [65, 10, 66], SysReceive 1 [67, 10], SysConnect ''0.0.0.0:7'', SysReceive 0 [10]]"

lemma ex_connected: "\<exists>S. sys_run 0 ex_before (sys_start ex_core) = Some S
    \<and> bs_clients S = [(0, new_bcast_client), (1, new_bcast_client)]"
proof -
  have c: "new_core\<lparr>sym_map := sym_map ex_core\<rparr> = ex_core" by (simp add: ex_core_def new_core_def)
  have g: "getDaemon ex_loaded ''irc'' = Some 0" by code_simp
  have "map_option (\<lambda>e. (receiver e, wired e)) (map_of (port_tcp ex_loaded) ''0.0.0.0:7'') = Some (Some 0, [0])"
    by code_simp
  then obtain e where e: "map_of (port_tcp ex_loaded) ''0.0.0.0:7'' = Some e" "receiver e = Some 0" "wired e = [0]" by auto
  have f: "fold bcast_slot (map (EvTcp en) [0..<2]) [] = [(0, new_bcast_client), (1, new_bcast_client)]" for en
    by (simp add: bcast_slot_tcp eval_nat_numeral)
  have "reloadConfig ex_core_env 9 ex_conf (new_core\<lparr>sym_map := sym_map ex_core\<rparr>) = Some ex_loaded"
    using ex_reload c by simp
  from connected_run [OF this ex_conf_ok g e, of 2] show ?thesis
    unfolding ex_before_def c f by blast
qed

theorem broadcast_in_process_witness:
  "\<exists>S S' c'. sys_run 0 ex_before (sys_start ex_core) = Some S \<and> sys_run 0 ex_talk S = Some S'
     \<and> map_of (bs_clients S') 1 = Some c' \<and> bcast_out c' = [[65, 13, 10], [67, 13, 10], [66, 13, 10]]"
proof -
  have f: "reloadSymbols (Some (lit ''ext/tcpline _ZTI13ClientTcpLine typeinfo'' @ [10])) new_core = Inr ex_core"
    by code_simp
  have r: "reloads_ok ex_before" "reloads_ok ex_talk"
    using ex_conf_ok by (auto simp: reloads_ok_def ex_before_def ex_talk_def)
  from ex_connected obtain S where S: "sys_run 0 ex_before (sys_start ex_core) = Some S"
      "bs_clients S = [(0, new_bcast_client), (1, new_bcast_client)]" by blast
  have l: "line_loop [65, 10, 66] = ([[65]], [66], False)" "line_loop [67, 10] = ([[67]], [], False)"
    "line_loop [66, 10] = ([[66]], [], False)"
    by code_simp+
  note ev = bcast_handleBuffer_def new_bcast_client_def l bcast_new_lines_def qm_update_Cons bcast_handleLine_def
    bcast_incoming_def qm_map_def bcast_send_def S(2) ex_talk_def client_events_def
  obtain T c' where T: "sys_run 0 ex_talk S = Some T" "map_of (bs_clients T) 1 = Some c'" "sock_open c'"
    by (simp add: ev)
  have "sys_lines 0 ex_talk S = [[65], [67], [66]]" by (simp add: ev)
  moreover have "map_of (bs_clients S) 1 = Some new_bcast_client" "bcast_out new_bcast_client = []"
    by (simp_all add: S(2) new_bcast_client_def)
  ultimately have "bcast_out c' = [[65, 13, 10], [67, 13, 10], [66, 13, 10]]"
    using broadcast_in_process [OF f S(1) r(1) T(1) r(2) _ T(2,3)] by simp
  with S(1) T(1,2) show ?thesis by blast
qed

text \<open>C2: from the command line to the clients: when the launcher finds the core, the symbols
  resolve and the configuration routes a free address to a broadcast daemon, the process reaches its
  event loop; \<open>k\<close> connections to the address and then the daemon's thread make exactly \<open>k\<close>
  clients; and a line that one of them sends goes to all of them.\<close>

theorem launched_broadcast_serves:
  assumes "la_load L ''mod/core'' core_hints" "la_resolve L ''mod/core'' ''pinetd_main''"
    and "symbol_lines_ok es" "resolvable (e_linker env) rk (symbols_of es)" "conf_ok conf"
    and "(name, ''daemon/broadcast'') \<in> set (conf ''daemons'')" "e_instanciate env ''daemon/broadcast'' name"
    and "(addr, v) \<in> set (conf ''tcp'')" "target_parts v ! 0 = name"
    and "length (addr_parts addr) = 2" "e_listen_tcp env (addr_parts addr ! 0) (addr_parts addr ! 1)"
    and "j < k" "10 \<notin> set l" "length l \<le> 4096"
  shows "\<exists>N s d. getDaemon s name = Some d \<and> (\<forall>n\<ge>N.
      cli_main L env n (Some (symbol_file es)) conf = Inr (Some (EventLoop s)) \<and>
      (\<exists>S. sys_run d (SysReload env n conf # replicate k (SysConnect addr) @ replicate (k + 1) (SysThread d)
              @ [SysReceive j (l @ [10])]) (sys_start (new_core\<lparr>sym_map := symbols_of es\<rparr>)) = Some S
         \<and> pr_core (bs_process S) = s
         \<and> (\<forall>i. map_option bcast_out (map_of (bs_clients S) i) = (if i < k then Some [trimmed l @ [13, 10]] else None))))"
proof -
  let ?c = "new_core\<lparr>sym_map := symbols_of es\<rparr>"
  have sym: "reloadSymbols (Some (symbol_file es)) new_core = Inr ?c"
    using symbol_table_read [of es new_core] assms(3) by (simp add: symbol_file_def symbols_of_def symbol_lines_ok_def)
  from first_reload [OF assms(4,5)] obtain N s where
    N: "\<And>n. N \<le> n \<Longrightarrow> reloadConfig env n conf ?c = Some s" and up: "up env conf s" by blast
  from up assms(6,7) obtain d where d: "getDaemon s name = Some d" unfolding up_def by fastforce
  from up assms(8-11) obtain e where e: "map_of (port_tcp s) addr = Some e" "routed_as s name (target_parts v ! 1) e"
    unfolding up_def by fastforce
  then have w: "receiver e = Some d" "wired e = [d]" using d by (simp_all add: routed_as_def)
  have "cli_main L env n (Some (symbol_file es)) conf = Inr (Some (EventLoop s))" if "N \<le> n" for n
    using sym N [OF that] assms(1,2) by (simp add: cli_main_def pinetd_main_def core_construct_def map_out_def)
  with served_run [OF N assms(5) d e(1) w assms(12-14)] d show ?thesis by blast
qed

theorem launched_broadcast_serves_witness:
  "\<exists>N s. \<forall>n\<ge>N. cli_main ex_launcher ex_core_env n (Some (symbol_file [(''ext/tcpline'', ''_ZTI13ClientTcpLine'', ''typeinfo'')])) ex_conf
      = Inr (Some (EventLoop s)) \<and>
    (\<exists>d S. sys_run d (SysReload ex_core_env n ex_conf # replicate 2 (SysConnect ''0.0.0.0:7'') @ replicate (2 + 1) (SysThread d)
        @ [SysReceive 1 ([97] @ [10])]) (sys_start ex_core) = Some S
      \<and> map_option bcast_out (map_of (bs_clients S) 0) = Some [[97, 13, 10]])"
proof -
  let ?es = "[(''ext/tcpline'', ''_ZTI13ClientTcpLine'', ''typeinfo'')]"
  have l: "la_load ex_launcher ''mod/core'' core_hints" "la_resolve ex_launcher ''mod/core'' ''pinetd_main''"
    by (simp_all add: ex_launcher_def)
  have s: "symbol_lines_ok ?es" by code_simp
  have sym: "symbols_of ?es = sym_map ex_core" by code_simp
  then have r: "resolvable (e_linker ex_core_env) ex_rank (symbols_of ?es)"
    using ex_resolvable by (simp add: ex_core_env_def)
  have d: "(''irc'', ''daemon/broadcast'') \<in> set (ex_conf ''daemons'')" "e_instanciate ex_core_env ''daemon/broadcast'' ''irc''"
    and t: "(''0.0.0.0:7'', ''irc'') \<in> set (ex_conf ''tcp'')" by (simp_all add: ex_conf_def ex_core_env_def)
  have a: "target_parts ''irc'' ! 0 = ''irc''" "length (addr_parts ''0.0.0.0:7'') = 2" by code_simp+
  have e: "e_listen_tcp ex_core_env (addr_parts ''0.0.0.0:7'' ! 0) (addr_parts ''0.0.0.0:7'' ! 1)" by code_simp
  have c: "new_core\<lparr>sym_map := symbols_of ?es\<rparr> = ex_core" by (simp add: sym ex_core_def new_core_def)
  have x: "(1 :: nat) < 2" "10 \<notin> set [97 :: byte]" "length [97 :: byte] \<le> 4096" "trimmed [97] = [97]" by code_simp+
  from launched_broadcast_serves [OF l s r ex_conf_ok d t a e x(1-3), unfolded c x(4)] obtain N q d where
    N: "\<forall>n\<ge>N. cli_main ex_launcher ex_core_env n (Some (symbol_file ?es)) ex_conf = Inr (Some (EventLoop q)) \<and>
      (\<exists>S. sys_run d (SysReload ex_core_env n ex_conf # replicate 2 (SysConnect ''0.0.0.0:7'') @ replicate (2 + 1) (SysThread d)
        @ [SysReceive 1 ([97] @ [10])]) (sys_start ex_core) = Some S \<and> pr_core (bs_process S) = q
        \<and> (\<forall>i. map_option bcast_out (map_of (bs_clients S) i) = (if i < 2 then Some [[97] @ [13, 10]] else None)))" by blast
  have two: "(if (0 :: nat) < 2 then Some [[97] @ [13, 10]] else None) = Some [[97, 13, 10 :: byte]]" by simp
  from N two show ?thesis by metis
qed

end
