(* ===== verification/Spec2Isabelle.thy ===== *)
theory Spec2Isabelle
  imports Prelude Qt_Map Qt_Stream Framing Client_Tcp Core_Props Core_Config_Props Mod_PS_Props Bitcoin_Props Kumo_Props RConnect_Props Broadcast Spoolers VServ Amqp_Typing Midas_Session Vps Elastic Unix_Socket Midas_Stream Mod_PS_Refine Startup Amqp_Life Kumo_Codes Bitcoin_Chain Bitcoin_Waits Mod_PS_Relays Core_Settings Core_Threads Bitcoin_Life Broadcast_System
begin

text \<open>
  pinetd4 is a daemon framework in C++/Qt: one process loads modules, opens the sockets of a configuration
  file, and hands each connection or datagram to a daemon. This development models the framework and the
  daemons and libraries of the repository as functions on explicit states, and proves what makes them
  correct. Source paths are below \<^verbatim>\<open>src/\<close>.

  \<^bold>\<open>How the parts interact.\<close> mod/core holds the tables of modules, daemons and listening sockets. A reload
  compares them with the configuration, asks the module loader for missing daemons, retargets sockets, and
  drops what is no longer configured. A socket passes its connections to the daemon it is routed to. The
  daemon makes a client object, which buffers its input, cuts packets or lines off its front, and writes
  through an output buffer. Some daemons are themselves clients: of a message broker (midasinput and vps,
  through mod/ext/qamqp), of a document store (bitcoinconnector, through mod/ext/elasticsearch), of master
  servers (ps).

  \<^bold>\<open>Shared theories.\<close>
  \<^item> Prelude: bytes, QByteArray (an index at or beyond the size is a fault, as Qt asserts), results that may be faults
    (\<^verbatim>\<open>fault + 'a\<close>, with \<^verbatim>\<open>bind_out\<close> and \<^verbatim>\<open>fold_out\<close>).
  \<^item> Qt_Map: QMap as its entries in key order, with the contract \<^verbatim>\<open>qmap_contract\<close>.
  \<^item> Qt_Stream: QDataStream as readers in the state monad and writers to byte lists; \<^verbatim>\<open>codec\<close> is the contract of
    a writer and its reader, from which the round trips of lists and products follow.
  \<^item> Framing and Machine: the receive loop that nearly every client has. \<^verbatim>\<open>framer\<close> is the contract of a cutter,
    \<^verbatim>\<open>packet_machine\<close> adds a handler that leaves the input buffer alone; both give that the way the
    network splits the bytes into reads does not matter. The line client, the Bitcoin peer, the relay, ps,
    the IRC server, the AMQP client and midasinput are interpretations.

  \<^bold>\<open>Framework\<close> (mod/core, include/core, mod/ext/tcpline).
  \<^item> Client_Tcp: \<^verbatim>\<open>ClientTcp\<close>, its output buffer against a socket that takes any part of a write.
  \<^item> Client_Tcp_Line: \<^verbatim>\<open>ClientTcpLine\<close>, lines with a limit of 4096 bytes.
  \<^item> Core_Endpoints: \<^verbatim>\<open>CoreTcp\<close>, \<^verbatim>\<open>CoreUdp\<close>, \<^verbatim>\<open>CoreUdg\<close>, routing to the current target; the locale \<^verbatim>\<open>router\<close> is
    the contract of the three, with a refinement to the function "last target set". Unix_Socket: the system
    calls behind \<^verbatim>\<open>CoreUdg\<close>.
  \<^item> Core_Config: \<^verbatim>\<open>Core\<close>, the symbol table, \<^verbatim>\<open>modprobe\<close> and the reload of daemons and sockets.
    Core_Config_Proofs and Core_Reload hold its lemmas (\<^verbatim>\<open>port_table\<close> is shared by the three loops over
    addresses), Core_Config_Props and Core_Props the properties.
  \<^item> Core_Settings: the one settings object that the threads share under \<^verbatim>\<open>settings_lock\<close>, a call at a time; any
    interleaving lets each thread read what the file holds, and none of them waits for ever.
  \<^item> Core_Threads: the event queues of the daemon threads, from the signals of the core to the slots of a
    daemon; the locale \<^verbatim>\<open>daemon_class\<close> is what a class may rely on there (Bitcoin_Life uses it for
    bitcoinconnector).
  \<^item> Startup: mod/core/main.cpp and base/cli.cpp, the constructor of \<^verbatim>\<open>Core\<close>, from the command line to the first
    reload.
  \<^item> Broadcast: \<^verbatim>\<open>Daemon\<close>, echo and broadcast. Broadcast_System: launcher, core, threads and the broadcast daemon
    together, from the command line to the lines its clients get.

  \<^bold>\<open>Daemons\<close> (mod/daemon).
  \<^item> Chargen: chargen and chargensame. Kumo_Irc, Kumo_Codes, Kumo_Props: kumoircd.
  \<^item> RConnect, RConnect_Props: the relay. VServ: the qemu command line.
  \<^item> Mod_PS: publish/subscribe. Mod_PS_Proofs: the reference counts of the channels (locale
    \<^verbatim>\<open>refcounter\<close>), the reachable states and their invariant. Mod_PS_Props: its properties.
    Mod_PS_Refine: an abstract relay, clients with sets of channels and no counts, maps or buffers, the
    proof that the daemon's steps implement it, and which events fault. Mod_PS_Relays: what a master reads off the
    wire, and one relay as the master of another.
  \<^item> Bitcoin_Connector, Bitcoin_Peer: bitcoinconnector, the daemon and its clients. Bitcoin_Framing: its
    receive loop against the framer contract, and where the 32-bit length departs from it.
    Bitcoin_Handlers, Bitcoin_Props: the packets and what they are answered with. Bitcoin_Waits: transactions and
    blocks when the event loop runs inside the calls of the store, and another peer gets its turn there.
  \<^item> Spoolers: the files of netflow and midasinput. Midas_Queue, Midas_Session: midasinput as a client of a
    broker that gives each of its requests the reply of AMQP 0-9-1, from its constructor to the file. Midas_Stream: a run of deliveries, each recorded and then acknowledged.
    Vps: vps.

  \<^bold>\<open>Libraries\<close> (mod/ext).
  \<^item> Bitcoin_Data, Bitcoin_Codecs: mod/ext/bitcoin, the formats and their round trips.
  \<^item> Amqp_Field: values and tables (amqp_frame.cpp). Amqp_Field_Proofs: reading against writing, and the depth
    that suffices. Amqp_Typing: what a reader can return.
  \<^item> Amqp_Frame, Amqp_Frame_Proofs: frames. Amqp_Channel: channels, queues, exchanges (amqp_channel.cpp,
    amqp_queue.cpp, amqp_exchange.cpp), each operation with the frames it sends and the signals it emits.
  \<^item> Amqp_Client: socket, connection class and client (amqp_network.cpp, amqp_connection.cpp, amqp.cpp).
    Amqp_Steps: its runs as a step relation and the invariants of the reachable states. Amqp_Delivery: a
    message through the frames of a channel. Amqp_Props: its properties. Amqp_Life: what the destruction of a
    channel object leaves in the tables of its connection, and what frames for it then do.
  \<^item> Elastic: mod/ext/elasticsearch as the store that the model of bitcoinconnector takes as an argument.
    Bitcoin_Chain: both together, a chain of blocks from the announcement of a peer to the store and back.

  \<^bold>\<open>States and operations.\<close> A class is a record with its members, an operation the function of the same name on
  it, prefixed where two classes share a name. Pointers between objects are keys of maps or numbers; the
  use of a null or dangling one is a value of \<^verbatim>\<open>fault\<close>. Signals with one receiver are calls; slots of the
  program on the signals of qamqp run after the frame that emits them. What sockets, timers and clocks do is
  an argument of a step. In Core_Threads the signals of the core are events that the receiver's thread handles
  later; the theories of the daemons describe what one thread does with its events.

  \<^bold>\<open>Loops.\<close> Loops over a list or a shrinking buffer are recursive functions. Two may run for ever and take fuel,
  \<^verbatim>\<open>None\<close> being no result of the code: \<^verbatim>\<open>modprobe\<close> (\<^verbatim>\<open>modprobe_loads\<close> gives a result for every module whose
  dependencies can be ordered, \<^verbatim>\<open>fuel_mono\<close> that more fuel changes nothing, and two modules that need each
  other have none) and the receive loop of the Bitcoin peer (one turn more than packets is enough, except for
  a length that wraps around, where none is). The depth of \<^verbatim>\<open>read_field\<close> and the turns of \<^verbatim>\<open>table_loop\<close> are
  bounded by the length of the stream: each level takes four bytes and each turn one, and
  \<^verbatim>\<open>readField_unfold\<close> shows that this suffices.

  \<^bold>\<open>Parameters.\<close> The dynamic linker and the settings (Core_Config), the launcher (Startup), the hash, the
  text of addresses and base64 (\<^verbatim>\<open>bc_env\<close>), the HTTP server, URLs and JSON (\<^verbatim>\<open>es_net\<close>), Qt's conversions
  between kinds of values and the content of fresh memory (\<^verbatim>\<open>qt_env\<close>). Hypotheses on them are named
  (\<^verbatim>\<open>document_server\<close>, \<^verbatim>\<open>keeps_block\<close>, \<^verbatim>\<open>resolvable\<close>) and have witnesses.

  \<^bold>\<open>Not modelled.\<close> Log output and the \<^verbatim>\<open>print\<close> functions of frames; the order of QHash and QSet beyond
  one order that the model fixes; other events while a call of mod/ext/elasticsearch waits in
  \<^verbatim>\<open>processEvents\<close>, outside the two handlers of Bitcoin_Waits; contents of allocated memory except as
  \<^verbatim>\<open>qt_junk\<close>; races of two threads inside one Qt object, other than the settings object of Core_Settings.
\<close>

end
